(* ===== verification/Prelude.thy ===== *)
theory Prelude
  imports Main "HOL-Library.Word" "HOL-Library.Monad_Syntax"
begin

text \<open>
  Shared vocabulary of the development: the C integer types of \<open>types.h\<close> as words, byte
  memory and read-only views of C strings, bounded writes into C arrays, counted loops, and the
  generic lemmas on lists and words that the component theories use.

  A result of type \<open>'a option\<close> is \<open>None\<close> exactly when the C execution has no defined result:
  a read or a write outside the array it is given, a dereference of \<open>NULL\<close>, or a loop that does
  not end. A C function that reports an error does so by its return value, never by \<open>None\<close>.
\<close>

unbundle bit_operations_syntax

named_theorems frame_simps \<open>fields an operation does not touch\<close>
named_theorems inv_intros \<open>operations that keep their component's invariant\<close>

section \<open>C types\<close>

type_synonym u8 = "8 word"
type_synonym u16 = "16 word"
type_synonym u32 = "32 word"

type_synonym memory = "u32 \<Rightarrow> u8"
type_synonym byte_view = "nat \<Rightarrow> u8 option"

text \<open>The C value \<open>-1\<close> that the kernel returns on failure.\<close>

abbreviation ERR :: u32 where "ERR \<equiv> - 1"

lemma ucast_u8_u32 [simp]: "(ucast (ucast (x :: u8) :: u32) :: u8) = x"
  by (rule bit_word_eqI) (simp add: bit_simps)

section \<open>Reading through a pointer\<close>

text \<open>
  A \<open>const\<close> pointer is the view of the bytes it can reach: through a \<open>NULL\<close> pointer nothing,
  through an array the bytes of the array, through any other address the bytes of memory.
\<close>

definition list_view :: "u8 list \<Rightarrow> byte_view" where
  "list_view b = (\<lambda>i. if i < length b then Some (b ! i) else None)"

definition mem_view :: "memory \<Rightarrow> u32 \<Rightarrow> byte_view" where
  "mem_view m a = (\<lambda>i. if a = 0 then None else Some (m (a + of_nat i)))"

lemma list_view_nth [simp]: "i < length b \<Longrightarrow> list_view b i = Some (b ! i)"
  by (simp add: list_view_def)

lemma list_view_beyond [simp]: "length b \<le> i \<Longrightarrow> list_view b i = None"
  by (simp add: list_view_def)

lemma mem_view_nth [simp]: "a \<noteq> 0 \<Longrightarrow> mem_view m a i = Some (m (a + of_nat i))"
  by (simp add: mem_view_def)

text \<open>Four consecutive bytes as a little-endian 32-bit value, as an x86 load reads them.\<close>

definition read32 :: "memory \<Rightarrow> u32 \<Rightarrow> u32" where
  "read32 m a =
     ucast (m a) OR push_bit 8 (ucast (m (a + 1))) OR push_bit 16 (ucast (m (a + 2)))
       OR push_bit 24 (ucast (m (a + 3)))"

section \<open>Writing through a pointer\<close>

text \<open>A store into an array of fixed size; outside the array it has no defined result.\<close>

definition store :: "'a list \<Rightarrow> nat \<Rightarrow> 'a \<Rightarrow> 'a list option" where
  "store b i x = (if i < length b then Some (b[i := x]) else None)"

text \<open>With a signed index.\<close>

definition store_int :: "'a list \<Rightarrow> int \<Rightarrow> 'a \<Rightarrow> 'a list option" where
  "store_int b i x = (if i < 0 then None else store b (nat i) x)"

definition load_int :: "'a list \<Rightarrow> int \<Rightarrow> 'a option" where
  "load_int b i = (if 0 \<le> i \<and> nat i < length b then Some (b ! nat i) else None)"

definition store_mem :: "u32 \<Rightarrow> memory \<Rightarrow> nat \<Rightarrow> u8 \<Rightarrow> memory option" where
  "store_mem a m i x = (if a = 0 then None else Some (m(a + of_nat i := x)))"

lemma store_Some [simp]: "i < length b \<Longrightarrow> store b i x = Some (b[i := x])"
  by (simp add: store_def)

lemma store_None [simp]: "length b \<le> i \<Longrightarrow> store b i x = None"
  by (simp add: store_def)

text \<open>Consecutive bytes written to memory from an address on.\<close>

fun write_bytes :: "memory \<Rightarrow> u32 \<Rightarrow> u8 list \<Rightarrow> memory" where
  "write_bytes m a [] = m"
| "write_bytes m a (x # xs) = write_bytes (m(a := x)) (a + 1) xs"

section \<open>Counted loops\<close>

text \<open>\<open>for (i = 0; i < n; i++) body\<close> with a body that does not leave the loop.\<close>

definition for_to :: "nat \<Rightarrow> (nat \<Rightarrow> 's \<Rightarrow> 's) \<Rightarrow> 's \<Rightarrow> 's" where
  "for_to n body s = fold body [0..<n] s"

lemma for_to_0 [simp]: "for_to 0 f s = s"
  by (simp add: for_to_def)

lemma for_to_Suc: "for_to (Suc n) f s = f n (for_to n f s)"
  by (simp add: for_to_def)

lemma for_to_invariant:
  assumes "P 0 s" and "\<And>i t. i < n \<Longrightarrow> P i t \<Longrightarrow> P (Suc i) (f i t)"
  shows "P n (for_to n f s)"
  using assms by (induction n) (auto simp: for_to_Suc)

lemma for_to_fill:
  assumes "n \<le> length xs"
  shows "for_to n (\<lambda>i ys. ys[i := g i]) xs = map g [0..<n] @ drop n xs"
proof (rule for_to_invariant [where P = "\<lambda>i ys. ys = map g [0..<i] @ drop i xs"])
  fix i t
  assume i: "i < n" and t: "t = map g [0..<i] @ drop i xs"
  from i assms have "drop i xs = xs ! i # drop (Suc i) xs"
    by (simp add: Cons_nth_drop_Suc)
  with t show "t[i := g i] = map g [0..<Suc i] @ drop (Suc i) xs"
    by (simp add: list_update_append)
qed simp

corollary for_to_fill_all: "length xs = n \<Longrightarrow> for_to n (\<lambda>i ys. ys[i := g i]) xs = map g [0..<n]"
  by (simp add: for_to_fill)

section \<open>Busy waiting\<close>

text \<open>
  \<open>while (!flag);\<close> on a variable that only an interrupt handler sets. The interrupts that arrive are
  given as the list of handlers that run, one between two tests of the flag; \<open>None\<close> means that the loop
  is still spinning when the list is used up.
\<close>

fun spin_until :: "('s \<Rightarrow> bool) \<Rightarrow> ('s \<Rightarrow> 's) list \<Rightarrow> 's \<Rightarrow> 's option" where
  "spin_until flag [] s = (if flag s then Some s else None)"
| "spin_until flag (h # hs) s = (if flag s then Some s else spin_until flag hs (h s))"

lemma spin_first:
  assumes "\<not> flag s" and "\<And>h t. h \<in> set hs \<Longrightarrow> \<not> flag t \<Longrightarrow> \<not> flag (h t)"
    and "flag (h (fold (\<lambda>g. g) hs s))"
  shows "spin_until flag (hs @ h # hs') s = Some (h (fold (\<lambda>g. g) hs s))"
  using assms
proof (induction hs arbitrary: s)
  case Nil
  then show ?case by (cases hs') auto
qed simp

lemma spin_never:
  assumes "\<not> flag s" and "\<And>h t. h \<in> set hs \<Longrightarrow> \<not> flag t \<Longrightarrow> \<not> flag (h t)"
  shows "spin_until flag hs s = None"
  using assms by (induction hs arbitrary: s) auto

section \<open>Memory ranges\<close>

lemma write_bytes_append: "write_bytes m a (xs @ ys) = write_bytes (write_bytes m a xs) (a + of_nat (length xs)) ys"
  by (induction xs arbitrary: m a) (simp_all add: algebra_simps)

lemma unat_offset: "n < 2 ^ 32 \<Longrightarrow> unat (of_nat n :: u32) = n"
  by (simp add: unat_of_nat take_bit_eq_mod)

lemma unat_eq_offset: "n < 2 ^ 32 \<Longrightarrow> unat x = n \<longleftrightarrow> x = (of_nat n :: u32)"
  using unat_offset by auto

lemma unat_plus_below: "unat a + k < 2 ^ 32 \<Longrightarrow> unat (a + of_nat k :: u32) = unat a + k"
  by (simp add: unat_word_ariths unat_offset)

lemma unat_u32_less: "unat (a :: u32) < 2 ^ 32"
  by (rule order.strict_trans2 [OF unsigned_less]) simp

lemma unat_Suc_below: "i < n \<Longrightarrow> unat (i + 1 :: u32) = unat i + 1"
  using unat_plus_below [of i 1] unat_u32_less [of n] by (simp add: word_less_nat_alt)

lemma word_diff_decreases: "i < n \<Longrightarrow> unat n - unat (i + 1) < unat n - unat (i :: u32)"
  using unat_Suc_below [of i n] by (simp add: word_less_nat_alt)

lemma offset_eq_iff: "i < 2 ^ 32 \<Longrightarrow> j < 2 ^ 32 \<Longrightarrow> (a + of_nat i = a + (of_nat j :: u32)) = (i = j)"
  by (metis add_left_cancel unat_offset)

text \<open>What a run of writes leaves at an address: inside the range the byte written there, outside
  the old byte. \<open>unat (b - a)\<close> is the distance of \<open>b\<close> from the start \<open>a\<close>.\<close>

lemma write_bytes_apply:
  assumes "length xs \<le> 2 ^ 32"
  shows "write_bytes m a xs b = (if unat (b - a) < length xs then xs ! unat (b - a) else m b)"
  using assms
proof (induction xs arbitrary: m a)
  case Nil
  then show ?case by simp
next
  case (Cons x xs)
  have IH: "write_bytes (m(a := x)) (a + 1) xs b =
      (if unat (b - (a + 1)) < length xs then xs ! unat (b - (a + 1)) else (m(a := x)) b)"
    using Cons by simp
  show ?case
  proof (cases "b = a")
    case True
    have "unat (- 1 :: u32) = 2 ^ 32 - 1" by (simp add: unsigned_minus_1_eq_mask mask_eq_exp_minus_1)
    then have "\<not> unat (b - (a + 1)) < length xs" using True Cons.prems by simp
    with IH True show ?thesis by simp
  next
    case False
    then have "b - a \<noteq> 0" by simp
    then have "unat (b - a) = Suc (unat (b - (a + 1)))"
      by (metis Suc_pred' diff_diff_add unat_gt_0 unat_minus_one)
    with IH False show ?thesis by simp
  qed
qed

end
