(* ===== verification/Machine.thy ===== *)
theory Machine
  imports Prelude
begin

text \<open>
  The processor's view of the devices, as the inline functions and macros of \<open>lib.h\<close> reach it:
  port input and output and the interrupt flag. Devices are outside the source, so what a port
  returns is a parameter of the state (\<open>device_in\<close>): any function of everything that happened on the
  bus so far. What the kernel does to the devices is the bus trace, in program order.
\<close>

section \<open>Bus and interrupt flag\<close>

datatype io_event = Out u8 u16 | In u16 u8

record machine =
  io_trace :: "io_event list"
  device_in :: "io_event list \<Rightarrow> u16 \<Rightarrow> u8"
  int_enabled :: bool

definition outb :: "u8 \<Rightarrow> u16 \<Rightarrow> machine \<Rightarrow> machine" where
  "outb data port m = m\<lparr>io_trace := io_trace m @ [Out data port]\<rparr>"

text \<open>\<open>inb\<close> reads one byte and returns it zero-extended to 32 bits.\<close>

definition inb :: "u16 \<Rightarrow> machine \<Rightarrow> u32 \<times> machine" where
  "inb port m =
     (let val = device_in m (io_trace m) port
      in (ucast val, m\<lparr>io_trace := io_trace m @ [In port val]\<rparr>))"

definition cli :: "machine \<Rightarrow> machine" where
  "cli m = m\<lparr>int_enabled := False\<rparr>"

definition sti :: "machine \<Rightarrow> machine" where
  "sti m = m\<lparr>int_enabled := True\<rparr>"

lemmas machine_defs = outb_def inb_def cli_def sti_def

section \<open>What a trace says about a port\<close>

fun written_to :: "u16 \<Rightarrow> io_event list \<Rightarrow> u8 list" where
  "written_to p [] = []"
| "written_to p (Out d q # es) = (if q = p then d # written_to p es else written_to p es)"
| "written_to p (In q d # es) = written_to p es"

definition last_written :: "u16 \<Rightarrow> io_event list \<Rightarrow> u8 option" where
  "last_written p es = (if written_to p es = [] then None else Some (last (written_to p es)))"

lemma written_to_append [simp]: "written_to p (es @ fs) = written_to p es @ written_to p fs"
  by (induction p es rule: written_to.induct) auto

lemma last_written_Nil [simp]: "last_written p [] = None"
  by (simp add: last_written_def)

lemma last_written_Cons [simp]:
  "last_written p (Out d q # es) =
     (case last_written p es of Some x \<Rightarrow> Some x | None \<Rightarrow> if q = p then Some d else None)"
  "last_written p (In q d # es) = last_written p es"
  by (auto simp: last_written_def)

lemma last_written_append [simp]:
  "last_written p (es @ fs) =
     (case last_written p fs of Some x \<Rightarrow> Some x | None \<Rightarrow> last_written p es)"
  by (auto simp: last_written_def)

lemma outb_simps [simp]:
  "io_trace (outb d p m) = io_trace m @ [Out d p]"
  "device_in (outb d p m) = device_in m"
  "int_enabled (outb d p m) = int_enabled m"
  by (simp_all add: outb_def)

lemma cli_sti_simps [simp]:
  "io_trace (cli m) = io_trace m" "io_trace (sti m) = io_trace m"
  "device_in (cli m) = device_in m" "device_in (sti m) = device_in m"
  "int_enabled (cli m) = False" "int_enabled (sti m) = True"
  by (simp_all add: cli_def sti_def)

end
