(* ===== verification/Ports.thy ===== *)
theory Ports
  imports Machine
begin

text \<open>
  The wider port accesses of \<open>lib.h\<close>, as its comments describe them: accesses to consecutive ports, the lowest byte first. And the
  pair of macros that saves the flags of the processor before interrupts are disabled and restores them.
\<close>

unbundle bit_operations_syntax

definition inw :: "u16 \<Rightarrow> machine \<Rightarrow> u32 \<times> machine" where
  "inw port m = (let (b0, m) = inb port m; (b1, m) = inb (port + 1) m in (b0 OR push_bit 8 b1, m))"

definition inl :: "u16 \<Rightarrow> machine \<Rightarrow> u32 \<times> machine" where
  "inl port m =
     (let (b0, m) = inb port m; (b1, m) = inb (port + 1) m; (b2, m) = inb (port + 2) m; (b3, m) = inb (port + 3) m
      in (b0 OR push_bit 8 b1 OR push_bit 16 b2 OR push_bit 24 b3, m))"

definition outw :: "u16 \<Rightarrow> u16 \<Rightarrow> machine \<Rightarrow> machine" where
  "outw data port m = outb (ucast (drop_bit 8 data)) (port + 1) (outb (ucast data) port m)"

definition outl :: "u32 \<Rightarrow> u16 \<Rightarrow> machine \<Rightarrow> machine" where
  "outl data port m =
     outb (ucast (drop_bit 24 data)) (port + 3) (outb (ucast (drop_bit 16 data)) (port + 2)
       (outb (ucast (drop_bit 8 data)) (port + 1) (outb (ucast data) port m)))"

text \<open>The flags are those of the processor that the model does not have (\<open>rest\<close>), with the interrupt flag in bit 9.\<close>

definition cli_and_save :: "u32 \<Rightarrow> machine \<Rightarrow> u32 \<times> machine" where
  "cli_and_save rest m = (if int_enabled m then set_bit 9 rest else unset_bit 9 rest, cli m)"

definition restore_flags :: "u32 \<Rightarrow> machine \<Rightarrow> machine" where
  "restore_flags flags m = m\<lparr>int_enabled := bit flags 9\<rparr>"

text \<open>A section of code between the two macros runs without interrupts and leaves the interrupt flag as it was, also when it was
  clear before.\<close>

lemma flags_round_trip:
  assumes "cli_and_save rest m = (flags, m')" "\<forall>x. int_enabled (f x) = int_enabled x"
  shows "\<not> int_enabled (f m')" "int_enabled (restore_flags flags (f m')) = int_enabled m" "restore_flags flags m' = m"
proof -
  have m: "m' = cli m" and b: "bit flags 9 = int_enabled m" using assms(1) by (auto simp: cli_and_save_def bit_simps split: if_splits)
  show "\<not> int_enabled (f m')" using assms(2) m by simp
  show "int_enabled (restore_flags flags (f m')) = int_enabled m" using b by (simp add: restore_flags_def)
  show "restore_flags flags m' = m" using b m by (simp add: restore_flags_def cli_def)
qed

lemma distinct_ports: "(port :: u16) \<noteq> port + 1" "port \<noteq> port + 2" "port \<noteq> port + 3"
  "port + 1 \<noteq> port + 2" "port + 1 \<noteq> port + 3" "port + 2 \<noteq> port + 3"
  by simp_all

text \<open>A wide output leaves each byte of the value at its port, and a wide input is made of the bytes of its ports.\<close>

lemma wide_output:
  assumes "k < (4 :: nat)"
  shows "last_written (port + of_nat k) (io_trace (outl data port m)) = Some (ucast (drop_bit (8 * k) data))"
proof -
  consider "k = 0" | "k = 1" | "k = 2" | "k = 3" using assms by linarith
  then show ?thesis using distinct_ports [of port] by cases (simp_all add: outl_def)
qed

lemma wide_input:
  assumes "\<forall>t p. device_in m t p = dev p"
  shows "k < 4 \<Longrightarrow> ucast (drop_bit (8 * k) (fst (inl port m))) = dev (port + of_nat k)"
    "k < 2 \<Longrightarrow> ucast (drop_bit (8 * k) (fst (inw port m))) = dev (port + of_nat k)"
proof -
  have d: "device_in m = (\<lambda>t p. dev p)" using assms by (intro ext) simp
  have v: "fst (inl port m) = ucast (dev port) OR push_bit 8 (ucast (dev (port + 1))) OR push_bit 16 (ucast (dev (port + 2))) OR push_bit 24 (ucast (dev (port + 3)))"
    "fst (inw port m) = ucast (dev port) OR push_bit 8 (ucast (dev (port + 1)))"
    by (simp_all add: inl_def inw_def inb_def d Let_def)
  show "ucast (drop_bit (8 * k) (fst (inl port m))) = dev (port + of_nat k)" if k: "k < 4"
  proof -
    consider "k = 0" | "k = 1" | "k = 2" | "k = 3" using k by linarith
    then show ?thesis unfolding v by cases (rule bit_word_eqI, auto simp: bit_simps dest: bit_imp_le_length)+
  qed
  show "ucast (drop_bit (8 * k) (fst (inw port m))) = dev (port + of_nat k)" if k: "k < 2"
  proof -
    consider "k = 0" | "k = 1" using k by linarith
    then show ?thesis unfolding v by cases (rule bit_word_eqI, auto simp: bit_simps dest: bit_imp_le_length)+
  qed
qed

end
