(* ===== verification/I8259.thy ===== *)
theory I8259
  imports Machine
begin

text \<open>
  \<open>i8259.c\<close>: the driver of the two cascaded 8259 interrupt controllers. The state is the pair of
  cached masks and the bus. The abstract view is the set of interrupt lines that are open
  (\<open>irq_open\<close>); the locale \<open>irq_controller\<close> is the contract the device drivers rely on.
\<close>

section \<open>State and constants\<close>

record pic =
  pic_io :: machine
  master_mask :: u8
  slave_mask :: u8

abbreviation (input) MASTER_8259_PORT :: u16 where "MASTER_8259_PORT \<equiv> 0x20"
abbreviation (input) SLAVE_8259_PORT :: u16 where "SLAVE_8259_PORT \<equiv> 0xA0"
abbreviation (input) MASKALL :: u8 where "MASKALL \<equiv> 0xFF"
abbreviation (input) SLAVEIRQ :: u8 where "SLAVEIRQ \<equiv> 0x02"
abbreviation (input) IRQMAX :: u32 where "IRQMAX \<equiv> 15"
abbreviation (input) IRQMIN :: u32 where "IRQMIN \<equiv> 0"
abbreviation (input) IRQMID :: u32 where "IRQMID \<equiv> 8"
abbreviation (input) ICW1 :: u8 where "ICW1 \<equiv> 0x11"
abbreviation (input) ICW2_MASTER :: u8 where "ICW2_MASTER \<equiv> 0x20"
abbreviation (input) ICW2_SLAVE :: u8 where "ICW2_SLAVE \<equiv> 0x28"
abbreviation (input) ICW3_MASTER :: u8 where "ICW3_MASTER \<equiv> 0x04"
abbreviation (input) ICW3_SLAVE :: u8 where "ICW3_SLAVE \<equiv> 0x02"
abbreviation (input) ICW4 :: u8 where "ICW4 \<equiv> 0x01"
abbreviation (input) EOI :: u8 where "EOI \<equiv> 0x60"
abbreviation (input) BITCONSTANT :: u8 where "BITCONSTANT \<equiv> 0x01"

text \<open>The masks as the C file initialises them.\<close>

definition pic_start :: "machine \<Rightarrow> pic" where
  "pic_start m = \<lparr>pic_io = m, master_mask = 0xFF, slave_mask = 0xFF\<rparr>"

section \<open>Operations\<close>

definition i8259_init :: "pic \<Rightarrow> pic" where
  "i8259_init s =
     s\<lparr>pic_io :=
        outb (slave_mask s) (SLAVE_8259_PORT + 1) (outb (master_mask s) (MASTER_8259_PORT + 1)
       (outb ICW4 (SLAVE_8259_PORT + 1) (outb ICW4 (MASTER_8259_PORT + 1)
       (outb ICW3_SLAVE (SLAVE_8259_PORT + 1) (outb ICW3_MASTER (MASTER_8259_PORT + 1)
       (outb ICW2_SLAVE (SLAVE_8259_PORT + 1) (outb ICW2_MASTER (MASTER_8259_PORT + 1)
       (outb ICW1 SLAVE_8259_PORT (outb ICW1 MASTER_8259_PORT
       (outb MASKALL (SLAVE_8259_PORT + 1) (outb MASKALL (MASTER_8259_PORT + 1)
         (pic_io s))))))))))))\<rparr>"

text \<open>The loop \<open>for (counter = 0; counter < n; counter++) maskbit <<= 1\<close> on an 8-bit variable.\<close>

definition maskbit_loop :: "u32 \<Rightarrow> u8" where
  "maskbit_loop n = for_to (unat n) (\<lambda>_ maskbit. push_bit 1 maskbit) BITCONSTANT"

definition enable_irq :: "u32 \<Rightarrow> pic \<Rightarrow> pic" where
  "enable_irq irq_num s =
     (if irq_num > IRQMAX \<or> irq_num < IRQMIN then s
      else if irq_num < IRQMID then
        let mask = master_mask s AND NOT (maskbit_loop irq_num)
        in s\<lparr>master_mask := mask, pic_io := outb mask (MASTER_8259_PORT + 1) (pic_io s)\<rparr>
      else
        let mask = slave_mask s AND NOT (maskbit_loop (irq_num - IRQMID))
        in s\<lparr>slave_mask := mask, pic_io := outb mask (SLAVE_8259_PORT + 1) (pic_io s)\<rparr>)"

definition disable_irq :: "u32 \<Rightarrow> pic \<Rightarrow> pic" where
  "disable_irq irq_num s =
     (if irq_num > IRQMAX \<or> irq_num < IRQMIN then s
      else if irq_num < IRQMID then
        let mask = master_mask s OR maskbit_loop irq_num
        in s\<lparr>master_mask := mask, pic_io := outb mask (MASTER_8259_PORT + 1) (pic_io s)\<rparr>
      else
        let mask = slave_mask s OR maskbit_loop (irq_num - IRQMID)
        in s\<lparr>slave_mask := mask, pic_io := outb mask (SLAVE_8259_PORT + 1) (pic_io s)\<rparr>)"

definition send_eoi :: "u32 \<Rightarrow> pic \<Rightarrow> pic" where
  "send_eoi irq_num s =
     (if irq_num > IRQMAX \<or> irq_num < IRQMIN then s
      else if irq_num < IRQMID then
        s\<lparr>pic_io := outb (EOI OR ucast irq_num) MASTER_8259_PORT (pic_io s)\<rparr>
      else
        s\<lparr>pic_io := outb (EOI OR SLAVEIRQ) MASTER_8259_PORT
                     (outb (EOI OR ucast (irq_num - IRQMID)) SLAVE_8259_PORT (pic_io s))\<rparr>)"

section \<open>Abstract view\<close>

text \<open>A line is open when its mask bit is clear (masks are active low); lines 8 to 15 are the
  slave's.\<close>

definition irq_open :: "pic \<Rightarrow> nat \<Rightarrow> bool" where
  "irq_open s n =
     (if n < 8 then \<not> bit (master_mask s) n
      else n < 16 \<and> \<not> bit (slave_mask s) (n - 8))"

text \<open>The controllers hold the masks the driver has cached.\<close>

definition pic_synced :: "pic \<Rightarrow> bool" where
  "pic_synced s \<longleftrightarrow>
     last_written 0x21 (io_trace (pic_io s)) = Some (master_mask s)
   \<and> last_written 0xA1 (io_trace (pic_io s)) = Some (slave_mask s)"

lemma maskbit_loop_eq: "maskbit_loop n = push_bit (unat n) 1"
proof -
  have "for_to k (\<lambda>_ b. push_bit 1 b) (1 :: u8) = push_bit k 1" for k
    by (induction k) (simp_all add: for_to_Suc)
  then show ?thesis by (simp add: maskbit_loop_def)
qed

lemma bit_maskbit: "unat n < 8 \<Longrightarrow> bit (maskbit_loop n) k \<longleftrightarrow> k = unat n"
  by (auto simp: maskbit_loop_eq bit_simps)

lemma irq_cases:
  assumes "n < 16"
  obtains "(of_nat n :: u32) < 8" "\<not> (of_nat n :: u32) > 15" "unat (of_nat n :: u32) = n" "n < 8"
    | "\<not> (of_nat n :: u32) < 8" "\<not> (of_nat n :: u32) > 15" "unat (of_nat n - 8 :: u32) = n - 8"
      "8 \<le> n" "n - 8 < 8"
proof -
  have u: "unat (of_nat n :: u32) = n" using assms by (simp add: unat_offset)
  show ?thesis
  proof (cases "n < 8")
    case True
    then show ?thesis using that(1) u by (simp add: word_less_nat_alt)
  next
    case False
    then have "unat (of_nat n - 8 :: u32) = n - 8" using u by (simp add: unat_sub word_le_nat_alt)
    then show ?thesis using that(2) u False assms by (simp add: word_less_nat_alt)
  qed
qed

lemma irq_open_enable:
  assumes "n < 16"
  shows "irq_open (enable_irq (of_nat n) s) k \<longleftrightarrow> k = n \<or> irq_open s k"
  using assms
proof (cases rule: irq_cases)
  case 1
  then show ?thesis
    by (auto simp: irq_open_def enable_irq_def Let_def bit_maskbit bit_and_iff bit_not_iff)
next
  case 2
  then show ?thesis
    by (auto simp: irq_open_def enable_irq_def Let_def bit_maskbit bit_and_iff bit_not_iff)
qed

lemma irq_open_disable:
  assumes "n < 16"
  shows "irq_open (disable_irq (of_nat n) s) k \<longleftrightarrow> k \<noteq> n \<and> irq_open s k"
  using assms
proof (cases rule: irq_cases)
  case 1
  then show ?thesis
    by (auto simp: irq_open_def disable_irq_def Let_def bit_maskbit bit_or_iff)
next
  case 2
  then show ?thesis
    by (auto simp: irq_open_def disable_irq_def Let_def bit_maskbit bit_or_iff)
qed

lemma irq_out_of_range:
  "irq > IRQMAX \<Longrightarrow> enable_irq irq s = s"
  "irq > IRQMAX \<Longrightarrow> disable_irq irq s = s"
  "irq > IRQMAX \<Longrightarrow> send_eoi irq s = s"
  by (simp_all add: enable_irq_def disable_irq_def send_eoi_def)

lemma irq_open_send_eoi [simp]: "irq_open (send_eoi irq s) = irq_open s"
  by (rule ext) (simp add: send_eoi_def irq_open_def)

lemma irq_open_init [simp]: "irq_open (i8259_init s) = irq_open s"
  by (rule ext) (simp add: i8259_init_def irq_open_def)

lemma MASKALL_eq_mask: "MASKALL = mask 8"
  by (simp add: mask_eq_exp_minus_1)

lemma bit_mask8: "bit (mask 8 :: u8) k \<longleftrightarrow> k < 8"
  by (simp only: bit_mask_iff possible_bit_word) simp

lemma irq_open_start [simp]: "\<not> irq_open (pic_start m) k"
  unfolding irq_open_def pic_start_def pic.simps MASKALL_eq_mask bit_mask8 by auto

section \<open>The interface of the drivers\<close>

locale irq_controller =
  fixes enable :: "u32 \<Rightarrow> 's \<Rightarrow> 's"
    and disable :: "u32 \<Rightarrow> 's \<Rightarrow> 's"
    and line_open :: "'s \<Rightarrow> nat \<Rightarrow> bool"
  assumes line_open_enable: "n < 16 \<Longrightarrow> line_open (enable (of_nat n) s) k \<longleftrightarrow> k = n \<or> line_open s k"
    and line_open_disable: "n < 16 \<Longrightarrow> line_open (disable (of_nat n) s) k \<longleftrightarrow> k \<noteq> n \<and> line_open s k"
begin

lemma enable_all:
  "\<forall>n\<in>set ns. n < 16 \<Longrightarrow>
     line_open (fold (\<lambda>n. enable (of_nat n)) ns s) k \<longleftrightarrow> k \<in> set ns \<or> line_open s k"
  by (induction ns arbitrary: s) (auto simp: line_open_enable)

lemma enable_commute:
  "n < 16 \<Longrightarrow> n' < 16 \<Longrightarrow>
     line_open (enable (of_nat n) (enable (of_nat n') s)) = line_open (enable (of_nat n') (enable (of_nat n) s))"
  by (rule ext) (auto simp: line_open_enable)

lemma disable_enable:
  "n < 16 \<Longrightarrow> \<not> line_open s n \<Longrightarrow> line_open (disable (of_nat n) (enable (of_nat n) s)) = line_open s"
  by (rule ext) (auto simp: line_open_enable line_open_disable)

end

interpretation i8259: irq_controller enable_irq disable_irq irq_open
  by unfold_locales (rule irq_open_enable irq_open_disable; assumption)+

section \<open>The masks and the controllers agree\<close>

lemma pic_synced_init [inv_intros]: "pic_synced (i8259_init s)"
  by (simp add: pic_synced_def i8259_init_def)

lemma pic_synced_enable [inv_intros]: "pic_synced s \<Longrightarrow> pic_synced (enable_irq irq s)"
  by (auto simp: pic_synced_def enable_irq_def Let_def)

lemma pic_synced_disable [inv_intros]: "pic_synced s \<Longrightarrow> pic_synced (disable_irq irq s)"
  by (auto simp: pic_synced_def disable_irq_def Let_def)

lemma pic_synced_send_eoi [inv_intros]: "pic_synced s \<Longrightarrow> pic_synced (send_eoi irq s)"
  by (auto simp: pic_synced_def send_eoi_def)

section \<open>Correctness\<close>

text \<open>A history of calls, and the set of lines it leaves open.\<close>

datatype irq_op = Enable u32 | Disable u32 | Eoi u32

fun run_irq :: "irq_op \<Rightarrow> pic \<Rightarrow> pic" where
  "run_irq (Enable n) s = enable_irq n s"
| "run_irq (Disable n) s = disable_irq n s"
| "run_irq (Eoi n) s = send_eoi n s"

fun open_lines :: "irq_op \<Rightarrow> nat set \<Rightarrow> nat set" where
  "open_lines (Enable n) L = (if unat n < 16 then insert (unat n) L else L)"
| "open_lines (Disable n) L = L - {unat n}"
| "open_lines (Eoi n) L = L"

lemma irq_open_bound: "irq_open s k \<Longrightarrow> k < 16"
  by (simp add: irq_open_def split: if_splits)

lemma run_irq_lines: "{k. irq_open (run_irq c s) k} = open_lines c {k. irq_open s k}"
proof (cases c)
  case (Enable n)
  then show ?thesis using i8259.line_open_enable [of "unat n" s] irq_out_of_range(1) [of n s]
    by (cases "unat n < 16") (auto simp: word_less_nat_alt)
next
  case (Disable n)
  then show ?thesis using i8259.line_open_disable [of "unat n" s] irq_out_of_range(2) [of n s]
    by (cases "unat n < 16") (auto simp: word_less_nat_alt dest: irq_open_bound)
qed simp

text \<open>C32: after the controllers are initialised, any sequence of enable, disable and end-of-interrupt
  calls leaves open exactly the lines its calls say, calls with a line number above 15 having no
  effect, and the mask registers of both controllers hold the masks the driver has cached.\<close>

theorem irq_history:
  "{k. irq_open (fold run_irq cs (i8259_init (pic_start m))) k} = fold open_lines cs {} \<and>
   pic_synced (fold run_irq cs (i8259_init (pic_start m)))"
proof -
  have "{k. irq_open (fold run_irq cs s) k} = fold open_lines cs {k. irq_open s k} \<and>
      (pic_synced s \<longrightarrow> pic_synced (fold run_irq cs s))" for s
  proof (induction cs arbitrary: s)
    case (Cons c cs)
    have "pic_synced s \<Longrightarrow> pic_synced (run_irq c s)" by (cases c) (simp_all add: inv_intros)
    with Cons [of "run_irq c s"] show ?case by (simp add: run_irq_lines)
  qed simp
  from this [of "i8259_init (pic_start m)"] show ?thesis by (simp add: pic_synced_init)
qed

text \<open>The end of an interrupt is reported to the controller of its line, for the lines of the
  slave also to the master's cascade line, and never for a line number above 15.\<close>

theorem send_eoi_commands:
  "io_trace (pic_io (send_eoi irq s)) = io_trace (pic_io s) @
     (if unat irq < 8 then [Out (0x60 OR ucast irq) 0x20]
      else if unat irq < 16 then [Out (0x60 OR ucast (irq - 8)) 0xA0, Out 0x62 0x20]
      else [])"
  by (simp add: send_eoi_def word_less_nat_alt)

end
