(* ===== verification/Rtc.thy ===== *)
theory Rtc
  imports I8259
begin

text \<open>
  \<open>rtc.c\<close> and \<open>pit.c\<close>: the real-time clock driver (rate programming, the interrupt handler and the
  blocking read) and the set-up of the interval timer. Frequencies are the \<open>uint32_t\<close> the caller's
  buffer holds; the clock's registers are reached through the index port 0x70 and the data port 0x71.
\<close>

section \<open>State and constants\<close>

record rtc =
  rtc_pic :: pic
  rtc_interrupt_occured :: u32
  rtc_flag :: u8

abbreviation (input) RTCREGA :: u8 where "RTCREGA \<equiv> 0x8A"
abbreviation (input) RTCREGB :: u8 where "RTCREGB \<equiv> 0x8B"
abbreviation (input) RTCREGC :: u8 where "RTCREGC \<equiv> 0x8C"
abbreviation (input) RTCPORT1 :: u16 where "RTCPORT1 \<equiv> 0x70"
abbreviation (input) RTCPORT2 :: u16 where "RTCPORT2 \<equiv> 0x71"
abbreviation (input) RTCORED :: u8 where "RTCORED \<equiv> 0x40"
abbreviation (input) RTCIRQ8 :: u32 where "RTCIRQ8 \<equiv> 8"
abbreviation (input) RTCIRQ2 :: u32 where "RTCIRQ2 \<equiv> 2"
abbreviation (input) BASENUM :: u8 where "BASENUM \<equiv> 15"
abbreviation (input) DEFAULTB :: u32 where "DEFAULTB \<equiv> 4"
abbreviation (input) ERRORMAG :: u32 where "ERRORMAG \<equiv> 0x4F2E"
abbreviation (input) RTCUNUN :: u8 where "RTCUNUN \<equiv> 0xF0"

text \<open>Lifting an action of the bus to the driver's state.\<close>

definition rtc_io :: "(machine \<Rightarrow> machine) \<Rightarrow> rtc \<Rightarrow> rtc" where
  "rtc_io f = rtc_pic_update (pic_io_update f)"

text \<open>The read-modify-write of one register: select it, read it, select it again, write it.\<close>

definition modify_register :: "u8 \<Rightarrow> (u8 \<Rightarrow> u8) \<Rightarrow> machine \<Rightarrow> machine" where
  "modify_register reg f m =
     (let (val, m) = inb RTCPORT2 (outb reg RTCPORT1 m); prev = (ucast val :: u8)
      in outb (f prev) RTCPORT2 (outb reg RTCPORT1 m))"

section \<open>Operations of rtc.c\<close>

definition rtc_init :: "rtc \<Rightarrow> rtc" where
  "rtc_init s =
     (let s = rtc_io (modify_register RTCREGB (\<lambda>prev. prev OR RTCORED)) s
      in s\<lparr>rtc_pic := enable_irq RTCIRQ2 (enable_irq RTCIRQ8 (rtc_pic s))\<rparr>)"

definition idt_rtc_irq_handler :: "rtc \<Rightarrow> rtc" where
  "idt_rtc_irq_handler s =
     (let s = rtc_io cli s;
          s = rtc_io (\<lambda>m. snd (inb RTCPORT2 (outb RTCREGC RTCPORT1 m))) s;
          s = s\<lparr>rtc_interrupt_occured := 1\<rparr>;
          s = s\<lparr>rtc_pic := send_eoi RTCIRQ8 (rtc_pic s)\<rparr>
      in rtc_io sti s)"

definition rtc_open :: "rtc \<Rightarrow> u32 \<times> rtc" where
  "rtc_open s =
     (0, rtc_io (sti \<circ> modify_register RTCREGA (\<lambda>prev. (prev AND RTCUNUN) OR BASENUM) \<circ> cli) s)"

text \<open>\<open>rtc_read\<close> clears the flag and spins until the clock's interrupt sets it.\<close>

definition rtc_spin :: "(rtc \<Rightarrow> rtc) list \<Rightarrow> rtc \<Rightarrow> rtc option" where
  "rtc_spin = spin_until (\<lambda>s. rtc_interrupt_occured s \<noteq> 0)"

definition rtc_read :: "(rtc \<Rightarrow> rtc) list \<Rightarrow> rtc \<Rightarrow> (u32 \<times> rtc) option" where
  "rtc_read hs s = map_option (Pair 0) (rtc_spin hs (s\<lparr>rtc_interrupt_occured := 0\<rparr>))"

definition rtc_rate :: "u32 \<Rightarrow> u32" where
  "rtc_rate freq =
     (if freq = 2 then 15 else if freq = 4 then 14 else if freq = 8 then 13
      else if freq = 16 then 12 else if freq = 32 then 11 else if freq = 64 then 10
      else if freq = 128 then 9 else if freq = 256 then 8 else if freq = 512 then 7
      else if freq = 1024 then 6 else ERRORMAG)"

definition rtc_write :: "memory \<Rightarrow> u32 \<Rightarrow> rtc \<Rightarrow> (u32 \<times> rtc) option" where
  "rtc_write m buf s =
     (if buf = 0 then None
      else let rate = rtc_rate (read32 m buf)
      in if rate = ERRORMAG then Some (ERR, s)
         else Some (DEFAULTB,
           rtc_io (sti \<circ> modify_register RTCREGA (\<lambda>prev. (prev AND RTCUNUN) OR ucast rate) \<circ> cli) s))"

definition rtc_close :: "rtc \<Rightarrow> u32 \<times> rtc" where
  "rtc_close s = (0, s)"

text \<open>
  \<open>change_freq\<close> computes a frequency into \<open>temp\<close> and passes it as the byte count, with an
  uninitialised pointer (\<open>random\<close>, here a parameter) as the buffer. A count of 30 or more overflows
  the signed \<open>temp\<close>.
\<close>

definition change_freq :: "memory \<Rightarrow> u32 \<Rightarrow> u8 \<Rightarrow> rtc \<Rightarrow> rtc option" where
  "change_freq m random count s =
     (let temp = for_to (unat count) (\<lambda>_ t. t * 2) (2 :: int)
      in if temp < 2 ^ 31 then map_option snd (rtc_write m random s) else None)"

section \<open>Rates and frequencies\<close>

lemma one_to_ten:
  "(1 \<le> k \<and> k \<le> (10 :: nat)) \<longleftrightarrow>
     k = 1 \<or> k = 2 \<or> k = 3 \<or> k = 4 \<or> k = 5 \<or> k = 6 \<or> k = 7 \<or> k = 8 \<or> k = 9 \<or> k = 10"
  by presburger

lemma rtc_rate_power:
  assumes "1 \<le> k" "k \<le> 10"
  shows "rtc_rate (2 ^ k) = of_nat (16 - k)"
  using conjI [OF assms] unfolding one_to_ten by (elim disjE) (simp_all add: rtc_rate_def)

lemma rtc_rate_not_power:
  assumes "\<And>k. 1 \<le> k \<Longrightarrow> k \<le> 10 \<Longrightarrow> f \<noteq> 2 ^ k"
  shows "rtc_rate f = ERRORMAG"
  using assms [of 1] assms [of 2] assms [of 3] assms [of 4] assms [of 5] assms [of 6] assms [of 7]
    assms [of 8] assms [of 9] assms [of 10]
  by (simp add: rtc_rate_def)

lemma rtc_io_simps [simp]:
  "pic_io (rtc_pic (rtc_io f s)) = f (pic_io (rtc_pic s))"
  "master_mask (rtc_pic (rtc_io f s)) = master_mask (rtc_pic s)"
  "slave_mask (rtc_pic (rtc_io f s)) = slave_mask (rtc_pic s)"
  "rtc_interrupt_occured (rtc_io f s) = rtc_interrupt_occured s"
  "rtc_flag (rtc_io f s) = rtc_flag s"
  by (simp_all add: rtc_io_def)

lemma irq_open_rtc_io [simp]: "irq_open (rtc_pic (rtc_io f s)) = irq_open (rtc_pic s)"
  by (rule ext) (simp add: irq_open_def)

lemma trace_modify_register:
  "io_trace (modify_register reg f m) =
     (let prev = device_in m (io_trace m @ [Out reg RTCPORT1]) RTCPORT2
      in io_trace m @ [Out reg RTCPORT1, In RTCPORT2 prev, Out reg RTCPORT1, Out (f prev) RTCPORT2])"
  by (simp add: modify_register_def inb_def Let_def)

lemma last_written_modify_register [simp]:
  "last_written p (io_trace (modify_register reg f m)) =
     (let prev = device_in m (io_trace m @ [Out reg RTCPORT1]) RTCPORT2
      in if p = RTCPORT2 then Some (f prev) else if p = RTCPORT1 then Some reg
         else last_written p (io_trace m))"
  by (auto simp: trace_modify_register Let_def)

section \<open>The interrupt handler\<close>

lemma rtc_handler_sets_flag [simp]: "rtc_interrupt_occured (idt_rtc_irq_handler s) = 1"
  by (simp add: idt_rtc_irq_handler_def Let_def)

lemma rtc_handler_synced [inv_intros]:
  assumes "pic_synced (rtc_pic s)"
  shows "pic_synced (rtc_pic (idt_rtc_irq_handler s))"
  using assms
  by (simp add: idt_rtc_irq_handler_def Let_def pic_synced_def send_eoi_def inb_def)

section \<open>pit.c\<close>

abbreviation (input) OSCII_FREQ :: int where "OSCII_FREQ \<equiv> 1193182"
abbreviation (input) FREQ :: int where "FREQ \<equiv> 50"
abbreviation (input) CONFIG :: u8 where "CONFIG \<equiv> 0x36"
abbreviation (input) DATA_PORT1 :: u16 where "DATA_PORT1 \<equiv> 0x40"
abbreviation (input) PITPORT :: u16 where "PITPORT \<equiv> 0x43"
abbreviation (input) IRQ0 :: u32 where "IRQ0 \<equiv> 0"

text \<open>\<open>divider && MASK\<close> is C's logical conjunction: 1 when both operands are non-zero.\<close>

definition pit_init :: "pic \<Rightarrow> pic" where
  "pit_init s =
     (let s = enable_irq IRQ0 s;
          divider = OSCII_FREQ div FREQ;
          low_byte = (if divider \<noteq> 0 \<and> (0xFF :: int) \<noteq> 0 then 1 else 0 :: int);
          high_byte = drop_bit 8 divider
      in s\<lparr>pic_io := outb (of_int high_byte) DATA_PORT1 (outb (of_int low_byte) DATA_PORT1
             (outb CONFIG PITPORT (pic_io s)))\<rparr>)"

lemma irq_open_pit_init: "irq_open (pit_init s) k \<longleftrightarrow> k = 0 \<or> irq_open s k"
proof -
  have "irq_open (pit_init s) k = irq_open (enable_irq (of_nat 0) s) k"
    by (simp add: pit_init_def Let_def irq_open_def)
  also have "\<dots> \<longleftrightarrow> k = 0 \<or> irq_open s k"
    by (rule i8259.line_open_enable) simp
  finally show ?thesis .
qed

lemma irq_open_rtc_init:
  "irq_open (rtc_pic (rtc_init s)) k \<longleftrightarrow> k = 2 \<or> k = 8 \<or> irq_open (rtc_pic s) k"
  using i8259.enable_all [of "[8, 2]" "rtc_pic (rtc_io (modify_register RTCREGB (\<lambda>prev. prev OR RTCORED)) s)" k]
  by (auto simp: rtc_init_def Let_def)

lemma pic_synced_pit_init [inv_intros]: "pic_synced s \<Longrightarrow> pic_synced (pit_init s)"
  using pic_synced_enable [of s IRQ0] by (simp add: pit_init_def Let_def pic_synced_def)

lemma pic_synced_rtc_init [inv_intros]: "pic_synced (rtc_pic s) \<Longrightarrow> pic_synced (rtc_pic (rtc_init s))"
  unfolding rtc_init_def Let_def by (simp, intro inv_intros) (simp add: pic_synced_def Let_def)

section \<open>Correctness\<close>

text \<open>A write of a power of two from 2 to 1024 returns 4 and programs the rate that gives this
  frequency (\<open>32768 >> (rate - 1)\<close>) into the low half of register A, keeping the high half; every other
  value is refused with \<open>-1\<close> and changes nothing.\<close>

theorem rtc_write_programs_rate:
  assumes "buf \<noteq> 0"
  shows "if \<exists>k. 1 \<le> k \<and> k \<le> 10 \<and> read32 m buf = 2 ^ k
    then \<exists>rate t prev. rtc_write m buf s = Some (4, t) \<and> unat (read32 m buf) = 32768 div 2 ^ (rate - 1) \<and>
      io_trace (pic_io (rtc_pic t)) = io_trace (pic_io (rtc_pic s)) @
        [Out RTCREGA 0x70, In 0x71 prev, Out RTCREGA 0x70, Out ((prev AND 0xF0) OR of_nat rate) 0x71]
    else rtc_write m buf s = Some (ERR, s)"
proof (cases "\<exists>k. 1 \<le> k \<and> k \<le> 10 \<and> read32 m buf = 2 ^ k")
  case True
  then obtain k where k: "1 \<le> k" "k \<le> 10" "read32 m buf = 2 ^ k" by blast
  have "unat (2 ^ k :: u32) = 32768 div 2 ^ (16 - k - 1) \<and> (of_nat (16 - k) :: u32) \<noteq> 0x4F2E \<and>
      ucast (of_nat (16 - k) :: u32) = (of_nat (16 - k) :: u8)"
    using conjI [OF k(1,2)] unfolding one_to_ten by (elim disjE) simp_all
  then show ?thesis using True k assms rtc_rate_power [OF k(1,2)]
    by (auto simp: rtc_write_def trace_modify_register Let_def intro!: exI [of _ "16 - k"])
next
  case False
  then have "rtc_rate (read32 m buf) = 0x4F2E" by (intro rtc_rate_not_power) auto
  then show ?thesis using False assms by (simp add: rtc_write_def)
qed

text \<open>A machine whose devices answer every read with 0x26, as a clock whose rate is 6 does.\<close>

definition demo_rtc :: rtc where
  "demo_rtc = \<lparr>rtc_pic = pic_start \<lparr>io_trace = [], device_in = (\<lambda>_ _. 0x26), int_enabled = True\<rparr>,
     rtc_interrupt_occured = 0, rtc_flag = 0\<rparr>"

theorem rtc_write_programs_rate_witness:
  "\<exists>t prev. rtc_write ((\<lambda>_. 0)(0x100 := 2)) 0x100 demo_rtc = Some (4, t) \<and>
     io_trace (pic_io (rtc_pic t)) =
       [Out RTCREGA 0x70, In 0x71 prev, Out RTCREGA 0x70, Out ((prev AND 0xF0) OR 15) 0x71]"
proof -
  let ?m = "(\<lambda>_. 0)(0x100 := 2) :: memory"
  have m: "read32 ?m 0x100 = 2 ^ 1" by (simp add: read32_def)
  then have "\<exists>k. 1 \<le> k \<and> k \<le> 10 \<and> read32 ?m 0x100 = 2 ^ k" by (intro exI [of _ 1]) simp
  from rtc_write_programs_rate [of "0x100" ?m demo_rtc, unfolded if_P [OF this]]
  obtain rate t prev where r: "rtc_write ?m 0x100 demo_rtc = Some (4, t)" "(2 :: nat) = 32768 div 2 ^ (rate - 1)"
    "io_trace (pic_io (rtc_pic t)) =
       [Out RTCREGA 0x70, In 0x71 prev, Out RTCREGA 0x70, Out ((prev AND 0xF0) OR of_nat rate) 0x71]"
    unfolding m by (auto simp: demo_rtc_def pic_start_def)
  have "rate - 1 = 14"
  proof -
    consider "rate - 1 < 14" | "rate - 1 = 14" | "14 < rate - 1" by linarith
    then show ?thesis
    proof cases
      case 1
      then have "(2 :: nat) ^ (rate - 1) \<le> 2 ^ 13" by (intro power_increasing) simp_all
      then have "(32768 :: nat) div 2 ^ 13 \<le> 32768 div 2 ^ (rate - 1)" by (intro div_le_mono2) simp_all
      with r(2) show ?thesis by simp
    next
      case 3
      then have "(2 :: nat) ^ 15 \<le> 2 ^ (rate - 1)" by (intro power_increasing) simp_all
      then have "(32768 :: nat) div 2 ^ (rate - 1) \<le> 32768 div 2 ^ 15" by (intro div_le_mono2) simp_all
      with r(2) show ?thesis by simp
    qed
  qed
  then have "rate = 15" by simp
  with r show ?thesis by auto
qed

text \<open>A blocking read returns 0 at the first clock interrupt that arrives after the call, with
  the clock acknowledged, and waits as long as only other interrupts arrive.\<close>

theorem rtc_read_waits_for_clock:
  assumes "\<And>h t. h \<in> set hs \<Longrightarrow> rtc_interrupt_occured (h t) = rtc_interrupt_occured t"
  shows "rtc_read hs s = None \<and>
    rtc_read (hs @ idt_rtc_irq_handler # hs') s =
      Some (0, idt_rtc_irq_handler (fold (\<lambda>h. h) hs (s\<lparr>rtc_interrupt_occured := 0\<rparr>)))"
  using spin_never [of "\<lambda>s. rtc_interrupt_occured s \<noteq> 0" "s\<lparr>rtc_interrupt_occured := 0\<rparr>" hs]
    spin_first [of "\<lambda>s. rtc_interrupt_occured s \<noteq> 0" "s\<lparr>rtc_interrupt_occured := 0\<rparr>" hs idt_rtc_irq_handler hs'] assms
  by (simp add: rtc_read_def rtc_spin_def)

theorem rtc_read_waits_for_clock_witness:
  "rtc_read [rtc_io sti] demo_rtc = None \<and>
   rtc_read ([rtc_io sti] @ [idt_rtc_irq_handler]) demo_rtc =
     Some (0, idt_rtc_irq_handler (rtc_io sti (demo_rtc\<lparr>rtc_interrupt_occured := 0\<rparr>)))"
  using rtc_read_waits_for_clock [of "[rtc_io sti]" demo_rtc "[]"] by simp

end
