(* ===== verification/Lib_String.thy ===== *)
theory Lib_String
  imports Prelude
begin

text \<open>
  The string routines of \<open>lib.c\<close>: \<open>strlen\<close>, \<open>strncmp\<close>, \<open>strcpy\<close>, \<open>strncpy\<close>, \<open>strrev\<close> and \<open>itoa\<close>.
  A source string is a view; a destination is any buffer with a store operation, so the same
  definition serves arrays of fixed size (where a store can be out of bounds) and memory. The
  locale \<open>byte_buffer\<close> is the contract a destination has to meet.

  Loop counters run over \<open>nat\<close>: an \<open>int32_t\<close> or \<open>uint32_t\<close> counter only passes \<open>2 ^ 32\<close> when no
  terminator exists at any address, and then the loop does not end in either reading.
\<close>

section \<open>strlen\<close>

partial_function (option) strlen_from :: "byte_view \<Rightarrow> nat \<Rightarrow> nat option" where
  "strlen_from s len =
     (case s len of
        None \<Rightarrow> None
      | Some c \<Rightarrow> if c = 0 then Some len else strlen_from s (len + 1))"

definition strlen :: "byte_view \<Rightarrow> nat option" where
  "strlen s = strlen_from s 0"

text \<open>A view holds the C string \<open>cs\<close>: its bytes, none of them NUL, and then a NUL.\<close>

definition holds_string :: "byte_view \<Rightarrow> u8 list \<Rightarrow> bool" where
  "holds_string s cs \<longleftrightarrow>
     (\<forall>i < length cs. s i = Some (cs ! i)) \<and> 0 \<notin> set cs \<and> s (length cs) = Some 0"

section \<open>strncmp\<close>

text \<open>\<open>char\<close> is signed on this machine, so a byte is compared as \<open>sint\<close>. The loop counter is an
  \<open>int32_t\<close> compared with the unsigned \<open>n\<close>.\<close>

function strncmp_from :: "byte_view \<Rightarrow> byte_view \<Rightarrow> nat \<Rightarrow> nat \<Rightarrow> int option" where
  "strncmp_from s1 s2 n i =
     (if i < n then
        (case (s1 i, s2 i) of
           (Some a, Some b) \<Rightarrow>
             if a \<noteq> b \<or> a = 0 then Some (sint a - sint b) else strncmp_from s1 s2 n (i + 1)
         | _ \<Rightarrow> None)
      else Some 0)"
  by pat_completeness auto
termination
  by (relation "measure (\<lambda>(s1, s2, n, i). n - i)") auto

declare strncmp_from.simps [simp del]

definition strncmp :: "byte_view \<Rightarrow> byte_view \<Rightarrow> nat \<Rightarrow> int option" where
  "strncmp s1 s2 n = strncmp_from s1 s2 n 0"

section \<open>strcpy and strncpy\<close>

partial_function (option) strcpy_from ::
    "('b \<Rightarrow> nat \<Rightarrow> u8 \<Rightarrow> 'b option) \<Rightarrow> byte_view \<Rightarrow> nat \<Rightarrow> 'b \<Rightarrow> 'b option" where
  "strcpy_from wr src i dest =
     (case src i of
        None \<Rightarrow> None
      | Some c \<Rightarrow>
          (if c \<noteq> 0 then Option.bind (wr dest i c) (strcpy_from wr src (i + 1))
           else wr dest i 0))"

definition strcpy :: "('b \<Rightarrow> nat \<Rightarrow> u8 \<Rightarrow> 'b option) \<Rightarrow> 'b \<Rightarrow> byte_view \<Rightarrow> 'b option" where
  "strcpy wr dest src = strcpy_from wr src 0 dest"

text \<open>\<open>while (src[i] != 0 && i < n)\<close>: the byte is read before the bound is tested.\<close>

function zero_from :: "('b \<Rightarrow> nat \<Rightarrow> u8 \<Rightarrow> 'b option) \<Rightarrow> nat \<Rightarrow> nat \<Rightarrow> 'b \<Rightarrow> 'b option" where
  "zero_from wr n i dest =
     (if i < n then Option.bind (wr dest i 0) (zero_from wr n (i + 1)) else Some dest)"
  by pat_completeness auto
termination
  by (relation "measure (\<lambda>(wr, n, i, dest). n - i)") auto

function strncpy_from ::
    "('b \<Rightarrow> nat \<Rightarrow> u8 \<Rightarrow> 'b option) \<Rightarrow> byte_view \<Rightarrow> nat \<Rightarrow> nat \<Rightarrow> 'b \<Rightarrow> 'b option" where
  "strncpy_from wr src n i dest =
     (case src i of
        None \<Rightarrow> None
      | Some c \<Rightarrow>
          (if c \<noteq> 0 \<and> i < n then
             (case wr dest i c of None \<Rightarrow> None | Some d \<Rightarrow> strncpy_from wr src n (i + 1) d)
           else zero_from wr n i dest))"
  by pat_completeness auto
termination
  by (relation "measure (\<lambda>(wr, src, n, i, dest). n - i)") auto

declare zero_from.simps [simp del] strncpy_from.simps [simp del]

definition strncpy :: "('b \<Rightarrow> nat \<Rightarrow> u8 \<Rightarrow> 'b option) \<Rightarrow> 'b \<Rightarrow> byte_view \<Rightarrow> nat \<Rightarrow> 'b option" where
  "strncpy wr dest src n = strncpy_from wr src n 0 dest"

section \<open>strrev and itoa\<close>

text \<open>In-place reversal by two indices that meet; \<open>beg\<close> and \<open>end\<close> are signed.\<close>

function strrev_loop :: "u8 list \<Rightarrow> int \<Rightarrow> int \<Rightarrow> u8 list" where
  "strrev_loop s b e =
     (if b < e then
        strrev_loop (s[nat e := s ! nat b, nat b := s ! nat e]) (b + 1) (e - 1)
      else s)"
  by pat_completeness auto
termination
  by (relation "measure (\<lambda>(s, b, e). nat (e - b))") auto

declare strrev_loop.simps [simp del]

definition strrev :: "u8 list \<Rightarrow> u8 list option" where
  "strrev s = map_option (\<lambda>len. strrev_loop s 0 (int len - 1)) (strlen (list_view s))"

definition lookup :: "u8 list" where
  "lookup = map (\<lambda>c. of_nat (of_char c)) ''0123456789ABCDEFGHIJKLMNOPQRSTUVWXYZ''"

text \<open>
  The digit loop: lowest digit first into \<open>*newbuf++\<close>. The destination is an array of fixed size; a
  radix below 2 would divide by zero or never end, and one above 36 would read past \<open>lookup\<close>.
\<close>

function itoa_digits :: "nat \<Rightarrow> u8 list \<Rightarrow> nat \<Rightarrow> nat \<Rightarrow> (u8 list \<times> nat) option" where
  "itoa_digits radix buf pos newval =
     (if newval > 0 then
        (if radix < 2 \<or> radix > 36 then None
         else (case store buf pos (lookup ! (newval mod radix)) of
                 None \<Rightarrow> None
               | Some buf' \<Rightarrow> itoa_digits radix buf' (pos + 1) (newval div radix)))
      else Some (buf, pos))"
  by pat_completeness auto
termination
  by (relation "measure (\<lambda>(radix, buf, pos, newval). newval)") auto

declare itoa_digits.simps [simp del]

definition itoa :: "u32 \<Rightarrow> u8 list \<Rightarrow> nat \<Rightarrow> u8 list option" where
  "itoa value buf radix =
     (if value = 0 then Option.bind (store buf 0 0x30) (\<lambda>buf. store buf 1 0)
      else Option.bind (itoa_digits radix buf 0 (unat value)) (\<lambda>(buf, pos).
           Option.bind (store buf pos 0) strrev))"

section \<open>Facts on strlen\<close>

lemma strlen_from_string:
  assumes "holds_string s cs" "i \<le> length cs"
  shows "strlen_from s i = Some (length cs)"
  using assms(2)
proof (induction "length cs - i" arbitrary: i)
  case 0
  then have "i = length cs" by simp
  with assms(1) show ?case by (subst strlen_from.simps) (simp add: holds_string_def)
next
  case (Suc k)
  then have i: "i < length cs" and "k = length cs - (i + 1)" by simp_all
  with Suc.hyps(1) [of "i + 1"] have "strlen_from s (i + 1) = Some (length cs)" by simp
  moreover from assms(1) i have "s i = Some (cs ! i)" "cs ! i \<noteq> 0"
    by (auto simp: holds_string_def) (metis nth_mem)
  ultimately show ?case by (subst strlen_from.simps) simp
qed

lemma strlen_string: "holds_string s cs \<Longrightarrow> strlen s = Some (length cs)"
  by (simp add: strlen_def strlen_from_string)

lemma strlen_from_Some:
  assumes "strlen_from s i = Some n"
  shows "i \<le> n \<and> s n = Some 0 \<and> (\<forall>j. i \<le> j \<and> j < n \<longrightarrow> (\<exists>c. s j = Some c \<and> c \<noteq> 0))"
proof (rule strlen_from.raw_induct
    [where P = "\<lambda>s i n. i \<le> n \<and> s n = Some 0 \<and> (\<forall>j. i \<le> j \<and> j < n \<longrightarrow> (\<exists>c. s j = Some c \<and> c \<noteq> 0))",
     OF _ assms])
  fix f s and i n :: nat
  assume IH: "\<And>s i n. f s i = Some n \<Longrightarrow>
      i \<le> n \<and> s n = Some 0 \<and> (\<forall>j. i \<le> j \<and> j < n \<longrightarrow> (\<exists>c. s j = Some c \<and> c \<noteq> 0))"
    and eq: "(case s i of None \<Rightarrow> None | Some c \<Rightarrow> if c = (0 :: u8) then Some i else f s (i + 1)) = Some n"
  show "i \<le> n \<and> s n = Some 0 \<and> (\<forall>j. i \<le> j \<and> j < n \<longrightarrow> (\<exists>c. s j = Some c \<and> c \<noteq> 0))"
  proof (cases "s i = Some 0")
    case True
    with eq show ?thesis by auto
  next
    case False
    with eq obtain c where c: "s i = Some c" "c \<noteq> 0" "f s (i + 1) = Some n"
      by (auto split: option.splits if_splits)
    from IH [OF c(3)] have "i + 1 \<le> n" "s n = Some 0"
      and "\<And>j. i + 1 \<le> j \<Longrightarrow> j < n \<Longrightarrow> \<exists>c. s j = Some c \<and> c \<noteq> 0" by auto
    with c(1,2) show ?thesis by (auto simp: le_less_Suc_eq) (metis le_neq_implies_less Suc_leI)
  qed
qed

text \<open>The string a terminating \<open>strlen\<close> has run over.\<close>

lemma strlen_Some_string:
  assumes "strlen s = Some n"
  shows "holds_string s (map (\<lambda>i. the (s i)) [0..<n])"
  using strlen_from_Some [of s 0 n] assms by (fastforce simp: strlen_def holds_string_def)

lemma holds_string_unique: "holds_string s cs \<Longrightarrow> holds_string s ds \<Longrightarrow> cs = ds"
proof -
  assume a: "holds_string s cs" and b: "holds_string s ds"
  then have "Some (length cs) = Some (length ds)" by (metis strlen_string)
  then have "length cs = length ds" by simp
  moreover have "cs ! i = ds ! i" if "i < length cs" for i
    using that calculation a b by (metis holds_string_def option.inject)
  ultimately show "cs = ds" by (rule nth_equalityI)
qed

lemma holds_string_nonzero: "holds_string s cs \<Longrightarrow> i < length cs \<Longrightarrow> s i = Some (cs ! i) \<and> cs ! i \<noteq> 0"
  by (auto simp: holds_string_def) (metis nth_mem)

lemma holds_string_list:
  assumes "0 \<notin> set cs" "length cs < length b" "take (length cs + 1) b = cs @ [0]"
  shows "holds_string (list_view b) cs"
proof -
  have "b ! i = (cs @ [0]) ! i" if "i < length cs + 1" for i
    using that assms(3) by (metis nth_take)
  then show ?thesis using assms(1,2) by (auto simp: holds_string_def nth_append)
qed

section \<open>Facts on strncmp\<close>

lemma strncmp_from_prefix:
  assumes "\<And>i. i < n \<Longrightarrow> \<exists>c. s1 i = Some c \<and> c \<noteq> 0"
    and "\<And>i. i < n \<Longrightarrow> \<exists>c. s2 i = Some c"
  shows "\<exists>r. strncmp_from s1 s2 n k = Some r \<and> (r = 0 \<longleftrightarrow> (\<forall>i. k \<le> i \<and> i < n \<longrightarrow> s1 i = s2 i))"
proof (induction "n - k" arbitrary: k)
  case 0
  then show ?case by (subst strncmp_from.simps) auto
next
  case (Suc d)
  then have k: "k < n" and d: "d = n - (k + 1)" by simp_all
  obtain a b where ab: "s1 k = Some a" "a \<noteq> 0" "s2 k = Some b" using assms k by metis
  have split: "(\<forall>i. k \<le> i \<and> i < n \<longrightarrow> s1 i = s2 i) \<longleftrightarrow>
      s1 k = s2 k \<and> (\<forall>i. k + 1 \<le> i \<and> i < n \<longrightarrow> s1 i = s2 i)"
    using k by (auto simp: order_le_less) (metis Suc_lessI)
  show ?case
  proof (cases "a = b")
    case True
    obtain r where "strncmp_from s1 s2 n (k + 1) = Some r"
      "r = 0 \<longleftrightarrow> (\<forall>i. k + 1 \<le> i \<and> i < n \<longrightarrow> s1 i = s2 i)"
      using Suc.hyps(1) [OF d] by blast
    then show ?thesis using ab k True unfolding split by (subst strncmp_from.simps) simp
  next
    case False
    then have "sint a - sint b \<noteq> 0" by (auto dest: signed_word_eqI)
    with False ab k show ?thesis unfolding split by (subst strncmp_from.simps) simp
  qed
qed

lemma strncmp_prefix:
  assumes "\<And>i. i < n \<Longrightarrow> \<exists>c. s1 i = Some c \<and> c \<noteq> 0" and "\<And>i. i < n \<Longrightarrow> \<exists>c. s2 i = Some c"
  shows "\<exists>r. strncmp s1 s2 n = Some r \<and> (r = 0 \<longleftrightarrow> (\<forall>i<n. s1 i = s2 i))"
  using strncmp_from_prefix [where k = 0, OF assms] by (simp add: strncmp_def)

text \<open>The reference comparison of two byte strings: zero when the first \<open>n\<close> bytes agree, otherwise the
  signed difference at the first position where they do not (a missing byte counts as NUL).\<close>

fun strncmp_list :: "u8 list \<Rightarrow> u8 list \<Rightarrow> nat \<Rightarrow> int" where
  "strncmp_list cs ds 0 = 0"
| "strncmp_list [] [] (Suc n) = 0"
| "strncmp_list [] (d # ds) (Suc n) = - sint d"
| "strncmp_list (c # cs) [] (Suc n) = sint c"
| "strncmp_list (c # cs) (d # ds) (Suc n) = (if c = d then strncmp_list cs ds n else sint c - sint d)"

lemma strncmp_list_zero_iff:
  "0 \<notin> set cs \<Longrightarrow> 0 \<notin> set ds \<Longrightarrow> strncmp_list cs ds n = 0 \<longleftrightarrow> take n cs = take n ds"
  by (induction cs ds n rule: strncmp_list.induct) (auto simp: signed_eq_0_iff dest: signed_word_eqI)

lemma holds_string_at:
  assumes "holds_string s (xs @ cs)"
  shows "s (length xs) = Some (case cs of [] \<Rightarrow> 0 | c # _ \<Rightarrow> c)"
    and "cs \<noteq> [] \<Longrightarrow> hd cs \<noteq> 0"
  using assms by (auto simp: holds_string_def nth_append neq_Nil_conv split: list.splits)

lemma strncmp_from_list:
  assumes "holds_string s1 (xs @ cs)" "holds_string s2 (xs @ ds)"
  shows "strncmp_from s1 s2 (length xs + n) (length xs) = Some (strncmp_list cs ds n)"
  using assms
proof (induction cs ds n arbitrary: xs rule: strncmp_list.induct)
  case (5 c cs d ds n)
  then have at: "s1 (length xs) = Some c" "s2 (length xs) = Some d" "c \<noteq> 0"
    using holds_string_at [of s1 xs "c # cs"] holds_string_at [of s2 xs "d # ds"] by simp_all
  show ?case
  proof (cases "c = d")
    case True
    with "5.IH" [of "xs @ [c]"] "5.prems" at show ?thesis
      by (subst strncmp_from.simps) simp
  next
    case False
    with at show ?thesis by (subst strncmp_from.simps) simp
  qed
next
  case (1 cs ds)
  then show ?case by (subst strncmp_from.simps) simp
next
  case (2 n)
  then show ?case using holds_string_at(1) [of s1 xs "[]"] holds_string_at(1) [of s2 xs "[]"]
    by (subst strncmp_from.simps) simp
next
  case (3 d ds n)
  then show ?case using holds_string_at(1) [of s1 xs "[]"] holds_string_at(1) [of s2 xs "d # ds"]
    by (subst strncmp_from.simps) simp
next
  case (4 c cs n)
  then show ?case using holds_string_at [of s1 xs "c # cs"] holds_string_at(1) [of s2 xs "[]"]
    by (subst strncmp_from.simps) simp
qed

theorem strncmp_strings:
  "holds_string s1 cs \<Longrightarrow> holds_string s2 ds \<Longrightarrow> strncmp s1 s2 n = Some (strncmp_list cs ds n)"
  using strncmp_from_list [of s1 "[]" cs s2 ds n] by (simp add: strncmp_def)

section \<open>Destinations: the byte buffer interface\<close>

text \<open>
  What a copy relies on: a store below the capacity succeeds, keeps the capacity and changes the
  byte it names and no other.
\<close>

locale byte_buffer =
  fixes rd :: "'b \<Rightarrow> byte_view"
    and wr :: "'b \<Rightarrow> nat \<Rightarrow> u8 \<Rightarrow> 'b option"
    and cap :: "'b \<Rightarrow> nat"
  assumes wr_below: "i < cap d \<Longrightarrow> \<exists>d'. wr d i c = Some d' \<and> cap d' = cap d \<and>
      (\<forall>j < cap d. rd d' j = (if j = i then Some c else rd d j))"
begin

text \<open>Both copy loops store byte \<open>f j\<close> at every \<open>j\<close> from \<open>i\<close> up to \<open>n\<close>.\<close>

definition filled :: "'b \<Rightarrow> nat \<Rightarrow> nat \<Rightarrow> (nat \<Rightarrow> u8) \<Rightarrow> 'b \<Rightarrow> bool" where
  "filled d i n f d' \<longleftrightarrow> cap d' = cap d \<and>
     (\<forall>j < cap d. rd d' j = (if i \<le> j \<and> j < n then Some (f j) else rd d j))"

lemma filled_step:
  assumes "i < n" "n \<le> cap d"
  shows "\<exists>d'. wr d i (f i) = Some d' \<and> cap d' = cap d \<and>
    (\<forall>d''. filled d' (i + 1) n f d'' \<longrightarrow> filled d i n f d'')"
proof -
  from assms obtain d' where d': "wr d i (f i) = Some d'" "cap d' = cap d"
      "\<forall>j < cap d. rd d' j = (if j = i then Some (f i) else rd d j)"
    using wr_below [of i d "f i"] by auto
  then have "filled d i n f d''" if "filled d' (i + 1) n f d''" for d''
    using that assms(1) by (auto simp: filled_def)
  with d'(1,2) show ?thesis by blast
qed

lemma filled_refl: "filled d n n f d"
  by (auto simp: filled_def)

lemma zero_from_filled:
  assumes "i \<le> n" "n \<le> cap d"
  shows "\<exists>d'. zero_from wr n i d = Some d' \<and> filled d i n (\<lambda>_. 0) d'"
  using assms
proof (induction "n - i" arbitrary: i d)
  case 0
  then show ?case by (subst zero_from.simps) (auto simp: filled_refl)
next
  case (Suc k)
  then have i: "i < n" and k: "k = n - (i + 1)" by simp_all
  with Suc.prems obtain d' where d': "wr d i 0 = Some d'" "cap d' = cap d"
      "\<forall>d''. filled d' (i + 1) n (\<lambda>_. 0) d'' \<longrightarrow> filled d i n (\<lambda>_. 0) d''"
    using filled_step [of i n d "\<lambda>_. 0"] by auto
  from Suc.hyps(1) [OF k, of d'] i Suc.prems d'(2) obtain d'' where
    "zero_from wr n (i + 1) d' = Some d''" "filled d' (i + 1) n (\<lambda>_. 0) d''" by auto
  with d' i show ?case by (subst zero_from.simps) auto
qed

lemma strcpy_from_filled:
  assumes "holds_string src cs" "i \<le> length cs" "length cs < cap d"
  shows "\<exists>d'. strcpy_from wr src i d = Some d' \<and> filled d i (length cs + 1) (\<lambda>j. (cs @ [0]) ! j) d'"
  using assms(2,3)
proof (induction "length cs - i" arbitrary: i d)
  case 0
  then have i: "i = length cs" by simp
  with assms(1) have "src i = Some 0" by (simp add: holds_string_def)
  moreover obtain d' where "wr d i ((cs @ [0]) ! i) = Some d'"
      "filled d i (length cs + 1) (\<lambda>j. (cs @ [0]) ! j) d'"
    using filled_step [of i "length cs + 1" d "\<lambda>j. (cs @ [0]) ! j"] i 0 filled_refl
    by (metis Suc_eq_plus1 Suc_leI lessI)
  ultimately show ?case using i by (subst strcpy_from.simps) simp
next
  case (Suc k)
  then have i: "i < length cs" and k: "k = length cs - (i + 1)" by simp_all
  then have src: "src i = Some (cs ! i)" "cs ! i \<noteq> 0" using holds_string_nonzero [OF assms(1)] by auto
  obtain d' where d': "wr d i (cs ! i) = Some d'" "cap d' = cap d"
      "\<forall>d''. filled d' (i + 1) (length cs + 1) (\<lambda>j. (cs @ [0]) ! j) d'' \<longrightarrow>
        filled d i (length cs + 1) (\<lambda>j. (cs @ [0]) ! j) d''"
    using filled_step [of i "length cs + 1" d "\<lambda>j. (cs @ [0]) ! j"] i Suc.prems
    by (auto simp: nth_append)
  from Suc.hyps(1) [OF k, of d'] i Suc.prems d'(2) obtain d'' where
    "strcpy_from wr src (i + 1) d' = Some d''"
    "filled d' (i + 1) (length cs + 1) (\<lambda>j. (cs @ [0]) ! j) d''" by auto
  with d' src show ?case by (subst strcpy_from.simps) auto
qed

theorem strcpy_copies:
  assumes "holds_string src cs" "length cs < cap d"
  shows "\<exists>d'. strcpy wr d src = Some d' \<and> cap d' = cap d \<and> holds_string (rd d') cs \<and>
    (\<forall>j < cap d. length cs < j \<longrightarrow> rd d' j = rd d j)"
  using strcpy_from_filled [OF assms(1), of 0 d] assms
  by (auto simp: strcpy_def filled_def holds_string_def nth_append)

lemma strncpy_from_filled:
  assumes "holds_string src cs" "i \<le> length cs" "i \<le> n" "n \<le> cap d"
  shows "\<exists>d'. strncpy_from wr src n i d = Some d' \<and>
    filled d i n (\<lambda>j. if j < length cs then cs ! j else 0) d'"
  using assms(2-4)
proof (induction "length cs - i" arbitrary: i d)
  case 0
  then have i: "i = length cs" by simp
  then have "src i = Some 0" using assms(1) by (simp add: holds_string_def)
  moreover obtain d' where "zero_from wr n i d = Some d'" "filled d i n (\<lambda>_. 0) d'"
    using zero_from_filled 0 by blast
  ultimately show ?case using i by (subst strncpy_from.simps) (auto simp: filled_def)
next
  case (Suc k)
  then have i: "i < length cs" and k: "k = length cs - (i + 1)" by simp_all
  then have src: "src i = Some (cs ! i)" "cs ! i \<noteq> 0" using holds_string_nonzero [OF assms(1)] by auto
  show ?case
  proof (cases "i < n")
    case True
    let ?f = "\<lambda>j. if j < length cs then cs ! j else 0"
    obtain d' where d': "wr d i (cs ! i) = Some d'" "cap d' = cap d"
        "\<forall>d''. filled d' (i + 1) n ?f d'' \<longrightarrow> filled d i n ?f d''"
      using filled_step [of i n d ?f] i True Suc.prems by auto
    from Suc.hyps(1) [OF k, of d'] i True Suc.prems d'(2) obtain d'' where
      "strncpy_from wr src n (i + 1) d' = Some d''" "filled d' (i + 1) n ?f d''" by auto
    with d' src True show ?thesis by (subst strncpy_from.simps) auto
  next
    case False
    with Suc.prems have "n = i" by simp
    then show ?thesis using src
      by (subst strncpy_from.simps, subst zero_from.simps) (auto simp: filled_refl)
  qed
qed

theorem strncpy_copies:
  assumes "holds_string src cs" "n \<le> cap d"
  shows "\<exists>d'. strncpy wr d src n = Some d' \<and> cap d' = cap d \<and>
    (\<forall>j < cap d. rd d' j = (if j < n then Some (if j < length cs then cs ! j else 0) else rd d j))"
  using strncpy_from_filled [OF assms(1), of 0 n d] assms(2)
  by (auto simp: strncpy_def filled_def)

end

text \<open>Arrays of fixed size.\<close>

interpretation array: byte_buffer list_view store length
  by unfold_locales (auto simp: list_view_def store_def)

text \<open>Memory from an address on: as many bytes as the address space has.\<close>

interpretation ram: byte_buffer "\<lambda>m. mem_view m a" "store_mem a"
    "\<lambda>m. if a = 0 then 0 else 2 ^ 32" for a
proof unfold_locales
  fix i d c
  assume "i < (if a = 0 then 0 else 2 ^ 32 :: nat)"
  then have a: "a \<noteq> 0" and i: "i < 2 ^ 32" by (auto split: if_splits)
  show "\<exists>d'. store_mem a d i c = Some d' \<and>
      (if a = 0 then 0 else 2 ^ 32 :: nat) = (if a = 0 then 0 else 2 ^ 32) \<and>
      (\<forall>j < (if a = 0 then 0 else 2 ^ 32). mem_view d' a j = (if j = i then Some c else mem_view d a j))"
    using a i offset_eq_iff [of _ i a] by (auto simp: store_mem_def)
qed

text \<open>On an array, \<open>strcpy\<close> either fits with its terminator or runs over the end.\<close>

lemma list_view_inj: "length b = length b' \<Longrightarrow> (\<And>i. i < length b \<Longrightarrow> list_view b i = list_view b' i) \<Longrightarrow> b = b'"
  by (rule nth_equalityI) auto

lemma strcpy_array_fits:
  assumes "holds_string src cs" "length cs < length b"
  shows "strcpy store b src = Some (cs @ 0 # drop (length cs + 1) b)"
proof -
  obtain b' where b': "strcpy store b src = Some b'" "length b' = length b"
      "holds_string (list_view b') cs" "\<forall>j < length b. length cs < j \<longrightarrow> list_view b' j = list_view b j"
    using array.strcpy_copies [OF assms] by blast
  have "list_view b' i = list_view (cs @ 0 # drop (length cs + 1) b) i" if "i < length b'" for i
    using that b' assms(2) by (cases "length cs < i") (auto simp: holds_string_def nth_append nth_Cons')
  then have "b' = cs @ 0 # drop (length cs + 1) b"
    using b'(2) assms(2) by (intro list_view_inj) auto
  with b'(1) show ?thesis by simp
qed

lemma strcpy_array_overrun:
  assumes "holds_string src cs" "i \<le> length b" "length b \<le> length cs"
  shows "strcpy_from store src i b = None"
  using assms(2,3)
proof (induction "length b - i" arbitrary: i b)
  case 0
  then have i: "i = length b" by simp
  show ?case
  proof (cases "i = length cs")
    case True
    then show ?thesis using assms(1) i by (subst strcpy_from.simps) (simp add: holds_string_def)
  next
    case False
    then have "src i = Some (cs ! i)" "cs ! i \<noteq> 0"
      using holds_string_nonzero [OF assms(1), of i] i 0 by simp_all
    then show ?thesis using i by (subst strcpy_from.simps) simp
  qed
next
  case (Suc k)
  then have i: "i < length b" and "src i = Some (cs ! i)" "cs ! i \<noteq> 0"
    using holds_string_nonzero [OF assms(1), of i] by simp_all
  moreover have "strcpy_from store src (i + 1) (b[i := cs ! i]) = None"
    by (rule Suc.hyps(1)) (use Suc i in auto)
  ultimately show ?case by (subst strcpy_from.simps) simp
qed

theorem strcpy_array:
  assumes "holds_string src cs"
  shows "strcpy store b src =
    (if length cs < length b then Some (cs @ 0 # drop (length cs + 1) b) else None)"
  using strcpy_array_fits [OF assms] strcpy_array_overrun [OF assms, of 0 b] by (simp add: strcpy_def)

section \<open>strrev reverses in place\<close>

lemma strrev_loop_nth:
  assumes "0 \<le> b" "e < int (length s)"
  shows "length (strrev_loop s b e) = length s \<and> (\<forall>k < length s. strrev_loop s b e ! k =
    (if b \<le> int k \<and> int k \<le> e then s ! nat (b + e - int k) else s ! k))"
  using assms
proof (induction s b e rule: strrev_loop.induct)
  case (1 s b e)
  show ?case
  proof (cases "b < e")
    case True
    let ?s = "s[nat e := s ! nat b, nat b := s ! nat e]"
    have IH: "length (strrev_loop ?s (b + 1) (e - 1)) = length s"
      "\<And>k. k < length s \<Longrightarrow> strrev_loop ?s (b + 1) (e - 1) ! k =
        (if b + 1 \<le> int k \<and> int k \<le> e - 1 then ?s ! nat (b + e - int k) else ?s ! k)"
      using "1.IH" [OF True] "1.prems" by auto
    have "strrev_loop s b e ! k = (if b \<le> int k \<and> int k \<le> e then s ! nat (b + e - int k) else s ! k)"
      if k: "k < length s" for k
    proof -
      consider "int k = b" | "int k = e" | "b + 1 \<le> int k \<and> int k \<le> e - 1" | "int k < b \<or> e < int k"
        by linarith
      then show ?thesis
        using True k "1.prems" IH(2) [OF k]
        by cases (subst strrev_loop.simps, auto simp: nth_list_update)+
    qed
    then show ?thesis using IH(1) True by (subst (1) strrev_loop.simps) auto
  next
    case False
    then show ?thesis
      by (subst (1 2) strrev_loop.simps) (auto intro!: arg_cong [where f = "(!) s"])
  qed
qed

theorem strrev_reverses:
  assumes "holds_string (list_view s) cs"
  shows "strrev s = Some (rev cs @ drop (length cs) s)"
proof -
  let ?r = "strrev_loop s 0 (int (length cs) - 1)"
  have len: "length cs < length s" and cs: "\<And>i. i < length cs \<Longrightarrow> s ! i = cs ! i"
    using assms by (auto simp: holds_string_def list_view_def split: if_splits)
  have r: "length ?r = length s" "\<And>k. k < length s \<Longrightarrow> ?r ! k =
      (if int k \<le> int (length cs) - 1 then s ! nat (int (length cs) - 1 - int k) else s ! k)"
    using strrev_loop_nth [of 0 "int (length cs) - 1" s] len by auto
  have "?r = rev cs @ drop (length cs) s"
  proof (rule nth_equalityI)
    fix k assume k: "k < length ?r"
    show "?r ! k = (rev cs @ drop (length cs) s) ! k"
    proof (cases "k < length cs")
      case True
      then have "nat (int (length cs) - 1 - int k) = length cs - Suc k" by simp
      then show ?thesis using True r len cs by (simp add: nth_append rev_nth)
    next
      case False
      then show ?thesis using k r len by (simp add: nth_append)
    qed
  qed (use r len in simp)
  then show ?thesis by (simp add: strrev_def strlen_string [OF assms])
qed

section \<open>itoa prints the number\<close>

text \<open>The digits of a number, most significant first, and the value they stand for.\<close>

fun radix_digits :: "nat \<Rightarrow> nat \<Rightarrow> nat list" where
  "radix_digits r n = (if n = 0 \<or> r < 2 then [] else radix_digits r (n div r) @ [n mod r])"

declare radix_digits.simps [simp del]

definition digit_value :: "u8 \<Rightarrow> nat" where
  "digit_value c = (if c \<le> 0x39 then unat c - 0x30 else unat c - 0x37)"

definition parse_radix :: "nat \<Rightarrow> u8 list \<Rightarrow> nat" where
  "parse_radix r cs = foldl (\<lambda>v c. v * r + digit_value c) 0 cs"

lemma length_lookup [simp]: "length lookup = 36"
  by (simp add: lookup_def)

lemma lookup_bytes:
  "lookup = [0x30, 0x31, 0x32, 0x33, 0x34, 0x35, 0x36, 0x37, 0x38, 0x39, 0x41, 0x42, 0x43, 0x44,
     0x45, 0x46, 0x47, 0x48, 0x49, 0x4A, 0x4B, 0x4C, 0x4D, 0x4E, 0x4F, 0x50, 0x51, 0x52, 0x53, 0x54,
     0x55, 0x56, 0x57, 0x58, 0x59, 0x5A]"
  by (simp add: lookup_def)

lemma lookup_all: "0 \<notin> set lookup \<and> map digit_value lookup = [0..<36]"
  by (simp add: lookup_bytes digit_value_def upt_rec)

lemma lookup_digit:
  assumes "k < 36"
  shows "lookup ! k \<noteq> 0" "digit_value (lookup ! k) = k"
proof -
  show "lookup ! k \<noteq> 0" using lookup_all assms by (metis length_lookup nth_mem)
  have "map digit_value lookup ! k = k" using lookup_all assms by simp
  then show "digit_value (lookup ! k) = k" using assms by simp
qed

lemma radix_digits_small: "2 \<le> r \<Longrightarrow> d \<in> set (radix_digits r n) \<Longrightarrow> d < r"
proof (induction r n rule: radix_digits.induct)
  case (1 r n)
  then show ?case by (cases "n = 0") (auto simp: radix_digits.simps [of r n] radix_digits.simps [of r 0])
qed

lemma parse_radix_digits:
  assumes "2 \<le> r" "r \<le> 36"
  shows "parse_radix r (map (nth lookup) (radix_digits r n)) = n"
  using assms
proof (induction r n rule: radix_digits.induct)
  case (1 r n)
  show ?case
  proof (cases "n = 0")
    case True
    then show ?thesis by (subst radix_digits.simps) (simp add: parse_radix_def)
  next
    case False
    with 1 have "parse_radix r (map (nth lookup) (radix_digits r (n div r))) = n div r" by simp
    moreover have "n mod r < 36" using "1.prems" by (metis less_le_trans mod_less_divisor not_numeral_le_zero gr0I)
    ultimately show ?thesis using False "1.prems" lookup_digit(2)
      by (subst radix_digits.simps) (simp add: parse_radix_def)
  qed
qed

definition numeral_text :: "nat \<Rightarrow> nat \<Rightarrow> u8 list" where
  "numeral_text r n = (if n = 0 then [0x30] else map (nth lookup) (radix_digits r n))"

lemma parse_numeral_text: "2 \<le> r \<Longrightarrow> r \<le> 36 \<Longrightarrow> parse_radix r (numeral_text r n) = n"
  by (simp add: numeral_text_def parse_radix_digits) (simp add: parse_radix_def digit_value_def)

lemma numeral_text_nonzero:
  assumes "2 \<le> r" "r \<le> 36"
  shows "0 \<notin> set (numeral_text r n)"
proof -
  have "lookup ! d \<noteq> 0" if "d \<in> set (radix_digits r n)" for d
    using radix_digits_small [OF assms(1) that] lookup_digit(1) [of d] assms(2) by simp
  then show ?thesis by (auto simp: numeral_text_def)
qed

lemma itoa_digits_eq:
  fixes r v pos buf
  defines "D \<equiv> map (nth lookup) (radix_digits r v)"
  assumes "2 \<le> r" "r \<le> 36" "pos + length D \<le> length buf"
  shows "itoa_digits r buf pos v = Some (take pos buf @ rev D @ drop (pos + length D) buf, pos + length D)"
  using assms(2-4) unfolding D_def
proof (induction r buf pos v rule: itoa_digits.induct)
  case (1 r buf pos v)
  show ?case
  proof (cases "v = 0")
    case True
    then show ?thesis by (subst itoa_digits.simps) (simp add: radix_digits.simps)
  next
    case False
    let ?D = "map (nth lookup) (radix_digits r (v div r))" and ?c = "lookup ! (v mod r)"
    have D: "map (nth lookup) (radix_digits r v) = ?D @ [?c]"
      using False "1.prems" by (subst radix_digits.simps) simp
    then have pos: "pos < length buf" "pos + 1 + length ?D \<le> length buf" using "1.prems" by simp_all
    have "itoa_digits r (buf[pos := ?c]) (pos + 1) (v div r) =
        Some (take (pos + 1) (buf[pos := ?c]) @ rev ?D @ drop (pos + 1 + length ?D) (buf[pos := ?c]),
          pos + 1 + length ?D)"
      by (rule "1.IH") (use False "1.prems" pos in auto)
    moreover have "take (pos + 1) (buf[pos := ?c]) = take pos buf @ [?c]"
      using pos(1) by (simp add: take_Suc_conv_app_nth)
    ultimately show ?thesis using False "1.prems" pos unfolding D
      by (subst itoa_digits.simps) simp
  qed
qed

theorem itoa_text:
  assumes "2 \<le> r" "r \<le> 36" "length (numeral_text r (unat v)) < length buf"
  shows "\<exists>b. itoa v buf r = Some b \<and> length b = length buf \<and>
    holds_string (list_view b) (numeral_text r (unat v))"
proof (cases "v = 0")
  case True
  then have "1 < length buf" using assms(3) by (simp add: numeral_text_def)
  then show ?thesis using True
    by (auto simp: itoa_def numeral_text_def holds_string_def store_def list_view_def)
next
  case False
  let ?D = "numeral_text r (unat v)"
  have D: "?D = map (nth lookup) (radix_digits r (unat v))" using False by (simp add: numeral_text_def unsigned_eq_0_iff)
  let ?b = "rev ?D @ 0 # drop (length ?D + 1) buf"
  have dig: "itoa_digits r buf 0 (unat v) = Some (rev ?D @ drop (length ?D) buf, length ?D)"
    using itoa_digits_eq [OF assms(1,2), of 0 "unat v" buf] assms(3) by (simp add: D)
  have st: "store (rev ?D @ drop (length ?D) buf) (length ?D) 0 = Some ?b"
    using assms(3) by (simp add: store_def list_update_append flip: Cons_nth_drop_Suc)
  have "holds_string (list_view ?b) (rev ?D)"
    by (rule holds_string_list) (use numeral_text_nonzero [OF assms(1,2)] in auto)
  then have "strrev ?b = Some (?D @ 0 # drop (length ?D + 1) buf)"
    by (simp add: strrev_reverses)
  moreover have "holds_string (list_view (?D @ 0 # drop (length ?D + 1) buf)) ?D"
    by (rule holds_string_list) (use numeral_text_nonzero [OF assms(1,2)] in auto)
  ultimately show ?thesis using False dig st assms(3) by (simp add: itoa_def)
qed

text \<open>How many digits a 32-bit value has, so that the buffers of \<open>printf\<close> are large enough.\<close>

lemma length_radix_digits:
  assumes "2 \<le> r" "n < r ^ k"
  shows "length (radix_digits r n) \<le> k"
  using assms
proof (induction r n arbitrary: k rule: radix_digits.induct)
  case (1 r n)
  show ?case
  proof (cases "n = 0")
    case True
    then show ?thesis by (subst radix_digits.simps) simp
  next
    case False
    with "1.prems" obtain k' where k: "k = Suc k'" by (cases k) auto
    with "1.prems" have "n div r < r ^ k'" by (simp add: less_mult_imp_div_less mult.commute)
    with 1 False k show ?thesis by (subst radix_digits.simps) simp
  qed
qed

lemma length_numeral_text:
  "length (numeral_text 10 (unat (v :: u32))) \<le> 10" "length (numeral_text 16 (unat v)) \<le> 8"
proof -
  have v: "unat v < 2 ^ 32" by (rule order.strict_trans2 [OF unsigned_less]) simp
  then have "length (radix_digits 10 (unat v)) \<le> 10" "length (radix_digits 16 (unat v)) \<le> 8"
    by (intro length_radix_digits; simp)+
  then show "length (numeral_text 10 (unat v)) \<le> 10" "length (numeral_text 16 (unat v)) \<le> 8"
    by (simp_all add: numeral_text_def)
qed

section \<open>Correctness\<close>

text \<open>C40: \<open>strlen\<close> returns a length exactly when the pointer reaches a NUL, and then it is the
  number of bytes before it.\<close>

theorem strlen_correct: "strlen s = Some n \<longleftrightarrow> (\<exists>cs. holds_string s cs \<and> length cs = n)"
  using strlen_string strlen_Some_string [of s n] by force

text \<open>\<open>strncmp\<close> compares at most \<open>n\<close> bytes: it returns 0 exactly when the two strings
  agree on their first \<open>n\<close> bytes, and otherwise the signed difference at the first place they differ.\<close>

theorem strncmp_correct:
  assumes "holds_string s1 cs" "holds_string s2 ds"
  shows "strncmp s1 s2 n = Some (strncmp_list cs ds n) \<and>
    (strncmp s1 s2 n = Some 0 \<longleftrightarrow> take n cs = take n ds)"
  using strncmp_strings [OF assms] strncmp_list_zero_iff [of cs ds n] assms by (simp add: holds_string_def)

theorem strncmp_correct_witness:
  "strncmp (list_view [0x61, 0x62, 0]) (list_view [0x61, 0x63, 0]) 2 = Some (- 1) \<and>
   strncmp (list_view [0x61, 0x62, 0]) (list_view [0x61, 0x63, 0]) 1 = Some 0"
proof -
  have "holds_string (list_view [0x61, 0x62, 0]) [0x61, 0x62 :: u8]"
    "holds_string (list_view [0x61, 0x63, 0]) [0x61, 0x63 :: u8]" by (rule holds_string_list; simp)+
  note use = strncmp_correct [OF this]
  show ?thesis using use [of 2] use [of 1] by (simp add: numeral_2_eq_2)
qed

text \<open>C39: \<open>strcpy\<close> into an array writes the string and its terminator and leaves the rest of the
  array alone when both fit, and runs over the end of the array otherwise.\<close>

theorem strcpy_fits_or_overruns:
  assumes "holds_string src cs"
  shows "strcpy store b src =
    (if length cs < length b then Some (cs @ 0 # drop (length cs + 1) b) else None)"
  using assms by (rule strcpy_array)

theorem strcpy_fits_or_overruns_witness:
  "strcpy store [1, 2, 3] (list_view [0x61, 0]) = Some [0x61, 0, 3] \<and>
   strcpy store [1] (list_view [0x61, 0]) = None"
proof -
  have "holds_string (list_view [0x61, 0]) [0x61 :: u8]" by (rule holds_string_list) simp_all
  note use = strcpy_fits_or_overruns [OF this]
  show ?thesis using use [of "[1, 2, 3]"] use [of "[1]"] by simp
qed

text \<open>\<open>strncpy\<close> into memory writes exactly \<open>n\<close> bytes: the string cut to \<open>n\<close>, then zeros.\<close>

theorem strncpy_writes_n_bytes:
  assumes "holds_string src cs" "a \<noteq> 0" "n \<le> 2 ^ 32"
  shows "strncpy (store_mem a) m src n = Some (write_bytes m a (take n cs @ replicate (n - length cs) 0))"
proof -
  let ?bs = "take n cs @ replicate (n - length cs) 0"
  obtain m' where m': "strncpy (store_mem a) m src n = Some m'"
    "\<forall>j < 2 ^ 32. mem_view m' a j =
       (if j < n then Some (if j < length cs then cs ! j else 0) else mem_view m a j)"
    using ram.strncpy_copies [where a = a and d = m, OF assms(1), of n] assms(2,3) by auto
  have "m' b = write_bytes m a ?bs b" for b
  proof -
    let ?j = "unat (b - a)"
    have "mem_view m' a ?j = Some (m' b)" "mem_view m a ?j = Some (m b)" using assms(2) by simp_all
    moreover have "?j < 2 ^ 32" by (rule unat_u32_less)
    moreover have "length ?bs = n" by simp
    then have "write_bytes m a ?bs b = (if ?j < n then ?bs ! ?j else m b)"
      using write_bytes_apply [of ?bs m a b] assms(3) by simp
    ultimately show ?thesis using m'(2) by (auto simp: nth_append)
  qed
  with m'(1) show ?thesis by (auto intro: ext)
qed

theorem strncpy_writes_n_bytes_witness:
  "strncpy (store_mem 0x100) (\<lambda>_. 7) (list_view [0x61, 0]) 3 = Some ((\<lambda>_. 7)(0x100 := 0x61, 0x101 := 0, 0x102 := 0))"
proof -
  have "holds_string (list_view [0x61, 0]) [0x61 :: u8]" by (rule holds_string_list) simp_all
  moreover have "replicate 2 (0 :: u8) = [0, 0]" by (simp add: numeral_2_eq_2)
  ultimately show ?thesis using strncpy_writes_n_bytes [of _ "[0x61]" "0x100" 3 "\<lambda>_. 7"] by simp
qed

text \<open>C38: \<open>itoa\<close> writes a NUL-terminated numeral whose value in the given radix is the number it
  was given, and 33 bytes are room enough in every radix of at least 2 for every 32-bit value.\<close>

theorem itoa_round_trip:
  assumes "2 \<le> radix" "radix \<le> 36" "33 \<le> length buf"
  shows "\<exists>b cs. itoa v buf radix = Some b \<and> length b = length buf \<and>
    holds_string (list_view b) cs \<and> parse_radix radix cs = unat v"
proof -
  have "(2 :: nat) ^ 32 \<le> radix ^ 32" using assms(1) by (rule power_mono) simp
  then have "unat v < radix ^ 32" using unat_u32_less [of v] by linarith
  then have "length (radix_digits radix (unat v)) \<le> 32" by (rule length_radix_digits [OF assms(1)])
  then have "length (numeral_text radix (unat v)) < length buf"
    using assms(3) by (simp add: numeral_text_def)
  from itoa_text [OF assms(1,2) this] parse_numeral_text [OF assms(1,2)] show ?thesis by blast
qed

theorem itoa_round_trip_witness:
  "\<exists>b cs. itoa 42 (replicate 33 0) 10 = Some b \<and> length b = 33 \<and>
    holds_string (list_view b) cs \<and> parse_radix 10 cs = 42"
  using itoa_round_trip [of 10 "replicate 33 0" 42] by simp

end
