(* ===== verification/Console.thy ===== *)
theory Console
  imports Rtc Lib_String
begin

text \<open>
  The screen part of \<open>lib.c\<close>: the cursor, output of characters with scrolling, backspace, \<open>puts\<close> and
  \<open>printf\<close>. The state is a record that later components extend, so the
  operations are typed over the record scheme. Video memory is the part of \<open>ram\<close> from 0xB8000 on, two
  bytes per cell. The abstract view is a teletype: 2000 characters and a position.

  \<open>keyboard.c\<close> declares \<open>kb_buffer_position\<close> with eight bits and \<open>lib.c\<close> with 32; the model keeps the
  eight bits both files share.
\<close>

section \<open>State\<close>

abbreviation (input) NUM_COLS :: int where "NUM_COLS \<equiv> 80"
abbreviation (input) NUM_ROWS :: int where "NUM_ROWS \<equiv> 25"
abbreviation (input) ATTRIB :: u8 where "ATTRIB \<equiv> 0x7"
abbreviation (input) VIDEO :: u32 where "VIDEO \<equiv> 0xB8000"
abbreviation (input) OFFSET :: u32 where "OFFSET \<equiv> 0xAF"
abbreviation (input) BUF_SIZE :: nat where "BUF_SIZE \<equiv> 128"
abbreviation (input) CURPORT1 :: u8 where "CURPORT1 \<equiv> 0x0F"
abbreviation (input) CURGGMF1 :: u16 where "CURGGMF1 \<equiv> 0x03D4"
abbreviation (input) THEFOURTH :: u16 where "THEFOURTH \<equiv> 0x03D5"
abbreviation (input) THEFIFTH :: u8 where "THEFIFTH \<equiv> 0x0E"
abbreviation (input) NEWLINE :: u8 where "NEWLINE \<equiv> 0x0A"
abbreviation (input) RETURN :: u8 where "RETURN \<equiv> 0x0D"
abbreviation (input) BLANK :: u8 where "BLANK \<equiv> 0x20"

record con =
  hw :: rtc
  ram :: memory
  screen_x :: int
  screen_y :: int
  enter_tracker :: "u32 list"
  keyboard_buffer :: "u8 list"
  kb_buffer_position :: u8
  enter_flag :: int
  first_scroll_indicator :: u8

definition con_io :: "(machine \<Rightarrow> machine) \<Rightarrow> 'a con_scheme \<Rightarrow> 'a con_scheme" where
  "con_io f = hw_update (rtc_io f)"

text \<open>The address of a cell, \<open>video_mem + ((NUM_COLS * row + col) << 1)\<close>.\<close>

definition cell :: "int \<Rightarrow> int \<Rightarrow> u32" where
  "cell row col = VIDEO + of_int (2 * (NUM_COLS * row + col))"

text \<open>A character and its attribute stored in a cell.\<close>

definition put_cell :: "int \<Rightarrow> int \<Rightarrow> u8 \<Rightarrow> memory \<Rightarrow> memory" where
  "put_cell row col c m = m(cell row col := c, cell row col + 1 := ATTRIB)"

section \<open>Scrolling and the cursor\<close>

definition keyboard_buffer_reset :: "'a con_scheme \<Rightarrow> 'a con_scheme" where
  "keyboard_buffer_reset s =
     s\<lparr>keyboard_buffer := for_to BUF_SIZE (\<lambda>i b. b[i := 0]) (keyboard_buffer s), kb_buffer_position := 0\<rparr>"

definition scroll_video :: "memory \<Rightarrow> memory" where
  "scroll_video m =
     (let m = for_to 24 (\<lambda>row. for_to 80 (\<lambda>col m.
                m(cell (int row) (int col) := m (cell (int row + 1) (int col))))) m
      in for_to 80 (\<lambda>col m. m(cell 24 (int col) := BLANK)) m)"

text \<open>The line buffer after a scroll in text editing mode: the first screen row's part is dropped.\<close>

definition first_enter :: "u8 list \<Rightarrow> nat option" where
  "first_enter b = find (\<lambda>i. b ! i = NEWLINE) [0..<80]"

definition shift_buffer :: "nat \<Rightarrow> u8 list \<Rightarrow> u8 list" where
  "shift_buffer k b = for_to BUF_SIZE (\<lambda>i b. b[i := (if i + k < BUF_SIZE then b ! (i + k) else 0)]) b"

definition scroll_buffers :: "'a con_scheme \<Rightarrow> 'a con_scheme" where
  "scroll_buffers s =
     (let s = (if first_scroll_indicator s = 0 then s\<lparr>first_scroll_indicator := 1\<rparr>
               else case first_enter (keyboard_buffer s) of
                 Some index \<Rightarrow>
                   s\<lparr>keyboard_buffer := shift_buffer (index + 1) (keyboard_buffer s),
                     kb_buffer_position := kb_buffer_position s - (of_nat index + 1)\<rparr>
               | None \<Rightarrow>
                   s\<lparr>keyboard_buffer := shift_buffer 80 (keyboard_buffer s),
                     kb_buffer_position := kb_buffer_position s - 80\<rparr>)
      in s\<lparr>enter_tracker := for_to 25 (\<lambda>i t. t[i := (if i < 24 then t ! (i + 1) else 0)]) (enter_tracker s)\<rparr>)"

definition scrolling :: "'a con_scheme \<Rightarrow> 'a con_scheme" where
  "scrolling s =
     (let s = s\<lparr>ram := scroll_video (ram s)\<rparr>
      in if enter_flag s = -1 then scroll_buffers s else s)"

definition update_cursor :: "u16 \<Rightarrow> u16 \<Rightarrow> 'a con_scheme \<Rightarrow> 'a con_scheme" where
  "update_cursor row col s =
     (let position = row * 80 + col
      in con_io (outb (ucast (drop_bit 8 position AND 0xFF)) THEFOURTH \<circ> outb THEFIFTH CURGGMF1 \<circ>
                 outb (ucast (position AND 0xFF)) THEFOURTH \<circ> outb CURPORT1 CURGGMF1) s)"

definition move_cursor :: "'a con_scheme \<Rightarrow> 'a con_scheme" where
  "move_cursor s = update_cursor (of_int (screen_y s)) (of_int (screen_x s)) s"

section \<open>Characters\<close>

text \<open>A store or load of \<open>enter_tracker\<close> outside its 25 entries has no defined result.\<close>

definition put_at_cursor :: "u8 \<Rightarrow> 'a con_scheme \<Rightarrow> 'a con_scheme" where
  "put_at_cursor c s = s\<lparr>ram := put_cell (screen_y s) (screen_x s) c (ram s)\<rparr>"

definition putc :: "u8 \<Rightarrow> 'a con_scheme \<Rightarrow> 'a con_scheme option" where
  "putc c s = do {
     s \<leftarrow> (if c = NEWLINE \<or> c = RETURN then do {
             t \<leftarrow> store_int (enter_tracker s) (screen_y s) (of_int (screen_x s) + OFFSET);
             let s = s\<lparr>enter_tracker := t\<rparr>;
             Some (if screen_y s = NUM_ROWS - 1 then (scrolling s)\<lparr>screen_x := 0\<rparr>
                   else s\<lparr>screen_y := screen_y s + 1, screen_x := 0\<rparr>)
           } else if screen_x s < NUM_COLS - 1 then
             Some ((put_at_cursor c s)\<lparr>screen_x := screen_x s + 1\<rparr>)
           else if screen_y s < NUM_ROWS - 1 then
             Some ((put_at_cursor c s)\<lparr>screen_x := 0, screen_y := screen_y s + 1\<rparr>)
           else
             let s = scrolling s; s = s\<lparr>screen_y := screen_y s - 1\<rparr>; s = put_at_cursor c s
             in Some (s\<lparr>screen_y := screen_y s + 1, screen_x := 0\<rparr>));
     Some (move_cursor s)
   }"

text \<open>\<open>for (screen_x = NUM_COLS-1; screen_x != x_offset; screen_x--)\<close>: it ends only when \<open>x_offset\<close> is a
  column.\<close>

partial_function (option) erase_back :: "u8 \<Rightarrow> 'a con_scheme \<Rightarrow> 'a con_scheme option" where
  "erase_back x_offset s =
     (if screen_x s \<noteq> uint x_offset
      then erase_back x_offset ((put_at_cursor BLANK s)\<lparr>screen_x := screen_x s - 1\<rparr>)
      else Some s)"

definition back_to_previous_row :: "'a con_scheme \<Rightarrow> 'a con_scheme" where
  "back_to_previous_row s =
     put_at_cursor BLANK (s\<lparr>screen_x := NUM_COLS - 1, screen_y := screen_y s - 1\<rparr>)"

definition backspace :: "'a con_scheme \<Rightarrow> 'a con_scheme option" where
  "backspace s =
     (if screen_y s = 0 \<and> screen_x s = 0 then Some s
      else do {
        s \<leftarrow> (if screen_x s > 0 then Some (put_at_cursor BLANK (s\<lparr>screen_x := screen_x s - 1\<rparr>))
              else if enter_flag s = -1 then
                do {
                  tr \<leftarrow> load_int (enter_tracker s) (screen_y s - 1);
                  if tr \<noteq> 0 then do {
                    let x_offset = (ucast (tr - OFFSET) :: u8);
                    s \<leftarrow> erase_back x_offset (s\<lparr>screen_y := screen_y s - 1, screen_x := NUM_COLS - 1\<rparr>);
                    t \<leftarrow> store_int (enter_tracker s) (screen_y s) 0;
                    Some (s\<lparr>enter_tracker := t\<rparr>)
                  } else Some (back_to_previous_row s)
                }
              else Some (back_to_previous_row s));
        Some (move_cursor s)
      })"

definition clear_video :: "memory \<Rightarrow> memory" where
  "clear_video m = for_to 2000 (\<lambda>i. put_cell 0 (int i) BLANK) m"

definition clear :: "'a con_scheme \<Rightarrow> 'a con_scheme" where
  "clear s = s\<lparr>ram := clear_video (ram s)\<rparr>"

definition reset :: "'a con_scheme \<Rightarrow> 'a con_scheme" where
  "reset s =
     (let s = (clear s)\<lparr>screen_x := 0, screen_y := 0\<rparr>;
          s = s\<lparr>keyboard_buffer := for_to BUF_SIZE (\<lambda>i b. b[i := 0]) (keyboard_buffer s)\<rparr>;
          s = s\<lparr>enter_tracker := for_to 25 (\<lambda>i t. t[i := 0]) (enter_tracker s), kb_buffer_position := 0\<rparr>
      in move_cursor s)"

definition save_current_terminal :: "u8 \<Rightarrow> u8 \<Rightarrow> 'a con_scheme \<Rightarrow> 'a con_scheme" where
  "save_current_terminal term_from term_to s = con_io cli s"

definition x_pos :: "'a con_scheme \<Rightarrow> int" where "x_pos s = screen_x s"
definition y_pos :: "'a con_scheme \<Rightarrow> int" where "y_pos s = screen_y s"

definition update_x :: "int \<Rightarrow> 'a con_scheme \<Rightarrow> 'a con_scheme" where
  "update_x x s =
     (if x < NUM_COLS \<and> x > 0 then s\<lparr>screen_x := x\<rparr>
      else if x < 0 then s\<lparr>screen_x := 0\<rparr> else s\<lparr>screen_x := 79\<rparr>)"

definition update_y :: "int \<Rightarrow> 'a con_scheme \<Rightarrow> 'a con_scheme" where
  "update_y y s =
     (if y < NUM_ROWS \<and> y > 0 then s\<lparr>screen_y := y\<rparr>
      else if y < 0 then s\<lparr>screen_y := 0\<rparr> else s\<lparr>screen_y := 24\<rparr>)"

definition test_interrupts :: "'a con_scheme \<Rightarrow> 'a con_scheme" where
  "test_interrupts s = s\<lparr>ram := for_to 2000 (\<lambda>i m. m(cell 0 (int i) := m (cell 0 (int i)) + 1)) (ram s)\<rparr>"

section \<open>Strings and formats\<close>

partial_function (option) puts_from :: "byte_view \<Rightarrow> nat \<Rightarrow> 'a con_scheme \<Rightarrow> (nat \<times> 'a con_scheme) option" where
  "puts_from v index s =
     (case v index of
        None \<Rightarrow> None
      | Some c \<Rightarrow> if c = 0 then Some (index, s)
                 else Option.bind (putc c s) (puts_from v (index + 1)))"

definition puts :: "byte_view \<Rightarrow> 'a con_scheme \<Rightarrow> (nat \<times> 'a con_scheme) option" where
  "puts v s = puts_from v 0 s"

text \<open>
  The arguments of \<open>printf\<close> are the words the caller has pushed: a number, or a pointer to a string. A
  conversion with no argument left, or a \<open>%\<close> at the end of the format, reads what the caller does not
  provide. The local \<open>conv_buf\<close> is uninitialised; its bytes are given a fixed value here and no byte of
  it is printed before it is written.
\<close>

datatype printf_arg = Num u32 | Str byte_view

definition conv_buf :: "nat \<Rightarrow> u8 list" where
  "conv_buf n = replicate n 0xCC"

definition print_hex :: "u32 \<Rightarrow> 'a con_scheme \<Rightarrow> 'a con_scheme option" where
  "print_hex n s = do {
     b \<leftarrow> itoa n (conv_buf 64) 16;
     map_option snd (puts (list_view b) s)
   }"

definition print_hex8 :: "u32 \<Rightarrow> 'a con_scheme \<Rightarrow> 'a con_scheme option" where
  "print_hex8 n s = do {
     let b = conv_buf 64;
     b' \<leftarrow> itoa n (drop 8 b) 16;
     starting_index \<leftarrow> strlen (list_view b');
     let b = fold (\<lambda>i b. b[i := 0x30]) [starting_index..<8] (take 8 b @ b');
     map_option snd (puts (list_view (drop starting_index b)) s)
   }"

definition print_unsigned :: "u32 \<Rightarrow> 'a con_scheme \<Rightarrow> 'a con_scheme option" where
  "print_unsigned n s = do {
     b \<leftarrow> itoa n (conv_buf 36) 10;
     map_option snd (puts (list_view b) s)
   }"

definition print_signed :: "u32 \<Rightarrow> 'a con_scheme \<Rightarrow> 'a con_scheme option" where
  "print_signed n s = do {
     let b = conv_buf 36;
     b \<leftarrow> (if sint n < 0 then map_option (Cons 0x2D) (itoa (- n) (drop 1 b) 10) else itoa n b 10);
     map_option snd (puts (list_view b) s)
   }"

fun print_arg :: "u8 \<Rightarrow> bool \<Rightarrow> printf_arg list \<Rightarrow> 'a con_scheme \<Rightarrow> (printf_arg list \<times> 'a con_scheme) option" where
  "print_arg c alternate (Num n # args) s =
     map_option (Pair args)
       (if c = 0x78 then (if alternate then print_hex8 n s else print_hex n s)
        else if c = 0x75 then print_unsigned n s
        else if c = 0x64 then print_signed n s
        else if c = 0x63 then putc (ucast n) s
        else None)"
| "print_arg c alternate (Str v # args) s =
     (if c = 0x73 then map_option (\<lambda>(_, s). (args, s)) (puts v s) else None)"
| "print_arg c alternate [] s = None"

fun printf_text :: "u8 list \<Rightarrow> printf_arg list \<Rightarrow> 'a con_scheme \<Rightarrow> 'a con_scheme option"
  and printf_conv :: "bool \<Rightarrow> u8 list \<Rightarrow> printf_arg list \<Rightarrow> 'a con_scheme \<Rightarrow> 'a con_scheme option" where
  "printf_text [] args s = Some s"
| "printf_text (c # cs) args s =
     (if c = 0x25 then printf_conv False cs args s
      else Option.bind (putc c s) (printf_text cs args))"
| "printf_conv alternate [] args s = None"
| "printf_conv alternate (c # cs) args s =
     (if c = 0x25 then Option.bind (putc 0x25 s) (printf_text cs args)
      else if c = 0x23 then printf_conv True cs args s
      else if c \<in> {0x78, 0x75, 0x64, 0x63, 0x73} then
        Option.bind (print_arg c alternate args s) (\<lambda>(args, s). printf_text cs args s)
      else printf_text cs args s)"

definition printf :: "u8 list \<Rightarrow> printf_arg list \<Rightarrow> 'a con_scheme \<Rightarrow> (nat \<times> 'a con_scheme) option" where
  "printf format args s = map_option (Pair (length format)) (printf_text format args s)"

section \<open>Video memory as text\<close>

definition vaddr :: "nat \<Rightarrow> u32" where
  "vaddr i = VIDEO + of_nat (2 * i)"

definition chars :: "memory \<Rightarrow> u8 list" where
  "chars m = map (\<lambda>i. m (vaddr i)) [0..<2000]"

definition attributes :: "memory \<Rightarrow> u8 list" where
  "attributes m = map (\<lambda>i. m (vaddr i + 1)) [0..<2000]"

text \<open>Two memories that agree outside the 4000 bytes of video memory.\<close>

definition same_outside_video :: "memory \<Rightarrow> memory \<Rightarrow> bool" where
  "same_outside_video m m' \<longleftrightarrow> (\<forall>a. \<not> (\<exists>i<2000. a = vaddr i \<or> a = vaddr i + 1) \<longrightarrow> m' a = m a)"

lemma cell_vaddr: "cell (int r) (int c) = vaddr (80 * r + c)"
  by (simp add: cell_def vaddr_def algebra_simps)

lemma cell_vaddr_int: "0 \<le> r \<Longrightarrow> 0 \<le> c \<Longrightarrow> cell r c = vaddr (nat (80 * r + c))"
  using cell_vaddr [of "nat r" "nat c"] by (simp add: nat_add_distrib nat_mult_distrib)

lemma vaddr_eq_iff [simp]: "i < 2000 \<Longrightarrow> j < 2000 \<Longrightarrow> vaddr i = vaddr j \<longleftrightarrow> i = j"
  using offset_eq_iff [of "2 * i" "2 * j" VIDEO] by (simp add: vaddr_def)

lemma vaddr_odd [simp]: "i < 2000 \<Longrightarrow> j < 2000 \<Longrightarrow> vaddr i \<noteq> vaddr j + 1"
    "i < 2000 \<Longrightarrow> j < 2000 \<Longrightarrow> vaddr j + 1 \<noteq> vaddr i"
  using offset_eq_iff [of "2 * i" "2 * j + 1" VIDEO] by (auto simp: vaddr_def algebra_simps) presburger+

lemma length_chars [simp]: "length (chars m) = 2000" "length (attributes m) = 2000"
  by (simp_all add: chars_def attributes_def)

lemma chars_upd:
  assumes "p < 2000"
  shows "chars (m(vaddr p := c)) = (chars m)[p := c]" "chars (m(vaddr p + 1 := c)) = chars m"
    "attributes (m(vaddr p := c)) = attributes m" "attributes (m(vaddr p + 1 := c)) = (attributes m)[p := c]"
  using assms by (auto simp: chars_def attributes_def nth_list_update intro!: nth_equalityI)

lemma put_cell_chars:
  assumes "0 \<le> r" "0 \<le> c" "80 * r + c < 2000"
  shows "chars (put_cell r c x m) = (chars m)[nat (80 * r + c) := x]"
    and "attributes (put_cell r c x m) = (attributes m)[nat (80 * r + c) := 7]"
    and "same_outside_video m (put_cell r c x m)"
  using assms
  by (auto simp: put_cell_def cell_vaddr_int chars_upd same_outside_video_def)

lemma same_outside_refl [simp]: "same_outside_video m m"
  by (simp add: same_outside_video_def)

lemma same_outside_trans: "same_outside_video m m' \<Longrightarrow> same_outside_video m' m'' \<Longrightarrow> same_outside_video m m''"
  by (simp add: same_outside_video_def)

lemma same_outside_upd: "p < 2000 \<Longrightarrow> same_outside_video m m' \<Longrightarrow> same_outside_video m (m'(vaddr p := c))"
  by (auto simp: same_outside_video_def)

text \<open>A loop over rows and columns is one loop over the cells.\<close>

lemma for_to_add: "for_to (n + k) f s = for_to k (\<lambda>i. f (n + i)) (for_to n f s)"
  by (induction k) (simp_all add: for_to_Suc)

lemma for_to_nested: "for_to n (\<lambda>r. for_to k (\<lambda>c. f (k * r + c))) s = for_to (k * n) f s"
proof (induction n)
  case (Suc n)
  have "for_to (k * Suc n) f s = for_to (k * n + k) f s" by (simp add: add.commute)
  with Suc show ?case by (simp add: for_to_Suc for_to_add)
qed simp

lemma scroll_video_rows: "scroll_video m =
    for_to 80 (\<lambda>c m. m(vaddr (1920 + c) := BLANK)) (for_to 1920 (\<lambda>i m. m(vaddr i := m (vaddr (i + 80)))) m)"
proof -
  have c: "cell (int r) (int c) = vaddr (80 * r + c)" "cell (int r + 1) (int c) = vaddr (80 * r + c + 80)"
    "cell 24 (int c) = vaddr (1920 + c)" for r c
    using cell_vaddr [of r c] cell_vaddr [of "r + 1" c] cell_vaddr [of 24 c] by (simp_all add: algebra_simps)
  show ?thesis unfolding scroll_video_def c Let_def
    using for_to_nested [of 24 80 "\<lambda>i m. m(vaddr i := m (vaddr (i + 80)))" m] by simp
qed

lemma scroll_video_spec:
  "chars (scroll_video m) = drop 80 (chars m) @ replicate 80 BLANK"
  "attributes (scroll_video m) = attributes m" "same_outside_video m (scroll_video m)"
proof -
  define m1 where "m1 = for_to 1920 (\<lambda>i m. m(vaddr i := m (vaddr (i + 80)))) m"
  have "(\<forall>i<2000. m1 (vaddr i) = (if i < 1920 then m (vaddr (i + 80)) else m (vaddr i))) \<and>
      (\<forall>i<2000. m1 (vaddr i + 1) = m (vaddr i + 1)) \<and> same_outside_video m m1"
    unfolding m1_def
    by (rule for_to_invariant [where P = "\<lambda>n m1.
        (\<forall>i<2000. m1 (vaddr i) = (if i < n then m (vaddr (i + 80)) else m (vaddr i))) \<and>
        (\<forall>i<2000. m1 (vaddr i + 1) = m (vaddr i + 1)) \<and> same_outside_video m m1"])
      (auto simp: same_outside_video_def less_Suc_eq)
  then have m1: "chars m1 = drop 80 (chars m) @ drop 1920 (chars m)" "attributes m1 = attributes m" "same_outside_video m m1"
    by (auto simp: chars_def attributes_def nth_append add.commute intro!: nth_equalityI)
  define m2 where "m2 = for_to 80 (\<lambda>c m. m(vaddr (1920 + c) := BLANK)) m1"
  have "chars m2 = drop 80 (chars m) @ replicate 80 BLANK @ drop (1920 + 80) (chars m) \<and>
      attributes m2 = attributes m \<and> same_outside_video m m2"
    unfolding m2_def
  proof (rule for_to_invariant [where P = "\<lambda>k t.
      chars t = drop 80 (chars m) @ replicate k BLANK @ drop (1920 + k) (chars m) \<and>
      attributes t = attributes m \<and> same_outside_video m t"])
    fix k t
    assume k: "k < 80" and t: "chars t = drop 80 (chars m) @ replicate k BLANK @ drop (1920 + k) (chars m) \<and>
      attributes t = attributes m \<and> same_outside_video m t"
    have "drop (1920 + k) (chars m) = chars m ! (1920 + k) # drop (1920 + Suc k) (chars m)"
      using k Cons_nth_drop_Suc [of "1920 + k" "chars m"] by simp
    then show "chars (t(vaddr (1920 + k) := BLANK)) = drop 80 (chars m) @ replicate (Suc k) BLANK @ drop (1920 + Suc k) (chars m) \<and>
        attributes (t(vaddr (1920 + k) := BLANK)) = attributes m \<and> same_outside_video m (t(vaddr (1920 + k) := BLANK))"
      using k t by (simp add: chars_upd same_outside_upd list_update_append replicate_app_Cons_same)
  qed (use m1 in simp)
  then show "chars (scroll_video m) = drop 80 (chars m) @ replicate 80 BLANK"
    "attributes (scroll_video m) = attributes m" "same_outside_video m (scroll_video m)"
    by (simp_all add: scroll_video_rows m1_def m2_def)
qed

lemma clear_video_spec:
  "chars (clear_video m) = replicate 2000 BLANK" "attributes (clear_video m) = replicate 2000 ATTRIB"
  "same_outside_video m (clear_video m)"
proof -
  have "chars (for_to k (\<lambda>i. put_cell 0 (int i) BLANK) m) = replicate k BLANK @ drop k (chars m) \<and>
      attributes (for_to k (\<lambda>i. put_cell 0 (int i) BLANK) m) = replicate k ATTRIB @ drop k (attributes m) \<and>
      same_outside_video m (for_to k (\<lambda>i. put_cell 0 (int i) BLANK) m)" if "k \<le> 2000" for k
    using that
  proof (induction k)
    case (Suc k)
    have "drop k (chars m) = chars m ! k # drop (Suc k) (chars m)"
      "drop k (attributes m) = attributes m ! k # drop (Suc k) (attributes m)"
      using Suc.prems by (simp_all add: Cons_nth_drop_Suc)
    with Suc put_cell_chars [where r = 0 and c = "int k" and x = BLANK and m = "for_to k (\<lambda>i. put_cell 0 (int i) BLANK) m"] show ?case
      by (auto simp: for_to_Suc list_update_append replicate_append_same elim: same_outside_trans)
  qed simp
  from this [of 2000] show "chars (clear_video m) = replicate 2000 BLANK"
    "attributes (clear_video m) = replicate 2000 ATTRIB" "same_outside_video m (clear_video m)"
    by (simp_all add: clear_video_def)
qed

section \<open>The teletype\<close>

text \<open>The abstract screen: the 2000 characters and the position of the next one.\<close>

type_synonym tty = "u8 list \<times> nat"

definition tty_scroll :: "u8 list \<Rightarrow> u8 list" where
  "tty_scroll g = drop 80 g @ replicate 80 BLANK"

fun tty_putc :: "u8 \<Rightarrow> tty \<Rightarrow> tty" where
  "tty_putc c (g, p) =
     (if c = NEWLINE \<or> c = RETURN
      then (if p \<ge> 1920 then (tty_scroll g, 1920) else (g, 80 * (p div 80 + 1)))
      else if p = 1999 then (tty_scroll (g[p := c]), 1920)
      else (g[p := c], p + 1))"

definition position :: "'a con_scheme \<Rightarrow> nat" where
  "position s = nat (80 * screen_y s + screen_x s)"

definition tty :: "'a con_scheme \<Rightarrow> tty" where
  "tty s = (chars (ram s), position s)"

definition con_inv :: "'a con_scheme \<Rightarrow> bool" where
  "con_inv s \<longleftrightarrow> 0 \<le> screen_x s \<and> screen_x s < 80 \<and> 0 \<le> screen_y s \<and> screen_y s < 25 \<and>
     length (enter_tracker s) = 25 \<and> length (keyboard_buffer s) = 128"

text \<open>The position the display controller has been given last.\<close>

definition cursor_shown :: "'a con_scheme \<Rightarrow> bool" where
  "cursor_shown s \<longleftrightarrow> (\<exists>es lo hi. io_trace (pic_io (rtc_pic (hw s))) =
       es @ [Out 0x0F 0x3D4, Out lo 0x3D5, Out 0x0E 0x3D4, Out hi 0x3D5] \<and>
       256 * unat hi + unat lo = position s)"

text \<open>What an output operation leaves alone: the memory outside the screen, the interrupt lines, the
  mode and every field of the components built on top.\<close>

definition con_frame :: "'a con_scheme \<Rightarrow> 'a con_scheme \<Rightarrow> bool" where
  "con_frame s s' \<longleftrightarrow> same_outside_video (ram s) (ram s') \<and> con.more s' = con.more s \<and>
     enter_flag s' = enter_flag s \<and> (\<exists>f. hw s' = rtc_io f (hw s)) \<and>
     (enter_flag s \<noteq> -1 \<longrightarrow> keyboard_buffer s' = keyboard_buffer s \<and>
        kb_buffer_position s' = kb_buffer_position s \<and> first_scroll_indicator s' = first_scroll_indicator s)"

lemma rtc_io_comp [simp]: "rtc_io f (rtc_io g s) = rtc_io (f \<circ> g) s"
  by (simp add: rtc_io_def comp_def)

lemma rtc_io_id [simp]: "rtc_io (\<lambda>m. m) s = s"
  by (simp add: rtc_io_def)

lemma rtc_io_some [simp]: "\<exists>f. s = rtc_io f s"
  by (rule exI [of _ "\<lambda>m. m"]) simp

lemma con_frame_refl [simp]: "con_frame s s"
  by (simp add: con_frame_def)

lemma con_frame_trans: "con_frame s s' \<Longrightarrow> con_frame s' s'' \<Longrightarrow> con_frame s s''"
  unfolding con_frame_def by (auto intro: same_outside_trans)

lemma con_io_fields [simp]:
  "ram (con_io f s) = ram s" "screen_x (con_io f s) = screen_x s" "screen_y (con_io f s) = screen_y s"
  "enter_tracker (con_io f s) = enter_tracker s" "keyboard_buffer (con_io f s) = keyboard_buffer s"
  "kb_buffer_position (con_io f s) = kb_buffer_position s" "enter_flag (con_io f s) = enter_flag s"
  "first_scroll_indicator (con_io f s) = first_scroll_indicator s" "con.more (con_io f s) = con.more s"
  "hw (con_io f s) = rtc_io f (hw s)"
  by (simp_all add: con_io_def)

lemma move_cursor_fields [simp]:
  "ram (move_cursor s) = ram s" "screen_x (move_cursor s) = screen_x s" "screen_y (move_cursor s) = screen_y s"
  "enter_tracker (move_cursor s) = enter_tracker s" "keyboard_buffer (move_cursor s) = keyboard_buffer s"
  "kb_buffer_position (move_cursor s) = kb_buffer_position s" "enter_flag (move_cursor s) = enter_flag s"
  "first_scroll_indicator (move_cursor s) = first_scroll_indicator s" "con.more (move_cursor s) = con.more s"
  by (simp_all add: move_cursor_def update_cursor_def Let_def)

lemma move_cursor_simps [simp]:
  "con_inv (move_cursor s) = con_inv s" "tty (move_cursor s) = tty s" "position (move_cursor s) = position s"
  by (simp_all add: con_inv_def tty_def position_def)

lemma move_cursor_frame: "con_frame t s \<Longrightarrow> con_frame t (move_cursor s)"
  by (rule con_frame_trans, assumption)
    (auto simp: con_frame_def move_cursor_def update_cursor_def Let_def)

lemma and_255: "(x :: u16) AND 0xFF = take_bit 8 x"
  by (simp add: take_bit_eq_mask mask_eq_exp_minus_1)

lemma cursor_bytes:
  assumes "p < 2 ^ 16"
  shows "256 * unat (ucast (drop_bit 8 (of_nat p :: u16) AND 0xFF) :: u8) + unat (ucast ((of_nat p :: u16) AND 0xFF) :: u8) = p"
proof -
  have p: "unat (of_nat p :: u16) = p" using assms by (simp add: unat_of_nat take_bit_eq_mod)
  have lo: "unat (ucast ((of_nat p :: u16) AND 0xFF) :: u8) = p mod 256"
  proof -
    have "ucast ((of_nat p :: u16) AND 0xFF) = (of_nat p :: u8)"
      unfolding and_255 by (rule bit_word_eqI) (auto simp: bit_simps)
    then show ?thesis by (simp add: unat_of_nat take_bit_eq_mod)
  qed
  have hi: "unat (ucast (drop_bit 8 (of_nat p :: u16) AND 0xFF) :: u8) = p div 256"
  proof -
    have "ucast (drop_bit 8 (of_nat p :: u16) AND 0xFF) = (ucast (drop_bit 8 (of_nat p :: u16)) :: u8)"
      unfolding and_255 by (rule bit_word_eqI) (auto simp: bit_simps)
    moreover have "unat (ucast (drop_bit 8 (of_nat p :: u16)) :: u8) = (p div 256) mod 256"
      by (simp add: unsigned_ucast_eq take_bit_eq_mod drop_bit_eq_div unat_div p)
    moreover have "p div 256 < 256" using assms by simp
    ultimately show ?thesis by simp
  qed
  show ?thesis unfolding lo hi by simp
qed

lemma position_bound:
  assumes "con_inv s"
  shows "position s < 2000" "int (position s) = 80 * screen_y s + screen_x s"
proof -
  have b: "0 \<le> 80 * screen_y s + screen_x s" "80 * screen_y s + screen_x s < 2000"
    using assms unfolding con_inv_def by linarith+
  then show "int (position s) = 80 * screen_y s + screen_x s" by (simp add: position_def)
  with b show "position s < 2000" by linarith
qed

lemma cursor_shown_move:
  assumes "con_inv s"
  shows "cursor_shown (move_cursor s)"
proof -
  have p: "position s < 2 ^ 16" and b: "int (position s) = 80 * screen_y s + screen_x s"
    using position_bound [OF assms] by simp_all
  have "(of_int (screen_y s) * 80 + of_int (screen_x s) :: u16) = of_int (80 * screen_y s + screen_x s)"
    by (simp add: mult.commute)
  also have "\<dots> = of_nat (position s)" unfolding b [symmetric] by simp
  finally show ?thesis unfolding cursor_shown_def using cursor_bytes [OF p]
    by (auto simp: move_cursor_def update_cursor_def Let_def position_def)
qed

lemma scroll_buffers_fields [simp]:
  "ram (scroll_buffers s) = ram s" "screen_x (scroll_buffers s) = screen_x s"
  "screen_y (scroll_buffers s) = screen_y s" "hw (scroll_buffers s) = hw s"
  "enter_flag (scroll_buffers s) = enter_flag s" "con.more (scroll_buffers s) = con.more s"
  by (simp_all add: scroll_buffers_def Let_def split: option.split)

lemma for_to_length: "(\<And>i b. length (f i b) = length b) \<Longrightarrow> length (for_to n f b) = length b"
  by (induction n) (simp_all add: for_to_Suc)

lemma scroll_buffers_lengths [simp]:
  "length (enter_tracker (scroll_buffers s)) = length (enter_tracker s)"
  "length (keyboard_buffer (scroll_buffers s)) = length (keyboard_buffer s)"
  by (simp_all add: scroll_buffers_def Let_def for_to_length shift_buffer_def split: option.split)

lemma scrolling_spec:
  assumes "con_inv s"
  shows "con_inv (scrolling s)" "con_frame s (scrolling s)"
    "chars (ram (scrolling s)) = tty_scroll (chars (ram s))" "attributes (ram (scrolling s)) = attributes (ram s)"
    "screen_x (scrolling s) = screen_x s" "screen_y (scrolling s) = screen_y s"
    "enter_flag (scrolling s) = enter_flag s"
proof -
  show "con_frame s (scrolling s)"
    unfolding con_frame_def by (auto simp: scrolling_def Let_def scroll_video_spec)
qed (use assms in \<open>simp_all add: scrolling_def Let_def scroll_video_spec con_inv_def tty_scroll_def\<close>)

lemma put_at_cursor_spec:
  assumes "con_inv s"
  shows "con_frame s (put_at_cursor c s)" "chars (ram (put_at_cursor c s)) = (chars (ram s))[position s := c]"
    "attributes (ram (put_at_cursor c s)) = (attributes (ram s))[position s := ATTRIB]"
proof -
  have b: "0 \<le> screen_y s" "0 \<le> screen_x s" "80 * screen_y s + screen_x s < 2000"
    using assms unfolding con_inv_def by linarith+
  note p = put_cell_chars [OF b, where x = c and m = "ram s"]
  then show "con_frame s (put_at_cursor c s)"
    unfolding con_frame_def by (auto simp: put_at_cursor_def)
  from p show "chars (ram (put_at_cursor c s)) = (chars (ram s))[position s := c]"
    "attributes (ram (put_at_cursor c s)) = (attributes (ram s))[position s := ATTRIB]"
    by (simp_all add: put_at_cursor_def position_def)
qed

lemma put_at_cursor_fields [simp]:
  "screen_x (put_at_cursor c s) = screen_x s" "screen_y (put_at_cursor c s) = screen_y s"
  "enter_tracker (put_at_cursor c s) = enter_tracker s" "keyboard_buffer (put_at_cursor c s) = keyboard_buffer s"
  "enter_flag (put_at_cursor c s) = enter_flag s"
  by (simp_all add: put_at_cursor_def)

text \<open>Setting the cursor or the tracker does not count as a change for the frame.\<close>

lemma con_frame_cursor [simp]:
  "con_frame s (t\<lparr>screen_x := x\<rparr>) = con_frame s t" "con_frame s (t\<lparr>screen_y := y\<rparr>) = con_frame s t"
  "con_frame s (t\<lparr>enter_tracker := e\<rparr>) = con_frame s t"
  "con_frame (s\<lparr>screen_x := x\<rparr>) t = con_frame s t" "con_frame (s\<lparr>screen_y := y\<rparr>) t = con_frame s t"
  "con_frame (s\<lparr>enter_tracker := e\<rparr>) t = con_frame s t"
  by (simp_all add: con_frame_def)

definition con_step :: "(tty \<Rightarrow> tty) \<Rightarrow> 'a con_scheme \<Rightarrow> 'a con_scheme \<Rightarrow> bool" where
  "con_step f s s' \<longleftrightarrow> con_inv s' \<and> tty s' = f (tty s) \<and> con_frame s s' \<and> cursor_shown s' \<and>
     (attributes (ram s) = replicate 2000 ATTRIB \<longrightarrow> attributes (ram s') = replicate 2000 ATTRIB)"

lemma con_step_move:
  assumes "con_inv t" "tty t = f (tty s)" "con_frame s t"
    "attributes (ram s) = replicate 2000 ATTRIB \<Longrightarrow> attributes (ram t) = replicate 2000 ATTRIB"
  shows "con_step f s (move_cursor t)"
  using assms by (simp add: con_step_def move_cursor_frame cursor_shown_move)

lemma replicate_update_same: "(replicate n x)[i := x] = replicate n x"
  by (cases "i < n") (metis list_update_id nth_replicate, simp add: list_update_beyond)

lemma putc_newline:
  assumes "con_inv s" "c = NEWLINE \<or> c = RETURN"
  shows "\<exists>s'. putc c s = Some s' \<and> con_step (tty_putc c) s s'"
proof -
  let ?x = "screen_x s" and ?y = "screen_y s"
  have b: "0 \<le> ?x" "?x < 80" "0 \<le> ?y" "?y < 25" "length (enter_tracker s) = 25" using assms by (auto simp: con_inv_def)
  define t where "t = s\<lparr>enter_tracker := (enter_tracker s)[nat ?y := of_int ?x + OFFSET]\<rparr>"
  have t: "con_inv t" "ram t = ram s" "screen_x t = ?x" "screen_y t = ?y" "con_frame s t"
    using assms(1) by (simp_all add: t_def con_inv_def)
  have st: "store_int (enter_tracker s) ?y (of_int ?x + OFFSET) = Some ((enter_tracker s)[nat ?y := of_int ?x + OFFSET])"
    using b by (simp add: store_int_def)
  have pos: "position s div 80 = nat ?y" "position s \<ge> 1920 \<longleftrightarrow> ?y = 24"
    using position_bound [OF assms(1)] b by (auto simp: position_def)
  show ?thesis
  proof (cases "?y = 24")
    case True
    let ?t = "(scrolling t)\<lparr>screen_x := 0\<rparr>"
    have "putc c s = Some (move_cursor ?t)" using assms(2) st True t(4) by (auto simp: putc_def t_def Let_def)
    moreover have "con_step (tty_putc c) s (move_cursor ?t)"
      using scrolling_spec [OF t(1)] True pos(2) assms(2) t con_frame_trans [OF t(5)]
      by (intro con_step_move) (auto simp: con_inv_def tty_def position_def)
    ultimately show ?thesis by blast
  next
    case False
    let ?t = "t\<lparr>screen_y := ?y + 1, screen_x := 0\<rparr>"
    have "putc c s = Some (move_cursor ?t)" using assms(2) st False t(4) by (auto simp: putc_def t_def Let_def)
    moreover have "con_step (tty_putc c) s (move_cursor ?t)"
      using False pos assms(2) t b
      by (intro con_step_move) (auto simp: con_inv_def tty_def position_def nat_add_distrib nat_mult_distrib)
    ultimately show ?thesis by blast
  qed
qed

lemma tty_scroll_last: "length g = 2000 \<Longrightarrow> (tty_scroll g)[1919 := c] = tty_scroll (g[1999 := c])"
  by (simp add: tty_scroll_def list_update_append drop_update_swap)

lemma putc_char:
  assumes "con_inv s" "\<not> (c = NEWLINE \<or> c = RETURN)"
  shows "\<exists>s'. putc c s = Some s' \<and> con_step (tty_putc c) s s'"
proof -
  let ?x = "screen_x s" and ?y = "screen_y s"
  have b: "0 \<le> ?x" "?x < 80" "0 \<le> ?y" "?y < 25" using assms by (auto simp: con_inv_def)
  note p = position_bound [OF assms(1)] and put = put_at_cursor_spec [OF assms(1), of c]
  consider "?x < 79" | "?x = 79" "?y < 24" | "?x = 79" "?y = 24" using b by linarith
  then show ?thesis
  proof cases
    case 1
    let ?t = "(put_at_cursor c s)\<lparr>screen_x := ?x + 1\<rparr>"
    have "position s \<noteq> 1999" "position ?t = position s + 1"
      using 1 p b by (auto simp: position_def)
    then have "con_step (tty_putc c) s (move_cursor ?t)"
      using assms 1 b put
      by (intro con_step_move) (auto simp: con_inv_def tty_def replicate_update_same)
    moreover have "putc c s = Some (move_cursor ?t)" using assms(2) 1 by (simp add: putc_def)
    ultimately show ?thesis by blast
  next
    case 2
    let ?t = "(put_at_cursor c s)\<lparr>screen_x := 0, screen_y := ?y + 1\<rparr>"
    have "position s \<noteq> 1999" "position ?t = position s + 1"
      using 2 p b by (auto simp: position_def)
    then have "con_step (tty_putc c) s (move_cursor ?t)"
      using assms 2 b put
      by (intro con_step_move) (auto simp: con_inv_def tty_def replicate_update_same)
    moreover have "putc c s = Some (move_cursor ?t)" using assms(2) 2 by (simp add: putc_def)
    ultimately show ?thesis by blast
  next
    case 3
    define t where "t = (scrolling s)\<lparr>screen_y := 23\<rparr>"
    note scr = scrolling_spec [OF assms(1)]
    have t: "con_inv t" "con_frame s t" "position t = 1919" "chars (ram t) = tty_scroll (chars (ram s))"
        "attributes (ram t) = attributes (ram s)"
      using scr 3 by (simp_all add: t_def con_inv_def position_def)
    note put = put_at_cursor_spec [OF t(1), of c]
    let ?t = "(put_at_cursor c t)\<lparr>screen_y := 24, screen_x := 0\<rparr>"
    have pos: "position s = 1999" using 3 by (simp add: position_def)
    then have "tty ?t = tty_putc c (tty s)"
      using assms(2) put t tty_scroll_last [of "chars (ram s)" c] by (auto simp: tty_def position_def)
    moreover have "con_frame s ?t" using con_frame_trans [OF t(2) put(1)] by simp
    moreover have "con_inv ?t" using t(1) by (simp add: con_inv_def)
    ultimately have "con_step (tty_putc c) s (move_cursor ?t)"
      using put t by (intro con_step_move) (auto simp: replicate_update_same)
    moreover have "putc c s = Some (move_cursor ?t)"
      using assms(2) 3 scr by (simp add: putc_def t_def Let_def)
    ultimately show ?thesis by blast
  qed
qed

lemma putc_step: "con_inv s \<Longrightarrow> \<exists>s'. putc c s = Some s' \<and> con_step (tty_putc c) s s'"
  using putc_newline putc_char by blast

section \<open>Output of strings\<close>

text \<open>A run of characters: the fold of \<open>putc\<close>, which \<open>puts\<close>, \<open>printf\<close> and \<open>terminal_write\<close> all come down to.\<close>

fun put_all :: "u8 list \<Rightarrow> 'a con_scheme \<Rightarrow> 'a con_scheme option" where
  "put_all [] s = Some s"
| "put_all (c # cs) s = Option.bind (putc c s) (put_all cs)"

definition tty_write :: "u8 list \<Rightarrow> tty \<Rightarrow> tty" where
  "tty_write cs = fold tty_putc cs"

text \<open>Like \<open>con_step\<close>, without the cursor, which only moves when something is printed.\<close>

definition con_run :: "(tty \<Rightarrow> tty) \<Rightarrow> 'a con_scheme \<Rightarrow> 'a con_scheme \<Rightarrow> bool" where
  "con_run f s s' \<longleftrightarrow> con_inv s' \<and> tty s' = f (tty s) \<and> con_frame s s' \<and> (cursor_shown s \<longrightarrow> cursor_shown s') \<and>
     (attributes (ram s) = replicate 2000 ATTRIB \<longrightarrow> attributes (ram s') = replicate 2000 ATTRIB)"

lemma put_all_append: "put_all (cs @ ds) s = Option.bind (put_all cs s) (put_all ds)"
proof (induction cs arbitrary: s)
  case (Cons c cs)
  then show ?case by (cases "putc c s") simp_all
qed simp

lemma put_all_single [simp]: "put_all [c] s = putc c s"
  by (cases "putc c s") simp_all

lemma put_all_run: "con_inv s \<Longrightarrow> \<exists>s'. put_all cs s = Some s' \<and> con_run (tty_write cs) s s'"
proof (induction cs arbitrary: s)
  case Nil
  then show ?case by (simp add: con_run_def tty_write_def)
next
  case (Cons c cs)
  obtain t where t: "putc c s = Some t" "con_step (tty_putc c) s t" using putc_step [OF Cons.prems] by blast
  then have "con_inv t" by (simp add: con_step_def)
  from Cons.IH [OF this] obtain u where "put_all cs t = Some u" "con_run (tty_write cs) t u" by blast
  with t show ?case
    by (auto simp: con_run_def con_step_def tty_write_def elim: con_frame_trans)
qed

lemma puts_from_string:
  assumes "holds_string v (xs @ cs)"
  shows "puts_from v (length xs) s = map_option (Pair (length xs + length cs)) (put_all cs s)"
  using assms
proof (induction cs arbitrary: xs s)
  case Nil
  then show ?case using holds_string_at(1) [of v xs "[]"] by (subst puts_from.simps) simp
next
  case (Cons c cs)
  have "v (length xs) = Some c" "c \<noteq> 0" using holds_string_at [OF Cons.prems] by simp_all
  then show ?case using Cons.IH [of "xs @ [c]"] Cons.prems
    by (subst puts_from.simps) (cases "putc c s"; simp)
qed

lemma puts_string: "holds_string v cs \<Longrightarrow> puts v s = map_option (Pair (length cs)) (put_all cs s)"
  using puts_from_string [of v "[]" cs s] by (simp add: puts_def)

section \<open>What printf prints\<close>

definition view_text :: "byte_view \<Rightarrow> u8 list option" where
  "view_text v = map_option (\<lambda>n. map (\<lambda>i. the (v i)) [0..<n]) (strlen v)"

definition signed_text :: "u32 \<Rightarrow> u8 list" where
  "signed_text n =
     (if sint n < 0 then 0x2D # numeral_text 10 (unat (- n)) else numeral_text 10 (unat n))"

definition hex8_text :: "u32 \<Rightarrow> u8 list" where
  "hex8_text n = (let d = numeral_text 16 (unat n) in replicate (8 - length d) 0x30 @ d)"

fun arg_text :: "u8 \<Rightarrow> bool \<Rightarrow> printf_arg \<Rightarrow> u8 list option" where
  "arg_text c alternate (Num n) =
     (if c = 0x78 then Some (if alternate then hex8_text n else numeral_text 16 (unat n))
      else if c = 0x75 then Some (numeral_text 10 (unat n))
      else if c = 0x64 then Some (signed_text n)
      else if c = 0x63 then Some [ucast n]
      else None)"
| "arg_text c alternate (Str v) = (if c = 0x73 then view_text v else None)"

fun format_text :: "u8 list \<Rightarrow> printf_arg list \<Rightarrow> u8 list option"
  and conv_text :: "bool \<Rightarrow> u8 list \<Rightarrow> printf_arg list \<Rightarrow> u8 list option" where
  "format_text [] args = Some []"
| "format_text (c # cs) args =
     (if c = 0x25 then conv_text False cs args else map_option (Cons c) (format_text cs args))"
| "conv_text alternate [] args = None"
| "conv_text alternate (c # cs) args =
     (if c = 0x25 then map_option (Cons 0x25) (format_text cs args)
      else if c = 0x23 then conv_text True cs args
      else if c \<in> {0x78, 0x75, 0x64, 0x63, 0x73} then
        (case args of
           [] \<Rightarrow> None
         | a # args \<Rightarrow> do { t \<leftarrow> arg_text c alternate a; rest \<leftarrow> format_text cs args; Some (t @ rest) })
      else format_text cs args)"

lemma holds_string_append:
  assumes "holds_string (list_view b) cs" "0 \<notin> set xs"
  shows "holds_string (list_view (xs @ b)) (xs @ cs)"
  using assms by (auto simp: holds_string_def list_view_def nth_append split: if_splits)

lemma fold_fill:
  assumes "k \<le> n" "n \<le> length b"
  shows "fold (\<lambda>i b. b[i := x]) [k..<n] b = take k b @ replicate (n - k) x @ drop n b"
  using assms
proof (induction n)
  case (Suc n)
  show ?case
  proof (cases "k = Suc n")
    case False
    then have "drop n b = b ! n # drop (Suc n) b" "Suc n - k = Suc (n - k)"
      using Suc.prems by (simp_all add: Cons_nth_drop_Suc)
    with Suc False show ?thesis by (simp add: list_update_append replicate_app_Cons_same)
  qed (use Suc in simp)
qed simp

lemma puts_text:
  assumes "holds_string (list_view b) cs"
  shows "map_option snd (puts (list_view b) s) = put_all cs s"
  using puts_string [OF assms, of s] by (cases "put_all cs s") simp_all

lemma print_numbers:
  "print_hex n s = put_all (numeral_text 16 (unat n)) s"
  "print_unsigned n s = put_all (numeral_text 10 (unat n)) s"
  "print_signed n s = put_all (signed_text n) s"
  "print_hex8 n s = put_all (hex8_text n) s"
proof -
  note len = length_numeral_text
  have conv: "\<exists>b. itoa v (replicate k 0xCC) r = Some b \<and> length b = k \<and> holds_string (list_view b) (numeral_text r (unat v))"
    if "r = 10 \<or> r = 16" "10 < k" for r k v
    using itoa_text [of r v "replicate k 0xCC"] that len [of v] by auto
  show "print_hex n s = put_all (numeral_text 16 (unat n)) s"
    using conv [of 16 64 n] by (auto simp: print_hex_def conv_buf_def puts_text)
  show "print_unsigned n s = put_all (numeral_text 10 (unat n)) s"
    using conv [of 10 36 n] by (auto simp: print_unsigned_def conv_buf_def puts_text)
  show "print_signed n s = put_all (signed_text n) s"
  proof (cases "sint n < 0")
    case True
    obtain b where b: "itoa (- n) (replicate 35 0xCC) 10 = Some b" "holds_string (list_view b) (numeral_text 10 (unat (- n)))"
      using conv [of 10 35 "- n"] by auto
    have "holds_string (list_view (0x2D # b)) (0x2D # numeral_text 10 (unat (- n)))"
      using holds_string_append [OF b(2), of "[0x2D]"] by simp
    with True b(1) show ?thesis by (simp add: print_signed_def signed_text_def conv_buf_def Let_def puts_text)
  next
    case False
    then show ?thesis using conv [of 10 36 n] by (auto simp: print_signed_def signed_text_def conv_buf_def Let_def puts_text)
  qed
  let ?d = "numeral_text 16 (unat n)"
  obtain b where b: "itoa n (replicate 56 0xCC) 16 = Some b" "length b = 56" "holds_string (list_view b) ?d"
    using conv [of 16 56 n] by auto
  have "drop (length ?d) (fold (\<lambda>i b. b[i := 0x30]) [length ?d..<8] (replicate 8 0xCC @ b)) =
      replicate (8 - length ?d) 0x30 @ b"
    using len(2) [of n] by (subst fold_fill) simp_all
  moreover have "holds_string (list_view (replicate (8 - length ?d) 0x30 @ b)) (hex8_text n)"
    unfolding hex8_text_def Let_def by (rule holds_string_append [OF b(3)]) simp
  ultimately show "print_hex8 n s = put_all (hex8_text n) s"
    using b strlen_string [OF b(3)] by (simp add: print_hex8_def conv_buf_def Let_def puts_text)
qed

lemma puts_view_text:
  assumes "view_text v = Some t"
  shows "puts v s = map_option (Pair (length t)) (put_all t s)"
proof -
  from assms obtain n where "strlen v = Some n" "t = map (\<lambda>i. the (v i)) [0..<n]" by (auto simp: view_text_def)
  then show ?thesis using puts_string [OF strlen_Some_string] by simp
qed

text \<open>Signed values and the sign character.\<close>

lemma sint_bounds: "- (2 ^ 31) \<le> sint (n :: u32)" "sint n < 2 ^ 31"
  using sint_greater_eq [of n] sint_less [of n] by simp_all

lemma sint_pos_unat: "\<not> sint (n :: u32) < 0 \<Longrightarrow> sint n = int (unat n)"
proof -
  assume "\<not> sint n < 0"
  moreover have "int (unat n) = sint n mod 2 ^ 32" by (simp add: uint_sint take_bit_eq_mod)
  ultimately show ?thesis using sint_bounds(2) [of n] by simp
qed

lemma sint_neg_unat: "sint (n :: u32) < 0 \<Longrightarrow> int (unat (- n)) = - sint n"
proof -
  assume "sint n < 0"
  moreover have "uint (word_of_int k :: u32) = k mod 2 ^ 32" for k by (simp add: uint_word_of_int take_bit_eq_mod)
  from this [of "- sint n"] have "int (unat (- n)) = (- sint n) mod 2 ^ 32" by simp
  ultimately show ?thesis using sint_bounds(1) [of n] by simp
qed

lemma numeral_text_no_sign: "hd (numeral_text 10 n) \<noteq> 0x2D"
proof -
  have "0x2D \<notin> set lookup" by (simp add: lookup_bytes)
  moreover have "lookup ! d \<in> set lookup" if "d \<in> set (radix_digits 10 n)" for d
    using radix_digits_small [OF _ that] by (intro nth_mem) simp
  moreover have "0x30 \<in> set lookup" by (simp add: lookup_bytes)
  ultimately have "0x2D \<notin> set (numeral_text 10 n)" by (auto simp: numeral_text_def)
  moreover have "numeral_text 10 n \<noteq> []" by (subst numeral_text_def, subst radix_digits.simps) simp
  ultimately show ?thesis by (metis hd_in_set)
qed

lemma print_arg_text:
  assumes "arg_text c alternate a = Some t"
  shows "print_arg c alternate (a # args) s = map_option (Pair args) (put_all t s)"
proof (cases a)
  case (Num n)
  then show ?thesis using assms by (auto simp: print_numbers put_all_single simp del: put_all.simps split: if_splits)
next
  case (Str v)
  then have "c = 0x73" "view_text v = Some t" using assms by (auto split: if_splits)
  then show ?thesis using Str puts_view_text [of v t s] by (cases "put_all t s") simp_all
qed

lemma printf_prints:
  fixes s :: "'a con_scheme"
  shows "format_text cs args = Some t \<Longrightarrow> printf_text cs args s = put_all t s"
    and "conv_text alternate cs args = Some t \<Longrightarrow> printf_conv alternate cs args s = put_all t s"
proof (induction cs args and alternate cs args arbitrary: t s and t s rule: format_text_conv_text.induct)
  case (2 c cs args)
  then show ?case by (cases "putc c s") (auto split: if_splits)
next
  case (4 alternate c cs args)
  consider "c = 0x25" | "c = 0x23" | "c \<notin> {0x25, 0x23}" "c \<in> {0x78, 0x75, 0x64, 0x63, 0x73}"
    | "c \<notin> {0x25, 0x23}" "c \<notin> {0x78, 0x75, 0x64, 0x63, 0x73}" by blast
  then show ?case
  proof cases
    case 1
    then show ?thesis using 4 by (cases "putc 0x25 s") auto
  next
    case 2
    then show ?thesis using 4 by simp
  next
    case 3
    then obtain a args' u rest where a: "args = a # args'" "arg_text c alternate a = Some u"
        "format_text cs args' = Some rest" "t = u @ rest"
      using "4.prems" by (auto split: list.splits bind_splits)
    have "printf_text cs args' s' = put_all rest s'" for s' :: "'a con_scheme"
      by (rule "4.IH"(3) [OF _ _ _ a(1,2,3)]) (use 3 in auto)
    then show ?thesis using 3 a print_arg_text [OF a(2), of args' s]
      by (cases "put_all u s") (auto simp: put_all_append)
  next
    case 4
    then show ?thesis using "4.prems" "4.IH" by auto
  qed
qed simp_all

section \<open>Erasing\<close>

text \<open>Erasing the character before the position; at the start of the screen there is none.\<close>

fun tty_erase :: "tty \<Rightarrow> tty" where
  "tty_erase (g, p) = (if p = 0 then (g, p) else (g[p - 1 := BLANK], p - 1))"

lemma put_blank_step:
  assumes "con_inv t" "con_frame s t" "ram t = ram s" "position s = position t + 1"
  shows "con_step tty_erase s (move_cursor (put_at_cursor BLANK t))"
proof -
  note put = put_at_cursor_spec [OF assms(1), of BLANK]
  show ?thesis
  proof (rule con_step_move)
    show "con_frame s (put_at_cursor BLANK t)" using con_frame_trans [OF assms(2) put(1)] .
    show "con_inv (put_at_cursor BLANK t)" using assms(1) by (simp add: con_inv_def)
    show "tty (put_at_cursor BLANK t) = tty_erase (tty s)"
      using put(2) assms(3,4) by (simp add: tty_def position_def)
  qed (use put(3) assms(3) in \<open>simp add: replicate_update_same\<close>)
qed

lemma backspace_step:
  assumes "con_inv s" "enter_flag s \<noteq> -1" "position s \<noteq> 0"
  shows "\<exists>s'. backspace s = Some s' \<and> con_step tty_erase s s'"
proof -
  let ?x = "screen_x s" and ?y = "screen_y s"
  have b: "0 \<le> ?x" "?x < 80" "0 \<le> ?y" "?y < 25" using assms by (auto simp: con_inv_def)
  have nz: "\<not> (?y = 0 \<and> ?x = 0)" using assms(3) by (auto simp: position_def)
  show ?thesis
  proof (cases "?x > 0")
    case True
    let ?t = "s\<lparr>screen_x := ?x - 1\<rparr>"
    have "backspace s = Some (move_cursor (put_at_cursor BLANK ?t))"
      using True nz by (simp add: backspace_def)
    moreover have "con_step tty_erase s (move_cursor (put_at_cursor BLANK ?t))"
      using assms(1) True b by (intro put_blank_step) (simp_all add: con_inv_def position_def nat_diff_distrib)
    ultimately show ?thesis by blast
  next
    case False
    let ?t = "s\<lparr>screen_x := 79, screen_y := ?y - 1\<rparr>"
    have "backspace s = Some (move_cursor (put_at_cursor BLANK ?t))"
      using False nz assms(2) by (auto simp: backspace_def back_to_previous_row_def)
    moreover have "con_step tty_erase s (move_cursor (put_at_cursor BLANK ?t))"
      using assms(1) False b nz by (intro put_blank_step) (simp_all add: con_inv_def position_def)
    ultimately show ?thesis by blast
  qed
qed

lemma backspace_start: "con_inv s \<Longrightarrow> position s = 0 \<Longrightarrow> backspace s = Some s"
  by (auto simp: backspace_def con_inv_def position_def)

text \<open>In text editing mode a backspace at the start of a line goes back to where the line above was
  ended, erasing what follows.\<close>

lemma erase_back_step:
  assumes "con_inv s" "uint xo \<le> screen_x s"
  shows "\<exists>s'. erase_back xo s = Some s' \<and> con_inv s' \<and> screen_x s' = uint xo \<and> screen_y s' = screen_y s \<and>
    enter_tracker s' = enter_tracker s \<and> con_frame s s' \<and>
    (\<forall>i<2000. chars (ram s') ! i = (if nat (80 * screen_y s + uint xo) < i \<and> i \<le> position s then BLANK else chars (ram s) ! i))"
  using assms
proof (induction "nat (screen_x s - uint xo)" arbitrary: s)
  case 0
  then have "screen_x s = uint xo" by simp
  then show ?case using 0 by (subst erase_back.simps) (auto simp: position_def)
next
  case (Suc n)
  let ?t = "(put_at_cursor BLANK s)\<lparr>screen_x := screen_x s - 1\<rparr>"
  have x: "uint xo < screen_x s" using Suc by simp
  have x0: "0 \<le> uint xo" by simp
  with x have "0 < screen_x s" by linarith
  have inv: "con_inv ?t" using Suc.prems(1) \<open>0 < screen_x s\<close> unfolding con_inv_def by simp
  note put = put_at_cursor_spec [OF Suc.prems(1), of BLANK]
  have "n = nat (screen_x ?t - uint xo)" "uint xo \<le> screen_x ?t" using Suc.hyps(2) x by simp_all
  from Suc.hyps(1) [OF this(1) inv this(2)] obtain s' where s': "erase_back xo ?t = Some s'" "con_inv s'"
      "screen_x s' = uint xo" "screen_y s' = screen_y s" "enter_tracker s' = enter_tracker s" "con_frame ?t s'"
      "\<forall>i<2000. chars (ram s') ! i = (if nat (80 * screen_y s + uint xo) < i \<and> i \<le> position ?t then BLANK else chars (ram ?t) ! i)"
    by auto
  have pos: "position s = position ?t + 1" "nat (80 * screen_y s + uint xo) < position s"
    using position_bound(2) [OF Suc.prems(1)] position_bound(2) [OF inv] x x0 Suc.prems(1)
    by (simp_all add: nat_less_iff con_inv_def)
  have "con_frame s s'" using con_frame_trans [OF put(1), of s'] s'(6) by simp
  moreover have "\<forall>i<2000. chars (ram s') ! i =
      (if nat (80 * screen_y s + uint xo) < i \<and> i \<le> position s then BLANK else chars (ram s) ! i)"
    using s'(7) put(2) pos by (auto simp: nth_list_update)
  ultimately show ?case using s'(1-5) x by (subst erase_back.simps) simp
qed

text \<open>The column kept in the tracker is recovered.\<close>

lemma tracker_column:
  assumes "0 \<le> x" "x < 80"
  shows "uint (ucast (of_int x :: u32) :: u8) = x" "(of_int x + OFFSET :: u32) \<noteq> 0"
proof -
  have "unat (of_nat (nat x) + OFFSET :: u32) = nat x + 0xAF"
    using unat_offset [of "nat x + 0xAF"] assms by simp
  moreover have x: "(of_nat (nat x) :: u32) = of_int x" using assms by simp
  ultimately have "unat (of_int x + OFFSET :: u32) \<noteq> 0" by simp
  then show "(of_int x + OFFSET :: u32) \<noteq> 0" by auto
  have "ucast (of_int x :: u32) = (of_int x :: u8)" by (rule bit_word_eqI) (simp add: bit_simps)
  then show "uint (ucast (of_int x :: u32) :: u8) = x" using assms by (simp add: uint_word_of_int take_bit_eq_mod)
qed

section \<open>Reset\<close>

lemma reset_fields [simp]:
  "screen_x (reset s) = 0" "screen_y (reset s) = 0" "enter_flag (reset s) = enter_flag s"
  "kb_buffer_position (reset s) = 0" "con.more (reset s) = con.more s" "ram (reset s) = clear_video (ram s)"
  by (simp_all add: reset_def clear_def Let_def)

lemma reset_spec:
  assumes "length (enter_tracker s) = 25" "length (keyboard_buffer s) = 128"
  shows "con_inv (reset s)" "tty (reset s) = (replicate 2000 BLANK, 0)" "cursor_shown (reset s)"
    "keyboard_buffer (reset s) = replicate 128 0" "enter_tracker (reset s) = replicate 25 0"
    "same_outside_video (ram s) (ram (reset s))" "attributes (ram (reset s)) = replicate 2000 ATTRIB"
proof -
  show k: "keyboard_buffer (reset s) = replicate 128 0" "enter_tracker (reset s) = replicate 25 0"
    using assms by (simp_all add: reset_def clear_def Let_def for_to_fill_all map_replicate_trivial map_replicate_const)
  then show i: "con_inv (reset s)" by (simp add: con_inv_def)
  show "tty (reset s) = (replicate 2000 BLANK, 0)"
    by (simp add: tty_def position_def clear_video_spec)
  show "same_outside_video (ram s) (ram (reset s))" "attributes (ram (reset s)) = replicate 2000 ATTRIB"
    by (simp_all add: clear_video_spec)
  from i have "con_inv (((clear s)\<lparr>screen_x := 0, screen_y := 0\<rparr>)
     \<lparr>keyboard_buffer := for_to BUF_SIZE (\<lambda>i b. b[i := 0]) (keyboard_buffer s),
      enter_tracker := for_to 25 (\<lambda>i t. t[i := 0]) (enter_tracker s), kb_buffer_position := 0\<rparr>)"
    using assms by (simp add: con_inv_def for_to_length)
  from cursor_shown_move [OF this] show "cursor_shown (reset s)"
    by (simp add: reset_def clear_def Let_def)
qed

section \<open>Correctness\<close>

definition demo_con :: con where
  "demo_con = reset \<lparr>hw = demo_rtc, ram = (\<lambda>_. 0), screen_x = 3, screen_y = 4, enter_tracker = replicate 25 0,
     keyboard_buffer = replicate 128 0, kb_buffer_position = 0, enter_flag = 0, first_scroll_indicator = 0\<rparr>"

lemma demo_con_ok: "con_inv demo_con" "tty demo_con = (replicate 2000 BLANK, 0)" "enter_flag demo_con = 0"
    "screen_x demo_con = 0" "screen_y demo_con = 0"
  by (simp_all add: demo_con_def reset_spec)

text \<open>C25: on a screen whose cursor is in range, output of one character returns, keeps the cursor in
  range, does to the 25 by 80 characters what a teletype does (a printed character at the position, a
  new line, a scroll by one row at the bottom), tells the display controller the new position, and
  writes no memory outside the screen.\<close>

theorem putc_refines_teletype:
  assumes "con_inv s"
  shows "\<exists>s'. putc c s = Some s' \<and> con_inv s' \<and> tty s' = tty_putc c (tty s) \<and> cursor_shown s' \<and>
    same_outside_video (ram s) (ram s')"
  using putc_step [OF assms, of c] by (auto simp: con_step_def con_frame_def)

theorem putc_refines_teletype_witness:
  "\<exists>s'. putc 0x41 demo_con = Some s' \<and> con_inv s' \<and> tty s' = ((replicate 2000 BLANK)[0 := 0x41], 1) \<and>
    cursor_shown s' \<and> same_outside_video (ram demo_con) (ram s')"
  using putc_refines_teletype [OF demo_con_ok(1), of "0x41"] by (simp add: demo_con_ok)

text \<open>C27: \<open>printf\<close> prints the text its format stands for, with each conversion replaced by its
  argument, exactly as if every character had been output on its own, and returns the length of the
  format.\<close>

theorem printf_prints_format:
  assumes "con_inv s" "format_text format args = Some t"
  shows "\<exists>s'. printf format args s = Some (length format, s') \<and> con_inv s' \<and> tty s' = tty_write t (tty s)"
  using put_all_run [OF assms(1), of t] printf_prints(1) [OF assms(2), of s]
  by (auto simp: printf_def con_run_def)

theorem printf_prints_format_witness:
  "\<exists>s'. printf [0x41, 0x25, 0x25] [] demo_con = Some (3, s') \<and> con_inv s' \<and>
    tty s' = tty_write [0x41, 0x25] (replicate 2000 BLANK, 0)"
  using printf_prints_format [OF demo_con_ok(1), of "[0x41, 0x25, 0x25]" "[]" "[0x41, 0x25]"]
  by (simp add: demo_con_ok numeral_3_eq_3)

text \<open>C28: the numbers \<open>printf\<close> prints read back as the arguments: \<open>%#x\<close> as eight hexadecimal digits,
  \<open>%x\<close> as at most eight, \<open>%u\<close> in decimal, \<open>%d\<close> in decimal with a minus sign exactly for negative values.\<close>

theorem printf_numbers_read_back:
  "\<exists>x h u d. printf [0x25, 0x23, 0x78] [Num n] s = map_option (Pair 3) (put_all x s) \<and>
      length x = 8 \<and> parse_radix 16 x = unat n \<and>
    printf [0x25, 0x78] [Num n] s = map_option (Pair 2) (put_all h s) \<and> length h \<le> 8 \<and> parse_radix 16 h = unat n \<and>
    printf [0x25, 0x75] [Num n] s = map_option (Pair 2) (put_all u s) \<and> parse_radix 10 u = unat n \<and>
    printf [0x25, 0x64] [Num n] s = map_option (Pair 2) (put_all d s) \<and>
      sint n = (if hd d = 0x2D then - int (parse_radix 10 (tl d)) else int (parse_radix 10 d))"
proof -
  have zeros: "parse_radix 16 (replicate k 0x30 @ ds) = parse_radix 16 ds" for k ds
    by (induction k) (simp_all add: parse_radix_def digit_value_def)
  have x: "length (hex8_text n) = 8" "parse_radix 16 (hex8_text n) = unat n"
    using length_numeral_text(2) [of n] by (simp_all add: hex8_text_def Let_def zeros parse_numeral_text)
  have d: "sint n = (if hd (signed_text n) = 0x2D then - int (parse_radix 10 (tl (signed_text n)))
      else int (parse_radix 10 (signed_text n)))"
  proof (cases "sint n < 0")
    case True
    then have "int (unat (- n)) = - sint n" by (rule sint_neg_unat)
    with True show ?thesis by (simp add: signed_text_def parse_numeral_text)
  next
    case False
    then show ?thesis using numeral_text_no_sign [of "unat n"]
      by (simp add: signed_text_def parse_numeral_text sint_pos_unat)
  qed
  have fmt: "printf_text [0x25, 0x23, 0x78] [Num n] s = put_all (hex8_text n) s"
    "printf_text [0x25, 0x78] [Num n] s = put_all (numeral_text 16 (unat n)) s"
    "printf_text [0x25, 0x75] [Num n] s = put_all (numeral_text 10 (unat n)) s"
    "printf_text [0x25, 0x64] [Num n] s = put_all (signed_text n) s"
    by (rule printf_prints(1), simp)+
  show ?thesis
    by (rule exI [of _ "hex8_text n"], rule exI [of _ "numeral_text 16 (unat n)"], rule exI [of _ "numeral_text 10 (unat n)"], rule exI [of _ "signed_text n"],
        intro conjI x d)
      (use length_numeral_text(2) [of n] in \<open>simp_all add: printf_def fmt parse_numeral_text numeral_3_eq_3 numeral_2_eq_2 del: printf_text.simps\<close>)
qed

text \<open>In normal mode a backspace takes back the printed character before it, also across the end
  of a row: the position is the one before the character and its cell is blank. At the start of the
  screen a backspace does nothing.\<close>

theorem backspace_takes_back:
  assumes "con_inv s" "enter_flag s \<noteq> -1"
  shows "(position s = 0 \<longrightarrow> backspace s = Some s) \<and>
    (\<forall>c. c \<noteq> NEWLINE \<and> c \<noteq> RETURN \<and> position s < 1999 \<longrightarrow>
       (\<exists>s' s''. putc c s = Some s' \<and> backspace s' = Some s'' \<and> con_inv s'' \<and>
          tty s'' = ((chars (ram s))[position s := BLANK], position s)))"
proof (intro conjI impI allI)
  fix c assume c: "c \<noteq> NEWLINE \<and> c \<noteq> RETURN \<and> position s < 1999"
  obtain s' where s': "putc c s = Some s'" "con_step (tty_putc c) s s'" using putc_step [OF assms(1)] by blast
  then have "con_inv s'" "enter_flag s' \<noteq> -1" "tty s' = ((chars (ram s))[position s := c], position s + 1)"
    using c assms(2) by (auto simp: con_step_def con_frame_def tty_def)
  moreover from this(3) have "position s' \<noteq> 0" by (simp add: tty_def)
  ultimately show "\<exists>s' s''. putc c s = Some s' \<and> backspace s' = Some s'' \<and> con_inv s'' \<and>
      tty s'' = ((chars (ram s))[position s := BLANK], position s)"
    using backspace_step [of s'] s'(1) by (auto simp: con_step_def)
qed (rule backspace_start [OF assms(1)])

theorem backspace_takes_back_witness:
  "backspace demo_con = Some demo_con \<and>
   (\<exists>s' s''. putc 0x41 demo_con = Some s' \<and> backspace s' = Some s'' \<and> con_inv s'' \<and>
      tty s'' = ((chars (ram demo_con))[0 := BLANK], 0))"
proof -
  have "position demo_con = 0" by (simp add: position_def demo_con_ok)
  then show ?thesis using backspace_takes_back [OF demo_con_ok(1)] demo_con_ok(3) by auto
qed

text \<open>In text editing mode a backspace right after a line was ended goes back to the place where
  it was ended and blanks the rest of that row; nothing before that place changes.\<close>

theorem newline_backspace_returns:
  assumes "con_inv s" "enter_flag s = -1" "screen_y s < 24"
  shows "\<exists>s' s''. putc NEWLINE s = Some s' \<and> backspace s' = Some s'' \<and> con_inv s'' \<and> position s'' = position s \<and>
    (\<forall>i<2000. chars (ram s'') ! i =
       (if position s < i \<and> int i < 80 * screen_y s + 80 then BLANK else chars (ram s) ! i))"
proof -
  let ?x = "screen_x s" and ?y = "screen_y s"
  have b: "0 \<le> ?x" "?x < 80" "0 \<le> ?y" "?y < 25" "length (enter_tracker s) = 25" using assms by (auto simp: con_inv_def)
  let ?tr = "of_int ?x + OFFSET :: u32"
  define t where "t = s\<lparr>enter_tracker := (enter_tracker s)[nat ?y := ?tr], screen_y := ?y + 1, screen_x := 0\<rparr>"
  have putc: "putc NEWLINE s = Some (move_cursor t)"
    using b assms(3) by (simp add: putc_def t_def store_int_def)
  define u where "u = (move_cursor t)\<lparr>screen_y := ?y, screen_x := 79\<rparr>"
  have x: "uint (ucast (?tr - OFFSET) :: u8) = ?x" "?tr \<noteq> 0"
    using b tracker_column [of ?x] by simp_all
  have u: "con_inv u" "ram u = ram s" "enter_tracker u = (enter_tracker s)[nat ?y := ?tr]" "screen_x u = 79" "screen_y u = ?y"
    using assms(1) by (simp_all add: u_def t_def con_inv_def)
  obtain v where v: "erase_back (ucast (?tr - OFFSET)) u = Some v" "con_inv v" "screen_x v = ?x" "screen_y v = ?y"
      "enter_tracker v = enter_tracker u"
      "\<forall>i<2000. chars (ram v) ! i = (if nat (80 * ?y + ?x) < i \<and> i \<le> position u then BLANK else chars (ram s) ! i)"
    using erase_back_step [OF u(1), of "ucast (?tr - OFFSET)"] x(1) u b by auto
  define w where "w = v\<lparr>enter_tracker := (enter_tracker v)[nat ?y := 0]\<rparr>"
  have load: "load_int (enter_tracker (move_cursor t)) (screen_y (move_cursor t) - 1) = Some ?tr"
    using b by (simp add: t_def load_int_def)
  have "backspace (move_cursor t) = Some (move_cursor w)"
  proof -
    have "(move_cursor t)\<lparr>screen_y := screen_y (move_cursor t) - 1, screen_x := 79\<rparr> = u"
      by (simp add: u_def t_def)
    moreover have "screen_x (move_cursor t) = 0" "screen_y (move_cursor t) \<noteq> 0" "enter_flag (move_cursor t) = -1"
      using b assms(2) by (simp_all add: t_def)
    moreover have "store_int (enter_tracker v) (screen_y v) 0 = Some ((enter_tracker v)[nat ?y := 0])"
      using b v(4,5) u(3) by (simp add: store_int_def)
    ultimately show ?thesis using load x(2) v(1) by (simp add: backspace_def Let_def w_def)
  qed
  moreover have "con_inv (move_cursor w)" using v(2) by (simp add: w_def con_inv_def)
  moreover have "position (move_cursor w) = position s" using v(3,4) by (simp add: w_def position_def)
  moreover have "i \<le> position u \<longleftrightarrow> int i < 80 * ?y + 80" for i
    using position_bound(2) [OF u(1)] u(4,5) by linarith
  ultimately show ?thesis using putc v(6) by (auto simp: w_def position_def)
qed

theorem newline_backspace_returns_witness:
  "\<exists>s' s''. putc NEWLINE (demo_con\<lparr>enter_flag := -1\<rparr>) = Some s' \<and> backspace s' = Some s'' \<and> position s'' = 0"
proof -
  have "con_inv (demo_con\<lparr>enter_flag := -1\<rparr>)" using demo_con_ok(1) by (simp add: con_inv_def)
  from newline_backspace_returns [OF this] show ?thesis
    by (auto simp: demo_con_ok position_def)
qed

end
