(* ===== verification/Paging.thy ===== *)
theory Paging
  imports Console
begin

text \<open>
  \<open>paging.c\<close> and the page table updates the other files make: the set-up of the directory and of the one
  page table, the 4 MB page of a task (\<open>execute\<close>, \<open>halt\<close>, the scheduler) and the page that shows the
  screen to a program (\<open>vidmap\<close>, \<open>terminal_switch\<close>). The specification is the address translation of
  the processor (\<open>translate\<close>); what user memory holds is read and written through it.

  Where the linker puts \<open>page_dir\<close> and \<open>page_tab\<close> is a parameter of the state (\<open>page_dir_at\<close>,
  \<open>page_tab_at\<close>); both are declared with an alignment of 4096. Reloading \<open>cr3\<close> drops every cached translation.
\<close>

section \<open>State\<close>

abbreviation (input) PAGE_4MB :: u32 where "PAGE_4MB \<equiv> 0x80"
abbreviation (input) KERNEL_ADDR :: u32 where "KERNEL_ADDR \<equiv> 0x400000"
abbreviation (input) BITS20_MASK :: u32 where "BITS20_MASK \<equiv> 0xFFFFF000"
abbreviation (input) SET_RW_NOT_PRESENT :: u32 where "SET_RW_NOT_PRESENT \<equiv> 2"
abbreviation (input) SET_RW_PRESENT :: u32 where "SET_RW_PRESENT \<equiv> 3"
abbreviation (input) USER :: u32 where "USER \<equiv> 4"
abbreviation (input) SET_VIDEO_MEM :: u32 where "SET_VIDEO_MEM \<equiv> 7"
abbreviation (input) PAGEINDEX :: nat where "PAGEINDEX \<equiv> 32"
abbreviation (input) VIDMAPNEW :: nat where "VIDMAPNEW \<equiv> 34"
abbreviation (input) KERNEL_TASK_ADDR :: u32 where "KERNEL_TASK_ADDR \<equiv> 0x00800000"
abbreviation (input) FOURMB :: u32 where "FOURMB \<equiv> 0x00400000"

record paging =
  page_dir :: "u32 list"
  page_tab :: "u32 list"
  page_dir_at :: u32
  page_tab_at :: u32
  page_dir_addr :: u32
  page_tab_addr :: u32
  cr0 :: u32
  cr3 :: u32
  cr4 :: u32

definition or_entry :: "nat \<Rightarrow> u32 \<Rightarrow> u32 list \<Rightarrow> u32 list" where
  "or_entry i x t = t[i := (t ! i) OR x]"

section \<open>Operations\<close>

definition enable_paging :: "paging \<Rightarrow> paging" where
  "enable_paging p = p\<lparr>cr3 := page_dir_addr p, cr4 := cr4 p OR 0x10, cr0 := cr0 p OR 0x80000000\<rparr>"

definition flush_tlb :: "paging \<Rightarrow> paging" where
  "flush_tlb p = p\<lparr>cr3 := cr3 p\<rparr>"

definition init_paging :: "paging \<Rightarrow> paging" where
  "init_paging p =
     (let p = p\<lparr>page_dir := for_to 1024 (\<lambda>i d. d[i := SET_RW_NOT_PRESENT]) (page_dir p)\<rparr>;
          p = p\<lparr>page_tab := for_to 1024 (\<lambda>i t. t[i := SET_RW_NOT_PRESENT]) (page_tab p)\<rparr>;
          p = p\<lparr>page_dir_addr := page_dir_at p, page_tab_addr := page_tab_at p\<rparr>;
          video_addr = unat (drop_bit 12 VIDEO);
          p = p\<lparr>page_tab := or_entry video_addr VIDEO (or_entry video_addr SET_RW_PRESENT
                  (or_entry video_addr SET_VIDEO_MEM (page_tab p)))\<rparr>;
          temp = page_tab_addr p AND BITS20_MASK;
          p = p\<lparr>page_dir := or_entry 0 (temp OR SET_RW_PRESENT) (page_dir p)\<rparr>;
          p = p\<lparr>page_dir := or_entry 1 SET_RW_PRESENT (or_entry 1 PAGE_4MB (page_dir p))\<rparr>;
          temp = KERNEL_ADDR AND BITS20_MASK;
          p = p\<lparr>page_dir := or_entry 1 temp (page_dir p)\<rparr>
      in enable_paging p)"

text \<open>The page of the task at position \<open>pos\<close>, as \<open>execute\<close> and \<open>halt\<close> set it up.\<close>

definition set_task_page :: "u8 \<Rightarrow> paging \<Rightarrow> paging" where
  "set_task_page pos p =
     (let d = (page_dir p)[PAGEINDEX := 0, PAGEINDEX := SET_RW_NOT_PRESENT];
          d = or_entry PAGEINDEX USER (or_entry PAGEINDEX SET_RW_PRESENT (or_entry PAGEINDEX PAGE_4MB d));
          temp = (KERNEL_TASK_ADDR + FOURMB * ucast pos) AND BITS20_MASK
      in p\<lparr>page_dir := or_entry PAGEINDEX temp d\<rparr>)"

text \<open>The page that shows the frame \<open>frame\<close> to the program, as \<open>vidmap\<close> and \<open>terminal_switch\<close> set it up.\<close>

definition set_video_page :: "u32 \<Rightarrow> paging \<Rightarrow> paging" where
  "set_video_page frame p =
     (let d = (page_dir p)[VIDMAPNEW := 0, VIDMAPNEW := SET_RW_NOT_PRESENT];
          d = or_entry VIDMAPNEW USER (or_entry VIDMAPNEW SET_RW_PRESENT d);
          temp = page_tab_at p AND BITS20_MASK
      in p\<lparr>page_dir := or_entry VIDMAPNEW temp d,
           page_tab := (page_tab p)[0 := frame OR SET_RW_PRESENT OR USER]\<rparr>)"

section \<open>Address translation\<close>

text \<open>
  The two-level walk of the processor in 32-bit mode with 4 MB pages: the present bit (bit 0) at each
  level, the user bit (bit 2) for accesses from user mode, the page size bit (bit 7) in the directory. A
  directory entry that names a table other than \<open>page_tab\<close> leads to memory the model does not have.
\<close>

definition entry_ok :: "bool \<Rightarrow> u32 \<Rightarrow> bool" where
  "entry_ok user e \<longleftrightarrow> bit e 0 \<and> (user \<longrightarrow> bit e 2)"

definition translate :: "paging \<Rightarrow> bool \<Rightarrow> u32 \<Rightarrow> u32 option" where
  "translate p user va =
     (let pde = page_dir p ! unat (drop_bit 22 va)
      in if \<not> entry_ok user pde then None
         else if bit pde 7 then Some ((pde AND 0xFFC00000) + take_bit 22 va)
         else if pde AND BITS20_MASK = page_tab_at p then
           let pte = page_tab p ! unat (take_bit 10 (drop_bit 12 va))
           in if entry_ok user pte then Some ((pte AND BITS20_MASK) + take_bit 12 va) else None
         else None)"

definition paging_ok :: "paging \<Rightarrow> bool" where
  "paging_ok p \<longleftrightarrow> length (page_dir p) = 1024 \<and> length (page_tab p) = 1024 \<and>
     page_tab_at p AND BITS20_MASK = page_tab_at p"

section \<open>Memory behind the translation\<close>

record vm = con +
  mmu :: paging

text \<open>An access of the kernel to a virtual address; \<open>None\<close> is a page fault.\<close>

definition vload :: "'a vm_scheme \<Rightarrow> u32 \<Rightarrow> u8 option" where
  "vload s va = map_option (ram s) (translate (mmu s) False va)"

definition vstore :: "u32 \<Rightarrow> u8 \<Rightarrow> 'a vm_scheme \<Rightarrow> 'a vm_scheme option" where
  "vstore va x s = map_option (\<lambda>pa. s\<lparr>ram := (ram s)(pa := x)\<rparr>) (translate (mmu s) False va)"

definition vview :: "'a vm_scheme \<Rightarrow> u32 \<Rightarrow> byte_view" where
  "vview s va = (\<lambda>i. if va = 0 then None else vload s (va + of_nat i))"

fun vwrite :: "u32 \<Rightarrow> u8 list \<Rightarrow> 'a vm_scheme \<Rightarrow> 'a vm_scheme option" where
  "vwrite va [] s = Some s"
| "vwrite va (x # xs) s = Option.bind (vstore va x s) (vwrite (va + 1) xs)"

section \<open>Facts on entries\<close>

lemma or_entry_fields [simp]:
  "length (or_entry i x t) = length t" "i < length t \<Longrightarrow> or_entry i x t ! i = (t ! i) OR x"
  "i \<noteq> j \<Longrightarrow> or_entry i x t ! j = t ! j"
  by (simp_all add: or_entry_def)

lemma paging_ok_steps [inv_intros]:
  "paging_ok p \<Longrightarrow> paging_ok (init_paging p)" "paging_ok p \<Longrightarrow> paging_ok (set_task_page pos p)"
  "paging_ok p \<Longrightarrow> paging_ok (set_video_page f p)" "paging_ok p \<Longrightarrow> paging_ok (enable_paging p)"
  "paging_ok p \<Longrightarrow> paging_ok (flush_tlb p)"
  by (simp_all add: paging_ok_def init_paging_def set_task_page_def set_video_page_def enable_paging_def
      flush_tlb_def Let_def for_to_fill_all)

lemma BITS20_mask: "BITS20_MASK = NOT (mask 12)" "(0xFFC00000 :: u32) = NOT (mask 22)"
  by (simp_all add: mask_eq_exp_minus_1)

lemma table_bits:
  assumes "t AND BITS20_MASK = t" "n < 12"
  shows "\<not> bit (t :: u32) n"
proof -
  have "bit (t AND NOT (mask 12)) n = bit t n" using assms(1) by (simp only: BITS20_mask)
  then show ?thesis using assms(2) by (simp add: bit_simps)
qed

lemma table_entry:
  assumes "t AND BITS20_MASK = t" "f < 8"
  shows "(f OR t) AND BITS20_MASK = (t :: u32)" "bit (f OR t) 0 = bit f 0" "bit (f OR t) 2 = bit f 2" "\<not> bit (f OR t) 7"
proof -
  have f: "n < 3" if "bit f n" for n
  proof -
    have "take_bit 3 (unat f) = unat f" using assms(2) by (simp add: word_less_nat_alt take_bit_nat_eq_self_iff)
    then have "f = take_bit 3 f" by (metis unsigned_take_bit_eq unsigned_word_eqI)
    then show ?thesis using that by (metis bit_take_bit_iff)
  qed
  then show "\<not> bit (f OR t) 7" using f [of 7] table_bits [OF assms(1), of 7] by (auto simp: bit_or_iff)
  show "bit (f OR t) 0 = bit f 0" "bit (f OR t) 2 = bit f 2"
    using table_bits [OF assms(1)] by (simp_all add: bit_or_iff)
  have "f AND NOT (mask 12) = 0" by (rule bit_word_eqI) (use f in \<open>fastforce simp: bit_simps\<close>)
  then show "(f OR t) AND BITS20_MASK = t" using assms(1) unfolding BITS20_mask by (simp add: bit.conj_disj_distrib2)
qed

lemma dir_index: "unat (drop_bit 22 va) < 1024" for va :: u32
proof -
  have "unat va div 2 ^ 22 < 1024" using unat_u32_less [of va] by (simp add: less_mult_imp_div_less)
  then show ?thesis by (simp add: drop_bit_eq_div unat_div)
qed

lemma table_index:
  assumes "drop_bit 22 (va :: u32) = 0"
  shows "take_bit 10 (drop_bit 12 va) = drop_bit 12 va"
proof (rule bit_word_eqI)
  fix n
  show "bit (take_bit 10 (drop_bit 12 va)) n = bit (drop_bit 12 va) n"
  proof (cases "n < 10")
    case False
    then have "bit va (12 + n) = bit (drop_bit 22 va) (n - 10)" by (simp add: bit_drop_bit_eq)
    then show ?thesis using False assms by (simp add: bit_simps)
  qed (simp add: bit_simps)
qed

lemma take_bit_10_bound: "unat (take_bit 10 (x :: u32)) < 1024"
  by (simp add: unsigned_take_bit_eq take_bit_nat_def)

lemma page_split: "push_bit 22 (drop_bit 22 va) + take_bit 22 va = va"
    "push_bit 12 (drop_bit 12 va) + take_bit 12 va = va" for va :: u32
  by (rule bits_ident)+

section \<open>The initial map\<close>

lemma init_paging_entries:
  assumes "paging_ok p"
  shows "page_dir (init_paging p) = (replicate 1024 2)[0 := 3 OR page_tab_at p, 1 := 0x400083]"
    "page_tab (init_paging p) = (replicate 1024 2)[0xB8 := 0xB8007]"
    "page_tab_at (init_paging p) = page_tab_at p"
proof -
  have e: "2 OR (t OR 3) = 3 OR (t :: u32)" for t
  proof -
    have "2 OR (t OR 3) = (2 OR 3) OR t" by (simp only: ac_simps)
    then show ?thesis by simp
  qed
  show "page_dir (init_paging p) = (replicate 1024 2)[0 := 3 OR page_tab_at p, 1 := 0x400083]"
    "page_tab (init_paging p) = (replicate 1024 2)[0xB8 := 0xB8007]"
    "page_tab_at (init_paging p) = page_tab_at p"
    using assms
    by (simp_all add: init_paging_def paging_ok_def enable_paging_def Let_def for_to_fill_all map_replicate_const
        or_entry_def e)
qed

lemma translate_init:
  assumes "paging_ok p"
  shows "translate (init_paging p) user va =
    (if \<not> user \<and> (drop_bit 22 va = 1 \<or> drop_bit 12 va = 0xB8) then Some va else None)"
proof -
  note e = init_paging_entries [OF assms]
  have t: "page_tab_at p AND BITS20_MASK = page_tab_at p" using assms by (simp add: paging_ok_def)
  have video: "drop_bit 22 va = 0" if "drop_bit 12 va = 0xB8"
  proof -
    have "drop_bit 22 va = drop_bit 10 (drop_bit 12 va)" by simp
    then show ?thesis unfolding that by simp
  qed
  consider "drop_bit 22 va = 0" | "drop_bit 22 va = 1" | "drop_bit 22 va \<noteq> 0" "drop_bit 22 va \<noteq> 1" by blast
  then show ?thesis
  proof cases
    case 1
    then have i: "unat (drop_bit 22 va) = 0" "unat (take_bit 10 (drop_bit 12 va)) = unat (drop_bit 12 va)"
      by (simp_all add: table_index)
    have v: "unat (drop_bit 12 va) = 0xB8 \<longleftrightarrow> drop_bit 12 va = 0xB8" using unat_eq_offset [of "0xB8"] by simp
    have b: "unat (drop_bit 12 va) < 1024" using i(2) by (metis take_bit_10_bound)
    note pde = table_entry [OF t, of 3]
    show ?thesis
    proof (cases "drop_bit 12 va = 0xB8")
      case True
      then show ?thesis using 1 i v pde page_split(2) [of va] e by (simp add: translate_def entry_ok_def)
    next
      case False
      then show ?thesis using 1 i v b pde e by (simp add: translate_def entry_ok_def Let_def)
    qed
  next
    case 2
    then show ?thesis using video page_split(1) [of va] e by (auto simp: translate_def entry_ok_def)
  next
    case 3
    then have "unat (drop_bit 22 va) \<noteq> 0" "unat (drop_bit 22 va) \<noteq> 1"
      using unat_eq_offset [of 0 "drop_bit 22 va"] unat_eq_offset [of 1 "drop_bit 22 va"] by simp_all
    then show ?thesis using 3 video dir_index [of va] e by (auto simp: translate_def entry_ok_def)
  qed
qed

section \<open>The page of a task\<close>

text \<open>The 4 MB of physical memory that belong to the task at position \<open>pos\<close>.\<close>

definition task_frame :: "nat \<Rightarrow> u32" where
  "task_frame pos = 0x800000 + 0x400000 * of_nat pos"

lemma task_positions: "pos < (6 :: nat) \<longleftrightarrow> pos = 0 \<or> pos = 1 \<or> pos = 2 \<or> pos = 3 \<or> pos = 4 \<or> pos = 5"
  by presburger

lemma set_task_page_entry:
  assumes "length (page_dir p) = 1024" "pos < 6"
  shows "page_dir (set_task_page (of_nat pos) p) = (page_dir p)[32 := 0x87 OR task_frame pos]"
  using assms unfolding task_positions
  by (auto simp: set_task_page_def task_frame_def or_entry_def Let_def)

lemma set_task_page_frame [simp]:
  "page_tab (set_task_page pos p) = page_tab p" "page_tab_at (set_task_page pos p) = page_tab_at p"
  by (simp_all add: set_task_page_def Let_def)

lemma task_page_bits:
  assumes "pos < 6"
  shows "entry_ok user (0x87 OR task_frame pos)" "bit (0x87 OR task_frame pos) 7"
    "(0x87 OR task_frame pos) AND 0xFFC00000 = task_frame pos"
  using assms unfolding task_positions by (auto simp: task_frame_def entry_ok_def)

lemma translate_set_task_page:
  assumes "paging_ok p" "pos < 6"
  shows "translate (set_task_page (of_nat pos) p) user va =
    (if drop_bit 22 va = 32 then Some (task_frame pos + take_bit 22 va) else translate p user va)"
proof -
  have i: "unat (drop_bit 22 va) = 32 \<longleftrightarrow> drop_bit 22 va = 32" using unat_eq_offset [of 32] by simp
  have "page_dir (set_task_page (of_nat pos) p) = (page_dir p)[32 := 0x87 OR task_frame pos]"
    "length (page_dir p) = 1024"
    using assms set_task_page_entry by (simp_all add: paging_ok_def)
  then show ?thesis using i task_page_bits [OF assms(2)]
    by (cases "drop_bit 22 va = 32") (simp_all add: translate_def Let_def)
qed

lemma task_frames_disjoint:
  assumes "i < 6" "j < 6" "i \<noteq> j"
  shows "task_frame i + take_bit 22 a \<noteq> task_frame j + take_bit 22 b"
proof
  have u: "unat (task_frame k + take_bit 22 x) = 0x800000 + 0x400000 * k + unat (take_bit 22 x)" if "k < 6" for k x
  proof -
    have "unat (take_bit 22 x :: u32) < 2 ^ 22" by (simp add: unsigned_take_bit_eq take_bit_nat_def)
    then show ?thesis using unat_offset [of "0x800000 + 0x400000 * k + unat (take_bit 22 x)"] that
      by (simp add: task_frame_def)
  qed
  have t: "unat (take_bit 22 x :: u32) < 0x400000" for x by (simp add: unsigned_take_bit_eq take_bit_nat_def)
  assume "task_frame i + take_bit 22 a = task_frame j + take_bit 22 b"
  then have "0x800000 + 0x400000 * i + unat (take_bit 22 a) = 0x800000 + 0x400000 * j + unat (take_bit 22 b)"
    using u assms by metis
  then show False using t [of a] t [of b] assms(3) by (cases "i < j") linarith+
qed

section \<open>The page of the screen\<close>

lemma set_video_page_entries:
  assumes "paging_ok p"
  shows "page_dir (set_video_page frame p) = (page_dir p)[34 := 7 OR page_tab_at p]"
    "page_tab (set_video_page frame p) = (page_tab p)[0 := 7 OR frame]"
    "page_tab_at (set_video_page frame p) = page_tab_at p"
proof -
  have f: "frame OR (3 OR 4) = 7 OR (frame :: u32)" for frame by (simp add: or.commute)
  show "page_dir (set_video_page frame p) = (page_dir p)[34 := 7 OR page_tab_at p]"
    "page_tab (set_video_page frame p) = (page_tab p)[0 := 7 OR frame]"
    "page_tab_at (set_video_page frame p) = page_tab_at p"
    using assms f by (simp_all add: set_video_page_def paging_ok_def or_entry_def Let_def or.assoc)
qed

lemma translate_set_video_page:
  assumes "paging_ok p" "frame AND BITS20_MASK = frame" "drop_bit 12 va = 0x8800"
  shows "translate (set_video_page frame p) user va = Some (frame + take_bit 12 va)"
proof -
  have "drop_bit 22 va = drop_bit 10 (drop_bit 12 va)" by simp
  then have d: "drop_bit 22 va = 34" unfolding assms(3) by simp
  have t: "page_tab_at p AND BITS20_MASK = page_tab_at p" "length (page_dir p) = 1024" "length (page_tab p) = 1024"
    using assms(1) by (simp_all add: paging_ok_def)
  have "bit (7 :: u32) 0" "bit (7 :: u32) 2" by simp_all
  then show ?thesis
    using d assms(3) t set_video_page_entries [OF assms(1), of frame] table_entry [OF t(1), of 7] table_entry [OF assms(2), of 7]
    by (simp add: translate_def entry_ok_def Let_def)
qed

lemma translate_set_video_page_other:
  assumes "paging_ok p" "drop_bit 22 va \<noteq> 34"
    and "bit (page_dir p ! unat (drop_bit 22 va)) 7 \<or> take_bit 10 (drop_bit 12 va) \<noteq> 0"
  shows "translate (set_video_page frame p) user va = translate p user va"
proof -
  have "unat (drop_bit 22 va) \<noteq> 34" "take_bit 10 (drop_bit 12 va) \<noteq> 0 \<Longrightarrow> unat (take_bit 10 (drop_bit 12 va)) \<noteq> 0"
    using assms(2) unat_eq_offset [of 34 "drop_bit 22 va"] by (simp_all add: unsigned_eq_0_iff)
  then show ?thesis using assms(3) set_video_page_entries [OF assms(1), of frame]
    by (auto simp: translate_def Let_def)
qed

section \<open>User memory\<close>

lemma all_less_Suc_shift: "(\<forall>i<Suc n. P i) \<longleftrightarrow> P 0 \<and> (\<forall>i<n. P (Suc i))"
  using less_Suc_eq_0_disj by auto

text \<open>A run of virtual addresses that is also a run of physical ones.\<close>

definition maps_range :: "paging \<Rightarrow> u32 \<Rightarrow> u32 \<Rightarrow> nat \<Rightarrow> bool" where
  "maps_range p va pa n \<longleftrightarrow> (\<forall>i<n. translate p False (va + of_nat i) = Some (pa + of_nat i))"

lemma maps_range_Suc: "maps_range p va pa (Suc n) \<longleftrightarrow>
    translate p False va = Some pa \<and> maps_range p (va + 1) (pa + 1) n"
  unfolding maps_range_def all_less_Suc_shift by (simp add: algebra_simps)

lemma vwrite_range:
  "maps_range (mmu s) va pa (length xs) \<Longrightarrow> vwrite va xs s = Some (s\<lparr>ram := write_bytes (ram s) pa xs\<rparr>)"
proof (induction xs arbitrary: va pa s)
  case (Cons x xs)
  have "vwrite (va + 1) xs (s\<lparr>ram := (ram s)(pa := x)\<rparr>) =
      Some (s\<lparr>ram := write_bytes ((ram s)(pa := x)) (pa + 1) xs\<rparr>)"
    using Cons.prems by (subst Cons.IH [of _ _ "pa + 1"]) (simp_all add: maps_range_Suc)
  then show ?case using Cons.prems by (simp add: maps_range_Suc vstore_def)
qed simp

lemma vview_range:
  "maps_range (mmu s) va pa n \<Longrightarrow> va \<noteq> 0 \<Longrightarrow> i < n \<Longrightarrow> vview s va i = Some (ram s (pa + of_nat i))"
  by (simp add: maps_range_def vview_def vload_def)

lemma vload_vstore:
  assumes "vstore va x s = Some s'"
  shows "vload s' va = Some x" "mmu s' = mmu s"
  using assms by (auto simp: vstore_def vload_def)

text \<open>The 4 MB a program sees from 128 MB on.\<close>

lemma task_address:
  assumes "k < 0x400000"
  shows "drop_bit 22 (0x08000000 + of_nat k :: u32) = 32" "take_bit 22 (0x08000000 + of_nat k :: u32) = of_nat k"
proof -
  have u: "unat (0x08000000 + of_nat k :: u32) = 0x08000000 + k"
    using unat_offset [of "0x08000000 + k"] assms by simp
  have "unat (drop_bit 22 (0x08000000 + of_nat k :: u32)) = 32"
    using u assms by (simp add: unat_drop_bit_eq drop_bit_nat_def)
  then show "drop_bit 22 (0x08000000 + of_nat k :: u32) = 32" using unat_eq_offset [of 32] by simp
  have "(k + 32 * 4194304) mod 4194304 = k" using assms by (simp only: mod_mult_self1 mod_less)
  then have "unat (take_bit 22 (0x08000000 + of_nat k :: u32)) = k"
    using u by (simp add: unsigned_take_bit_eq take_bit_nat_def add.commute)
  then show "take_bit 22 (0x08000000 + of_nat k :: u32) = of_nat k" using unat_eq_offset [of k] assms by simp
qed

lemma maps_range_task:
  assumes "paging_ok p" "pos < 6" "k + n \<le> 0x400000"
  shows "maps_range (set_task_page (of_nat pos) p) (0x08000000 + of_nat k) (task_frame pos + of_nat k) n"
  unfolding maps_range_def
proof (intro allI impI)
  fix i assume "i < n"
  then have "k + i < 0x400000" using assms(3) by simp
  from task_address [OF this] show "translate (set_task_page (of_nat pos) p) False (0x08000000 + of_nat k + of_nat i) =
      Some (task_frame pos + of_nat k + of_nat i)"
    using translate_set_task_page [OF assms(1,2)] by (simp add: add.assoc)
qed

section \<open>Correctness\<close>

definition demo_paging :: paging where
  "demo_paging = \<lparr>page_dir = replicate 1024 0, page_tab = replicate 1024 0, page_dir_at = 0x410000,
     page_tab_at = 0x411000, page_dir_addr = 0, page_tab_addr = 0, cr0 = 0x11, cr3 = 0, cr4 = 0\<rparr>"

lemma demo_paging_ok: "paging_ok demo_paging"
  by (simp add: paging_ok_def demo_paging_def)

text \<open>C29: after the set-up of paging the kernel reaches its own 4 MB and the screen at their physical
  addresses, every other address faults, and from user mode every address faults; paging and 4 MB pages
  are switched on with the directory just built.\<close>

theorem init_paging_maps_kernel:
  assumes "paging_ok p"
  shows "translate (init_paging p) user va =
      (if \<not> user \<and> (drop_bit 22 va = 1 \<or> drop_bit 12 va = 0xB8) then Some va else None) \<and>
    cr3 (init_paging p) = page_dir_at p \<and> bit (cr0 (init_paging p)) 31 \<and> bit (cr4 (init_paging p)) 4"
proof (intro conjI)
  show "translate (init_paging p) user va =
      (if \<not> user \<and> (drop_bit 22 va = 1 \<or> drop_bit 12 va = 0xB8) then Some va else None)"
    using assms by (rule translate_init)
  have b: "bit (0x80000000 :: u32) 31" "bit (0x10 :: u32) 4" by simp_all
  show "cr3 (init_paging p) = page_dir_at p" "bit (cr0 (init_paging p)) 31" "bit (cr4 (init_paging p)) 4"
    using b by (simp_all add: init_paging_def enable_paging_def Let_def bit_or_iff)
qed

theorem init_paging_maps_kernel_witness:
  "translate (init_paging demo_paging) False 0x400123 = Some 0x400123 \<and>
   translate (init_paging demo_paging) True 0x400123 = None \<and> translate (init_paging demo_paging) False 0 = None"
  using init_paging_maps_kernel [OF demo_paging_ok, of False "0x400123"]
    init_paging_maps_kernel [OF demo_paging_ok, of True "0x400123"]
    init_paging_maps_kernel [OF demo_paging_ok, of False 0] by simp

text \<open>C24: setting up the page of a task maps the 4 MB from 128 MB on to the frame of that task, for the
  kernel and for user mode, and changes no other translation; the frames of two different tasks have no
  byte in common.\<close>

theorem task_pages_isolated:
  assumes "paging_ok p" "i < 6"
  shows "(\<forall>user va. translate (set_task_page (of_nat i) p) user va =
      (if drop_bit 22 va = 32 then Some (task_frame i + take_bit 22 va) else translate p user va)) \<and>
    (\<forall>j user user' q a b x y. j < 6 \<and> j \<noteq> i \<and> paging_ok q \<and> drop_bit 22 a = 32 \<and> drop_bit 22 b = 32 \<and>
       translate (set_task_page (of_nat i) p) user a = Some x \<and>
       translate (set_task_page (of_nat j) q) user' b = Some y \<longrightarrow> x \<noteq> y)"
  using translate_set_task_page [OF assms] task_frames_disjoint [OF assms(2)]
  by (auto simp: translate_set_task_page) metis

theorem task_pages_isolated_witness:
  "translate (set_task_page (of_nat 1) (init_paging demo_paging)) True 0x08048000 = Some 0x00C48000"
proof -
  have t: "take_bit 22 (0x08048000 :: u32) = 0x48000" by (simp add: take_bit_eq_mod)
  show ?thesis
    using task_pages_isolated [OF paging_ok_steps(1) [OF demo_paging_ok], of 1] t by (simp add: task_frame_def)
qed

text \<open>Setting up the screen page shows the given frame at 136 MB to user mode and to the kernel, and
  changes no translation outside that 4 MB region except for the first page of addresses that the same
  table entry serves.\<close>

theorem video_page_shows_frame:
  assumes "paging_ok p" "frame AND BITS20_MASK = frame"
  shows "(\<forall>user va. drop_bit 12 va = 0x8800 \<longrightarrow> translate (set_video_page frame p) user va = Some (frame + take_bit 12 va)) \<and>
    (\<forall>user va. drop_bit 22 va \<noteq> 34 \<and> (bit (page_dir p ! unat (drop_bit 22 va)) 7 \<or> take_bit 10 (drop_bit 12 va) \<noteq> 0) \<longrightarrow>
       translate (set_video_page frame p) user va = translate p user va)"
  using translate_set_video_page [OF assms] translate_set_video_page_other [OF assms(1)] by simp

theorem video_page_shows_frame_witness:
  "translate (set_video_page 0xB8000 (init_paging demo_paging)) True 0x08800010 = Some 0xB8010"
  using video_page_shows_frame [OF paging_ok_steps(1) [OF demo_paging_ok], of "0xB8000"] by (simp add: take_bit_eq_mod)

end
