(* ===== verification/Lib_Mem.thy ===== *)
theory Lib_Mem
  imports Prelude
begin

text \<open>
  The memory routines of \<open>lib.c\<close>, which are inline assembly: \<open>memset\<close>, \<open>memset_word\<close>,
  \<open>memset_dword\<close>, \<open>memcpy\<close> and \<open>memmove\<close>. The model follows the instructions: byte steps until
  \<open>edi\<close> is aligned, \<open>rep stosl\<close> or \<open>rep movsl\<close> for the bulk, byte steps for the rest. The lemmas
  show each equal to the plain run of byte writes it stands for.
\<close>

section \<open>String instructions\<close>

definition byte_of :: "nat \<Rightarrow> u32 \<Rightarrow> u8" where
  "byte_of i w = ucast (drop_bit (8 * i) w)"

definition bytes32 :: "u32 \<Rightarrow> u8 list" where
  "bytes32 w = [byte_of 0 w, byte_of 1 w, byte_of 2 w, byte_of 3 w]"

definition bytes_at :: "memory \<Rightarrow> u32 \<Rightarrow> nat \<Rightarrow> u8 list" where
  "bytes_at m a k = map (\<lambda>i. m (a + of_nat i)) [0..<k]"

text \<open>\<open>rep stosb/stosw/stosl\<close>: the same element stored \<open>n\<close> times, \<open>edi\<close> moving forward.\<close>

fun rep_stos :: "u8 list \<Rightarrow> nat \<Rightarrow> memory \<Rightarrow> u32 \<Rightarrow> memory" where
  "rep_stos e 0 m edi = m"
| "rep_stos e (Suc n) m edi = rep_stos e n (write_bytes m edi e) (edi + of_nat (length e))"

text \<open>\<open>rep movsb/movsl\<close> with the direction flag clear: \<open>k\<close> bytes loaded, then stored, per step.\<close>

fun rep_movs :: "nat \<Rightarrow> nat \<Rightarrow> memory \<Rightarrow> u32 \<Rightarrow> u32 \<Rightarrow> memory" where
  "rep_movs k 0 m edi esi = m"
| "rep_movs k (Suc n) m edi esi =
     rep_movs k n (write_bytes m edi (bytes_at m esi k)) (edi + of_nat k) (esi + of_nat k)"

text \<open>\<open>rep movsb\<close> with the direction flag set: \<open>edi\<close> and \<open>esi\<close> move backward.\<close>

fun rep_movsb_down :: "nat \<Rightarrow> memory \<Rightarrow> u32 \<Rightarrow> u32 \<Rightarrow> memory" where
  "rep_movsb_down 0 m edi esi = m"
| "rep_movsb_down (Suc n) m edi esi = rep_movsb_down n (m(edi := m esi)) (edi - 1) (esi - 1)"

section \<open>The routines\<close>

function memset_top :: "u32 \<Rightarrow> memory \<Rightarrow> u32 \<Rightarrow> u32 \<Rightarrow> memory" where
  "memset_top eax m edi ecx =
     (if ecx = 0 then m
      else if edi AND 3 = 0 then
        let edx = ecx AND 3; n = drop_bit 2 ecx;
            m = rep_stos (bytes32 eax) (unat n) m edi
        in rep_stos [byte_of 0 eax] (unat edx) m (edi + 4 * n)
      else memset_top eax (m(edi := byte_of 0 eax)) (edi + 1) (ecx - 1))"
  by pat_completeness auto
termination
  by (relation "measure (\<lambda>(eax, m, edi, ecx). unat ecx)") (auto simp: measure_unat)

declare memset_top.simps [simp del]

definition memset :: "memory \<Rightarrow> u32 \<Rightarrow> u32 \<Rightarrow> u32 \<Rightarrow> memory" where
  "memset m s c n =
     (let c = c AND 0xFF
      in memset_top (push_bit 24 c OR push_bit 16 c OR push_bit 8 c OR c) m s n)"

definition memset_word :: "memory \<Rightarrow> u32 \<Rightarrow> u32 \<Rightarrow> u32 \<Rightarrow> memory" where
  "memset_word m s c n = rep_stos [byte_of 0 c, byte_of 1 c] (unat n) m s"

definition memset_dword :: "memory \<Rightarrow> u32 \<Rightarrow> u32 \<Rightarrow> u32 \<Rightarrow> memory" where
  "memset_dword m s c n = rep_stos (bytes32 c) (unat n) m s"

function memcpy_top :: "memory \<Rightarrow> u32 \<Rightarrow> u32 \<Rightarrow> u32 \<Rightarrow> memory" where
  "memcpy_top m edi esi ecx =
     (if ecx = 0 then m
      else if edi AND 3 = 0 then
        let edx = ecx AND 3; n = drop_bit 2 ecx;
            m = rep_movs 4 (unat n) m edi esi
        in rep_movs 1 (unat edx) m (edi + 4 * n) (esi + 4 * n)
      else memcpy_top (m(edi := m esi)) (edi + 1) (esi + 1) (ecx - 1))"
  by pat_completeness auto
termination
  by (relation "measure (\<lambda>(m, edi, esi, ecx). unat ecx)") (auto simp: measure_unat)

declare memcpy_top.simps [simp del]

definition memcpy :: "memory \<Rightarrow> u32 \<Rightarrow> u32 \<Rightarrow> u32 \<Rightarrow> memory" where
  "memcpy m dest src n = memcpy_top m dest src n"

text \<open>\<open>memmove\<close> returns the memory and the direction flag it leaves behind: \<open>std\<close> is never undone.\<close>

definition memmove :: "memory \<Rightarrow> u32 \<Rightarrow> u32 \<Rightarrow> u32 \<Rightarrow> memory \<times> bool" where
  "memmove m dest src n =
     (if dest \<le> src then (rep_movs 1 (unat n) m dest src, False)
      else (rep_movsb_down (unat n) m (dest + n - 1) (src + n - 1), True))"

section \<open>Filling\<close>

lemma rep_stos_eq: "rep_stos e n m a = write_bytes m a (concat (replicate n e))"
  by (induction n arbitrary: m a) (simp_all add: write_bytes_append)

lemma split_count: "4 * unat (drop_bit 2 n) + unat (n AND 3) = unat (n :: u32)"
proof -
  have "n AND 3 = take_bit 2 n" by (simp add: take_bit_eq_mask mask_eq_exp_minus_1)
  moreover have "unat (drop_bit 2 n) = unat n div 4" "unat (take_bit 2 n) = unat n mod 4"
    by (simp_all add: unat_drop_bit_eq unsigned_take_bit_eq drop_bit_eq_div take_bit_eq_mod unat_div unat_mod)
  ultimately show ?thesis by simp
qed

lemma concat_replicate_const: "concat (replicate n (replicate k x)) = replicate (n * k) x"
  by (induction n) (simp_all add: replicate_add)

lemma byte_of_0_fill: "bytes32 eax = replicate 4 b \<Longrightarrow> byte_of 0 eax = b"
  by (simp add: bytes32_def numeral_eq_Suc)

lemma memset_top_eq:
  "bytes32 eax = replicate 4 b \<Longrightarrow> memset_top eax m edi ecx = write_bytes m edi (replicate (unat ecx) b)"
proof (induction eax m edi ecx rule: memset_top.induct)
  case (1 eax m edi ecx)
  note b = byte_of_0_fill [OF "1.prems"]
  show ?case
  proof (cases "ecx = 0 \<or> edi AND 3 = 0")
    case True
    let ?n = "drop_bit 2 ecx"
    have "of_nat (length (replicate (4 * unat ?n) b)) = (4 * ?n :: u32)" by simp
    then have "write_bytes (write_bytes m edi (replicate (4 * unat ?n) b)) (edi + 4 * ?n)
        (replicate (unat (ecx AND 3)) b) = write_bytes m edi (replicate (unat ecx) b)"
      by (metis split_count replicate_add write_bytes_append)
    then show ?thesis using True "1.prems" b
      by (subst memset_top.simps)
        (auto simp: Let_def rep_stos_eq concat_replicate_const mult.commute
          concat_replicate_const [of _ 1, simplified])
  next
    case False
    then have "unat ecx = Suc (unat (ecx - 1))" by (simp add: unat_minus_one unat_gt_0)
    moreover have "memset_top eax (m(edi := byte_of 0 eax)) (edi + 1) (ecx - 1) =
        write_bytes (m(edi := byte_of 0 eax)) (edi + 1) (replicate (unat (ecx - 1)) b)"
      by (rule "1.IH") (use False "1.prems" in auto)
    ultimately show ?thesis using False b by (subst memset_top.simps) simp
  qed
qed

lemma bit_byte_of: "bit (byte_of i w) n \<longleftrightarrow> n < 8 \<and> bit w (8 * i + n)"
  by (simp add: byte_of_def bit_simps)

lemma bit_fill:
  assumes "n < 8" "i < 4"
  shows "bit (push_bit 24 (take_bit 8 c) OR push_bit 16 (take_bit 8 c) OR push_bit 8 (take_bit 8 c)
    OR take_bit 8 (c :: u32)) (8 * i + n) = bit c n"
proof -
  have "i = 0 \<or> i = 1 \<or> i = 2 \<or> i = 3" using assms(2) by linarith
  then show ?thesis using assms(1)
    unfolding bit_or_iff bit_push_bit_iff bit_take_bit_iff possible_bit_word
    by (elim disjE) (simp_all, linarith?)
qed

lemma byte_of_fill:
  assumes "i < 4"
  shows "byte_of i (push_bit 24 (take_bit 8 c) OR push_bit 16 (take_bit 8 c) OR
    push_bit 8 (take_bit 8 c) OR take_bit 8 c) = ucast c"
proof (rule bit_word_eqI)
  fix n assume "n < LENGTH(8)"
  then have n: "n < 8" by simp
  have "bit (ucast c :: u8) n = bit c n" using n by (simp add: bit_simps)
  then show "bit (byte_of i (push_bit 24 (take_bit 8 c) OR push_bit 16 (take_bit 8 c) OR
      push_bit 8 (take_bit 8 c) OR take_bit 8 c)) n = bit (ucast c :: u8) n"
    unfolding bit_byte_of bit_fill [OF n assms] using n by blast
qed

lemma bytes32_fill: "bytes32 (push_bit 24 (c AND 0xFF) OR push_bit 16 (c AND 0xFF) OR
    push_bit 8 (c AND 0xFF) OR (c AND 0xFF)) = replicate 4 (ucast c)"
proof -
  have c: "c AND 0xFF = take_bit 8 c" by (simp add: take_bit_eq_mask mask_eq_exp_minus_1)
  have "replicate 4 x = [x, x, x, x]" for x :: u8 by (simp add: numeral_eq_Suc)
  moreover have "(0 :: nat) < 4" "(1 :: nat) < 4" "(2 :: nat) < 4" "(3 :: nat) < 4" by simp_all
  ultimately show ?thesis unfolding bytes32_def c by (simp only: byte_of_fill)
qed

theorem memset_eq: "memset m s c n = write_bytes m s (replicate (unat n) (ucast c))"
  unfolding memset_def Let_def by (rule memset_top_eq) (rule bytes32_fill)

lemma memset_word_eq:
  "memset_word m s c n = write_bytes m s (concat (replicate (unat n) [byte_of 0 c, byte_of 1 c]))"
  by (simp add: memset_word_def rep_stos_eq)

lemma memset_dword_eq:
  "memset_dword m s c n = write_bytes m s (concat (replicate (unat n) (bytes32 c)))"
  by (simp add: memset_dword_def rep_stos_eq)

section \<open>Copying\<close>

definition disjoint_ranges :: "u32 \<Rightarrow> u32 \<Rightarrow> nat \<Rightarrow> bool" where
  "disjoint_ranges d s k \<longleftrightarrow> (\<forall>i<k. \<forall>j<k. d + of_nat i \<noteq> s + of_nat j)"

lemma length_bytes_at [simp]: "length (bytes_at m a k) = k"
  by (simp add: bytes_at_def)

lemma bytes_at_0 [simp]: "bytes_at m a 0 = []"
  by (simp add: bytes_at_def)

lemma bytes_at_add: "bytes_at m a (k + l) = bytes_at m a k @ bytes_at m (a + of_nat k) l"
  by (rule nth_equalityI) (auto simp: bytes_at_def nth_append algebra_simps of_nat_diff)

lemma bytes_at_Suc: "bytes_at m a (Suc k) = m a # bytes_at m (a + 1) k"
  using bytes_at_add [of m a 1 k] by (simp add: bytes_at_def)

lemma bytes_at_snoc: "bytes_at m a (Suc k) = bytes_at m a k @ [m (a + of_nat k)]"
  by (simp add: bytes_at_def)

lemma write_bytes_outside:
  "(\<And>i. i < length xs \<Longrightarrow> b \<noteq> a + of_nat i) \<Longrightarrow> write_bytes m a xs b = m b"
proof (induction xs arbitrary: m a)
  case (Cons x xs)
  have "b \<noteq> a" using Cons.prems [of 0] by simp
  moreover have "b \<noteq> a + 1 + of_nat i" if "i < length xs" for i
    using Cons.prems [of "Suc i"] that by (simp add: algebra_simps)
  ultimately show ?case using Cons.IH [of "a + 1"] by simp
qed simp

lemma bytes_at_frame:
  assumes "\<And>j. j < k \<Longrightarrow> m' (a + of_nat j) = m (a + of_nat j)"
  shows "bytes_at m' a k = bytes_at m a k"
  using assms by (simp add: bytes_at_def)

lemma copy_append:
  assumes "disjoint_ranges d s (k + l)" and m': "m' = write_bytes m d (bytes_at m s k)"
  shows "write_bytes m' (d + of_nat k) (bytes_at m' (s + of_nat k) l) = write_bytes m d (bytes_at m s (k + l))"
proof -
  have "bytes_at m' (s + of_nat k) l = bytes_at m (s + of_nat k) l"
  proof (rule bytes_at_frame, unfold m', rule write_bytes_outside)
    fix i j assume "j < l" "i < length (bytes_at m s k)"
    then show "s + of_nat k + of_nat j \<noteq> d + of_nat i"
      using assms(1) by (metis (no_types) add.assoc add_strict_left_mono disjoint_ranges_def
        length_bytes_at of_nat_add trans_less_add1)
  qed
  then show ?thesis by (simp add: m' bytes_at_add write_bytes_append)
qed

lemma disjoint_ranges_drop:
  assumes "disjoint_ranges d s (k + l)"
  shows "disjoint_ranges (d + of_nat k) (s + of_nat k) l"
  unfolding disjoint_ranges_def
proof (intro allI impI)
  fix i j assume "i < l" "j < l"
  then have "d + of_nat (k + i) \<noteq> s + of_nat (k + j)" using assms by (simp add: disjoint_ranges_def)
  then show "d + of_nat k + of_nat i \<noteq> s + of_nat k + of_nat j" by (simp add: algebra_simps)
qed

lemma disjoint_ranges_mono: "disjoint_ranges d s k \<Longrightarrow> l \<le> k \<Longrightarrow> disjoint_ranges d s l"
  by (auto simp: disjoint_ranges_def)

lemma rep_movs_eq:
  "disjoint_ranges d s (n * k) \<Longrightarrow> rep_movs k n m d s = write_bytes m d (bytes_at m s (n * k))"
proof (induction n arbitrary: m d s)
  case 0
  then show ?case by (simp add: bytes_at_def)
next
  case (Suc n)
  then have dis: "disjoint_ranges d s (k + n * k)" by simp
  show ?case
    using Suc.IH [OF disjoint_ranges_drop [OF dis]] copy_append [OF dis refl] by simp
qed

theorem memcpy_eq:
  "disjoint_ranges d s (unat n) \<Longrightarrow> memcpy m d s n = write_bytes m d (bytes_at m s (unat n))"
  unfolding memcpy_def
proof (induction m d s n rule: memcpy_top.induct)
  case (1 m d s n)
  show ?case
  proof (cases "n = 0 \<or> d AND 3 = 0")
    case True
    let ?q = "drop_bit 2 n" and ?m = "write_bytes m d (bytes_at m s (unat (drop_bit 2 n) * 4))"
    have q: "of_nat (unat ?q * 4) = (4 * ?q :: u32)" by simp
    have dis: "disjoint_ranges d s (unat ?q * 4 + unat (n AND 3))"
      using "1.prems" split_count [of n] by (simp add: mult.commute)
    have "rep_movs 4 (unat ?q) m d s = ?m"
      by (rule rep_movs_eq) (rule disjoint_ranges_mono [OF dis], simp)
    moreover have "rep_movs 1 (unat (n AND 3)) ?m (d + 4 * ?q) (s + 4 * ?q) =
        write_bytes ?m (d + 4 * ?q) (bytes_at ?m (s + 4 * ?q) (unat (n AND 3)))"
      using rep_movs_eq [of "d + 4 * ?q" "s + 4 * ?q" "unat (n AND 3)" 1 ?m]
        disjoint_ranges_drop [OF dis] by (simp only: q mult_1_right)
    moreover note copy_append [OF dis refl, of m]
    ultimately show ?thesis using True split_count [of n]
      by (subst memcpy_top.simps) (auto simp: Let_def mult.commute bytes_at_def)
  next
    case False
    then have n: "unat n = 1 + unat (n - 1)" by (simp add: unat_minus_one unat_gt_0)
    with "1.prems" have dis: "disjoint_ranges d s (1 + unat (n - 1))" by simp
    have one: "m(d := m s) = write_bytes m d (bytes_at m s 1)" by (simp add: bytes_at_def)
    have "memcpy_top (m(d := m s)) (d + 1) (s + 1) (n - 1) =
        write_bytes (m(d := m s)) (d + 1) (bytes_at (m(d := m s)) (s + 1) (unat (n - 1)))"
      by (rule "1.IH") (use False disjoint_ranges_drop [OF dis] in auto)
    then show ?thesis
      using copy_append [OF dis one] False by (subst memcpy_top.simps) (simp add: n)
  qed
qed

text \<open>\<open>memmove\<close> is right for overlapping ranges too, as long as neither range wraps around.\<close>

lemma rep_movsb_up_eq:
  assumes "unat d \<le> unat s" "unat s + n \<le> 2 ^ 32"
  shows "rep_movs 1 n m d s = write_bytes m d (bytes_at m s n)"
  using assms
proof (induction n arbitrary: m d s)
  case 0
  then show ?case by (simp add: bytes_at_def)
next
  case (Suc n)
  have one: "write_bytes m d (bytes_at m s 1) = m(d := m s)" by (simp add: bytes_at_def)
  show ?case
  proof (cases "n = 0")
    case True
    then show ?thesis by (simp add: bytes_at_Suc bytes_at_def)
  next
    case False
    then have s1: "unat (s + 1) = unat s + 1" "unat (d + 1) = unat d + 1"
      using Suc.prems unat_plus_below [of s 1] unat_plus_below [of d 1] by simp_all
    have "bytes_at (m(d := m s)) (s + 1) n = bytes_at m (s + 1) n"
    proof (rule bytes_at_frame)
      fix j assume "j < n"
      then have "unat (s + 1 + of_nat j) = unat s + 1 + j"
        using s1 Suc.prems unat_plus_below [of "s + 1" j] by simp
      then have "s + 1 + of_nat j \<noteq> d" using Suc.prems by auto
      then show "(m(d := m s)) (s + 1 + of_nat j) = m (s + 1 + of_nat j)" by simp
    qed
    then show ?thesis using Suc.IH [of "d + 1" "s + 1"] Suc.prems s1
      by (simp add: bytes_at_Suc one)
  qed
qed

lemma rep_movsb_down_eq:
  assumes "unat s \<le> unat d" "unat d + n \<le> 2 ^ 32"
  shows "rep_movsb_down n m (d + of_nat n - 1) (s + of_nat n - 1) = write_bytes m d (bytes_at m s n)"
  using assms
proof (induction n arbitrary: m)
  case 0
  then show ?case by (simp add: bytes_at_def)
next
  case (Suc n)
  let ?m = "m(d + of_nat n := m (s + of_nat n))"
  have "unat (d + of_nat n) = unat d + n" using Suc.prems unat_plus_below by simp
  moreover have "unat (s + of_nat j) = unat s + j" if "j < n" for j
    using that Suc.prems unat_plus_below [of s j] by simp
  ultimately have ne: "s + of_nat j \<noteq> d + of_nat n" if "j < n" for j
    using that Suc.prems by (metis add_le_less_mono nat_less_le)
  have "bytes_at ?m s n = bytes_at m s n"
    by (rule bytes_at_frame) (use ne in simp)
  moreover have "write_bytes ?m d xs = (write_bytes m d xs)(d + of_nat n := m (s + of_nat n))"
    if "length xs = n" for xs
  proof
    fix b
    have "length xs \<le> 2 ^ 32" using that Suc.prems by simp
    moreover have "unat (d + of_nat n - d) = n" using Suc.prems by (simp add: unat_offset)
    ultimately show "write_bytes ?m d xs b = ((write_bytes m d xs)(d + of_nat n := m (s + of_nat n))) b"
      using that by (simp add: write_bytes_apply)
  qed
  ultimately show ?case
    using Suc by (simp add: bytes_at_snoc write_bytes_append algebra_simps)
qed

theorem memmove_eq:
  assumes "unat d + unat n \<le> 2 ^ 32" "unat s + unat n \<le> 2 ^ 32"
  shows "fst (memmove m d s n) = write_bytes m d (bytes_at m s (unat n))"
proof (cases "d \<le> s")
  case True
  then show ?thesis using assms rep_movsb_up_eq [of d s "unat n" m]
    by (simp add: memmove_def word_le_nat_alt)
next
  case False
  then show ?thesis using assms rep_movsb_down_eq [of s d "unat n" m]
    by (simp add: memmove_def word_le_nat_alt)
qed

section \<open>Correctness\<close>

text \<open>\<open>memset\<close> writes \<open>n\<close> copies of the low byte of \<open>c\<close> from \<open>s\<close> on and nothing else, whatever the
  alignment of \<open>s\<close>.\<close>

theorem memset_fills: "memset m s c n = write_bytes m s (replicate (unat n) (ucast c))"
  by (rule memset_eq)

lemma bytes_at_2: "bytes_at m a 2 = [m a, m (a + 1)]"
  by (simp add: numeral_2_eq_2 bytes_at_Suc)

lemma all_below_2: "(\<forall>i<(2 :: nat). P i) \<longleftrightarrow> P 0 \<and> P 1"
  by (auto simp: less_2_cases_iff)

text \<open>\<open>memcpy\<close> between ranges that do not overlap copies the \<open>n\<close> source bytes and changes
  nothing else.\<close>

theorem memcpy_copies:
  assumes "disjoint_ranges dest src (unat n)"
  shows "memcpy m dest src n = write_bytes m dest (bytes_at m src (unat n))"
  using assms by (rule memcpy_eq)

theorem memcpy_copies_witness:
  "memcpy ((\<lambda>_. 0)(0x10 := 5, 0x11 := 6)) 0x21 0x10 2 = (\<lambda>_. 0)(0x10 := 5, 0x11 := 6, 0x21 := 5, 0x22 := 6)"
proof -
  have "disjoint_ranges 0x21 0x10 (unat (2 :: u32))"
    by (simp add: disjoint_ranges_def all_below_2)
  from memcpy_copies [OF this, of "(\<lambda>_. 0)(0x10 := 5, 0x11 := 6)"] show ?thesis
    by (simp add: bytes_at_2)
qed

text \<open>C37: \<open>memmove\<close> leaves at the destination the bytes the source held before the call, also when
  the two ranges overlap.\<close>

theorem memmove_copies:
  assumes "unat dest + unat n \<le> 2 ^ 32" "unat src + unat n \<le> 2 ^ 32"
  shows "fst (memmove m dest src n) = write_bytes m dest (bytes_at m src (unat n))"
  using assms by (rule memmove_eq)

theorem memmove_copies_witness:
  "fst (memmove ((\<lambda>_. 0)(0x10 := 5, 0x11 := 6)) 0x11 0x10 2) = (\<lambda>_. 0)(0x10 := 5, 0x11 := 5, 0x12 := 6)"
  using memmove_copies [of "0x11" 2 "0x10" "(\<lambda>_. 0)(0x10 := 5, 0x11 := 6)"]
  by (simp add: bytes_at_2 fun_upd_twist)

end
