(* ===== verification/Terminal_IO.thy ===== *)
theory Terminal_IO
  imports Paging Lib_Mem
begin

text \<open>
  The file operations of the terminal (\<open>terminal.c\<close>): \<open>terminal_open\<close>, \<open>terminal_read\<close>,
  \<open>terminal_write\<close>, \<open>terminal_close\<close>. A read waits for the keyboard handler to hand over a line; the
  handlers that run while it waits are an argument. Buffers are virtual addresses of the calling
  program.
\<close>

section \<open>State and operations\<close>

record tio = vm +
  ter_read_buffer :: "u8 list"
  ter_read_buf_size :: u32
  ter_read_indicator :: u32
  cross_enter_flag :: int

definition terminal_open :: "u32 \<Rightarrow> 'a tio_scheme \<Rightarrow> u32 \<times> 'a tio_scheme" where
  "terminal_open filename s = (0, reset s)"

definition terminal_close :: "u32 \<Rightarrow> 'a tio_scheme \<Rightarrow> u32 \<times> 'a tio_scheme" where
  "terminal_close fd s = (0, s)"

fun write_chars :: "u32 \<Rightarrow> nat \<Rightarrow> nat \<Rightarrow> 'a tio_scheme \<Rightarrow> 'a tio_scheme option" where
  "write_chars buf i 0 s = Some s"
| "write_chars buf i (Suc n) s = do {
     c \<leftarrow> vview s buf i;
     s \<leftarrow> putc c s;
     write_chars buf (i + 1) n s
   }"

definition terminal_write :: "u32 \<Rightarrow> u32 \<Rightarrow> u32 \<Rightarrow> 'a tio_scheme \<Rightarrow> (u32 \<times> 'a tio_scheme) option" where
  "terminal_write fd buf nbytes s = do {
     let s = con_io cli s;
     let n = nat (sint nbytes);
     s \<leftarrow> write_chars buf 0 n s;
     Some (of_nat n + 1, con_io sti s)
   }"

text \<open>The copy of a line, with the index where it stops.\<close>

function copy_line :: "u32 \<Rightarrow> int \<Rightarrow> nat \<Rightarrow> 'a tio_scheme \<Rightarrow> (nat \<times> 'a tio_scheme) option" where
  "copy_line buf nbytes i s =
     (if int i < nbytes \<and> i < BUF_SIZE then
        (if ter_read_buffer s ! i \<noteq> 0 then
           (case vstore (buf + of_nat i) (ter_read_buffer s ! i) s of
              None \<Rightarrow> None
            | Some s \<Rightarrow> copy_line buf nbytes (i + 1) s)
         else Some (i, s))
      else Some (i, s))"
  by pat_completeness auto
termination
  by (relation "measure (\<lambda>(buf, nbytes, i, s). 128 - i)") auto

declare copy_line.simps [simp del]

definition terminal_read ::
    "('a tio_scheme \<Rightarrow> 'a tio_scheme) list \<Rightarrow> u32 \<Rightarrow> u32 \<Rightarrow> u32 \<Rightarrow> 'a tio_scheme \<Rightarrow> (u32 \<times> 'a tio_scheme) option" where
  "terminal_read hs fd buf nbytes s =
     (let s = s\<lparr>ter_read_indicator := 1\<rparr>
      in if enter_flag s = 0 then do {
           s \<leftarrow> spin_until (\<lambda>s. cross_enter_flag s \<noteq> 0) hs s;
           let s = con_io cli (s\<lparr>cross_enter_flag := 0\<rparr>);
           (i, s) \<leftarrow> copy_line buf (sint nbytes) 0 s;
           s \<leftarrow> vstore (buf + of_nat i + 1) 0 s;
           let ret = (if ter_read_buf_size s > nbytes then nbytes else of_nat i);
           Some (ret, (con_io sti s)\<lparr>ter_read_indicator := 0\<rparr>)
         } else Some (ERR, s))"

section \<open>Facts\<close>

lemma con_inv_con_io [simp]: "con_inv (con_io f s) = con_inv s" "tty (con_io f s) = tty s"
  by (simp_all add: con_inv_def tty_def position_def)

lemma mmu_more: "con.more s' = con.more s \<Longrightarrow> mmu s' = mmu s" for s s' :: "'a vm_scheme"
proof -
  assume "con.more s' = con.more s"
  then have "s' = s\<lparr>hw := hw s', ram := ram s', screen_x := screen_x s', screen_y := screen_y s',
      enter_tracker := enter_tracker s', keyboard_buffer := keyboard_buffer s',
      kb_buffer_position := kb_buffer_position s', enter_flag := enter_flag s',
      first_scroll_indicator := first_scroll_indicator s'\<rparr>" (is "_ = ?t")
    by (intro con.equality) simp_all
  from arg_cong [where f = mmu, OF this] show "mmu s' = mmu s" by simp
qed

lemma con_frame_mmu: "con_frame s s' \<Longrightarrow> mmu s' = mmu s" for s s' :: "'a vm_scheme"
  unfolding con_frame_def by (blast intro: mmu_more)

text \<open>A range of memory that no output touches.\<close>

definition off_screen :: "u32 \<Rightarrow> nat \<Rightarrow> bool" where
  "off_screen pa n \<longleftrightarrow> (\<forall>i<n. \<forall>j<2000. pa + of_nat i \<noteq> vaddr j \<and> pa + of_nat i \<noteq> vaddr j + 1)"

lemma off_screen_same: "off_screen pa n \<Longrightarrow> same_outside_video m m' \<Longrightarrow> i < n \<Longrightarrow> m' (pa + of_nat i) = m (pa + of_nat i)"
  unfolding off_screen_def same_outside_video_def by blast

lemma off_screen_high:
  assumes "0x800000 \<le> unat pa" "unat pa + n < 2 ^ 32"
  shows "off_screen pa n"
  unfolding off_screen_def
proof (intro allI impI)
  fix i j :: nat
  assume "i < n" "j < 2000"
  then have "unat (pa + of_nat i) = unat pa + i" "unat (vaddr j) = 0xB8000 + 2 * j"
    "unat (vaddr j + 1) = 0xB8000 + 2 * j + 1"
    using assms(2) unat_plus_below [of pa i] unat_offset [of "0xB8000 + 2 * j"] unat_offset [of "0xB8000 + 2 * j + 1"]
    by (simp_all add: vaddr_def add.assoc)
  then have "unat (pa + of_nat i) \<noteq> unat (vaddr j)" "unat (pa + of_nat i) \<noteq> unat (vaddr j + 1)"
    using assms(1) \<open>j < 2000\<close> by linarith+
  then show "pa + of_nat i \<noteq> vaddr j \<and> pa + of_nat i \<noteq> vaddr j + 1" by auto
qed

lemma write_chars_run:
  assumes "con_inv s" "maps_range (mmu s) buf pa n" "off_screen pa n" "buf \<noteq> 0" "i + k = n"
  shows "\<exists>s'. write_chars buf i k s = Some s' \<and> put_all (drop i (bytes_at (ram s) pa n)) s = Some s'"
  using assms
proof (induction k arbitrary: i s)
  case 0
  then show ?case by simp
next
  case (Suc k)
  then have i: "i < n" by simp
  let ?c = "ram s (pa + of_nat i)"
  obtain t where t: "putc ?c s = Some t" "con_step (tty_putc ?c) s t" using putc_step [OF Suc.prems(1)] by blast
  then have ct: "con_inv t" "con_frame s t" by (simp_all add: con_step_def)
  then have mm: "mmu t = mmu s" "same_outside_video (ram s) (ram t)" by (simp_all add: con_frame_mmu [OF ct(2)] con_frame_def)
  have same: "bytes_at (ram t) pa n = bytes_at (ram s) pa n"
    using off_screen_same [OF Suc.prems(3) mm(2)] by (simp add: bytes_at_def)
  have "drop i (bytes_at (ram s) pa n) = ?c # drop (i + 1) (bytes_at (ram s) pa n)"
    using i Cons_nth_drop_Suc [of i "bytes_at (ram s) pa n"] by (simp add: bytes_at_def)
  moreover have "\<exists>s'. write_chars buf (i + 1) k t = Some s' \<and> put_all (drop (i + 1) (bytes_at (ram t) pa n)) t = Some s'"
    by (rule Suc.IH) (use Suc.prems ct mm in simp_all)
  ultimately show ?case using t(1) same vview_range [OF Suc.prems(2,4) i] by auto
qed

lemma vstore_fields:
  assumes "vstore va x s = Some s'"
  shows "mmu s' = mmu s" "ter_read_buffer s' = ter_read_buffer s" "ter_read_buf_size s' = ter_read_buf_size s"
  using assms by (auto simp: vstore_def)

text \<open>The line a read hands over: up to the first NUL, the size of the buffer, or the request.\<close>

definition line_from :: "nat \<Rightarrow> u8 list \<Rightarrow> int \<Rightarrow> u8 list" where
  "line_from i b n = takeWhile (\<lambda>c. c \<noteq> 0) (drop i (take (min (nat n) 128) b))"

lemma line_from_step:
  assumes "length b = 128"
  shows "line_from i b n = (if int i < n \<and> i < 128 \<and> b ! i \<noteq> 0 then b ! i # line_from (i + 1) b n else [])"
proof (cases "int i < n \<and> i < 128")
  case True
  then have "i < nat n" by (simp add: zless_nat_eq_int_zless)
  with True have "drop i (take (min (nat n) 128) b) = b ! i # drop (i + 1) (take (min (nat n) 128) b)"
    using assms Cons_nth_drop_Suc [of i "take (min (nat n) 128) b"] by simp
  then show ?thesis using True by (simp add: line_from_def)
next
  case False
  then show ?thesis using assms by (auto simp: line_from_def)
qed

lemma copy_line_from:
  assumes "length (ter_read_buffer s) = 128"
    and "maps_range (mmu s) (buf + of_nat i) (pa + of_nat i) (length (line_from i (ter_read_buffer s) n))"
  shows "copy_line buf n i s =
    (let l = line_from i (ter_read_buffer s) n
     in Some (i + length l, s\<lparr>ram := write_bytes (ram s) (pa + of_nat i) l\<rparr>))"
  using assms
proof (induction "128 - i" arbitrary: i s)
  case 0
  then have "line_from i (ter_read_buffer s) n = []" using line_from_step [of "ter_read_buffer s" i n] by simp
  then show ?case using 0 by (subst copy_line.simps) simp
next
  case (Suc k)
  let ?b = "ter_read_buffer s"
  show ?case
  proof (cases "int i < n \<and> i < 128 \<and> ?b ! i \<noteq> 0")
    case True
    let ?t = "s\<lparr>ram := (ram s)(pa + of_nat i := ?b ! i)\<rparr>"
    have l: "line_from i ?b n = ?b ! i # line_from (i + 1) ?b n"
      using True line_from_step [OF Suc.prems(1), of i n] by simp
    then have r: "translate (mmu s) False (buf + of_nat i) = Some (pa + of_nat i)"
        "maps_range (mmu s) (buf + of_nat (i + 1)) (pa + of_nat (i + 1)) (length (line_from (i + 1) ?b n))"
      using Suc.prems(2) by (simp_all add: maps_range_Suc algebra_simps)
    have "copy_line buf n (i + 1) ?t = (let l = line_from (i + 1) ?b n
       in Some (i + 1 + length l, ?t\<lparr>ram := write_bytes (ram ?t) (pa + of_nat (i + 1)) l\<rparr>))"
      using Suc.hyps(1) [of "i + 1" ?t] Suc.hyps(2) Suc.prems(1) r(2) by simp
    then show ?thesis using True l r(1)
      by (subst copy_line.simps) (simp add: vstore_def Let_def algebra_simps)
  next
    case False
    then have "line_from i ?b n = []" using line_from_step [OF Suc.prems(1), of i n] by simp
    then show ?thesis using False by (subst copy_line.simps) auto
  qed
qed

section \<open>Correctness\<close>

definition demo_tio :: tio where
  "demo_tio = \<lparr>hw = demo_rtc, ram = (\<lambda>_. 0x42), screen_x = 0, screen_y = 0, enter_tracker = replicate 25 0,
     keyboard_buffer = replicate 128 0, kb_buffer_position = 0, enter_flag = 0, first_scroll_indicator = 0,
     mmu = set_task_page (of_nat 0) (init_paging demo_paging),
     ter_read_buffer = [0x61, 0x0A] @ replicate 126 0, ter_read_buf_size = 2, ter_read_indicator = 0, cross_enter_flag = 1\<rparr>"

lemma demo_tio_maps: "n \<le> 0x1000 \<Longrightarrow> maps_range (mmu demo_tio) 0x08048000 0x848000 n"
  using maps_range_task [OF paging_ok_steps(1) [OF demo_paging_ok], of 0 "0x48000" n]
  by (simp add: demo_tio_def task_frame_def)

text \<open>A write to the terminal prints the bytes of the caller's buffer in order, whatever they are,
  and returns one more than their number.\<close>

theorem terminal_write_prints_buffer:
  assumes "con_inv s" "maps_range (mmu s) buf pa n" "off_screen pa n" "buf \<noteq> 0" "sint nbytes = int n"
  shows "\<exists>s'. terminal_write fd buf nbytes s = Some (nbytes + 1, s') \<and> con_inv s' \<and>
    tty s' = tty_write (bytes_at (ram s) pa n) (tty s) \<and> int_enabled (pic_io (rtc_pic (hw s')))"
proof -
  let ?s = "con_io cli s"
  obtain t where t: "write_chars buf 0 n ?s = Some t" "put_all (bytes_at (ram s) pa n) ?s = Some t"
    using write_chars_run [of ?s buf pa n 0 n] assms(1-4) mmu_more [of ?s s] by auto
  then have "con_inv t" "tty t = tty_write (bytes_at (ram s) pa n) (tty s)"
    using put_all_run [of ?s "bytes_at (ram s) pa n"] assms(1) by (auto simp: con_run_def)
  moreover have "of_int (sint nbytes) = nbytes" by simp
  then have "of_nat n = nbytes" unfolding assms(5) by simp
  ultimately show ?thesis using t(1) assms(5)
    by (auto simp: terminal_write_def Let_def sti_def)
qed

theorem terminal_write_prints_buffer_witness:
  "\<exists>s'. terminal_write 1 0x08048000 2 demo_tio = Some (3, s') \<and> con_inv s' \<and>
    tty s' = tty_write [0x42, 0x42] (replicate 2000 0x42, 0) \<and> int_enabled (pic_io (rtc_pic (hw s')))"
proof -
  have "off_screen 0x848000 2" by (rule off_screen_high) simp_all
  moreover have "con_inv demo_tio" "tty demo_tio = (replicate 2000 0x42, 0)" "ram demo_tio = (\<lambda>_. 0x42)"
    by (simp_all add: demo_tio_def con_inv_def tty_def chars_def position_def map_replicate_const)
  ultimately show ?thesis
    using terminal_write_prints_buffer [of demo_tio "0x08048000" "0x848000" 2 2 1] demo_tio_maps [of 2]
    by (simp add: bytes_at_2)
qed

lemma terminal_read_line:
  assumes "enter_flag s = 0"
    and "spin_until (\<lambda>s. cross_enter_flag s \<noteq> 0) hs (s\<lparr>ter_read_indicator := 1\<rparr>) = Some t"
    and "length (ter_read_buffer t) = 128"
    and "maps_range (mmu t) buf pa (length (line_from 0 (ter_read_buffer t) (sint nbytes)) + 2)"
    and l: "l = line_from 0 (ter_read_buffer t) (sint nbytes)"
  shows "terminal_read hs fd buf nbytes s =
      Some (if ter_read_buf_size t > nbytes then nbytes else of_nat (length l),
        con_io sti (con_io cli (t\<lparr>cross_enter_flag := 0, ter_read_indicator := 0,
          ram := (write_bytes (ram t) pa l)(pa + of_nat (length l) + 1 := 0)\<rparr>)))"
proof -
  let ?t = "con_io cli (t\<lparr>cross_enter_flag := 0\<rparr>)"
  have f: "mmu ?t = mmu t" "ter_read_buffer ?t = ter_read_buffer t" "ter_read_buf_size ?t = ter_read_buf_size t" "ram ?t = ram t"
    by (simp_all add: con_io_def)
  have m: "maps_range (mmu t) buf pa (length l)" "translate (mmu t) False (buf + of_nat (length l) + 1) = Some (pa + of_nat (length l) + 1)"
    using assms(4) unfolding maps_range_def l [symmetric] by (simp, use assms(4) [unfolded maps_range_def, rule_format, of "length l + 1"]
      in \<open>simp add: ac_simps l\<close>)
  have "copy_line buf (sint nbytes) 0 ?t = Some (length l, ?t\<lparr>ram := write_bytes (ram t) pa l\<rparr>)"
    using copy_line_from [of ?t buf 0 pa "sint nbytes"] f m(1) assms(3) by (simp add: Let_def flip: l)
  then show ?thesis using assms(1,2) m(2) f
    by (simp add: terminal_read_def Let_def vstore_def con_io_def)
qed

text \<open>C26: a read from the terminal waits until the keyboard has handed over a line and then copies it to
  the caller, up to its terminator, the request or 128 bytes, clears the hand-over flag and puts a zero
  one byte past the end of the copy.\<close>

theorem terminal_read_returns_line:
  assumes "enter_flag s = 0"
    and "spin_until (\<lambda>s. cross_enter_flag s \<noteq> 0) hs (s\<lparr>ter_read_indicator := 1\<rparr>) = Some t"
    and "length (ter_read_buffer t) = 128"
    and "maps_range (mmu t) buf pa (length (line_from 0 (ter_read_buffer t) (sint nbytes)) + 2)"
  shows "\<exists>s'. terminal_read hs fd buf nbytes s =
      Some (if ter_read_buf_size t > nbytes then nbytes
            else of_nat (length (line_from 0 (ter_read_buffer t) (sint nbytes))), s') \<and>
    ram s' = (write_bytes (ram t) pa (line_from 0 (ter_read_buffer t) (sint nbytes)))
      (pa + of_nat (length (line_from 0 (ter_read_buffer t) (sint nbytes))) + 1 := 0) \<and>
    cross_enter_flag s' = 0 \<and> ter_read_indicator s' = 0"
  using terminal_read_line [OF assms refl, of fd] by (simp add: con_io_def)

theorem terminal_read_returns_line_witness:
  "\<exists>s'. terminal_read [] 0 0x08048000 10 demo_tio = Some (2, s') \<and>
    ram s' = (write_bytes (\<lambda>_. 0x42) 0x848000 [0x61, 0x0A])(0x848003 := 0) \<and>
    cross_enter_flag s' = 0 \<and> ter_read_indicator s' = 0"
proof -
  let ?t = "demo_tio\<lparr>ter_read_indicator := 1\<rparr>"
  have l: "line_from 0 (ter_read_buffer ?t) (sint (10 :: u32)) = [0x61, 0x0A]"
    by (simp add: line_from_def demo_tio_def takeWhile_append2 take_Cons')
  have t: "enter_flag demo_tio = 0" "cross_enter_flag demo_tio = 1" "length (ter_read_buffer demo_tio) = 128"
      "ter_read_buf_size demo_tio = 2" "ram demo_tio = (\<lambda>_. 0x42)"
    by (simp_all add: demo_tio_def)
  show ?thesis
    using terminal_read_returns_line [of demo_tio "[]" ?t "0x08048000" "0x848000" 10 0] l t demo_tio_maps [of "Suc (Suc (Suc (Suc 0)))"] by simp
qed

end
