(* ===== verification/Filesys.thy ===== *)
theory Filesys
  imports Lib_String Lib_Mem
begin

text \<open>
  \<open>filesys.c\<close>: the read-only file system image that the boot loader leaves in memory. The image is
  read byte by byte through the memory; the component's own state is the addresses set up by
  \<open>init_filesys\<close> and the two variables that carry a directory listing from one read to the next.

  A \<open>dentry_t\<close> the code fills in is a record; its copy is made through the 56 bytes of the struct,
  because \<open>strcpy\<close> runs on past the 32 bytes of the name when the name has no terminator. The bytes
  \<open>read_data\<close> stores through \<open>buf\<close> are returned as a list, first byte first; the caller's buffer is
  not part of the image.
\<close>

section \<open>Constants and state\<close>

abbreviation (input) BLK_SIZE :: u32 where "BLK_SIZE \<equiv> 4"
abbreviation (input) FILE_TYPE_OFFSET :: u32 where "FILE_TYPE_OFFSET \<equiv> 32"
abbreviation (input) INODE_NUM_OFFSET :: u32 where "INODE_NUM_OFFSET \<equiv> 36"
abbreviation (input) FNAME_LEN :: nat where "FNAME_LEN \<equiv> 32"
abbreviation (input) FILE_DENTRIES :: nat where "FILE_DENTRIES \<equiv> 63"
abbreviation (input) STAT_SIZE :: u32 where "STAT_SIZE \<equiv> 64"
abbreviation (input) DENTRY_SIZE :: u32 where "DENTRY_SIZE \<equiv> 64"
abbreviation (input) INODES_SIZE :: u32 where "INODES_SIZE \<equiv> 4096"
abbreviation (input) DATA_BLOCK_SIZE :: u32 where "DATA_BLOCK_SIZE \<equiv> 4096"

record dentry =
  file_name :: "u8 list"
  file_type :: u32
  inode_index :: u32
  reserved :: "u8 list"

record fsys =
  fs_bootblk :: u32
  fs_datablocks :: u32
  fs_dentries :: u32
  fs_inodes :: u32
  file_pos_keeper :: int
  fs_dir_read_flag :: int

text \<open>The bytes of a struct in memory, from \<open>file_name\<close> on.\<close>

definition dentry_bytes :: "dentry \<Rightarrow> u8 list" where
  "dentry_bytes d = file_name d @ bytes32 (file_type d) @ bytes32 (inode_index d) @ reserved d"

definition dentry_ok :: "dentry \<Rightarrow> bool" where
  "dentry_ok d \<longleftrightarrow> length (file_name d) = 32 \<and> length (reserved d) = 16"

section \<open>Set-up and directory entries\<close>

definition init_filesys :: "memory \<Rightarrow> u32 \<Rightarrow> fsys \<Rightarrow> fsys" where
  "init_filesys m start_addr fs =
     (let num_inode = read32 m (start_addr + BLK_SIZE)
      in fs\<lparr>fs_bootblk := start_addr,
            fs_dentries := start_addr + STAT_SIZE,
            fs_inodes := start_addr + INODES_SIZE,
            fs_datablocks := start_addr + (num_inode + 1) * INODES_SIZE\<rparr>)"

text \<open>The address of entry \<open>i\<close> and the copy of an entry into a \<open>dentry_t\<close>: the string, then the type
  and the inode number.\<close>

definition dentry_addr :: "fsys \<Rightarrow> nat \<Rightarrow> u32" where
  "dentry_addr fs i = fs_dentries fs + DENTRY_SIZE * of_nat i"

definition copy_dentry :: "memory \<Rightarrow> u32 \<Rightarrow> dentry \<Rightarrow> dentry option" where
  "copy_dentry m dentries d = do {
     b \<leftarrow> strcpy store (dentry_bytes d) (mem_view m dentries);
     Some \<lparr>file_name = take 32 b,
           file_type = read32 m (dentries + FILE_TYPE_OFFSET),
           inode_index = read32 m (dentries + INODE_NUM_OFFSET),
           reserved = drop 40 b\<rparr>
   }"

text \<open>The loop of \<open>read_dentry_by_name\<close> over the entries still to be tried.\<close>

fun scan_dentries :: "memory \<Rightarrow> fsys \<Rightarrow> byte_view \<Rightarrow> nat \<Rightarrow> nat list \<Rightarrow> nat option option" where
  "scan_dentries m fs fname fname_len [] = Some None"
| "scan_dentries m fs fname fname_len (i # is) = do {
     let dentries = mem_view m (dentry_addr fs i);
     len \<leftarrow> strlen dentries;
     if len = fname_len \<or> len \<ge> FNAME_LEN then do {
       r \<leftarrow> strncmp fname dentries fname_len;
       if r = 0 then Some (Some i) else scan_dentries m fs fname fname_len is
     } else scan_dentries m fs fname fname_len is
   }"

definition read_dentry_by_name ::
    "memory \<Rightarrow> byte_view \<Rightarrow> dentry option \<Rightarrow> fsys \<Rightarrow> (u32 \<times> dentry option \<times> fsys) option" where
  "read_dentry_by_name m fname dentry fs = do {
     len \<leftarrow> strlen fname;
     let fname_len = (if len > FNAME_LEN then FNAME_LEN else len);
     case dentry of
       None \<Rightarrow> Some (ERR, None, fs)
     | Some d \<Rightarrow>
         if fname_len = 0 then Some (ERR, Some d, fs)
         else do {
           found \<leftarrow> scan_dentries m fs fname fname_len [0..<FILE_DENTRIES];
           case found of
             None \<Rightarrow> Some (ERR, Some d, fs)
           | Some i \<Rightarrow> do {
               d' \<leftarrow> copy_dentry m (dentry_addr fs i) d;
               Some (0, Some d', fs\<lparr>file_pos_keeper := int i\<rparr>)
             }
         }
   }"

definition read_dentry_by_index ::
    "memory \<Rightarrow> u32 \<Rightarrow> dentry option \<Rightarrow> fsys \<Rightarrow> (u32 \<times> dentry option) option" where
  "read_dentry_by_index m index dentry fs =
     (let dir_num = read32 m (fs_bootblk fs)
      in case dentry of
           None \<Rightarrow> Some (ERR, None)
         | Some d \<Rightarrow>
             if index \<ge> of_nat FILE_DENTRIES \<or> index \<ge> dir_num then Some (ERR, Some d)
             else do {
               d' \<leftarrow> copy_dentry m (fs_dentries fs + DENTRY_SIZE * index) d;
               Some (0, Some d')
             })"

definition get_dentry_size :: "memory \<Rightarrow> fsys \<Rightarrow> dentry \<Rightarrow> u32" where
  "get_dentry_size m fs d = read32 m (fs_bootblk fs + INODES_SIZE + inode_index d * INODES_SIZE)"

section \<open>File data\<close>

definition inode_ptr :: "fsys \<Rightarrow> u32 \<Rightarrow> u32" where
  "inode_ptr fs inode = fs_inodes fs + inode * 0x1000"

definition inode_length :: "memory \<Rightarrow> fsys \<Rightarrow> u32 \<Rightarrow> u32" where
  "inode_length m fs inode = read32 m (inode_ptr fs inode)"

definition data_block :: "memory \<Rightarrow> fsys \<Rightarrow> u32 \<Rightarrow> u32 \<Rightarrow> u32" where
  "data_block m fs inode nth_blk = read32 m (inode_ptr fs inode + 4 + 4 * nth_blk)"

definition num_inodes :: "memory \<Rightarrow> fsys \<Rightarrow> u32" where
  "num_inodes m fs = read32 m (fs_bootblk fs + 4)"

definition num_data_blocks :: "memory \<Rightarrow> fsys \<Rightarrow> u32" where
  "num_data_blocks m fs = read32 m (fs_bootblk fs + 8)"

text \<open>The loop of \<open>read_data\<close>, with the bytes stored so far.\<close>

function read_data_loop ::
    "memory \<Rightarrow> fsys \<Rightarrow> u32 \<Rightarrow> u32 \<Rightarrow> u32 \<Rightarrow> u32 \<Rightarrow> u32 \<Rightarrow> u32 \<Rightarrow> u32 \<Rightarrow> u8 list \<Rightarrow> u32 \<times> u8 list" where
  "read_data_loop m fs inode offset nbytes i nth_blk cur_block byte_tracker buf =
     (if i < nbytes \<and> i + offset < inode_length m fs inode then
        let buf = buf @ [m (fs_datablocks fs + cur_block * DATA_BLOCK_SIZE + byte_tracker)];
            byte_tracker = byte_tracker + 1
        in if byte_tracker \<ge> DATA_BLOCK_SIZE then
             let nth_blk = nth_blk + 1; cur_block = data_block m fs inode nth_blk
             in if cur_block \<ge> num_data_blocks m fs then (ERR, buf)
                else read_data_loop m fs inode offset nbytes (i + 1) nth_blk cur_block 0 buf
           else read_data_loop m fs inode offset nbytes (i + 1) nth_blk cur_block byte_tracker buf
      else (i, buf))"
  by pat_completeness auto

termination
  by (relation "measure (\<lambda>(m, fs, inode, offset, nbytes, i, _). unat nbytes - unat i)")
    (auto simp: word_diff_decreases)

declare read_data_loop.simps [simp del]

definition read_data ::
    "memory \<Rightarrow> fsys \<Rightarrow> u32 \<Rightarrow> u32 \<Rightarrow> u32 \<Rightarrow> u32 \<Rightarrow> u32 \<times> u8 list" where
  "read_data m fs inode offset buf nbytes =
     (let nth_blk = offset div DATA_BLOCK_SIZE;
          cur_block = data_block m fs inode nth_blk;
          byte_tracker = offset mod DATA_BLOCK_SIZE
      in if inode \<ge> num_inodes m fs \<or> cur_block \<ge> num_data_blocks m fs \<or> buf = 0 then (ERR, [])
         else if offset \<ge> inode_length m fs inode then (0, [])
         else read_data_loop m fs inode offset nbytes 0 nth_blk cur_block byte_tracker [])"

section \<open>Operations behind the system calls\<close>

definition filesys_open :: "u32 \<Rightarrow> u32" where "filesys_open filename = 0"
definition filesys_write :: "u32 \<Rightarrow> u32 \<Rightarrow> u32 \<Rightarrow> u32" where "filesys_write fd buf nbytes = ERR"
definition filesys_close :: "u32 \<Rightarrow> u32" where "filesys_close fd = 0"
definition fs_dir_open :: "u32 \<Rightarrow> u32" where "fs_dir_open filename = 0"
definition fs_dir_write :: "u32 \<Rightarrow> u32 \<Rightarrow> u32 \<Rightarrow> u32" where "fs_dir_write fd buf nbytes = ERR"
definition fs_dir_close :: "u32 \<Rightarrow> u32" where "fs_dir_close fd = 0"
definition get_start :: "fsys \<Rightarrow> u32" where "get_start fs = fs_bootblk fs"

text \<open>The local \<open>dentry\<close> of a caller starts with whatever its stack slot holds (\<open>d\<close>). A file name
  that may be \<open>NULL\<close> is optional.\<close>

definition filesys_read_helper ::
    "memory \<Rightarrow> byte_view option \<Rightarrow> u32 \<Rightarrow> u32 \<Rightarrow> u32 \<Rightarrow> dentry \<Rightarrow> fsys \<Rightarrow>
       (u32 \<times> u8 list \<times> fsys) option" where
  "filesys_read_helper m fname offset buf nbytes d fs =
     (if fname = None \<or> buf = 0 then Some (ERR, [], fs)
      else do {
        fname \<leftarrow> fname;
        (ret, d', fs) \<leftarrow> read_dentry_by_name m fname (Some d) fs;
        case d' of
          None \<Rightarrow> None
        | Some d' \<Rightarrow>
            if ret = ERR then Some (ERR, [], fs)
            else (case read_data m fs (inode_index d') offset buf nbytes of
                    (n, bytes) \<Rightarrow> Some (n, bytes, fs))
      })"

text \<open>\<open>fs_dir_read_helper\<close> and \<open>fs_print_name\<close> have the same body: the name of entry \<open>offset\<close>.\<close>

fun name_loop :: "memory \<Rightarrow> u32 \<Rightarrow> nat \<Rightarrow> nat \<Rightarrow> u8 list \<Rightarrow> u8 list" where
  "name_loop m a 0 bytes_read buf = buf"
| "name_loop m a (Suc nbytes) bytes_read buf =
     (if bytes_read < FNAME_LEN then
        let character = m (a + of_nat bytes_read)
        in if character = 0 then buf else name_loop m a nbytes (bytes_read + 1) (buf @ [character])
      else buf)"

definition fs_dir_read_helper :: "memory \<Rightarrow> u32 \<Rightarrow> u32 \<Rightarrow> fsys \<Rightarrow> u32 \<times> u8 list" where
  "fs_dir_read_helper m offset len fs =
     (if offset \<ge> read32 m (fs_bootblk fs) then (0, [])
      else let bytes = name_loop m (fs_bootblk fs + STAT_SIZE + offset * DENTRY_SIZE) (unat len) 0 []
           in (of_nat (length bytes), bytes))"

definition fs_print_name :: "memory \<Rightarrow> u32 \<Rightarrow> u32 \<Rightarrow> fsys \<Rightarrow> u32 \<times> u8 list" where
  "fs_print_name m offset len fs =
     (if offset \<ge> read32 m (fs_bootblk fs) then (0, [])
      else let bytes = name_loop m (fs_bootblk fs + STAT_SIZE + offset * DENTRY_SIZE) (unat len) 0 []
           in (of_nat (length bytes), bytes))"

text \<open>The 33 bytes a listing step leaves in the caller's buffer: cleared, then the name.\<close>

definition dir_name_bytes :: "dentry \<Rightarrow> (u32 \<times> u8 list) option" where
  "dir_name_bytes d = do {
     len \<leftarrow> strlen (list_view (dentry_bytes d));
     let name_length = (if len > FNAME_LEN then FNAME_LEN else len);
     buf \<leftarrow> strncpy store (replicate 33 0) (list_view (dentry_bytes d)) name_length;
     Some (of_nat name_length, buf)
   }"

definition fs_dir_ls_read_helper ::
    "memory \<Rightarrow> byte_view \<Rightarrow> dentry \<Rightarrow> fsys \<Rightarrow> (u32 \<times> u8 list \<times> fsys) option" where
  "fs_dir_ls_read_helper m fname d fs =
     (if fs_dir_read_flag fs = 0 then do {
        let fs = fs\<lparr>fs_dir_read_flag := 1\<rparr>;
        (ret, d', fs) \<leftarrow> read_dentry_by_name m fname (Some d) fs;
        if ret \<noteq> ERR then do {
          d' \<leftarrow> d';
          (n, buf) \<leftarrow> dir_name_bytes d';
          Some (n, buf, fs)
        } else Some (ERR, [], fs)
      } else do {
        let fs = fs\<lparr>file_pos_keeper := file_pos_keeper fs + 1\<rparr>;
        (ret, d') \<leftarrow> read_dentry_by_index m (of_int (file_pos_keeper fs)) (Some d) fs;
        if ret = 0 then do {
          d' \<leftarrow> d';
          (n, buf) \<leftarrow> dir_name_bytes d';
          Some (n, buf, fs)
        } else Some (0, [], fs\<lparr>fs_dir_read_flag := 0, file_pos_keeper := 0\<rparr>)
      })"

section \<open>What is on the disk\<close>

text \<open>Byte \<open>k\<close> of a file, and the name in a directory entry (up to 32 bytes, no terminator needed).\<close>

definition file_byte :: "memory \<Rightarrow> fsys \<Rightarrow> u32 \<Rightarrow> nat \<Rightarrow> u8" where
  "file_byte m fs inode k =
     m (fs_datablocks fs + data_block m fs inode (of_nat (k div 4096)) * DATA_BLOCK_SIZE + of_nat (k mod 4096))"

definition dentry_string :: "memory \<Rightarrow> u32 \<Rightarrow> u8 list" where
  "dentry_string m a = takeWhile (\<lambda>c. c \<noteq> 0) (bytes_at m a 56)"

definition disk_name :: "memory \<Rightarrow> fsys \<Rightarrow> nat \<Rightarrow> u8 list" where
  "disk_name m fs i = takeWhile (\<lambda>c. c \<noteq> 0) (bytes_at m (dentry_addr fs i) 32)"

text \<open>The lookup rule the scan implements: a name shorter than 32 bytes has to be given exactly, but
  an entry whose name fills its 32 bytes is found by every prefix of it.\<close>

definition name_matches :: "u8 list \<Rightarrow> u8 list \<Rightarrow> bool" where
  "name_matches cs name =
     (if length name < 32 then cs = name else take 32 cs = take (length cs) name)"

definition terminated :: "memory \<Rightarrow> u32 \<Rightarrow> bool" where
  "terminated m a \<longleftrightarrow> a \<noteq> 0 \<and> (\<exists>k<56. m (a + of_nat k) = 0)"

definition dir_ok :: "memory \<Rightarrow> fsys \<Rightarrow> bool" where
  "dir_ok m fs \<longleftrightarrow> (\<forall>i<63. terminated m (dentry_addr fs i))"

text \<open>Every block a read of \<open>n\<close> bytes from \<open>offset\<close> looks up has a valid number. The block that
  follows the last byte read is looked up too when that byte ends its block.\<close>

definition blocks_valid :: "memory \<Rightarrow> fsys \<Rightarrow> u32 \<Rightarrow> nat \<Rightarrow> nat \<Rightarrow> bool" where
  "blocks_valid m fs inode offset n \<longleftrightarrow>
     (\<forall>k \<in> {offset div 4096 .. (offset + n) div 4096}. data_block m fs inode (of_nat k) < num_data_blocks m fs)"

section \<open>Reading file data\<close>

lemma blocks_valid_mono:
  assumes "blocks_valid m fs inode off N" "off \<le> a" "a + n \<le> off + N"
  shows "blocks_valid m fs inode a n"
  using assms(1) div_le_mono [OF assms(2), of 4096] div_le_mono [OF assms(3), of 4096]
  unfolding blocks_valid_def by auto

lemma read_data_loop_reads:
  fixes m fs inode and offset nbytes :: u32
  defines "off \<equiv> unat offset" and "L \<equiv> unat (inode_length m fs inode)"
  defines "n \<equiv> min (unat nbytes) (L - off)"
  assumes "off < L" and valid: "blocks_valid m fs inode off n" and "j \<le> n"
  shows "read_data_loop m fs inode offset nbytes (of_nat j) (of_nat ((off + j) div 4096))
      (data_block m fs inode (of_nat ((off + j) div 4096))) (of_nat ((off + j) mod 4096)) buf =
    (of_nat n, buf @ map (file_byte m fs inode) [off + j..<off + n])"
  using assms(6)
proof (induction "n - j" arbitrary: j buf)
  case 0
  then have j: "j = n" by simp
  have n32: "n < 2 ^ 32" using unat_u32_less [of nbytes] by (simp add: n_def)
  have "\<not> ((of_nat n :: u32) < nbytes \<and> of_nat n + offset < inode_length m fs inode)"
  proof (cases "n = unat nbytes")
    case True
    then show ?thesis by simp
  next
    case False
    then have "off + n = L" using \<open>off < L\<close> by (simp add: n_def)
    then have "unat (of_nat n + offset) = L"
      using unat_plus_below [of offset n] unat_u32_less [of "inode_length m fs inode"]
      by (simp add: L_def off_def add.commute)
    then show ?thesis by (simp add: word_less_nat_alt L_def)
  qed
  then show ?case using j by (subst read_data_loop.simps) auto
next
  case (Suc d)
  then have j: "j < n" and d: "d = n - Suc j" by simp_all
  let ?p = "off + j"
  have L32: "L < 2 ^ 32" using unat_u32_less by (simp add: L_def)
  have jn: "j < unat nbytes" "?p < L" using j by (auto simp: n_def)
  have guard: "of_nat j < nbytes \<and> of_nat j + offset < inode_length m fs inode"
    using jn L32 unat_plus_below [of offset j] unat_u32_less [of nbytes]
    by (simp add: word_less_nat_alt unat_offset L_def off_def add.commute)
  have IH: "read_data_loop m fs inode offset nbytes (of_nat (Suc j)) (of_nat ((off + Suc j) div 4096))
      (data_block m fs inode (of_nat ((off + Suc j) div 4096))) (of_nat ((off + Suc j) mod 4096))
      (buf @ [file_byte m fs inode ?p]) =
    (of_nat n, (buf @ [file_byte m fs inode ?p]) @ map (file_byte m fs inode) [off + Suc j..<off + n])"
    by (rule Suc.hyps(1)) (use d j in simp_all)
  have list: "[?p..<off + n] = ?p # [off + Suc j..<off + n]" using j by (simp add: upt_conv_Cons)
  show ?case
  proof (cases "?p mod 4096 = 4095")
    case True
    then have p: "(off + Suc j) div 4096 = Suc (?p div 4096)" "(off + Suc j) mod 4096 = 0"
      by (simp_all add: div_Suc mod_Suc)
    have "Suc (?p div 4096) \<in> {off div 4096 .. (off + n) div 4096}"
      using p(1) j by (metis atLeastAtMost_iff add_le_mono1 div_le_mono le_add1 add.commute Suc_leI)
    then have "\<not> num_data_blocks m fs \<le> data_block m fs inode (of_nat (Suc (?p div 4096)))"
      using valid unfolding blocks_valid_def not_le by blast
    then show ?thesis using guard True IH p list
      by (subst read_data_loop.simps) (simp add: Let_def file_byte_def add.commute)
  next
    case False
    then have p: "(off + Suc j) div 4096 = ?p div 4096" "(off + Suc j) mod 4096 = Suc (?p mod 4096)"
      by (simp_all add: div_Suc mod_Suc)
    have r: "?p mod 4096 < 4096" by simp
    with False have "Suc (?p mod 4096) < 4096" by linarith
    moreover from this have "unat (of_nat (?p mod 4096) + 1 :: u32) = Suc (?p mod 4096)"
      using unat_offset [of "Suc (?p mod 4096)"] by (simp add: add.commute)
    ultimately have "\<not> (of_nat (?p mod 4096) + 1 :: u32) \<ge> 4096" by (simp add: word_le_nat_alt)
    then show ?thesis using guard IH p list
      by (subst read_data_loop.simps) (simp add: Let_def file_byte_def add.commute)
  qed
qed

lemma block_position: "of_nat (unat offset div 4096) = (offset :: u32) div 4096"
    "of_nat (unat offset mod 4096) = (offset :: u32) mod 4096"
proof -
  have "unat offset div 4096 = unat (offset div 4096)" "unat offset mod 4096 = unat (offset mod 4096)"
    by (simp_all add: unat_div unat_mod)
  then show "of_nat (unat offset div 4096) = offset div 4096" "of_nat (unat offset mod 4096) = offset mod 4096"
    by simp_all
qed

lemma read_data_reads:
  fixes m fs inode and offset nbytes :: u32
  defines "n \<equiv> min (unat nbytes) (unat (inode_length m fs inode) - unat offset)"
  assumes "inode < num_inodes m fs" "buf \<noteq> 0" "offset < inode_length m fs inode"
    and valid: "blocks_valid m fs inode (unat offset) n"
  shows "read_data m fs inode offset buf nbytes =
    (of_nat n, map (file_byte m fs inode) [unat offset..<unat offset + n])"
proof -
  have "data_block m fs inode (of_nat (unat offset div 4096)) < num_data_blocks m fs"
    using valid by (simp add: blocks_valid_def div_le_mono)
  then show ?thesis
    using assms(2-4) valid read_data_loop_reads [of offset m fs inode nbytes 0 "[]"]
    by (simp add: block_position read_data_def word_less_nat_alt word_le_nat_alt n_def)
qed

lemma read_data_eof: "inode < num_inodes m fs \<Longrightarrow>
    data_block m fs inode (offset div 4096) < num_data_blocks m fs \<Longrightarrow> buf \<noteq> 0 \<Longrightarrow>
    inode_length m fs inode \<le> offset \<Longrightarrow> read_data m fs inode offset buf nbytes = (0, [])"
  by (simp add: read_data_def not_le [symmetric])

lemma read_data_bad: "inode \<ge> num_inodes m fs \<or>
    data_block m fs inode (offset div 4096) \<ge> num_data_blocks m fs \<or> buf = 0 \<Longrightarrow>
    read_data m fs inode offset buf nbytes = (ERR, [])"
  by (simp add: read_data_def)

text \<open>The position kept for a listing plays no part in reading data.\<close>

lemma read_data_loop_pos: "read_data_loop m (fs\<lparr>file_pos_keeper := p\<rparr>) inode offset nbytes i b cur tr buf =
    read_data_loop m fs inode offset nbytes i b cur tr buf"
proof (induction m fs inode offset nbytes i b cur tr buf rule: read_data_loop.induct)
  case (1 m fs inode offset nbytes i b cur tr buf)
  then show ?case
    by (subst (1 2) read_data_loop.simps)
      (simp add: Let_def inode_length_def inode_ptr_def data_block_def num_data_blocks_def)
qed

lemma read_data_pos: "read_data m (fs\<lparr>file_pos_keeper := p\<rparr>) = read_data m fs"
  by (intro ext) (simp add: read_data_def read_data_loop_pos Let_def inode_length_def inode_ptr_def
      data_block_def num_inodes_def num_data_blocks_def)

section \<open>Directory entries\<close>

lemma holds_dentry_string:
  assumes "terminated m a"
  shows "holds_string (mem_view m a) (dentry_string m a)" and "length (dentry_string m a) < 56"
proof -
  let ?b = "bytes_at m a 56"
  let ?n = "length (takeWhile (\<lambda>c. c \<noteq> 0) ?b)"
  from assms obtain k where k: "a \<noteq> 0" "k < 56" "m (a + of_nat k) = 0" by (auto simp: terminated_def)
  then have "0 \<in> set ?b" by (auto simp: bytes_at_def)
  then have n: "?n < length ?b"
    by (metis (mono_tags, lifting) length_takeWhile_le nat_less_le set_takeWhileD takeWhile_eq_take take_all_iff order_refl)
  then have "?b ! ?n = 0" by (metis (mono_tags, lifting) nth_length_takeWhile)
  moreover have "?b ! i = m (a + of_nat i)" if "i < 56" for i using that by (simp add: bytes_at_def)
  ultimately show "holds_string (mem_view m a) (dentry_string m a)"
    using k(1) n by (auto simp: holds_string_def dentry_string_def takeWhile_nth dest: set_takeWhileD)
  show "length (dentry_string m a) < 56" using n by (simp add: dentry_string_def)
qed

lemma take_takeWhile: "take n (takeWhile P xs) = takeWhile P (take n xs)"
  by (induction xs arbitrary: n) (auto simp: take_Cons split: nat.splits)

lemma disk_name_take: "disk_name m fs i = take 32 (dentry_string m (dentry_addr fs i))"
  using bytes_at_add [of m "dentry_addr fs i" 32 24]
  by (simp add: disk_name_def dentry_string_def take_takeWhile)

text \<open>The test the scan applies to one entry, on the names.\<close>

lemma scan_test:
  fixes cs s :: "u8 list"
  assumes "cs \<noteq> []"
  defines "n \<equiv> (if length cs > 32 then 32 else length cs)"
  shows "(length s = n \<or> 32 \<le> length s) \<and> take n cs = take n s \<longleftrightarrow> name_matches cs (take 32 s)"
proof (cases "length s < 32")
  case True
  then have name: "name_matches cs (take 32 s) \<longleftrightarrow> cs = s" by (simp add: name_matches_def)
  show ?thesis
  proof (cases "length s = length cs")
    case True
    with \<open>length s < 32\<close> show ?thesis unfolding name by (simp add: n_def)
  next
    case False
    then have "cs \<noteq> s" by blast
    with False \<open>length s < 32\<close> show ?thesis unfolding name by (simp add: n_def)
  qed
next
  case False
  then show ?thesis by (cases "length cs > 32") (simp_all add: name_matches_def n_def min_def)
qed

lemma scan_dentries_find:
  assumes "holds_string fname cs" "cs \<noteq> []" "\<And>i. i \<in> set is \<Longrightarrow> terminated m (dentry_addr fs i)"
  shows "scan_dentries m fs fname (if length cs > 32 then 32 else length cs) is =
    Some (find (\<lambda>i. name_matches cs (disk_name m fs i)) is)"
  using assms(3)
proof (induction "is")
  case Nil
  then show ?case by simp
next
  case (Cons i "is")
  let ?n = "if length cs > 32 then 32 else length cs"
  let ?s = "dentry_string m (dentry_addr fs i)"
  have s: "holds_string (mem_view m (dentry_addr fs i)) ?s"
    using Cons.prems holds_dentry_string(1) by simp
  then have "strncmp fname (mem_view m (dentry_addr fs i)) ?n = Some (strncmp_list cs ?s ?n)"
    by (rule strncmp_strings [OF assms(1)])
  moreover have "strncmp_list cs ?s ?n = 0 \<longleftrightarrow> take ?n cs = take ?n ?s"
    by (rule strncmp_list_zero_iff) (use assms(1) s in \<open>simp_all add: holds_string_def\<close>)
  moreover have "scan_dentries m fs fname ?n is = Some (find (\<lambda>i. name_matches cs (disk_name m fs i)) is)"
    using Cons.prems by (intro Cons.IH) simp
  ultimately show ?case
    using scan_test [OF assms(2), of ?s] strlen_string [OF s]
    by (cases "length ?s = ?n \<or> 32 \<le> length ?s"; cases "take ?n cs = take ?n ?s")
      (simp_all only: scan_dentries.simps disk_name_take find.simps Let_def bind.bind_lunit simp_thms if_True if_False)
qed


lemma bytes32_read32: "bytes32 (read32 m a) = bytes_at m a 4"
proof -
  have "byte_of 0 (read32 m a) = m a" "byte_of 1 (read32 m a) = m (a + 1)"
    "byte_of 2 (read32 m a) = m (a + 2)" "byte_of 3 (read32 m a) = m (a + 3)"
    by (rule bit_word_eqI; auto simp: bit_byte_of read32_def bit_simps dest: bit_imp_le_length)+
  then show ?thesis by (simp add: bytes32_def bytes_at_def upt_rec numeral_eq_Suc)
qed


text \<open>What a copied entry holds: the string, the type and the inode number of the entry on disk.\<close>

lemma copy_dentry_ok:
  assumes "terminated m a" "dentry_ok d"
  shows "\<exists>d'. copy_dentry m a d = Some d' \<and> dentry_ok d' \<and>
    holds_string (list_view (dentry_bytes d')) (dentry_string m a) \<and>
    file_type d' = read32 m (a + 32) \<and> inode_index d' = read32 m (a + 36)"
proof -
  let ?s = "dentry_string m a" and ?D = "dentry_bytes d"
  have D: "length ?D = 56" using assms(2) by (simp add: dentry_bytes_def dentry_ok_def bytes32_def)
  note s = holds_dentry_string [OF assms(1)]
  define b where "b = ?s @ 0 # drop (length ?s + 1) ?D"
  have b: "strcpy store ?D (mem_view m a) = Some b" "length b = 56"
    using strcpy_array_fits [OF s(1), of ?D] s(2) D by (simp_all add: b_def)
  define d' where "d' = \<lparr>file_name = take 32 b, file_type = read32 m (a + 32),
    inode_index = read32 m (a + 36), reserved = drop 40 b\<rparr>"
  have "copy_dentry m a d = Some d'" using b(1) by (simp add: copy_dentry_def d'_def)
  moreover have ok: "dentry_ok d'" using b(2) by (simp add: dentry_ok_def d'_def)
  moreover have "holds_string (list_view (dentry_bytes d')) ?s"
  proof (rule holds_string_list)
    show "0 \<notin> set ?s" using s(1) by (simp add: holds_string_def)
    show "length ?s < length (dentry_bytes d')"
      using ok s(2) by (simp add: dentry_bytes_def dentry_ok_def bytes32_def)
    have "bytes32 (file_type d') @ bytes32 (inode_index d') = drop 32 (bytes_at m a 40)"
      using bytes_at_add [of m a 32 8] bytes_at_add [of m "a + 32" 4 4]
      by (simp add: d'_def bytes32_read32 add.commute)
    then have bytes: "dentry_bytes d' = take 32 b @ drop 32 (bytes_at m a 40) @ drop 40 b"
      by (simp add: dentry_bytes_def d'_def)
    have "take (length ?s + 1) (dentry_bytes d') ! i = (?s @ [0]) ! i" if "i < length ?s + 1" for i
    proof -
      have at: "(?s @ [0]) ! i = m (a + of_nat i)" and bi: "b ! i = (?s @ [0]) ! i"
        using that s(1) by (auto simp: holds_string_def mem_view_def nth_append less_Suc_eq b_def split: if_splits)
      consider "i < 32" | "32 \<le> i" "i < 40" | "40 \<le> i" by linarith
      then have "dentry_bytes d' ! i = (?s @ [0]) ! i"
      proof cases
        case 2
        then have "i - 32 < 8" by linarith
        with 2 show ?thesis unfolding bytes at using b(2) by (simp add: nth_append bytes_at_def)
      next
        case 3
        then have "\<not> i - 32 < 8" by linarith
        with 3 bi b(2) show ?thesis by (simp add: bytes nth_append)
      qed (use b(2) bi in \<open>simp add: bytes nth_append\<close>)
      then show ?thesis using that by simp
    qed
    then show "take (length ?s + 1) (dentry_bytes d') = ?s @ [0]"
      using \<open>length ?s < length (dentry_bytes d')\<close> by (intro nth_equalityI) simp_all
  qed
  ultimately show ?thesis by (auto simp: d'_def)
qed


definition holds_dentry :: "memory \<Rightarrow> fsys \<Rightarrow> nat \<Rightarrow> dentry \<Rightarrow> bool" where
  "holds_dentry m fs i d \<longleftrightarrow> dentry_ok d \<and>
     holds_string (list_view (dentry_bytes d)) (dentry_string m (dentry_addr fs i)) \<and>
     file_type d = read32 m (dentry_addr fs i + 32) \<and> inode_index d = read32 m (dentry_addr fs i + 36)"

definition lookup_name :: "memory \<Rightarrow> fsys \<Rightarrow> u8 list \<Rightarrow> nat option" where
  "lookup_name m fs cs = (if cs = [] then None
     else find (\<lambda>i. name_matches cs (disk_name m fs i)) [0..<63])"

lemma read_dentry_by_name_lookup:
  assumes "holds_string fname cs" "dir_ok m fs" "dentry_ok d"
  shows "case lookup_name m fs cs of
      None \<Rightarrow> read_dentry_by_name m fname (Some d) fs = Some (ERR, Some d, fs)
    | Some i \<Rightarrow> \<exists>d'. holds_dentry m fs i d' \<and>
        read_dentry_by_name m fname (Some d) fs = Some (0, Some d', fs\<lparr>file_pos_keeper := int i\<rparr>)"
proof (cases "cs = []")
  case True
  then show ?thesis using strlen_string [OF assms(1)]
    by (simp add: read_dentry_by_name_def lookup_name_def)
next
  case False
  let ?n = "if length cs > 32 then 32 else length cs"
  have scan: "scan_dentries m fs fname ?n [0..<63] = Some (lookup_name m fs cs)"
    using scan_dentries_find [OF assms(1) False, of "[0..<63]" m fs] assms(2) False
    by (simp add: dir_ok_def lookup_name_def)
  show ?thesis
  proof (cases "lookup_name m fs cs")
    case None
    then show ?thesis using scan strlen_string [OF assms(1)] False
      by (simp add: read_dentry_by_name_def Let_def)
  next
    case (Some i)
    then have "i < 63" by (auto simp: lookup_name_def find_Some_iff split: if_splits)
    then have "terminated m (dentry_addr fs i)" using assms(2) by (simp add: dir_ok_def)
    then obtain d' where "copy_dentry m (dentry_addr fs i) d = Some d'" "holds_dentry m fs i d'"
      using copy_dentry_ok [of m "dentry_addr fs i" d] assms(3) by (auto simp: holds_dentry_def)
    then show ?thesis using Some scan strlen_string [OF assms(1)] False
      by (auto simp: read_dentry_by_name_def Let_def)
  qed
qed

lemma read_dentry_by_index_reads:
  assumes "dir_ok m fs" "dentry_ok d"
  shows "if unat index < min 63 (unat (read32 m (fs_bootblk fs)))
    then \<exists>d'. holds_dentry m fs (unat index) d' \<and> read_dentry_by_index m index (Some d) fs = Some (0, Some d')
    else read_dentry_by_index m index (Some d) fs = Some (ERR, Some d)"
proof (cases "unat index < min 63 (unat (read32 m (fs_bootblk fs)))")
  case True
  then have ix: "\<not> (63 \<le> index \<or> read32 m (fs_bootblk fs) \<le> index)" by (simp add: word_le_nat_alt)
  have "terminated m (dentry_addr fs (unat index))" using True assms(1) by (simp add: dir_ok_def)
  then obtain d' where "copy_dentry m (dentry_addr fs (unat index)) d = Some d'" "holds_dentry m fs (unat index) d'"
    using copy_dentry_ok [of m "dentry_addr fs (unat index)" d] assms(2) by (auto simp: holds_dentry_def)
  then show ?thesis using True ix by (simp add: read_dentry_by_index_def dentry_addr_def)
next
  case False
  then have "63 \<le> index \<or> read32 m (fs_bootblk fs) \<le> index" by (auto simp: word_le_nat_alt)
  then show ?thesis unfolding if_not_P [OF False] by (simp add: read_dentry_by_index_def)
qed

section \<open>Listing the directory\<close>

definition name_field :: "memory \<Rightarrow> fsys \<Rightarrow> nat \<Rightarrow> u8 list" where
  "name_field m fs i = disk_name m fs i @ replicate (33 - length (disk_name m fs i)) 0"

lemma dir_name_bytes_name:
  assumes "holds_dentry m fs i d"
  shows "dir_name_bytes d = Some (of_nat (length (disk_name m fs i)), name_field m fs i)"
proof -
  let ?s = "dentry_string m (dentry_addr fs i)"
  define n where "n = (if length ?s > 32 then 32 else length ?s)"
  have s: "holds_string (list_view (dentry_bytes d)) ?s" using assms by (simp add: holds_dentry_def)
  have "n \<le> length (replicate 33 (0 :: u8))" by (simp add: n_def)
  from array.strncpy_copies [OF s this] obtain b where b: "strncpy store (replicate 33 0) (list_view (dentry_bytes d)) n = Some b" "length b = 33"
      "\<And>j. j < 33 \<Longrightarrow> list_view b j = (if j < n then Some (if j < length ?s then ?s ! j else 0)
         else list_view (replicate 33 0) j)"
    by auto
  have name: "disk_name m fs i = take n ?s" "length (disk_name m fs i) = n"
    by (simp_all add: disk_name_take n_def)
  have n: "n \<le> 32" "n \<le> length ?s" by (simp_all add: n_def)
  have "b = name_field m fs i"
  proof (rule nth_equalityI)
    show "length b = length (name_field m fs i)" using b(2) n by (simp add: name_field_def name(2))
    fix j
    assume "j < length b"
    then have j: "j < 33" using b(2) by simp
    then have "b ! j = (if j < n then ?s ! j else 0)" using b(2) b(3) [OF j] n by (auto split: if_splits)
    then show "b ! j = name_field m fs i ! j" using j n by (simp add: name_field_def name nth_append)
  qed
  then show ?thesis using b(1) strlen_string [OF s] by (simp add: dir_name_bytes_def Let_def name(2) flip: n_def)
qed


text \<open>The listing the reads of one directory go through: the entries below both limits.\<close>

definition dir_count :: "memory \<Rightarrow> fsys \<Rightarrow> nat" where
  "dir_count m fs = min 63 (unat (read32 m (fs_bootblk fs)))"

lemma ls_first:
  assumes "fs_dir_read_flag fs = 0" "holds_string fname cs" "dir_ok m fs" "dentry_ok d"
  shows "fs_dir_ls_read_helper m fname d fs =
    (case lookup_name m fs cs of
       None \<Rightarrow> Some (ERR, [], fs\<lparr>fs_dir_read_flag := 1\<rparr>)
     | Some i \<Rightarrow> Some (of_nat (length (disk_name m fs i)), name_field m fs i,
                       fs\<lparr>fs_dir_read_flag := 1, file_pos_keeper := int i\<rparr>))"
proof -
  let ?fs = "fs\<lparr>fs_dir_read_flag := 1\<rparr>"
  have same: "dir_ok m ?fs" "lookup_name m ?fs cs = lookup_name m fs cs"
      "holds_dentry m ?fs i d' = holds_dentry m fs i d'" for i d'
    using assms(3) by (simp_all add: dir_ok_def lookup_name_def disk_name_def dentry_addr_def holds_dentry_def)
  show ?thesis
    using read_dentry_by_name_lookup [OF assms(2) same(1) assms(4)] assms(1)
    by (auto simp: fs_dir_ls_read_helper_def same dir_name_bytes_name split: option.splits)
qed

lemma ls_next:
  assumes "fs_dir_read_flag fs = 1" "0 \<le> file_pos_keeper fs" "file_pos_keeper fs < 63"
    and "dir_ok m fs" "dentry_ok d"
  defines "k \<equiv> nat (file_pos_keeper fs) + 1"
  shows "fs_dir_ls_read_helper m fname d fs =
    (if k < dir_count m fs
     then Some (of_nat (length (disk_name m fs k)), name_field m fs k, fs\<lparr>file_pos_keeper := int k\<rparr>)
     else Some (0, [], fs\<lparr>fs_dir_read_flag := 0, file_pos_keeper := 0\<rparr>))"
proof -
  let ?fs = "fs\<lparr>file_pos_keeper := int k\<rparr>"
  have pos: "file_pos_keeper fs + 1 = int k" "k < 64" using assms(2,3) by (simp_all add: k_def)
  then have "unat (of_nat k :: u32) = k" by (intro unat_offset) simp
  note pos = pos this
  have same: "dir_ok m ?fs" "holds_dentry m ?fs i d' = holds_dentry m fs i d'" for i d'
    using assms(4) by (simp_all add: dir_ok_def dentry_addr_def holds_dentry_def)
  show ?thesis
    using read_dentry_by_index_reads [OF same(1) assms(5), of "of_nat k"] assms(1) pos
    by (auto simp: fs_dir_ls_read_helper_def dir_count_def same dir_name_bytes_name split: if_splits)
qed

text \<open>A run of reads on one directory, each result kept.\<close>

fun ls_reads :: "memory \<Rightarrow> byte_view \<Rightarrow> dentry \<Rightarrow> nat \<Rightarrow> fsys \<Rightarrow> ((u32 \<times> u8 list) list \<times> fsys) option" where
  "ls_reads m fname d 0 fs = Some ([], fs)"
| "ls_reads m fname d (Suc n) fs = do {
     (r, buf, fs) \<leftarrow> fs_dir_ls_read_helper m fname d fs;
     (rest, fs) \<leftarrow> ls_reads m fname d n fs;
     Some ((r, buf) # rest, fs)
   }"

definition ls_entry :: "memory \<Rightarrow> fsys \<Rightarrow> nat \<Rightarrow> u32 \<times> u8 list" where
  "ls_entry m fs i = (of_nat (length (disk_name m fs i)), name_field m fs i)"

lemma ls_reads_rest:
  assumes "dir_ok m fs" "dentry_ok d" "k < dir_count m fs" "fs_dir_read_flag fs = 1" "file_pos_keeper fs = int k"
  shows "ls_reads m fname d (dir_count m fs - k) fs =
    Some (map (ls_entry m fs) [k + 1..<dir_count m fs] @ [(0, [])],
          fs\<lparr>fs_dir_read_flag := 0, file_pos_keeper := 0\<rparr>)"
  using assms
proof (induction "dir_count m fs - k" arbitrary: k fs)
  case 0
  then show ?case by simp
next
  case (Suc n)
  have k: "k < 63" using Suc.prems(3) by (simp add: dir_count_def)
  have step: "fs_dir_ls_read_helper m fname d fs =
      (if k + 1 < dir_count m fs then Some (fst (ls_entry m fs (k + 1)), snd (ls_entry m fs (k + 1)),
         fs\<lparr>file_pos_keeper := int (k + 1)\<rparr>)
       else Some (0, [], fs\<lparr>fs_dir_read_flag := 0, file_pos_keeper := 0\<rparr>))"
    using ls_next [OF Suc.prems(4), of m d fname] Suc.prems k by (simp add: ls_entry_def)
  have len: "dir_count m fs - k = Suc n" using Suc.hyps(2) by simp
  show ?case
  proof (cases "k + 1 < dir_count m fs")
    case True
    let ?fs = "fs\<lparr>file_pos_keeper := int (k + 1)\<rparr>"
    have same: "dir_count m ?fs = dir_count m fs" "ls_entry m ?fs = ls_entry m fs" "dir_ok m ?fs"
      using Suc.prems(1)
      by (simp_all add: dir_count_def ls_entry_def name_field_def disk_name_def dentry_addr_def dir_ok_def fun_eq_iff)
    have n: "n = dir_count m fs - (k + 1)" using len by simp
    have "ls_reads m fname d n ?fs = Some (map (ls_entry m fs) [k + 2..<dir_count m fs] @ [(0, [])],
        fs\<lparr>fs_dir_read_flag := 0, file_pos_keeper := 0\<rparr>)"
      using Suc.hyps(1) [of ?fs "k + 1"] True n same Suc.prems by simp
    then show ?thesis unfolding len using step True by (simp add: upt_conv_Cons)
  next
    case False
    then have "n = 0" using len Suc.prems(3) by simp
    then show ?thesis unfolding len using step False by simp
  qed
qed


lemma read_data_reads':
  fixes m fs inode and offset nbytes :: u32
  defines "n \<equiv> min (unat nbytes) (unat (inode_length m fs inode) - unat offset)"
  assumes "inode < num_inodes m fs" "buf \<noteq> 0" and valid: "blocks_valid m fs inode (unat offset) n"
  shows "read_data m fs inode offset buf nbytes =
    (of_nat n, map (file_byte m fs inode) [unat offset..<unat offset + n])"
proof (cases "offset < inode_length m fs inode")
  case True
  then show ?thesis using assms read_data_reads [of inode m fs buf offset nbytes] by simp
next
  case False
  then have "n = 0" by (simp add: n_def word_less_nat_alt)
  moreover have "data_block m fs inode (offset div 4096) < num_data_blocks m fs"
    using valid \<open>n = 0\<close> by (simp add: blocks_valid_def block_position)
  ultimately show ?thesis using read_data_eof [of inode m fs offset buf nbytes] assms(2,3) False by simp
qed

lemma name_loop_takes: "name_loop m a n k buf =
    buf @ takeWhile (\<lambda>c. c \<noteq> 0) (take n (bytes_at m (a + of_nat k) (32 - k)))"
proof (induction m a n k buf rule: name_loop.induct)
  case (2 m a n k buf)
  show ?case
  proof (cases "k < 32")
    case True
    then have "32 - k = Suc (32 - (k + 1))" by simp
    then have "bytes_at m (a + of_nat k) (32 - k) = m (a + of_nat k) # bytes_at m (a + of_nat (k + 1)) (32 - (k + 1))"
      using bytes_at_Suc [of m "a + of_nat k" "32 - (k + 1)"] by (simp add: algebra_simps)
    then show ?thesis using True "2.IH" [OF True refl] by (simp add: Let_def)
  next
    case False
    then show ?thesis by simp
  qed
qed simp

section \<open>Correctness\<close>

text \<open>A small image for concrete runs: one entry \<open>a\<close> of two bytes, with inode 0 and data block 0.\<close>

definition demo_disk :: memory where
  "demo_disk = (\<lambda>_. 0)(0x1000 := 1, 0x1004 := 1, 0x1008 := 1, 0x1040 := 0x61, 0x1060 := 2,
     0x2000 := 2, 0x3000 := 0x68, 0x3001 := 0x69)"

definition demo_fs :: fsys where
  "demo_fs = init_filesys demo_disk 0x1000
     \<lparr>fs_bootblk = 0, fs_datablocks = 0, fs_dentries = 0, fs_inodes = 0, file_pos_keeper = 0, fs_dir_read_flag = 0\<rparr>"

definition demo_dentry :: dentry where
  "demo_dentry = \<lparr>file_name = replicate 32 0xCC, file_type = 0, inode_index = 0, reserved = replicate 16 0xCC\<rparr>"

lemma demo_ok: "dir_ok demo_disk demo_fs" "dentry_ok demo_dentry"
proof -
  have fs: "dentry_addr demo_fs i = 0x1040 + 64 * of_nat i" for i
    by (simp add: dentry_addr_def demo_fs_def init_filesys_def)
  have "terminated demo_disk (dentry_addr demo_fs i)" if "i < 63" for i
  proof -
    have a: "unat (dentry_addr demo_fs i + of_nat k) = 0x1040 + 64 * i + k" if "k < 3" for k
      using unat_offset [of "0x1040 + 64 * i + k"] that \<open>i < 63\<close> by (simp add: fs add.assoc)
    have "unat (dentry_addr demo_fs i) \<noteq> 0" using a [of 0] by simp
    then have "dentry_addr demo_fs i \<noteq> 0" by auto
    moreover have "unat x mod 64 \<noteq> 2" if "demo_disk x \<noteq> 0" for x
      using that by (auto simp: demo_disk_def split: if_splits)
    moreover have "unat (dentry_addr demo_fs i + of_nat 2) mod 64 = 2"
      using a [of 2] by presburger
    ultimately show ?thesis unfolding terminated_def by (intro conjI exI [of _ 2]) auto
  qed
  then show "dir_ok demo_disk demo_fs" by (simp add: dir_ok_def)
  show "dentry_ok demo_dentry" by (simp add: dentry_ok_def demo_dentry_def)
qed

lemma demo_name: "disk_name demo_disk demo_fs 0 = [0x61]"
proof -
  have "bytes_at demo_disk 0x1040 32 = demo_disk 0x1040 # demo_disk 0x1041 # bytes_at demo_disk 0x1042 30"
    by (simp add: numeral_eq_Suc bytes_at_Suc)
  then show ?thesis
    by (simp add: disk_name_def dentry_addr_def demo_fs_def init_filesys_def demo_disk_def)
qed

lemma demo_data: "inode_length demo_disk demo_fs 0 = 2" "num_inodes demo_disk demo_fs = 1"
    "num_data_blocks demo_disk demo_fs = 1" "data_block demo_disk demo_fs 0 0 = 0"
    "dir_count demo_disk demo_fs = 1"
    "read32 demo_disk (dentry_addr demo_fs 0 + 36) = 0"
  by code_simp+

lemma demo_file: "file_byte demo_disk demo_fs 0 0 = 0x68" "file_byte demo_disk demo_fs 0 (Suc 0) = 0x69"
  by code_simp+

lemma demo_lookup: "lookup_name demo_disk demo_fs [0x61] = Some 0"
    "name_field demo_disk demo_fs 0 = 0x61 # replicate 32 0"
  by (simp_all add: lookup_name_def name_matches_def demo_name name_field_def upt_conv_Cons)


text \<open>C31: looking a name up in the directory returns the first entry whose name matches, with
  its string, type and inode number copied and its index kept for a later listing; when there is none,
  or the name is empty, the call fails and changes nothing.\<close>

theorem read_dentry_by_name_first_match:
  assumes "holds_string fname cs" "dir_ok m fs" "dentry_ok d"
  defines "hit \<equiv> \<lambda>i. cs \<noteq> [] \<and> name_matches cs (disk_name m fs i)"
  shows "if \<exists>i<63. hit i
    then \<exists>i<63. \<exists>d'. hit i \<and> (\<forall>j<i. \<not> hit j) \<and> holds_dentry m fs i d' \<and>
      read_dentry_by_name m fname (Some d) fs = Some (0, Some d', fs\<lparr>file_pos_keeper := int i\<rparr>)
    else read_dentry_by_name m fname (Some d) fs = Some (ERR, Some d, fs)"
proof (cases "lookup_name m fs cs")
  case None
  then have no: "\<not> (\<exists>i<63. hit i)" by (auto simp: lookup_name_def hit_def find_None_iff split: if_splits)
  then show ?thesis unfolding if_not_P [OF no]
    using read_dentry_by_name_lookup [OF assms(1-3)] None by simp
next
  case (Some i)
  then have i: "i < 63" "hit i" "\<forall>j<i. \<not> hit j"
    by (auto simp: lookup_name_def hit_def find_Some_iff split: if_splits)
  then show ?thesis using read_dentry_by_name_lookup [OF assms(1-3)] Some by auto
qed

theorem read_dentry_by_name_first_match_witness:
  "\<exists>d'. read_dentry_by_name demo_disk (list_view [0x61, 0]) (Some demo_dentry) demo_fs =
     Some (0, Some d', demo_fs\<lparr>file_pos_keeper := 0\<rparr>)"
proof -
  have "holds_string (list_view [0x61, 0]) [0x61 :: u8]" by (rule holds_string_list) simp_all
  note use = read_dentry_by_name_first_match [OF this demo_ok]
  have "name_matches [0x61] (disk_name demo_disk demo_fs 0)" by (simp add: demo_name name_matches_def)
  then have "\<exists>i<63. [0x61] \<noteq> [] \<and> name_matches [0x61] (disk_name demo_disk demo_fs i)"
    by (intro exI [of _ 0]) simp
  from use [unfolded if_P [OF this]] obtain i d' where i: "\<forall>j<i. \<not> name_matches [0x61] (disk_name demo_disk demo_fs j)"
    and r: "read_dentry_by_name demo_disk (list_view [0x61, 0]) (Some demo_dentry) demo_fs =
      Some (0, Some d', demo_fs\<lparr>file_pos_keeper := int i\<rparr>)"
    by blast
  from i \<open>name_matches _ _\<close> have "i = 0" by (metis gr0I)
  with r show ?thesis by auto
qed

text \<open>C30: a read of file data returns the number of bytes the request and the rest of the file
  allow, and exactly those bytes of the file, whichever data blocks they are spread over; at and past
  the end of the file it returns 0.\<close>

theorem read_data_correct:
  fixes m fs inode and offset nbytes :: u32
  defines "n \<equiv> min (unat nbytes) (unat (inode_length m fs inode) - unat offset)"
  assumes "inode < num_inodes m fs" "buf \<noteq> 0" and valid: "blocks_valid m fs inode (unat offset) n"
  shows "read_data m fs inode offset buf nbytes =
    (of_nat n, map (file_byte m fs inode) [unat offset..<unat offset + n])"
  using assms(2-4) unfolding n_def by (rule read_data_reads')

theorem read_data_correct_witness: "read_data demo_disk demo_fs 0 0 0x8000 10 = (2, [0x68, 0x69])"
proof -
  have "blocks_valid demo_disk demo_fs 0 0 2" by (simp add: blocks_valid_def demo_data)
  then show ?thesis
    using read_data_correct [of 0 demo_disk demo_fs "0x8000" 0 10] by (simp add: demo_data demo_file)
qed

text \<open>Reading a file in two pieces, the second where the first ended, gives the bytes of one
  read of both lengths, and the byte counts add up.\<close>

theorem read_data_in_pieces:
  fixes offset k l :: u32
  assumes "inode < num_inodes m fs" "buf \<noteq> 0" "buf' \<noteq> 0"
    and "unat offset + unat k + unat l < 2 ^ 32"
    and "blocks_valid m fs inode (unat offset) (unat k + unat l)"
    and "read_data m fs inode offset buf k = (r1, bytes1)"
    and "read_data m fs inode (offset + r1) buf' l = (r2, bytes2)"
  shows "read_data m fs inode offset buf (k + l) = (r1 + r2, bytes1 @ bytes2)"
proof -
  let ?L = "unat (inode_length m fs inode)" and ?off = "unat offset"
  define n1 where "n1 = min (unat k) (?L - ?off)"
  define n2 where "n2 = min (unat l) (?L - (?off + n1))"
  have sub: "blocks_valid m fs inode a n" if "?off \<le> a" "a + n \<le> ?off + unat k + unat l" for a n
    using blocks_valid_mono [OF assms(5) that(1)] that(2) by (simp add: add.assoc)
  have n1: "n1 \<le> unat k" and n2: "n2 \<le> unat l" by (simp_all add: n1_def n2_def)
  have kl: "unat (k + l) = unat k + unat l" using assms(4) unat_plus_below [of k "unat l"] by simp
  have n: "min (unat (k + l)) (?L - ?off) = n1 + n2" using kl by (auto simp: n1_def n2_def)
  have 1: "r1 = of_nat n1" "bytes1 = map (file_byte m fs inode) [?off..<?off + n1]"
    using read_data_reads' [of inode m fs buf offset k] sub [of ?off n1] assms n1 by (simp_all add: n1_def)
  have off1: "unat (offset + r1) = ?off + n1" unfolding 1(1) using assms(4) n1 by (intro unat_plus_below) simp
  have 2: "r2 = of_nat n2" "bytes2 = map (file_byte m fs inode) [?off + n1..<?off + n1 + n2]"
    using read_data_reads' [of inode m fs buf' "offset + r1" l] sub [of "?off + n1" n2] assms n1 n2 off1
    by (simp_all add: n2_def)
  have "read_data m fs inode offset buf (k + l) =
      (of_nat (n1 + n2), map (file_byte m fs inode) [?off..<?off + (n1 + n2)])"
    using read_data_reads' [of inode m fs buf offset "k + l"] sub [of ?off "n1 + n2"] assms(1,2) n1 n2 n by simp
  then show ?thesis using 1 2 upt_add_eq_append [of ?off "?off + n1" n2] by (simp add: add.assoc)
qed

theorem read_data_in_pieces_witness: "read_data demo_disk demo_fs 0 0 0x8000 (1 + 1) = (1 + 1, [0x68] @ [0x69])"
proof (rule read_data_in_pieces [where buf' = "0x8001"])
  show "read_data demo_disk demo_fs 0 0 0x8000 1 = (1, [0x68])" by code_simp
  show "read_data demo_disk demo_fs 0 (0 + 1) 0x8001 1 = (1, [0x69])" by code_simp
qed (simp_all add: blocks_valid_def demo_data)


lemma filesys_read_helper_spec:
  fixes m :: memory and fs :: fsys and offset nbytes :: u32
  assumes "holds_string fname cs" "dir_ok m fs" "dentry_ok d"
    and files: "\<And>i. lookup_name m fs cs = Some i \<Longrightarrow> let inode = read32 m (dentry_addr fs i + 36) in
      inode < num_inodes m fs \<and> blocks_valid m fs inode (unat offset) (unat nbytes)"
  shows "filesys_read_helper m (Some fname) offset buf nbytes d fs =
    (if buf = 0 then Some (ERR, [], fs)
     else case lookup_name m fs cs of
       None \<Rightarrow> Some (ERR, [], fs)
     | Some i \<Rightarrow>
         let inode = read32 m (dentry_addr fs i + 36);
             n = min (unat nbytes) (unat (inode_length m fs inode) - unat offset)
         in Some (of_nat n, map (file_byte m fs inode) [unat offset..<unat offset + n],
                  fs\<lparr>file_pos_keeper := int i\<rparr>))"
proof (cases "buf = 0 \<or> lookup_name m fs cs = None")
  case True
  then show ?thesis using read_dentry_by_name_lookup [OF assms(1-3)]
    by (auto simp: filesys_read_helper_def)
next
  case False
  then obtain i where i: "lookup_name m fs cs = Some i" "buf \<noteq> 0" by auto
  let ?inode = "read32 m (dentry_addr fs i + 36)" and ?fs = "fs\<lparr>file_pos_keeper := int i\<rparr>"
  have ok: "?inode < num_inodes m fs" "blocks_valid m fs ?inode (unat offset) (unat nbytes)"
    using files [OF i(1)] by (simp_all add: Let_def)
  obtain d' where d': "holds_dentry m fs i d'"
      "read_dentry_by_name m fname (Some d) fs = Some (0, Some d', ?fs)"
    using read_dentry_by_name_lookup [OF assms(1-3)] i by auto
  then have "inode_index d' = ?inode" by (simp add: holds_dentry_def)
  moreover have "blocks_valid m fs ?inode (unat offset) (min (unat nbytes) (unat (inode_length m fs ?inode) - unat offset))"
    by (rule blocks_valid_mono [OF ok(2)]) simp_all
  ultimately show ?thesis
    using i d' read_data_reads' [OF ok(1) i(2), of offset nbytes] by (simp add: filesys_read_helper_def read_data_pos Let_def)
qed

text \<open>Reading a file by its name finds its inode through the directory and returns the bytes of
  that file; a name that is not in the directory, or a null buffer, is an error and returns no byte.\<close>

theorem filesys_read_helper_reads:
  fixes m :: memory and fs :: fsys and offset nbytes :: u32
  assumes "holds_string fname cs" "dir_ok m fs" "dentry_ok d"
    and files: "\<And>i. lookup_name m fs cs = Some i \<Longrightarrow> let inode = read32 m (dentry_addr fs i + 36) in
      inode < num_inodes m fs \<and> blocks_valid m fs inode (unat offset) (unat nbytes)"
  shows "filesys_read_helper m (Some fname) offset buf nbytes d fs =
    (if buf = 0 then Some (ERR, [], fs)
     else case lookup_name m fs cs of
       None \<Rightarrow> Some (ERR, [], fs)
     | Some i \<Rightarrow>
         let inode = read32 m (dentry_addr fs i + 36);
             n = min (unat nbytes) (unat (inode_length m fs inode) - unat offset)
         in Some (of_nat n, map (file_byte m fs inode) [unat offset..<unat offset + n],
                  fs\<lparr>file_pos_keeper := int i\<rparr>))"
  using assms(1-3) files by (rule filesys_read_helper_spec)

theorem filesys_read_helper_reads_witness:
  "filesys_read_helper demo_disk (Some (list_view [0x61, 0])) 1 0x8000 10 demo_dentry demo_fs =
     Some (1, [0x69], demo_fs\<lparr>file_pos_keeper := 0\<rparr>)"
proof -
  have "holds_string (list_view [0x61, 0]) [0x61 :: u8]" by (rule holds_string_list) simp_all
  then have "filesys_read_helper demo_disk (Some (list_view [0x61, 0])) 1 0x8000 10 demo_dentry demo_fs =
    (if (0x8000 :: u32) = 0 then Some (ERR, [], demo_fs)
     else case lookup_name demo_disk demo_fs [0x61] of
       None \<Rightarrow> Some (ERR, [], demo_fs)
     | Some i \<Rightarrow>
         let inode = read32 demo_disk (dentry_addr demo_fs i + 36);
             n = min (unat (10 :: u32)) (unat (inode_length demo_disk demo_fs inode) - unat (1 :: u32))
         in Some (of_nat n, map (file_byte demo_disk demo_fs inode) [unat (1 :: u32)..<unat (1 :: u32) + n],
                  demo_fs\<lparr>file_pos_keeper := int i\<rparr>))"
    by (rule filesys_read_helper_reads) (simp_all add: demo_ok demo_lookup demo_data blocks_valid_def)
  then show ?thesis by (simp add: demo_lookup demo_data demo_file Let_def)
qed

text \<open>A listing that starts at the first entry returns every entry of the directory once and in
  order, each as its name padded with zeros to 33 bytes, then returns 0; after that the next listing
  starts from the beginning again.\<close>

theorem ls_lists_directory:
  assumes "fs_dir_read_flag fs = 0" "holds_string fname cs" "dir_ok m fs" "dentry_ok d"
    and "lookup_name m fs cs = Some 0" "0 < dir_count m fs"
  shows "ls_reads m fname d (dir_count m fs + 1) fs =
    Some (map (ls_entry m fs) [0..<dir_count m fs] @ [(0, [])],
          fs\<lparr>fs_dir_read_flag := 0, file_pos_keeper := 0\<rparr>)"
proof -
  let ?fs = "fs\<lparr>fs_dir_read_flag := 1, file_pos_keeper := 0\<rparr>"
  have same: "dir_count m ?fs = dir_count m fs" "ls_entry m ?fs = ls_entry m fs" "dir_ok m ?fs"
    using assms(3)
    by (simp_all add: dir_count_def ls_entry_def name_field_def disk_name_def dentry_addr_def dir_ok_def fun_eq_iff)
  have "fs_dir_ls_read_helper m fname d fs = Some (fst (ls_entry m fs 0), snd (ls_entry m fs 0), ?fs)"
    using ls_first [OF assms(1-4)] assms(5) by (simp add: ls_entry_def)
  moreover have "ls_reads m fname d (dir_count m fs) ?fs =
      Some (map (ls_entry m fs) [1..<dir_count m fs] @ [(0, [])], fs\<lparr>fs_dir_read_flag := 0, file_pos_keeper := 0\<rparr>)"
    using ls_reads_rest [of m ?fs d 0 fname] same assms(4,6) by simp
  moreover have "[0..<dir_count m fs] = 0 # [1..<dir_count m fs]" using assms(6) by (simp add: upt_conv_Cons)
  ultimately show ?thesis by simp
qed

theorem ls_lists_directory_witness:
  "ls_reads demo_disk (list_view [0x61, 0]) demo_dentry 2 demo_fs =
     Some ([(1, 0x61 # replicate 32 0), (0, [])], demo_fs\<lparr>fs_dir_read_flag := 0, file_pos_keeper := 0\<rparr>)"
proof -
  have "holds_string (list_view [0x61, 0]) [0x61 :: u8]" by (rule holds_string_list) simp_all
  moreover have "fs_dir_read_flag demo_fs = 0" by (simp add: demo_fs_def init_filesys_def)
  ultimately show ?thesis using ls_lists_directory [of demo_fs "list_view [0x61, 0]" "[0x61]" demo_disk demo_dentry]
    by (simp add: demo_ok demo_lookup demo_data ls_entry_def demo_name numeral_2_eq_2)
qed

text \<open>Reading a directory entry by position returns its name, cut to the space the caller
  gives, and 0 past the last entry.\<close>

theorem fs_dir_read_helper_name:
  assumes "fs_dentries fs = fs_bootblk fs + 64"
  shows "fs_dir_read_helper m offset len fs =
    (if offset < read32 m (fs_bootblk fs)
     then (let name = take (unat len) (disk_name m fs (unat offset)) in (of_nat (length name), name))
     else (0, []))"
  using name_loop_takes [of m _ "unat len" 0 "[]"] assms
  by (auto simp: fs_dir_read_helper_def disk_name_def dentry_addr_def Let_def not_le mult.commute take_takeWhile)

theorem fs_dir_read_helper_name_witness: "fs_dir_read_helper demo_disk 0 33 demo_fs = (1, [0x61])"
proof -
  have "fs_dentries demo_fs = fs_bootblk demo_fs + 64" "read32 demo_disk (fs_bootblk demo_fs) = 1"
    by code_simp+
  then show ?thesis using fs_dir_read_helper_name [of demo_fs demo_disk 0 33] by (simp add: demo_name)
qed

end
