(* ===== verification/Process.thy ===== *)
theory Process
  imports Terminal_IO Filesys
begin

text \<open>
  \<open>syscall.c\<close>: processes and the system calls. The kernel state extends the terminal's with the file
  system, the task bookkeeping and the process control blocks, which the code finds by position at
  \<open>8 MB - 8 KB * (position + 1)\<close>. Transfers of control the C code makes by assembly are values: a
  return to the caller, an \<open>iret\<close> into a program, or the jump back into the parent's \<open>execute\<close>.

  The stack pointer and frame pointer that \<open>execute\<close> saves are arguments. Program memory is reached through
  the page tables.

  The control blocks, the page tables and the variables of the kernel lie in the kernel's own 4 MB frame and
  are fields of the record here, not bytes of \<open>ram\<close>. The calls do not check the pointers a program passes, so
  a \<open>read\<close> or \<open>getargs\<close> into that frame overwrites them: such a call has no result in the model (\<open>None\<close>), like
  every other call whose outcome the source leaves open. A local directory entry is written before it is read;
  its initial bytes are 0xCC. A decision on bytes of a local buffer that no read has filled is \<open>None\<close>.
\<close>

section \<open>State\<close>

abbreviation (input) MAXNUMTASK :: nat where "MAXNUMTASK \<equiv> 6"
abbreviation (input) MAXOPENFILE :: nat where "MAXOPENFILE \<equiv> 8"
abbreviation (input) LOADADDR :: u32 where "LOADADDR \<equiv> 0x08048000"
abbreviation (input) EIGHTKB :: u32 where "EIGHTKB \<equiv> 0x2000"
abbreviation (input) EIGHTMB :: u32 where "EIGHTMB \<equiv> 0x800000"
abbreviation (input) PROCESSMASK :: u32 where "PROCESSMASK \<equiv> 0xFFFFE000"
abbreviation (input) USER_ESP :: u32 where "USER_ESP \<equiv> 0x083FFFFC"
abbreviation (input) KERNEL_DS :: u16 where "KERNEL_DS \<equiv> 0x18"

text \<open>The operation tables; a null table is \<open>None\<close>. The inode field points into the stack frame of
  \<open>open\<close> and is never read.\<close>

datatype fop_table = Stdin_ops | Stdout_ops | Rtc_ops | Dir_ops | File_ops
datatype inode_ref = Null_inode | Stack_inode

record file_node =
  fop :: "fop_table option"
  inode :: inode_ref
  file_pos :: u32
  flags :: u32

record pcb =
  file_array :: "file_node list"
  file_names :: "u8 list"
  open_file_num :: int
  arg_buffer :: "u8 list"
  process_id :: int
  parent_process_id :: int
  parent_esp :: u32
  parent_ebp :: u32
  running_state :: int
  pcb_esp :: u32
  pcb_ebp :: u32
  parent_pcb :: u32

record kernel = tio +
  fs :: fsys
  runn_task_num :: u8
  curr_task_pos :: u8
  task_bitmap :: "u8 list"
  pcbs :: "pcb list"
  tss_ss0 :: u16
  tss_esp0 :: u32

text \<open>Where control goes: back to the caller, to a program (its entry and stack pointer), or into the
  parent's kernel stack (stack pointer, frame pointer and the value \<open>execute\<close> returns there).\<close>

datatype transfer = Return u32 | User_mode u32 u32 | Resume u32 u32 u32

definition closed_node :: file_node where
  "closed_node = \<lparr>fop = None, inode = Null_inode, file_pos = 0, flags = 0\<rparr>"

definition zero_pcb :: pcb where
  "zero_pcb = \<lparr>file_array = replicate 8 closed_node, file_names = replicate 256 0, open_file_num = 0,
     arg_buffer = replicate 100 0, process_id = 0, parent_process_id = 0, parent_esp = 0, parent_ebp = 0,
     running_state = 0, pcb_esp = 0, pcb_ebp = 0, parent_pcb = 0\<rparr>"

definition local_dentry :: dentry where
  "local_dentry = \<lparr>file_name = replicate 32 0xCC, file_type = 0xCCCCCCCC, inode_index = 0xCCCCCCCC,
     reserved = replicate 16 0xCC\<rparr>"

definition pcb_addr :: "nat \<Rightarrow> u32" where
  "pcb_addr i = EIGHTMB - EIGHTKB * (of_nat i + 1)"

definition pcb_index :: "u32 \<Rightarrow> nat option" where
  "pcb_index a = find (\<lambda>i. pcb_addr i = a) [0..<MAXNUMTASK]"

text \<open>The frame with the kernel's own data: physical addresses from 4 MB up to 8 MB. Stores through a pointer
  of a program are only followed when they miss it.\<close>

definition kernel_frame :: "u32 \<Rightarrow> bool" where
  "kernel_frame pa \<longleftrightarrow> drop_bit 22 pa = 1"

definition spares_kernel :: "'a vm_scheme \<Rightarrow> u32 \<Rightarrow> nat \<Rightarrow> bool" where
  "spares_kernel s va n \<longleftrightarrow>
     (\<forall>i \<in> set [0..<n]. case translate (mmu s) False (va + of_nat i) of None \<Rightarrow> True | Some pa \<Rightarrow> \<not> kernel_frame pa)"

definition uwrite :: "u32 \<Rightarrow> u8 list \<Rightarrow> 'a vm_scheme \<Rightarrow> 'a vm_scheme option" where
  "uwrite va xs s = (if spares_kernel s va (length xs) then vwrite va xs s else None)"

definition curr_pcb :: "'a kernel_scheme \<Rightarrow> pcb option" where
  "curr_pcb s = (if unat (curr_task_pos s) < length (pcbs s) then Some (pcbs s ! unat (curr_task_pos s)) else None)"

definition set_curr_pcb :: "pcb \<Rightarrow> 'a kernel_scheme \<Rightarrow> 'a kernel_scheme" where
  "set_curr_pcb p s = s\<lparr>pcbs := (pcbs s)[unat (curr_task_pos s) := p]\<rparr>"

text \<open>\<open>strcpy\<close> into \<open>file_names[fd]\<close>: a longer name runs on into the names that follow.\<close>

definition copy_name :: "nat \<Rightarrow> byte_view \<Rightarrow> pcb \<Rightarrow> pcb option" where
  "copy_name fd src p =
     map_option (\<lambda>b. p\<lparr>file_names := take (32 * fd) (file_names p) @ b\<rparr>)
       (strcpy store (drop (32 * fd) (file_names p)) src)"

definition name_view :: "pcb \<Rightarrow> nat \<Rightarrow> byte_view" where
  "name_view p fd = list_view (drop (32 * fd) (file_names p))"

definition c_string :: "string \<Rightarrow> u8 list" where
  "c_string s = map (\<lambda>c. of_nat (of_char c)) s @ [0]"

section \<open>Commands\<close>

fun first_word :: "u8 list \<Rightarrow> nat \<Rightarrow> bool \<Rightarrow> u8 list \<Rightarrow> nat \<Rightarrow> (nat \<times> u8 list) option" where
  "first_word [] i space_indicator first_cmd index = Some (i, first_cmd)"
| "first_word (c # cs) i space_indicator first_cmd index =
     (if c = 0x20 \<and> \<not> space_indicator then first_word cs (i + 1) space_indicator first_cmd index
      else if c \<noteq> 0x20 then do {
        first_cmd \<leftarrow> store first_cmd index c;
        first_word cs (i + 1) True first_cmd (index + 1)
      } else map_option (Pair i) (store first_cmd index 0))"

fun rest_words :: "u8 list \<Rightarrow> bool \<Rightarrow> u8 list \<Rightarrow> nat \<Rightarrow> u8 list option" where
  "rest_words [] space_indicator getargbuf index = Some getargbuf"
| "rest_words (c # cs) space_indicator getargbuf index =
     (if c = 0x20 \<and> \<not> space_indicator then rest_words cs space_indicator getargbuf index
      else do {
        getargbuf \<leftarrow> store getargbuf index c;
        rest_words cs True getargbuf (index + 1)
      })"

definition parse_command :: "byte_view \<Rightarrow> (u8 list \<times> u8 list) option" where
  "parse_command command = do {
     arg_line \<leftarrow> strcpy store (replicate 128 0) command;
     len \<leftarrow> strlen command;
     (i, first_cmd) \<leftarrow> first_word (take len arg_line) 0 False (replicate 20 0) 0;
     getargbuf \<leftarrow> rest_words (drop i (take len arg_line)) False (replicate 30 0) 0;
     Some (first_cmd, getargbuf)
   }"

text \<open>The local buffer of 30 bytes after a read: only the bytes read are in it, the rest is not initialised.
  The check of the magic bytes ends at the first mismatch; a comparison with a byte that was not read, and an
  entry point with such a byte, have no defined value. The buffer's address only matters for not being null.\<close>

abbreviation (input) local_buffer :: u32 where "local_buffer \<equiv> 0x7FF000"

definition entry_point :: "u8 list \<Rightarrow> u32" where
  "entry_point buffer =
     push_bit 24 (ucast (buffer ! 27)) OR push_bit 16 (ucast (buffer ! 26)) OR
     push_bit 8 (ucast (buffer ! 25)) OR ucast (buffer ! 24)"

definition header_entry :: "u8 list \<Rightarrow> u32 option" where
  "header_entry buffer = (if 28 \<le> length buffer then Some (entry_point buffer) else None)"

fun check_magic :: "u8 list \<Rightarrow> u8 list \<Rightarrow> bool option" where
  "check_magic [] buffer = Some True"
| "check_magic (c # cs) [] = None"
| "check_magic (c # cs) (x # xs) = (if c \<noteq> x then Some False else check_magic cs xs)"

definition executable :: "u8 list \<Rightarrow> bool option" where
  "executable buffer = check_magic [0x7F, 0x45, 0x4C, 0x46] buffer"

section \<open>execute\<close>

definition find_slot :: "u8 list \<Rightarrow> nat option" where
  "find_slot bitmap = find (\<lambda>i. bitmap ! i = 0) [0..<MAXNUMTASK]"

definition claim_slot :: "'a kernel_scheme \<Rightarrow> 'a kernel_scheme" where
  "claim_slot s =
     (case find_slot (task_bitmap s) of
        Some i \<Rightarrow> s\<lparr>task_bitmap := (task_bitmap s)[i := 1], curr_task_pos := of_nat i\<rparr>
      | None \<Rightarrow> s)"

definition map_task :: "'a kernel_scheme \<Rightarrow> 'a kernel_scheme" where
  "map_task s = s\<lparr>mmu := enable_paging (set_task_page (curr_task_pos s) (mmu s))\<rparr>"

definition kernel_stack :: "u8 \<Rightarrow> u32" where
  "kernel_stack pos = EIGHTMB - EIGHTKB * ucast pos - 4"

text \<open>The block of a new process: identity and parent, then the open files.\<close>

definition new_process :: "u32 \<Rightarrow> u32 \<Rightarrow> 'a kernel_scheme \<Rightarrow> pcb \<Rightarrow> pcb option" where
  "new_process esp ebp s p = do {
     let p = p\<lparr>process_id := uint (curr_task_pos s), parent_esp := esp, parent_ebp := ebp\<rparr>;
     p \<leftarrow> (if process_id p = 0 \<and> runn_task_num s = 0
           then Some (p\<lparr>parent_process_id := -1, parent_pcb := 0\<rparr>)
           else do {
             i \<leftarrow> pcb_index (esp AND PROCESSMASK);
             let transition = (pcbs s)[unat (curr_task_pos s) := p] ! i;
             Some (p\<lparr>parent_process_id := process_id transition, parent_pcb := esp AND PROCESSMASK\<rparr>)
           });
     let top = pcb_addr (unat (curr_task_pos s)) + EIGHTKB - 4;
     Some (p\<lparr>running_state := 1, pcb_ebp := top, pcb_esp := top\<rparr>)
   }"

definition open_std :: "nat \<Rightarrow> fop_table \<Rightarrow> string \<Rightarrow> pcb \<Rightarrow> pcb option" where
  "open_std fd t name p = do {
     p \<leftarrow> copy_name fd (list_view (c_string name))
           (p\<lparr>file_array := (file_array p)[fd := \<lparr>fop = Some t, inode = Null_inode, file_pos = 0, flags = 1\<rparr>]\<rparr>);
     Some (p\<lparr>open_file_num := open_file_num p + 1\<rparr>)
   }"

definition new_files :: "u8 list \<Rightarrow> pcb \<Rightarrow> pcb option" where
  "new_files getargbuf p = do {
     let p = p\<lparr>open_file_num := 0, file_array := for_to MAXOPENFILE (\<lambda>i a. a[i := closed_node]) (file_array p)\<rparr>;
     args \<leftarrow> strcpy store (replicate 100 0) (list_view getargbuf);
     let p = p\<lparr>arg_buffer := args\<rparr>;
     p \<leftarrow> open_std 0 Stdin_ops ''stdin'' p;
     open_std 1 Stdout_ops ''stdout'' p
   }"

definition execute :: "u32 \<Rightarrow> u32 \<Rightarrow> u32 \<Rightarrow> 'a kernel_scheme \<Rightarrow> (transfer \<times> 'a kernel_scheme) option" where
  "execute esp ebp command s =
     (let s = con_io cli s
      in if command = 0 \<or> runn_task_num s \<ge> of_nat MAXNUMTASK then Some (Return ERR, s)
      else do {
        (first_cmd, getargbuf) \<leftarrow> parse_command (vview s command);
        (ret, d, fs') \<leftarrow> read_dentry_by_name (ram s) (list_view first_cmd) (Some local_dentry) (fs s);
        let s = s\<lparr>fs := fs'\<rparr>;
        if ret = ERR then Some (Return ERR, s)
        else do {
          dentry \<leftarrow> d;
          let (retval, buffer) = read_data (ram s) (fs s) (inode_index dentry) 0 local_buffer 30;
          if retval = ERR \<or> retval = 0 then Some (Return ERR, s)
          else do {
            let size = get_dentry_size (ram s) (fs s) dentry;
            elf \<leftarrow> executable buffer;
            if \<not> elf then Some (Return ERR, s)
            else if find_slot (task_bitmap s) = None \<and> runn_task_num s = of_nat MAXNUMTASK then Some (Return ERR, s)
            else do {
              let s = map_task (claim_slot s);
              addr \<leftarrow> header_entry buffer;
              let (retval, bytes) = read_data (ram s) (fs s) (inode_index dentry) 0 LOADADDR size;
              s \<leftarrow> vwrite LOADADDR bytes s;
              if retval \<noteq> size then Some (Return ERR, s)
              else do {
                p \<leftarrow> curr_pcb s;
                p \<leftarrow> new_process esp ebp s p;
                p \<leftarrow> new_files getargbuf p;
                let s = set_curr_pcb p s;
                Some (User_mode addr USER_ESP,
                  s\<lparr>tss_ss0 := KERNEL_DS, tss_esp0 := kernel_stack (curr_task_pos s),
                    runn_task_num := runn_task_num s + 1\<rparr>)
              }
            }
          }
        }
      })"

section \<open>halt\<close>

text \<open>The block of the halted process is zeroed as a whole, which covers the closing of its files.\<close>

text \<open>The only shell, or a process without a parent, is started again at its entry point.\<close>

definition restart_shell :: "'a kernel_scheme \<Rightarrow> (transfer \<times> 'a kernel_scheme) option" where
  "restart_shell s = do {
     (ret, d, fs') \<leftarrow> read_dentry_by_name (ram s) (list_view (c_string ''shell'')) (Some local_dentry) (fs s);
     let s = s\<lparr>fs := fs'\<rparr>;
     if ret = ERR then Some (Return ERR, s)
     else do {
       dentry \<leftarrow> d;
       let (_, buffer) = read_data (ram s) (fs s) (inode_index dentry) 0 local_buffer 30;
       addr \<leftarrow> header_entry buffer;
       Some (User_mode addr USER_ESP, s)
     }
   }"

definition expand_status :: "u8 \<Rightarrow> u32" where
  "expand_status status = (let e = ucast status AND 0xFF in if e = 255 then e + 1 else e)"

definition halt :: "u8 \<Rightarrow> 'a kernel_scheme \<Rightarrow> (transfer \<times> 'a kernel_scheme) option" where
  "halt status s = do {
     let s = con_io cli s;
     p \<leftarrow> curr_pcb s;
     if curr_task_pos s = 0 \<or> runn_task_num s = 1 \<or> parent_process_id p = -1 \<or> process_id p = 0
     then restart_shell s
     else do {
       let pos = unat (curr_task_pos s);
       bitmap \<leftarrow> store (task_bitmap s) pos 0;
       let s = s\<lparr>task_bitmap := bitmap, curr_task_pos := of_int (parent_process_id p),
                 runn_task_num := runn_task_num s - 1\<rparr>;
       let s = map_task s;
       let s = s\<lparr>tss_esp0 := kernel_stack (curr_task_pos s)\<rparr>;
       Some (Resume (parent_esp p) (parent_ebp p) (expand_status status), s\<lparr>pcbs := (pcbs s)[pos := zero_pcb]\<rparr>)
     }
   }"

section \<open>Files\<close>

definition rtc_read_call ::
    "('a kernel_scheme \<Rightarrow> 'a kernel_scheme) list \<Rightarrow> 'a kernel_scheme \<Rightarrow> (u32 \<times> 'a kernel_scheme) option" where
  "rtc_read_call hs s = do {
     s \<leftarrow> spin_until (\<lambda>s. rtc_interrupt_occured (hw s) \<noteq> 0) hs (s\<lparr>hw := (hw s)\<lparr>rtc_interrupt_occured := 0\<rparr>\<rparr>);
     Some (0, s)
   }"

definition vmem :: "'a vm_scheme \<Rightarrow> memory" where
  "vmem s = (\<lambda>a. case vload s a of Some x \<Rightarrow> x | None \<Rightarrow> 0)"

definition rtc_write_call :: "u32 \<Rightarrow> 'a kernel_scheme \<Rightarrow> (u32 \<times> 'a kernel_scheme) option" where
  "rtc_write_call buf s =
     (if \<forall>i \<in> set [0..<4]. vload s (buf + of_nat i) \<noteq> None then do {
        (r, h) \<leftarrow> rtc_write (vmem s) buf (hw s);
        Some (r, s\<lparr>hw := h\<rparr>)
      } else None)"

definition filesys_read :: "nat \<Rightarrow> u32 \<Rightarrow> u32 \<Rightarrow> 'a kernel_scheme \<Rightarrow> (u32 \<times> 'a kernel_scheme) option" where
  "filesys_read fd buf nbytes s = do {
     p \<leftarrow> curr_pcb s;
     (n, bytes, fs') \<leftarrow> filesys_read_helper (ram s) (Some (name_view p fd)) (file_pos (file_array p ! fd))
                          buf nbytes local_dentry (fs s);
     s \<leftarrow> uwrite buf bytes (s\<lparr>fs := fs'\<rparr>);
     let f = file_array p ! fd;
     Some (n, set_curr_pcb (p\<lparr>file_array := (file_array p)[fd := f\<lparr>file_pos := file_pos f + n\<rparr>]\<rparr>) s)
   }"

definition fs_dir_read :: "nat \<Rightarrow> u32 \<Rightarrow> u32 \<Rightarrow> 'a kernel_scheme \<Rightarrow> (u32 \<times> 'a kernel_scheme) option" where
  "fs_dir_read fd buf nbytes s = do {
     p \<leftarrow> curr_pcb s;
     (n, bytes, fs') \<leftarrow> fs_dir_ls_read_helper (ram s) (name_view p fd) local_dentry (fs s);
     s \<leftarrow> uwrite buf bytes (s\<lparr>fs := fs'\<rparr>);
     Some (n, s)
   }"

definition open_node :: "u32 \<Rightarrow> pcb \<Rightarrow> file_node option" where
  "open_node fd p =
     (if sint fd < 0 \<or> sint fd > 7 then None
      else let f = file_array p ! unat fd in if flags f = 0 \<or> fop f = None then None else Some f)"

text \<open>A terminal read that returns a line has stored at most 128 bytes, the size of the request, and a
  terminator behind the byte after them.\<close>

definition terminal_read_call ::
    "('a kernel_scheme \<Rightarrow> 'a kernel_scheme) list \<Rightarrow> u32 \<Rightarrow> u32 \<Rightarrow> u32 \<Rightarrow> 'a kernel_scheme \<Rightarrow>
       (u32 \<times> 'a kernel_scheme) option" where
  "terminal_read_call hs fd buf nbytes s = do {
     (r, s) \<leftarrow> terminal_read hs fd buf nbytes s;
     if r = ERR \<or> spares_kernel s buf (min (nat (sint nbytes)) 128 + 2) then Some (r, s) else None
   }"

definition read_call ::
    "('a kernel_scheme \<Rightarrow> 'a kernel_scheme) list \<Rightarrow> u32 \<Rightarrow> u32 \<Rightarrow> u32 \<Rightarrow> 'a kernel_scheme \<Rightarrow>
       (u32 \<times> 'a kernel_scheme) option" where
  "read_call hs fd buf nbytes s = do {
     p \<leftarrow> curr_pcb s;
     case open_node fd p of
       None \<Rightarrow> Some (ERR, s)
     | Some f \<Rightarrow>
         (case fop f of
            Some Stdin_ops \<Rightarrow> terminal_read_call hs fd buf nbytes s
          | Some Rtc_ops \<Rightarrow> rtc_read_call hs s
          | Some Dir_ops \<Rightarrow> fs_dir_read (unat fd) buf nbytes s
          | Some File_ops \<Rightarrow> filesys_read (unat fd) buf nbytes s
          | _ \<Rightarrow> Some (ERR, s))
   }"

definition write_call :: "u32 \<Rightarrow> u32 \<Rightarrow> u32 \<Rightarrow> 'a kernel_scheme \<Rightarrow> (u32 \<times> 'a kernel_scheme) option" where
  "write_call fd buf nbytes s = do {
     p \<leftarrow> curr_pcb s;
     case open_node fd p of
       None \<Rightarrow> Some (ERR, s)
     | Some f \<Rightarrow>
         (case fop f of
            Some Stdout_ops \<Rightarrow> terminal_write fd buf nbytes s
          | Some Rtc_ops \<Rightarrow> rtc_write_call buf s
          | Some Dir_ops \<Rightarrow> Some (fs_dir_write fd buf nbytes, s)
          | Some File_ops \<Rightarrow> Some (filesys_write fd buf nbytes, s)
          | _ \<Rightarrow> Some (ERR, s))
   }"

text \<open>The dispatch leaves out the null entries of a table: \<open>stdin\<close> cannot be written, \<open>stdout\<close> cannot be
  read.

  The search for a free descriptor gives up at the first one in use when the last one is; a search that
  ends without a result leaves the descriptor uninitialised.\<close>

datatype fd_search = Free nat | Full | Unset

fun find_fd :: "file_node list \<Rightarrow> nat list \<Rightarrow> fd_search" where
  "find_fd a [] = Unset"
| "find_fd a (i # is) =
     (if flags (a ! i) = 0 then Free i else if flags (a ! 7) = 1 then Full else find_fd a is)"

fun ops_of_type :: "u32 \<Rightarrow> fop_table option" where
  "ops_of_type t = (if t = 0 then Some Rtc_ops else if t = 1 then Some Dir_ops else if t = 2 then Some File_ops else None)"

text \<open>The descriptor for a directory entry that was found.\<close>

definition open_entry :: "dentry \<Rightarrow> byte_view \<Rightarrow> pcb \<Rightarrow> 'a kernel_scheme \<Rightarrow> (u32 \<times> 'a kernel_scheme) option" where
  "open_entry dentry name p s =
     (case find_fd (file_array p) [2..<MAXOPENFILE] of
        Full \<Rightarrow> Some (ERR, s)
      | found \<Rightarrow>
          (case ops_of_type (file_type dentry) of
             None \<Rightarrow> Some (ERR, s)
           | Some ops \<Rightarrow>
               (case found of
                  Free fd \<Rightarrow> do {
                    let node = \<lparr>fop = Some ops, inode = Stack_inode, file_pos = 0, flags = 1\<rparr>;
                    p \<leftarrow> copy_name fd name (p\<lparr>file_array := (file_array p)[fd := node]\<rparr>);
                    Some (of_nat fd, set_curr_pcb (p\<lparr>open_file_num := open_file_num p + 1\<rparr>) s)
                  }
                | _ \<Rightarrow> None)))"

definition open_call :: "u32 \<Rightarrow> 'a kernel_scheme \<Rightarrow> (u32 \<times> 'a kernel_scheme) option" where
  "open_call filename s = do {
     let s = con_io cli s;
     p \<leftarrow> curr_pcb s;
     let name = vview s filename;
     r \<leftarrow> strncmp name (list_view (c_string ''stdin'')) 5;
     if r = 0 then Some (0, s)
     else do {
       r \<leftarrow> strncmp name (list_view (c_string ''stdout'')) 6;
       if r = 0 then Some (0, s)
       else do {
         (ret, d, fs') \<leftarrow> read_dentry_by_name (ram s) name (Some local_dentry) (fs s);
         let s = s\<lparr>fs := fs'\<rparr>;
         if ret = ERR \<or> open_file_num p = 8 then Some (ERR, s)
         else Option.bind d (\<lambda>dentry. open_entry dentry name p s)
       }
     }
   }"

text \<open>The close operations of the tables do nothing to the state and their result is not used; calling
  through the null entry of a terminal table or through a null table is undefined.\<close>

definition close_call :: "u32 \<Rightarrow> 'a kernel_scheme \<Rightarrow> (u32 \<times> 'a kernel_scheme) option" where
  "close_call fd s = do {
     let s = con_io cli s;
     p \<leftarrow> curr_pcb s;
     if sint fd < 2 \<or> sint fd > 7 \<or> open_file_num p \<le> 2 then Some (ERR, s)
     else (case fop (file_array p ! unat fd) of
             None \<Rightarrow> None
           | Some Stdin_ops \<Rightarrow> None
           | Some Stdout_ops \<Rightarrow> None
           | Some _ \<Rightarrow>
               Some (0, set_curr_pcb (p\<lparr>file_array := (file_array p)[unat fd := closed_node],
                                        open_file_num := open_file_num p - 1\<rparr>) s))
   }"

section \<open>The other calls\<close>

definition getargs :: "u32 \<Rightarrow> u32 \<Rightarrow> 'a kernel_scheme \<Rightarrow> (u32 \<times> 'a kernel_scheme) option" where
  "getargs buf nbytes s = do {
     let s = con_io cli s;
     p \<leftarrow> curr_pcb s;
     if buf = 0 \<or> nbytes = 0 then Some (ERR, s)
     else do {
       len \<leftarrow> strlen (list_view (arg_buffer p));
       if of_nat len > nbytes \<or> len = 0 then Some (ERR, s)
       else if \<not> spares_kernel s buf (len + 1) then None
       else do {
         s \<leftarrow> strcpy (\<lambda>s i x. vstore (buf + of_nat i) x s) s (list_view (arg_buffer p));
         Some (0, s)
       }
     }
   }"

definition vidmap :: "u32 \<Rightarrow> 'a kernel_scheme \<Rightarrow> (u32 \<times> 'a kernel_scheme) option" where
  "vidmap screen_start s =
     (if screen_start = 0 \<or> screen_start \<ge> 0x08400000 \<or> screen_start < 0x08000000 then Some (ERR, s)
      else do {
        let s = s\<lparr>mmu := enable_paging (set_video_page VIDEO (mmu s))\<rparr>;
        s \<leftarrow> uwrite screen_start (bytes32 0x08800000) s;
        Some (0x08800000, s)
      })"

definition set_handler :: "u32 \<Rightarrow> u32 \<Rightarrow> 'a kernel_scheme \<Rightarrow> u32 \<times> 'a kernel_scheme" where
  "set_handler signum handler_address s = (ERR, s)"

definition sigreturn :: "'a kernel_scheme \<Rightarrow> u32 \<times> 'a kernel_scheme" where
  "sigreturn s = (ERR, s)"

definition pcb_init :: "'a kernel_scheme \<Rightarrow> 'a kernel_scheme" where
  "pcb_init s = s\<lparr>pcbs := for_to MAXNUMTASK (\<lambda>i ps. ps[i := zero_pcb]) (pcbs s)\<rparr>"

definition text_of :: "string \<Rightarrow> u8 list" where
  "text_of s = map (\<lambda>c. of_nat (of_char c)) s"

definition process_dump :: "pcb \<Rightarrow> u32 \<Rightarrow> 'a kernel_scheme \<Rightarrow> 'a kernel_scheme option" where
  "process_dump p addr s = do {
     (_, s) \<leftarrow> printf (text_of ''process esp is %#x\<newline>'') [Num (parent_esp p)] s;
     (_, s) \<leftarrow> printf (text_of ''process id is %d\<newline>'') [Num (of_int (process_id p))] s;
     (_, s) \<leftarrow> printf (text_of ''parent id is %d\<newline>'') [Num (of_int (parent_process_id p))] s;
     (_, s) \<leftarrow> printf (text_of ''process ebp is %#x\<newline>'') [Num (parent_ebp p)] s;
     (_, s) \<leftarrow> printf (text_of ''loading instruction is at %#x\<newline>'') [Num addr] s;
     Some s
   }"

end
