(* ===== verification/Process_Tasks.thy ===== *)
theory Process_Tasks
  imports Process
begin

text \<open>
  Properties of \<open>execute\<close> and \<open>halt\<close>: the parsing of a command, the bookkeeping of tasks, and the round
  trip from a parent into a child and back.
\<close>

section \<open>Frames\<close>

lemma con_io_kernel [simp]:
  "fs (con_io f s) = fs s" "runn_task_num (con_io f s) = runn_task_num s"
  "curr_task_pos (con_io f s) = curr_task_pos s" "task_bitmap (con_io f s) = task_bitmap s"
  "pcbs (con_io f s) = pcbs s" "tss_esp0 (con_io f s) = tss_esp0 s"
  by (simp_all add: con_io_def)

lemma con_io_mmu [simp]: "mmu (con_io f s) = mmu s"
  by (simp add: con_io_def)

lemma vwrite_ram:
  assumes "vwrite va xs s = Some s'"
  shows "s' = s\<lparr>ram := ram s'\<rparr>"
proof -
  have "\<exists>r. s' = s\<lparr>ram := r\<rparr>"
    using assms
  proof (induction xs arbitrary: va s)
    case Nil
    then show ?case by (intro exI [of _ "ram s"]) simp
  next
    case (Cons x xs)
    then obtain t where t: "vstore va x s = Some t" "vwrite (va + 1) xs t = Some s'" by (auto split: bind_splits)
    from Cons.IH [OF t(2)] obtain r where "s' = t\<lparr>ram := r\<rparr>" by blast
    moreover obtain r' where "t = s\<lparr>ram := r'\<rparr>" using t(1) by (auto simp: vstore_def)
    ultimately show ?case by auto
  qed
  then show ?thesis by auto
qed

lemma vwrite_kernel:
  assumes "vwrite va xs s = Some s'"
  shows "fs s' = fs s" "runn_task_num s' = runn_task_num s" "curr_task_pos s' = curr_task_pos s"
    "task_bitmap s' = task_bitmap s" "pcbs s' = pcbs s" "mmu s' = mmu s" "hw s' = hw s" "tss_esp0 s' = tss_esp0 s"
proof -
  obtain r where s': "s' = s\<lparr>ram := r\<rparr>" using vwrite_ram [OF assms] by blast
  show "fs s' = fs s" "runn_task_num s' = runn_task_num s" "curr_task_pos s' = curr_task_pos s"
    "task_bitmap s' = task_bitmap s" "pcbs s' = pcbs s" "mmu s' = mmu s" "hw s' = hw s" "tss_esp0 s' = tss_esp0 s"
    unfolding s' by simp_all
qed

lemma claim_slot_frame [simp]:
  "fs (claim_slot s) = fs s" "runn_task_num (claim_slot s) = runn_task_num s" "pcbs (claim_slot s) = pcbs s"
  "mmu (claim_slot s) = mmu s" "ram (claim_slot s) = ram s" "tss_esp0 (claim_slot s) = tss_esp0 s"
  by (simp_all add: claim_slot_def split: option.split)

lemma map_task_frame [simp]:
  "fs (map_task s) = fs s" "runn_task_num (map_task s) = runn_task_num s" "pcbs (map_task s) = pcbs s"
  "curr_task_pos (map_task s) = curr_task_pos s" "task_bitmap (map_task s) = task_bitmap s" "ram (map_task s) = ram s"
  "mmu (map_task s) = enable_paging (set_task_page (curr_task_pos s) (mmu s))"
  by (simp_all add: map_task_def)

lemma set_curr_pcb_frame [simp]:
  "curr_task_pos (set_curr_pcb p s) = curr_task_pos s" "runn_task_num (set_curr_pcb p s) = runn_task_num s"
  "task_bitmap (set_curr_pcb p s) = task_bitmap s" "ram (set_curr_pcb p s) = ram s" "fs (set_curr_pcb p s) = fs s"
  "mmu (set_curr_pcb p s) = mmu s"
  by (simp_all add: set_curr_pcb_def)

section \<open>A successful execute\<close>

text \<open>Everything a successful call has gone through.\<close>

lemma execute_success:
  assumes "execute esp ebp command s = Some (User_mode addr usp, s')"
  shows "\<exists>first args ret d fs' r bytes bytes' t p p' p''.
    command \<noteq> 0 \<and> runn_task_num s < 6 \<and>
    parse_command (vview (con_io cli s) command) = Some (first, args) \<and>
    read_dentry_by_name (ram s) (list_view first) (Some local_dentry) (fs s) = Some (ret, Some d, fs') \<and> ret \<noteq> ERR \<and>
    read_data (ram s) fs' (inode_index d) 0 local_buffer 30 = (r, bytes) \<and> executable bytes = Some True \<and>
    read_data (ram s) fs' (inode_index d) 0 LOADADDR (get_dentry_size (ram s) fs' d) = (get_dentry_size (ram s) fs' d, bytes') \<and>
    vwrite LOADADDR bytes' (map_task (claim_slot ((con_io cli s)\<lparr>fs := fs'\<rparr>))) = Some t \<and>
    curr_pcb t = Some p \<and> new_process esp ebp t p = Some p' \<and> new_files args p' = Some p'' \<and>
    header_entry bytes = Some addr \<and> usp = USER_ESP \<and>
    s' = (set_curr_pcb p'' t)\<lparr>tss_ss0 := KERNEL_DS, tss_esp0 := kernel_stack (curr_task_pos t),
      runn_task_num := runn_task_num t + 1\<rparr>"
  using assms
  by (auto simp: execute_def Let_def set_curr_pcb_def not_le split: if_splits prod.splits option.splits bind_splits)

lemma claim_slot_cong:
  assumes "task_bitmap t = task_bitmap s" "curr_task_pos t = curr_task_pos s"
  shows "task_bitmap (claim_slot t) = task_bitmap (claim_slot s)" "curr_task_pos (claim_slot t) = curr_task_pos (claim_slot s)"
  using assms by (simp_all add: claim_slot_def split: option.split)

lemma execute_bookkeeping:
  fixes s :: "'a kernel_scheme"
  assumes "execute esp ebp command s = Some (User_mode addr usp, s')"
  shows "\<exists>(t :: 'a kernel_scheme) p p' p'' args. runn_task_num s < 6 \<and>
    curr_task_pos t = curr_task_pos s' \<and> runn_task_num t = runn_task_num s \<and> pcbs t = pcbs s \<and>
    curr_pcb t = Some p \<and> new_process esp ebp t p = Some p' \<and> new_files args p' = Some p'' \<and>
    task_bitmap s' = task_bitmap (claim_slot s) \<and> curr_task_pos s' = curr_task_pos (claim_slot s) \<and>
    runn_task_num s' = runn_task_num s + 1 \<and>
    mmu s' = enable_paging (set_task_page (curr_task_pos s') (mmu s)) \<and>
    pcbs s' = (pcbs s)[unat (curr_task_pos s') := p''] \<and> tss_esp0 s' = kernel_stack (curr_task_pos s')"
proof -
  from execute_success [OF assms] obtain args fs' bytes' t p p' p'' where
    *: "runn_task_num s < 6"
       "vwrite LOADADDR bytes' (map_task (claim_slot ((con_io cli s)\<lparr>fs := fs'\<rparr>))) = Some t"
       "curr_pcb t = Some p" "new_process esp ebp t p = Some p'" "new_files args p' = Some p''"
       "s' = (set_curr_pcb p'' t)\<lparr>tss_ss0 := KERNEL_DS, tss_esp0 := kernel_stack (curr_task_pos t),
          runn_task_num := runn_task_num t + 1\<rparr>" by blast
  note v = vwrite_kernel [OF *(2)]
  have c: "task_bitmap (claim_slot ((con_io cli s)\<lparr>fs := fs'\<rparr>)) = task_bitmap (claim_slot s)"
    "curr_task_pos (claim_slot ((con_io cli s)\<lparr>fs := fs'\<rparr>)) = curr_task_pos (claim_slot s)"
    by (rule claim_slot_cong; simp)+
  show ?thesis
    by (intro exI [of _ t] exI [of _ p] exI [of _ p'] exI [of _ p''] exI [of _ args])
      (use * v c in \<open>simp add: set_curr_pcb_def\<close>)
qed

section \<open>The new process\<close>

text \<open>The part of a block that says where \<open>halt\<close> goes back to.\<close>

definition ancestry :: "pcb \<Rightarrow> int \<times> int \<times> u32 \<times> u32" where
  "ancestry p = (process_id p, parent_process_id p, parent_esp p, parent_ebp p)"

lemma copy_name_frame:
  "copy_name fd v p = Some p' \<Longrightarrow> ancestry p' = ancestry p \<and> file_array p' = file_array p \<and>
     open_file_num p' = open_file_num p \<and> arg_buffer p' = arg_buffer p"
  by (auto simp: copy_name_def ancestry_def)

lemma open_std_frame:
  "open_std fd t n p = Some p' \<Longrightarrow> ancestry p' = ancestry p \<and> arg_buffer p' = arg_buffer p \<and>
     open_file_num p' = open_file_num p + 1 \<and>
     file_array p' = (file_array p)[fd := \<lparr>fop = Some t, inode = Null_inode, file_pos = 0, flags = 1\<rparr>]"
  by (auto simp: open_std_def ancestry_def split: bind_splits dest!: copy_name_frame)

lemma new_files_ancestry: "new_files args p = Some p' \<Longrightarrow> ancestry p' = ancestry p"
  by (auto simp: new_files_def Let_def split: bind_splits dest!: open_std_frame) (simp add: ancestry_def)

lemma new_process_fields:
  assumes "new_process esp ebp s p = Some p'" "runn_task_num s \<noteq> 0"
    "pcb_index (esp AND PROCESSMASK) = Some i" "i \<noteq> unat (curr_task_pos s)"
  shows "ancestry p' = (uint (curr_task_pos s), process_id (pcbs s ! i), esp, ebp)"
  using assms by (auto simp: new_process_def ancestry_def Let_def split: bind_splits if_splits)

section \<open>Bookkeeping of tasks\<close>

definition used_slots :: "u8 list \<Rightarrow> nat" where
  "used_slots b = length (filter (\<lambda>x. x \<noteq> 0) b)"

definition tasks_ok :: "'a kernel_scheme \<Rightarrow> bool" where
  "tasks_ok s \<longleftrightarrow> length (task_bitmap s) = 6 \<and> length (pcbs s) = 6 \<and> set (task_bitmap s) \<subseteq> {0, 1} \<and>
     unat (runn_task_num s) = used_slots (task_bitmap s) \<and> unat (curr_task_pos s) < 6"

lemma used_slots_update:
  assumes "i < length b"
  shows "used_slots (b[i := x]) + (if b ! i \<noteq> 0 then 1 else 0) = used_slots b + (if x \<noteq> 0 then 1 else 0)"
proof -
  have "used_slots b = used_slots (take i b @ b ! i # drop (Suc i) b)"
    using id_take_nth_drop [OF assms] by simp
  then have "used_slots b = used_slots (take i b) + (if b ! i \<noteq> 0 then 1 else 0) + used_slots (drop (Suc i) b)"
    by (simp add: used_slots_def)
  moreover have "used_slots (b[i := x]) = used_slots (take i b) + (if x \<noteq> 0 then 1 else 0) + used_slots (drop (Suc i) b)"
    using assms by (simp add: upd_conv_take_nth_drop used_slots_def)
  ultimately show ?thesis by simp
qed

lemma find_slot_free:
  assumes "length b = 6" "used_slots b < 6"
  shows "\<exists>i<6. find_slot b = Some i \<and> b ! i = 0 \<and> (\<forall>j<i. b ! j \<noteq> 0)"
proof -
  have "\<exists>i<6. b ! i = 0"
  proof (rule ccontr)
    assume "\<not> (\<exists>i<6. b ! i = 0)"
    then have "filter (\<lambda>x. x \<noteq> 0) b = b" using assms(1) by (auto simp: filter_id_conv in_set_conv_nth)
    then show False using assms by (simp add: used_slots_def)
  qed
  then have "find_slot b \<noteq> None" by (auto simp: find_slot_def find_None_iff)
  then obtain i where i: "find_slot b = Some i" by blast
  then have "i < 6" "b ! i = 0" "\<forall>j<i. b ! j \<noteq> 0" by (auto simp: find_slot_def find_Some_iff)
  with i show ?thesis by blast
qed

lemma u8_position: "n < 256 \<Longrightarrow> unat (of_nat n :: u8) = n"
  by (simp add: unat_of_nat take_bit_eq_mod)

lemma tasks_ok_claim:
  assumes "tasks_ok s" "runn_task_num s < 6"
  obtains i where "i < 6" "task_bitmap s ! i = 0" "curr_task_pos (claim_slot s) = of_nat i"
    "task_bitmap (claim_slot s) = (task_bitmap s)[i := 1]" "\<forall>j<i. task_bitmap s ! j \<noteq> 0"
proof -
  have "length (task_bitmap s) = 6" "used_slots (task_bitmap s) < 6"
    using assms by (simp_all add: tasks_ok_def word_less_nat_alt)
  from find_slot_free [OF this] that show ?thesis by (auto simp: claim_slot_def)
qed

lemma execute_tasks_ok:
  assumes "tasks_ok s" "execute esp ebp command s = Some (User_mode addr usp, s')"
  shows "tasks_ok s'"
proof -
  from execute_bookkeeping [OF assms(2)] obtain p where
    e: "runn_task_num s < 6" "task_bitmap s' = task_bitmap (claim_slot s)" "curr_task_pos s' = curr_task_pos (claim_slot s)"
      "runn_task_num s' = runn_task_num s + 1" "pcbs s' = (pcbs s)[unat (curr_task_pos s') := p]" by blast
  obtain i where i: "i < 6" "task_bitmap s ! i = 0" "curr_task_pos s' = of_nat i" "task_bitmap s' = (task_bitmap s)[i := 1]"
    using tasks_ok_claim [OF assms(1) e(1)] e(2,3) by metis
  have "unat (runn_task_num s + 1) = unat (runn_task_num s) + 1"
    using e(1) by (simp add: unat_word_ariths word_less_nat_alt)
  moreover have "used_slots (task_bitmap s') = used_slots (task_bitmap s) + 1"
    using used_slots_update [of i "task_bitmap s" 1] i assms(1) by (simp add: tasks_ok_def)
  moreover have "set (task_bitmap s') \<subseteq> {0, 1}"
    using assms(1) set_update_subset_insert [of "task_bitmap s" i 1] unfolding i(4) tasks_ok_def by auto
  ultimately show ?thesis using assms(1) e(4,5) i u8_position [of i] by (simp add: tasks_ok_def)
qed

text \<open>What a program and its system calls may change while it runs: nothing that \<open>halt\<close> relies on.\<close>

definition same_tasks :: "'a kernel_scheme \<Rightarrow> 'a kernel_scheme \<Rightarrow> bool" where
  "same_tasks s t \<longleftrightarrow> curr_task_pos t = curr_task_pos s \<and> runn_task_num t = runn_task_num s \<and>
     task_bitmap t = task_bitmap s \<and> length (pcbs t) = length (pcbs s) \<and>
     ancestry (pcbs t ! unat (curr_task_pos s)) = ancestry (pcbs s ! unat (curr_task_pos s))"

lemma halt_to_parent:
  assumes "length (task_bitmap s) = 6" "length (pcbs s) = 6" "unat (curr_task_pos s) < 6" "curr_task_pos s \<noteq> 0" "runn_task_num s \<noteq> 1"
    and "ancestry (pcbs s ! unat (curr_task_pos s)) = (pid, int parent, esp, ebp)" "pid \<noteq> 0" "parent < 6"
  shows "\<exists>s'. halt status s = Some (Resume esp ebp (expand_status status), s') \<and>
    curr_task_pos s' = of_nat parent \<and> runn_task_num s' = runn_task_num s - 1 \<and>
    task_bitmap s' = (task_bitmap s)[unat (curr_task_pos s) := 0] \<and>
    pcbs s' = (pcbs s)[unat (curr_task_pos s) := zero_pcb] \<and> tss_esp0 s' = kernel_stack (of_nat parent) \<and>
    mmu s' = enable_paging (set_task_page (of_nat parent) (mmu s))"
  using assms
  by (simp add: halt_def Let_def curr_pcb_def ancestry_def map_task_def)

section \<open>Parsing a command\<close>

text \<open>The first word of a line and the text after the spaces that follow it.\<close>

definition command_word :: "u8 list \<Rightarrow> u8 list" where
  "command_word cs = takeWhile (\<lambda>c. c \<noteq> 0x20) (dropWhile (\<lambda>c. c = 0x20) cs)"

definition command_args :: "u8 list \<Rightarrow> u8 list" where
  "command_args cs = dropWhile (\<lambda>c. c = 0x20) (dropWhile (\<lambda>c. c \<noteq> 0x20) (dropWhile (\<lambda>c. c = 0x20) cs))"

lemma first_word_in:
  assumes "k + length (takeWhile (\<lambda>c. c \<noteq> 0x20) cs) < length b"
  shows "\<exists>b'. first_word cs i True b k = Some (i + length (takeWhile (\<lambda>c. c \<noteq> 0x20) cs), b') \<and> length b' = length b \<and>
    (\<forall>j<length b. b' ! j = (if k \<le> j \<and> j < k + length (takeWhile (\<lambda>c. c \<noteq> 0x20) cs)
       then takeWhile (\<lambda>c. c \<noteq> 0x20) cs ! (j - k)
       else if j = k + length (takeWhile (\<lambda>c. c \<noteq> 0x20) cs) \<and> takeWhile (\<lambda>c. c \<noteq> 0x20) cs \<noteq> cs then 0 else b ! j))"
  using assms
proof (induction cs arbitrary: i b k)
  case Nil
  then show ?case by auto
next
  case (Cons c cs)
  show ?case
  proof (cases "c = 0x20")
    case True
    then show ?thesis using Cons.prems by (auto simp: nth_list_update)
  next
    case False
    then have k: "k < length b" using Cons.prems by simp
    obtain b' where b': "first_word cs (i + 1) True (b[k := c]) (k + 1) =
        Some (i + 1 + length (takeWhile (\<lambda>c. c \<noteq> 0x20) cs), b')" "length b' = length b"
      "\<forall>j<length b. b' ! j = (if k + 1 \<le> j \<and> j < k + 1 + length (takeWhile (\<lambda>c. c \<noteq> 0x20) cs)
       then takeWhile (\<lambda>c. c \<noteq> 0x20) cs ! (j - (k + 1))
       else if j = k + 1 + length (takeWhile (\<lambda>c. c \<noteq> 0x20) cs) \<and> takeWhile (\<lambda>c. c \<noteq> 0x20) cs \<noteq> cs then 0 else (b[k := c]) ! j)"
      using Cons.IH [of "k + 1" "b[k := c]" "i + 1"] Cons.prems False by auto
    then show ?thesis using False k
      by (auto simp: nth_Cons' nth_list_update intro!: exI [of _ b'])
  qed
qed

lemma first_word_skip:
  "first_word cs i False b k = first_word (dropWhile (\<lambda>c. c = 0x20) cs) (i + length (takeWhile (\<lambda>c. c = 0x20) cs)) False b k"
  by (induction cs arbitrary: i) auto

lemma rest_words_in:
  "k + length cs \<le> length b \<Longrightarrow> rest_words cs True b k = Some (take k b @ cs @ drop (k + length cs) b)"
proof (induction cs arbitrary: b k)
  case (Cons c cs)
  then have "k < length b" by simp
  then have "take (Suc k) (b[k := c]) = take k b @ [c]" by (simp add: take_Suc_conv_app_nth)
  then show ?case using Cons by simp
qed simp

lemma rest_words_skip: "rest_words cs False b k = rest_words (dropWhile (\<lambda>c. c = 0x20) cs) False b k"
  by (induction cs) auto

lemma rest_words_all:
  assumes "length (dropWhile (\<lambda>c. c = 0x20) cs) \<le> length b"
  shows "rest_words cs False b 0 = Some (dropWhile (\<lambda>c. c = 0x20) cs @ drop (length (dropWhile (\<lambda>c. c = 0x20) cs)) b)"
proof (cases "dropWhile (\<lambda>c. c = 0x20) cs")
  case Nil
  then show ?thesis unfolding rest_words_skip [of cs] Nil by simp
next
  case (Cons d ds)
  then have "d \<noteq> 0x20" by (metis (mono_tags, lifting) hd_dropWhile list.discI list.sel(1))
  moreover have "0 < length b" using assms Cons by auto
  ultimately show ?thesis using rest_words_skip [of cs b 0] Cons rest_words_in [of 1 ds "b[0 := d]"] assms
    by (cases b) simp_all
qed

lemma parse_command_words:
  assumes v: "holds_string v cs" and len: "length cs < 128"
    and word: "length (command_word cs) < 20" and args: "length (command_args cs) < 30"
  shows "\<exists>first args. parse_command v = Some (first, args) \<and>
    holds_string (list_view first) (command_word cs) \<and> holds_string (list_view args) (command_args cs)"
proof -
  let ?ds = "dropWhile (\<lambda>c. c = 0x20) cs" and ?k = "length (takeWhile (\<lambda>c. c = 0x20) cs)" and ?b = "replicate 20 (0 :: u8)"
  have line: "strcpy store (replicate 128 0) v = Some (cs @ 0 # drop (length cs + 1) (replicate 128 0))"
    using strcpy_array_fits [OF v, of "replicate 128 0"] len by simp
  have nz: "0 \<notin> set cs" using v by (simp add: holds_string_def)
  have "first_word cs 0 False ?b 0 = first_word ?ds ?k True ?b 0"
  proof (cases ?ds)
    case (Cons d ds)
    then have "d \<noteq> 0x20" by (metis (mono_tags, lifting) hd_dropWhile list.discI list.sel(1))
    then show ?thesis using first_word_skip [of cs 0 ?b 0] Cons by simp
  next
    case Nil
    then show ?thesis unfolding first_word_skip [of cs] Nil by simp
  qed
  moreover obtain b' where b': "first_word ?ds ?k True ?b 0 = Some (?k + length (command_word cs), b')" "length b' = 20"
      "\<forall>j<20. b' ! j = (if j < length (command_word cs) then command_word cs ! j else 0)"
    using first_word_in [of 0 ?ds ?b ?k] word by (auto simp: command_word_def)
  ultimately have fw: "first_word cs 0 False ?b 0 = Some (?k + length (command_word cs), b')" by simp
  have "holds_string (list_view b') (command_word cs)"
  proof -
    have "0 \<notin> set (command_word cs)" using nz unfolding command_word_def
      by (auto dest!: set_takeWhileD set_dropWhileD)
    then show ?thesis using b'(2,3) word by (simp add: holds_string_def)
  qed
  moreover have rest: "drop (?k + length (command_word cs)) cs = dropWhile (\<lambda>c. c \<noteq> 0x20) ?ds"
    unfolding command_word_def add.commute [of ?k] drop_drop [symmetric] by (simp flip: dropWhile_eq_drop)
  have "rest_words (drop (?k + length (command_word cs)) cs) False (replicate 30 0) 0 =
      Some (command_args cs @ drop (length (command_args cs)) (replicate 30 0))"
    unfolding rest using rest_words_all [of "dropWhile (\<lambda>c. c \<noteq> 0x20) ?ds" "replicate 30 0"] args
    by (simp add: command_args_def)
  moreover have "holds_string (list_view (command_args cs @ drop (length (command_args cs)) (replicate 30 0))) (command_args cs)"
  proof (rule holds_string_list)
    show "0 \<notin> set (command_args cs)" using nz unfolding command_args_def by (auto dest!: set_dropWhileD)
    have "drop (length (command_args cs)) (replicate 30 0) = 0 # replicate (29 - length (command_args cs)) (0 :: u8)"
      using args by (simp flip: replicate_Suc)
    then show "take (length (command_args cs) + 1) (command_args cs @ drop (length (command_args cs)) (replicate 30 0)) = command_args cs @ [0]"
      by simp
  qed (use args in simp)
  ultimately show ?thesis
    using line strlen_string [OF v] fw by (simp add: parse_command_def)
qed

section \<open>Loading a program\<close>

lemma translate_enable [simp]: "translate (enable_paging p) = translate p"
  by (intro ext) (simp add: translate_def enable_paging_def Let_def)

lemma maps_range_enable [simp]: "maps_range (enable_paging p) = maps_range p"
  by (intro ext) (simp add: maps_range_def)

lemma std_names:
  "holds_string (list_view (c_string ''stdin'')) (text_of ''stdin'')" "length (text_of ''stdin'') = 5"
  "holds_string (list_view (c_string ''stdout'')) (text_of ''stdout'')" "length (text_of ''stdout'') = 6"
  "holds_string (list_view (c_string ''shell'')) (text_of ''shell'')"
  by (rule holds_string_list; simp add: c_string_def text_of_def | simp add: text_of_def)+

definition pcb_shape :: "pcb \<Rightarrow> bool" where
  "pcb_shape p \<longleftrightarrow> length (file_array p) = 8 \<and> length (file_names p) = 256 \<and> length (arg_buffer p) = 100"

definition std_files :: "file_node list" where
  "std_files = \<lparr>fop = Some Stdin_ops, inode = Null_inode, file_pos = 0, flags = 1\<rparr> #
     \<lparr>fop = Some Stdout_ops, inode = Null_inode, file_pos = 0, flags = 1\<rparr> # replicate 6 closed_node"

lemma copy_name_ok:
  assumes "holds_string v cs" "32 * fd + length cs < length (file_names p)"
  shows "\<exists>p'. copy_name fd v p = Some p' \<and> length (file_names p') = length (file_names p) \<and> holds_string (name_view p' fd) cs"
proof -
  have len: "length cs < length (drop (32 * fd) (file_names p))" using assms(2) by simp
  note cp = strcpy_array_fits [OF assms(1) len]
  have "holds_string (list_view (cs @ 0 # drop (length cs + 1) (drop (32 * fd) (file_names p)))) cs"
    by (rule holds_string_list) (use assms(1) in \<open>simp_all add: holds_string_def\<close>)
  then show ?thesis using cp assms(2) by (simp add: copy_name_def name_view_def)
qed

lemma new_files_ok:
  assumes "pcb_shape p" "holds_string (list_view argbuf) as" "length as < 100"
  shows "\<exists>p'. new_files argbuf p = Some p' \<and> pcb_shape p' \<and> ancestry p' = ancestry p \<and> file_array p' = std_files \<and>
    open_file_num p' = 2 \<and> holds_string (list_view (arg_buffer p')) as"
proof -
  let ?args = "as @ 0 # drop (length as + 1) (replicate 100 0)"
  have args: "strcpy store (replicate 100 0) (list_view argbuf) = Some ?args"
    using strcpy_array_fits [OF assms(2), of "replicate 100 0"] assms(3) by simp
  have hold: "holds_string (list_view ?args) as"
    by (rule holds_string_list) (use assms(2) in \<open>simp_all add: holds_string_def\<close>)
  define p1 where "p1 = p\<lparr>open_file_num := 0, file_array := replicate 8 closed_node, arg_buffer := ?args\<rparr>"
  let ?n0 = "\<lparr>fop = Some Stdin_ops, inode = Null_inode, file_pos = 0, flags = 1\<rparr>"
  obtain q1 where q1: "copy_name 0 (list_view (c_string ''stdin'')) (p1\<lparr>file_array := (file_array p1)[0 := ?n0]\<rparr>) = Some q1"
      "length (file_names q1) = 256"
    using copy_name_ok [OF std_names(1), of 0 "p1\<lparr>file_array := (file_array p1)[0 := ?n0]\<rparr>"] assms(1)
    by (auto simp: p1_def pcb_shape_def std_names)
  define p2 where "p2 = q1\<lparr>open_file_num := open_file_num q1 + 1\<rparr>"
  have s1: "open_std 0 Stdin_ops ''stdin'' p1 = Some p2" using q1(1) by (simp add: open_std_def p2_def)
  let ?n1 = "\<lparr>fop = Some Stdout_ops, inode = Null_inode, file_pos = 0, flags = 1\<rparr>"
  obtain q2 where q2: "copy_name 1 (list_view (c_string ''stdout'')) (p2\<lparr>file_array := (file_array p2)[1 := ?n1]\<rparr>) = Some q2"
      "length (file_names q2) = 256"
    using copy_name_ok [OF std_names(3), of 1 "p2\<lparr>file_array := (file_array p2)[1 := ?n1]\<rparr>"] q1(2)
    by (auto simp: p2_def std_names)
  define p3 where "p3 = q2\<lparr>open_file_num := open_file_num q2 + 1\<rparr>"
  have s2: "open_std 1 Stdout_ops ''stdout'' p2 = Some p3" using q2(1) by (simp add: open_std_def p3_def)
  note f = open_std_frame [OF s1] open_std_frame [OF s2]
  have "new_files argbuf p = Some p3"
    using args s1 s2 assms(1) by (simp add: new_files_def Let_def for_to_fill_all pcb_shape_def map_replicate_const p1_def)
  moreover have "file_array p3 = std_files"
    using f by (simp add: p1_def std_files_def numeral_eq_Suc)
  ultimately show ?thesis using f q2(2) hold assms(3)
    by (auto simp: pcb_shape_def p3_def p1_def ancestry_def std_files_def)
qed

text \<open>
  An executable on the disk: its inode and data blocks are valid, it starts with the magic bytes, holds
  the entry point, and fits into the task's page from 0x08048000 on.
\<close>

definition program_ok :: "memory \<Rightarrow> fsys \<Rightarrow> u32 \<Rightarrow> bool" where
  "program_ok m f ino \<longleftrightarrow> ino < num_inodes m f \<and> 28 \<le> unat (inode_length m f ino) \<and>
     0x48000 + unat (inode_length m f ino) \<le> 0x400000 \<and>
     blocks_valid m f ino 0 (max 30 (unat (inode_length m f ino))) \<and>
     map (file_byte m f ino) [0..<4] = [0x7F, 0x45, 0x4C, 0x46]"

definition program_bytes :: "memory \<Rightarrow> fsys \<Rightarrow> u32 \<Rightarrow> u8 list" where
  "program_bytes m f ino = map (file_byte m f ino) [0..<unat (inode_length m f ino)]"

lemma read_program:
  assumes "program_ok m f ino" "buf \<noteq> 0"
  shows "read_data m f ino 0 buf 30 = (of_nat (min 30 (unat (inode_length m f ino))), take 30 (program_bytes m f ino))"
    and "read_data m f ino 0 buf (inode_length m f ino) = (inode_length m f ino, program_bytes m f ino)"
proof -
  let ?L = "unat (inode_length m f ino)"
  have v: "blocks_valid m f ino 0 n" if "n \<le> max 30 ?L" for n
    using assms(1) that blocks_valid_mono [of m f ino 0 "max 30 ?L" 0 n] by (simp add: program_ok_def)
  have i: "ino < num_inodes m f" using assms(1) by (simp add: program_ok_def)
  have "take 30 [0..<?L] = [0..<min 30 ?L]" by (cases "30 \<le> ?L") (simp_all add: take_upt min_def)
  then show "read_data m f ino 0 buf 30 = (of_nat (min 30 ?L), take 30 (program_bytes m f ino))"
    using read_data_reads' [OF i assms(2), of 0 30] v by (simp add: program_bytes_def take_map)
  show "read_data m f ino 0 buf (inode_length m f ino) = (inode_length m f ino, program_bytes m f ino)"
    using read_data_reads' [OF i assms(2), of 0 "inode_length m f ino"] v by (simp add: program_bytes_def)
qed

lemma check_magic_all: "take (length cs) xs = cs \<Longrightarrow> check_magic cs xs = Some True"
  by (induction cs xs rule: check_magic.induct) auto

lemma check_magic_mismatch: "j < length cs \<Longrightarrow> j < length xs \<Longrightarrow> xs ! j \<noteq> cs ! j \<Longrightarrow> check_magic cs xs = Some False"
proof (induction cs xs arbitrary: j rule: check_magic.induct)
  case (3 c cs x xs)
  then show ?case by (cases j) auto
qed simp_all

lemma executable_magic: "take 4 b = [0x7F, 0x45, 0x4C, 0x46] \<Longrightarrow> executable b = Some True"
  unfolding executable_def by (rule check_magic_all) (simp add: numeral_eq_Suc)

lemma executable_mismatch: "j < 4 \<Longrightarrow> j < length b \<Longrightarrow> b ! j \<noteq> [0x7F, 0x45, 0x4C, 0x46] ! j \<Longrightarrow> executable b = Some False"
  unfolding executable_def by (rule check_magic_mismatch [of j]) simp_all

lemma program_header:
  assumes "program_ok m f ino"
  shows "executable (take 30 (program_bytes m f ino)) = Some True"
    "header_entry (take 30 (program_bytes m f ino)) = Some (entry_point (program_bytes m f ino))"
proof -
  let ?b = "program_bytes m f ino"
  have len: "28 \<le> length ?b" using assms by (simp add: program_ok_def program_bytes_def)
  have "take 4 (take 30 ?b) = [0x7F, 0x45, 0x4C, 0x46]"
    using assms len by (simp add: program_bytes_def program_ok_def take_map take_upt)
  then show "executable (take 30 ?b) = Some True" by (rule executable_magic)
  have "take 30 ?b ! k = ?b ! k" if "k < 28" for k using that by simp
  then show "header_entry (take 30 ?b) = Some (entry_point ?b)" using len by (simp add: header_entry_def entry_point_def)
qed

lemma short_count_ok:
  assumes "0 < k" "k \<le> 30"
  shows "(of_nat k :: u32) \<noteq> ERR" "(of_nat k :: u32) \<noteq> 0"
proof -
  have "unat (of_nat k :: u32) = k" using assms by (simp add: unat_offset)
  moreover have "unat (ERR :: u32) = 2 ^ 32 - 1" by (simp add: unsigned_minus_1_eq_mask mask_eq_exp_minus_1)
  ultimately show "(of_nat k :: u32) \<noteq> ERR" "(of_nat k :: u32) \<noteq> 0" using assms by auto
qed

text \<open>The parent of the process about to start: none for the first shell, otherwise the process whose
  kernel stack the call runs on.\<close>

definition parent_known :: "u32 \<Rightarrow> 'a kernel_scheme \<Rightarrow> bool" where
  "parent_known esp s \<longleftrightarrow> runn_task_num s = 0 \<or> pcb_index (esp AND PROCESSMASK) \<noteq> None"

lemma new_process_ok:
  assumes "parent_known esp s" "runn_task_num s = 0 \<Longrightarrow> curr_task_pos s = 0"
  shows "\<exists>p'. new_process esp ebp s p = Some p' \<and> file_array p' = file_array p \<and> file_names p' = file_names p \<and>
    arg_buffer p' = arg_buffer p \<and> process_id p' = uint (curr_task_pos s) \<and> parent_esp p' = esp \<and> parent_ebp p' = ebp"
  using assms by (cases "runn_task_num s = 0") (auto simp: new_process_def parent_known_def Let_def)

lemma no_tasks: "tasks_ok s \<Longrightarrow> runn_task_num s = 0 \<Longrightarrow> \<forall>j<k. task_bitmap s ! j \<noteq> 0 \<Longrightarrow> k = 0"
proof (rule ccontr)
  assume a: "tasks_ok s" "runn_task_num s = 0" "\<forall>j<k. task_bitmap s ! j \<noteq> 0" "k \<noteq> 0"
  then have "task_bitmap s ! 0 \<noteq> 0" "used_slots (task_bitmap s) = 0" "length (task_bitmap s) = 6" by (auto simp: tasks_ok_def)
  then show False unfolding used_slots_def length_0_conv filter_empty_conv by (metis nth_mem zero_less_numeral)
qed

lemma execute_loads:
  fixes s :: "'a kernel_scheme"
  assumes ok: "tasks_ok s" "runn_task_num s < 6" "\<forall>p \<in> set (pcbs s). pcb_shape p" "paging_ok (mmu s)"
    and cmd: "command \<noteq> 0" "holds_string (vview s command) cs" "length cs < 128"
      "length (command_word cs) < 20" "length (command_args cs) < 30"
    and disk: "dir_ok (ram s) (fs s)" "fs_inodes (fs s) = fs_bootblk (fs s) + 0x1000"
      "lookup_name (ram s) (fs s) (command_word cs) = Some i"
    and prog: "program_ok (ram s) (fs s) (read32 (ram s) (dentry_addr (fs s) i + 36))"
    and parent: "parent_known esp s"
  defines "ino \<equiv> read32 (ram s) (dentry_addr (fs s) i + 36)"
  shows "\<exists>s' k p. execute esp ebp command s = Some (User_mode (entry_point (program_bytes (ram s) (fs s) ino)) USER_ESP, s') \<and>
    k < 6 \<and> task_bitmap s ! k = 0 \<and> (\<forall>j<k. task_bitmap s ! j \<noteq> 0) \<and> curr_task_pos s' = of_nat k \<and>
    ram s' = write_bytes (ram s) (task_frame k + 0x48000) (program_bytes (ram s) (fs s) ino) \<and>
    curr_pcb s' = Some p \<and> pcb_shape p \<and> file_array p = std_files \<and> open_file_num p = 2 \<and>
    holds_string (list_view (arg_buffer p)) (command_args cs) \<and>
    process_id p = int k \<and> parent_esp p = esp \<and> parent_ebp p = ebp"
proof -
  let ?m = "ram s" and ?f = "fs s"
  let ?f' = "?f\<lparr>file_pos_keeper := int i\<rparr>"
  have view: "vview (con_io cli s) command = vview s command"
    by (intro ext) (simp add: vview_def vload_def)
  obtain first argbuf where parse: "parse_command (vview s command) = Some (first, argbuf)"
      "holds_string (list_view first) (command_word cs)" "holds_string (list_view argbuf) (command_args cs)"
    using parse_command_words [OF cmd(2-5)] by blast
  have "dentry_ok local_dentry" by (simp add: dentry_ok_def local_dentry_def)
  from read_dentry_by_name_lookup [OF parse(2) disk(1) this] disk(3) obtain d where
    d: "holds_dentry ?m ?f i d" "read_dentry_by_name ?m (list_view first) (Some local_dentry) ?f = Some (0, Some d, ?f')" by auto
  have ino: "inode_index d = ino" using d(1) by (simp add: holds_dentry_def ino_def)
  have prog: "program_ok ?m ?f ino" using prog by (simp add: ino_def)
  have size: "get_dentry_size ?m ?f' d = inode_length ?m ?f ino"
    using disk(2) by (simp add: get_dentry_size_def inode_length_def inode_ptr_def ino add.assoc)
  note rd = read_program [OF prog] and hdr = program_header [OF prog]
  let ?L = "unat (inode_length ?m ?f ino)"
  have cnt: "(of_nat (min 30 ?L) :: u32) \<noteq> ERR" "(of_nat (min 30 ?L) :: u32) \<noteq> 0"
    using prog by (intro short_count_ok; simp add: program_ok_def)+
  obtain k where k: "k < 6" "task_bitmap s ! k = 0" "curr_task_pos (claim_slot s) = of_nat k" "\<forall>j<k. task_bitmap s ! j \<noteq> 0"
    using tasks_ok_claim [OF ok(1,2)] by metis
  let ?s0 = "(con_io cli s)\<lparr>fs := ?f'\<rparr>"
  define s1 where "s1 = map_task (claim_slot ?s0)"
  have s1: "ram s1 = ?m" "fs s1 = ?f'" "curr_task_pos s1 = of_nat k" "runn_task_num s1 = runn_task_num s" "pcbs s1 = pcbs s"
      "mmu s1 = enable_paging (set_task_page (of_nat k) (mmu s))"
    using claim_slot_cong [of ?s0 s] k(3) by (simp_all add: s1_def)
  let ?b = "program_bytes ?m ?f ino"
  have len: "length ?b = ?L" by (simp add: program_bytes_def)
  have "maps_range (mmu s1) LOADADDR (task_frame k + 0x48000) (length ?b)"
    using maps_range_task [OF ok(4) k(1), of "0x48000" ?L] prog unfolding s1(6) len by (simp add: program_ok_def)
  note w = vwrite_range [OF this]
  let ?t = "s1\<lparr>ram := write_bytes (ram s1) (task_frame k + 0x48000) ?b\<rparr>"
  have uk: "unat (of_nat k :: u8) = k" "uint (of_nat k :: u8) = int k"
    using k(1) u8_position [of k] unfolding uint_nat by simp_all
  obtain p where p: "curr_pcb ?t = Some p" "pcb_shape p"
    using ok(1,3) k(1) s1 uk by (auto simp: curr_pcb_def tasks_ok_def)
  have "runn_task_num s = 0 \<Longrightarrow> k = 0"
    using k(4) ok(1) no_tasks by blast
  then obtain p' where p': "new_process esp ebp ?t p = Some p'" "file_array p' = file_array p" "file_names p' = file_names p"
      "arg_buffer p' = arg_buffer p" "process_id p' = int k" "parent_esp p' = esp" "parent_ebp p' = ebp"
    using new_process_ok [of esp ?t ebp p] parent s1 uk by (auto simp: parent_known_def)
  obtain p'' where p'': "new_files argbuf p' = Some p''" "pcb_shape p''" "ancestry p'' = ancestry p'" "file_array p'' = std_files"
      "open_file_num p'' = 2" "holds_string (list_view (arg_buffer p'')) (command_args cs)"
    using new_files_ok [of p' argbuf "command_args cs"] p(2) p' parse(3) cmd(5) by (auto simp: pcb_shape_def)
  define s2 where "s2 = (set_curr_pcb p'' ?t)\<lparr>tss_ss0 := KERNEL_DS, tss_esp0 := kernel_stack (curr_task_pos ?t),
      runn_task_num := runn_task_num ?t + 1\<rparr>"
  have "execute esp ebp command s = Some (User_mode (entry_point ?b) USER_ESP, s2)"
    using cmd(1) ok(2) less_imp_neq [OF ok(2)] view parse(1) d(2) rd hdr cnt size ino w p(1) p'(1) p''(1) s1(1,2)
    by (simp add: execute_def Let_def s2_def read_data_pos not_le flip: s1_def)
  moreover have "curr_pcb s2 = Some p''" "ram s2 = write_bytes ?m (task_frame k + 0x48000) ?b" "curr_task_pos s2 = of_nat k"
    using s1 uk k(1) ok(1) by (simp_all add: s2_def set_curr_pcb_def curr_pcb_def tasks_ok_def)
  ultimately show ?thesis using p'' p' k(1,2,4) by (auto simp: ancestry_def)
qed

section \<open>Refused commands\<close>

text \<open>What a refused command leaves as it was: everything but the interrupt flag and the position the file system
  keeps of its last lookup.\<close>

definition same_memory :: "'a kernel_scheme \<Rightarrow> 'a kernel_scheme \<Rightarrow> bool" where
  "same_memory s t \<longleftrightarrow> (\<exists>f k. t = (con_io f s)\<lparr>fs := (fs s)\<lparr>file_pos_keeper := k\<rparr>\<rparr>)"

lemma same_memory_lookup: "same_memory s (con_io f s)"
  "same_memory s ((con_io f s)\<lparr>fs := (fs s)\<lparr>file_pos_keeper := k\<rparr>\<rparr>)" "same_memory s ((con_io f s)\<lparr>fs := fs s\<rparr>)"
proof -
  have "con_io f s = (con_io f s)\<lparr>fs := (fs s)\<lparr>file_pos_keeper := file_pos_keeper (fs s)\<rparr>\<rparr>"
    "(con_io f s)\<lparr>fs := fs s\<rparr> = (con_io f s)\<lparr>fs := (fs s)\<lparr>file_pos_keeper := file_pos_keeper (fs s)\<rparr>\<rparr>"
    by (simp_all add: con_io_def)
  then show "same_memory s (con_io f s)" "same_memory s ((con_io f s)\<lparr>fs := fs s\<rparr>)" unfolding same_memory_def by blast+
qed (auto simp: same_memory_def)

lemma execute_refuses_full:
  assumes "command = 0 \<or> 6 \<le> runn_task_num s"
  shows "execute esp ebp command s = Some (Return ERR, con_io cli s)"
  using assms by (auto simp: execute_def Let_def)

lemma execute_refuses_file:
  assumes "command \<noteq> 0" "runn_task_num s < 6"
    and cmd: "holds_string (vview s command) cs" "length cs < 128" "length (command_word cs) < 20" "length (command_args cs) < 30"
    and disk: "dir_ok (ram s) (fs s)"
    and no: "lookup_name (ram s) (fs s) (command_word cs) = None \<or>
      (\<exists>i. lookup_name (ram s) (fs s) (command_word cs) = Some i \<and>
         (let (r, b) = read_data (ram s) (fs s) (read32 (ram s) (dentry_addr (fs s) i + 36)) 0 local_buffer 30
          in r = ERR \<or> r = 0 \<or> (\<exists>j<4. j < length b \<and> b ! j \<noteq> [0x7F, 0x45, 0x4C, 0x46] ! j)))"
  shows "\<exists>s'. execute esp ebp command s = Some (Return ERR, s') \<and> same_memory s s'"
proof -
  have view: "vview (con_io cli s) command = vview s command"
    by (intro ext) (simp add: vview_def vload_def)
  obtain first argbuf where parse: "parse_command (vview s command) = Some (first, argbuf)"
      "holds_string (list_view first) (command_word cs)"
    using parse_command_words [OF cmd] by blast
  have "dentry_ok local_dentry" by (simp add: dentry_ok_def local_dentry_def)
  note lk = read_dentry_by_name_lookup [OF parse(2) disk this]
  show ?thesis
  proof (cases "lookup_name (ram s) (fs s) (command_word cs)")
    case None
    then show ?thesis using lk assms(1,2) view parse(1)
      by (auto simp: execute_def Let_def not_le intro: same_memory_lookup)
  next
    case (Some i)
    with lk obtain d where d: "holds_dentry (ram s) (fs s) i d"
        "read_dentry_by_name (ram s) (list_view first) (Some local_dentry) (fs s) = Some (0, Some d, (fs s)\<lparr>file_pos_keeper := int i\<rparr>)"
      by auto
    obtain r b where rb: "read_data (ram s) (fs s) (inode_index d) 0 local_buffer 30 = (r, b)" by fastforce
    have "r = ERR \<or> r = 0 \<or> (\<exists>j<4. j < length b \<and> b ! j \<noteq> [0x7F, 0x45, 0x4C, 0x46] ! j)"
      using no Some rb d(1) by (auto simp: holds_dentry_def)
    then have "r = ERR \<or> r = 0 \<or> executable b = Some False"
      using executable_mismatch by blast
    then show ?thesis using d(2) rb assms(1,2) view parse(1)
      by (auto simp: execute_def Let_def not_le read_data_pos intro: same_memory_lookup)
  qed
qed

section \<open>A small system\<close>

text \<open>One shell runs at position 0 and has the command \<open>a x\<close> and the name \<open>a\<close> in its memory; the disk holds the executable
  \<open>a\<close> of 28 bytes with the entry point 0x08048018.\<close>

definition demo_ram :: memory where
  "demo_ram = (\<lambda>_. 0)(0x1000 := 1, 0x1004 := 1, 0x1008 := 1, 0x1040 := 0x61, 0x1060 := 2, 0x2000 := 28,
     0x3000 := 0x7F, 0x3001 := 0x45, 0x3002 := 0x4C, 0x3003 := 0x46,
     0x3018 := 0x18, 0x3019 := 0x80, 0x301A := 0x04, 0x301B := 0x08,
     0x848100 := 0x61, 0x848101 := 0x20, 0x848102 := 0x78, 0x848110 := 0x61)"

definition demo_files :: fsys where
  "demo_files = \<lparr>fs_bootblk = 0x1000, fs_datablocks = 0x3000, fs_dentries = 0x1040, fs_inodes = 0x2000,
     file_pos_keeper = 0, fs_dir_read_flag = 0\<rparr>"

definition demo_kernel :: kernel where
  "demo_kernel = \<lparr>hw = demo_rtc, ram = demo_ram, screen_x = 0, screen_y = 0, enter_tracker = replicate 25 0,
     keyboard_buffer = replicate 128 0, kb_buffer_position = 0, enter_flag = 0, first_scroll_indicator = 0,
     mmu = set_task_page (of_nat 0) (init_paging demo_paging),
     ter_read_buffer = replicate 128 0, ter_read_buf_size = 0, ter_read_indicator = 0, cross_enter_flag = 0,
     fs = demo_files, runn_task_num = 1, curr_task_pos = 0, task_bitmap = [1, 0, 0, 0, 0, 0],
     pcbs = replicate 6 zero_pcb, tss_ss0 = 0x18, tss_esp0 = 0x7FFFFC\<rparr>"

lemma demo_kernel_fields:
  "ram demo_kernel = demo_ram" "fs demo_kernel = demo_files" "runn_task_num demo_kernel = 1" "curr_task_pos demo_kernel = 0"
  "task_bitmap demo_kernel = [1, 0, 0, 0, 0, 0]" "pcbs demo_kernel = replicate 6 zero_pcb"
  "mmu demo_kernel = set_task_page (of_nat 0) (init_paging demo_paging)"
  by (simp_all add: demo_kernel_def)

lemma zero_byte_terminated:
  assumes z: "\<And>x. m x \<noteq> 0 \<Longrightarrow> unat x mod 64 \<noteq> b" and b: "b < 32"
  shows "dir_ok m demo_files"
  unfolding dir_ok_def
proof (intro allI impI)
  fix i :: nat assume i: "i < 63"
  have a: "unat (dentry_addr demo_files i + of_nat k) = 0x1040 + 64 * i + k" if "k < 64" for k
    using unat_offset [of "0x1040 + 64 * i + k"] that i by (simp add: dentry_addr_def demo_files_def add.assoc)
  have "unat (dentry_addr demo_files i) \<noteq> 0" using a [of 0] by simp
  then have "dentry_addr demo_files i \<noteq> 0" by auto
  moreover have "unat (dentry_addr demo_files i + of_nat b) = b + 64 * (65 + i)" using a [of b] b by simp
  then have "unat (dentry_addr demo_files i + of_nat b) mod 64 = b" using b by (simp only: mod_mult_self2) simp
  ultimately show "terminated m (dentry_addr demo_files i)"
    unfolding terminated_def using z b by (intro conjI exI [of _ b]) auto
qed

lemmas demo_terminated = zero_byte_terminated [of _ 5]

lemma demo_dir_ok: "dir_ok demo_ram demo_files"
  by (rule demo_terminated; auto simp: demo_ram_def split: if_splits)

lemma demo_disk_name: "disk_name demo_ram demo_files 0 = [0x61]"
proof -
  have "bytes_at demo_ram 0x1040 32 = demo_ram 0x1040 # demo_ram 0x1041 # bytes_at demo_ram 0x1042 30"
    by (simp add: numeral_eq_Suc bytes_at_Suc)
  then show ?thesis by (simp add: disk_name_def dentry_addr_def demo_files_def demo_ram_def)
qed

lemma demo_inode: "read32 demo_ram (dentry_addr demo_files 0 + 36) = 0" "inode_length demo_ram demo_files 0 = 28"
    "num_inodes demo_ram demo_files = 1" "num_data_blocks demo_ram demo_files = 1" "data_block demo_ram demo_files 0 0 = 0"
  by code_simp+

lemma demo_byte: "k < 28 \<Longrightarrow> file_byte demo_ram demo_files 0 k = demo_ram (0x3000 + of_nat k)"
  by (simp add: file_byte_def demo_inode) (simp add: demo_files_def)

lemma demo_program: "program_ok demo_ram demo_files 0" "lookup_name demo_ram demo_files [0x61] = Some 0"
proof -
  have "map (file_byte demo_ram demo_files 0) [0..<4] = [demo_ram 0x3000, demo_ram 0x3001, demo_ram 0x3002, demo_ram 0x3003]"
    by (simp add: demo_byte upt_conv_Cons numeral_eq_Suc)
  then show "program_ok demo_ram demo_files 0"
    by (simp add: program_ok_def blocks_valid_def demo_inode) (simp add: demo_ram_def)
  show "lookup_name demo_ram demo_files [0x61] = Some 0"
    by (simp add: lookup_name_def name_matches_def demo_disk_name upt_conv_Cons)
qed

lemma demo_entry: "entry_point (program_bytes demo_ram demo_files 0) = 0x08048018"
  by (simp add: entry_point_def program_bytes_def demo_inode demo_byte) (simp add: demo_ram_def)

lemma demo_view: "va = 0x08048100 + of_nat k \<Longrightarrow> k + i < 0x1000 \<Longrightarrow> vview demo_kernel va i = Some (demo_ram (0x848100 + of_nat (k + i)))"
proof -
  assume k: "va = 0x08048100 + of_nat k" "k + i < 0x1000"
  have "maps_range (mmu demo_kernel) (0x08000000 + of_nat 0x48100) (task_frame 0 + of_nat 0x48100) 0x1000"
    unfolding demo_kernel_fields by (rule maps_range_task) (simp_all add: paging_ok_steps demo_paging_ok)
  then have "maps_range (mmu demo_kernel) 0x08048100 0x848100 0x1000" by (simp add: task_frame_def)
  then have "translate (mmu demo_kernel) False (0x08048100 + of_nat (k + i)) = Some (0x848100 + of_nat (k + i))"
    using k(2) unfolding maps_range_def by blast
  then have "vload demo_kernel (0x08048100 + of_nat (k + i)) = Some (demo_ram (0x848100 + of_nat (k + i)))"
    by (simp add: vload_def demo_kernel_fields(1))
  moreover have "unat va \<noteq> 0" using k unat_offset [of "0x08048100 + k"] by simp
  then have "va \<noteq> 0" by auto
  ultimately show ?thesis using k(1) by (simp add: vview_def add.assoc)
qed

lemma demo_command: "holds_string (vview demo_kernel 0x08048100) [0x61, 0x20, 0x78]"
proof -
  have v: "vview demo_kernel 0x08048100 0 = Some 0x61" "vview demo_kernel 0x08048100 1 = Some 0x20"
    "vview demo_kernel 0x08048100 2 = Some 0x78" "vview demo_kernel 0x08048100 3 = Some 0"
    by (simp_all add: demo_view [where k = 0] demo_ram_def)
  have "vview demo_kernel 0x08048100 i = Some ([0x61, 0x20, 0x78] ! i)" if "i < 3" for i
  proof -
    from that have "i = 0 \<or> i = 1 \<or> i = 2" by auto
    then show ?thesis using v(1-3) by (elim disjE) simp_all
  qed
  then show ?thesis using v(4) by (simp add: holds_string_def numeral_3_eq_3)
qed

lemma demo_file_name: "holds_string (vview demo_kernel 0x08048110) [0x61]"
proof -
  have "vview demo_kernel 0x08048110 0 = Some 0x61" "vview demo_kernel 0x08048110 1 = Some 0"
    by (simp_all add: demo_view [where k = 16] demo_ram_def)
  then show ?thesis by (simp add: holds_string_def)
qed

lemma demo_words: "command_word [0x61, 0x20, 0x78] = [0x61]" "command_args [0x61, 0x20, 0x78] = [0x78]"
  by (simp_all add: command_word_def command_args_def)

lemma demo_tasks_ok: "tasks_ok demo_kernel" "\<forall>p \<in> set (pcbs demo_kernel). pcb_shape p" "paging_ok (mmu demo_kernel)"
  "parent_known 0x7FFFF0 demo_kernel" "runn_task_num demo_kernel < 6"
proof -
  have "pcb_index (0x7FFFF0 AND PROCESSMASK) = Some 0" by code_simp
  then show "parent_known 0x7FFFF0 demo_kernel" by (simp add: parent_known_def)
qed (simp_all add: tasks_ok_def demo_kernel_fields used_slots_def pcb_shape_def zero_pcb_def paging_ok_steps demo_paging_ok)

section \<open>Claims\<close>

text \<open>A command line of at most 127 bytes is split at its spaces: \<open>execute\<close> takes the first word as
  the name of the program and everything behind the spaces after it as the argument text.\<close>

theorem parse_command_splits:
  assumes "holds_string v cs" "length cs < 128" "length (command_word cs) < 20" "length (command_args cs) < 30"
  shows "\<exists>first args. parse_command v = Some (first, args) \<and>
    holds_string (list_view first) (command_word cs) \<and> holds_string (list_view args) (command_args cs)"
  using parse_command_words [OF assms] .

theorem parse_command_splits_witness:
  "\<exists>first args. parse_command (vview demo_kernel 0x08048100) = Some (first, args) \<and>
    holds_string (list_view first) [0x61] \<and> holds_string (list_view args) [0x78]"
  using parse_command_splits [OF demo_command] by (simp add: demo_words)

text \<open>C1: \<open>execute\<close> of a valid command on a system with a free task slot starts the program: the lowest
  free slot is taken and counted, the file's bytes stand in that task's own frame at offset 0x48000 and
  nothing else of memory changes, \<open>stdin\<close> and \<open>stdout\<close> are open and nothing else is, the argument text is kept for
  \<open>getargs\<close>, the caller's stack and frame pointers are kept for \<open>halt\<close>, and control leaves for the entry
  point stored in the file.\<close>

theorem execute_starts_program:
  fixes s :: "'a kernel_scheme"
  assumes "tasks_ok s" "runn_task_num s < 6" "\<forall>p \<in> set (pcbs s). pcb_shape p" "paging_ok (mmu s)"
    and "command \<noteq> 0" "holds_string (vview s command) cs" "length cs < 128"
      "length (command_word cs) < 20" "length (command_args cs) < 30"
    and "dir_ok (ram s) (fs s)" "fs_inodes (fs s) = fs_bootblk (fs s) + 0x1000"
      "lookup_name (ram s) (fs s) (command_word cs) = Some i" "ino = read32 (ram s) (dentry_addr (fs s) i + 36)"
      "program_ok (ram s) (fs s) ino"
    and "parent_known esp s"
  shows "\<exists>s' k p. execute esp ebp command s = Some (User_mode (entry_point (program_bytes (ram s) (fs s) ino)) USER_ESP, s') \<and>
    k < 6 \<and> task_bitmap s ! k = 0 \<and> (\<forall>j<k. task_bitmap s ! j \<noteq> 0) \<and> curr_task_pos s' = of_nat k \<and> tasks_ok s' \<and> runn_task_num s' = runn_task_num s + 1 \<and>
    ram s' = write_bytes (ram s) (task_frame k + 0x48000) (program_bytes (ram s) (fs s) ino) \<and>
    curr_pcb s' = Some p \<and> pcb_shape p \<and> file_array p = std_files \<and> open_file_num p = 2 \<and>
    holds_string (list_view (arg_buffer p)) (command_args cs) \<and>
    process_id p = int k \<and> parent_esp p = esp \<and> parent_ebp p = ebp"
proof -
  have prog: "program_ok (ram s) (fs s) (read32 (ram s) (dentry_addr (fs s) i + 36))" using assms(13,14) by simp
  from execute_loads [OF assms(1-12) prog assms(15), of ebp] assms(13) obtain s' k p where
    e: "execute esp ebp command s = Some (User_mode (entry_point (program_bytes (ram s) (fs s) ino)) USER_ESP, s')"
      "k < 6 \<and> task_bitmap s ! k = 0 \<and> (\<forall>j<k. task_bitmap s ! j \<noteq> 0) \<and> curr_task_pos s' = of_nat k \<and>
       ram s' = write_bytes (ram s) (task_frame k + 0x48000) (program_bytes (ram s) (fs s) ino) \<and>
       curr_pcb s' = Some p \<and> pcb_shape p \<and> file_array p = std_files \<and> open_file_num p = 2 \<and>
       holds_string (list_view (arg_buffer p)) (command_args cs) \<and>
       process_id p = int k \<and> parent_esp p = esp \<and> parent_ebp p = ebp" by auto
  have "tasks_ok s'" by (rule execute_tasks_ok [OF assms(1) e(1)])
  moreover have "runn_task_num s' = runn_task_num s + 1" using execute_bookkeeping [OF e(1)] by blast
  ultimately show ?thesis using e by blast
qed

lemma demo_execute_hyps:
  "(0x08048100 :: u32) \<noteq> 0" "length [0x61 :: u8, 0x20, 0x78] < 128"
  "length (command_word [0x61, 0x20, 0x78]) < 20" "length (command_args [0x61, 0x20, 0x78]) < 30"
  "dir_ok (ram demo_kernel) (fs demo_kernel)" "fs_inodes (fs demo_kernel) = fs_bootblk (fs demo_kernel) + 0x1000"
  "lookup_name (ram demo_kernel) (fs demo_kernel) (command_word [0x61, 0x20, 0x78]) = Some 0"
  "0 = read32 (ram demo_kernel) (dentry_addr (fs demo_kernel) 0 + 36)"
  "program_ok (ram demo_kernel) (fs demo_kernel) 0"
  by (simp_all add: demo_words demo_kernel_fields demo_dir_ok demo_program demo_inode) (simp add: demo_files_def)

theorem execute_starts_program_witness:
  "\<exists>s' k p. execute 0x7FFFF0 0x7FFFF8 0x08048100 demo_kernel = Some (User_mode 0x08048018 0x083FFFFC, s') \<and>
    k < 6 \<and> task_bitmap demo_kernel ! k = 0 \<and> (\<forall>j<k. task_bitmap demo_kernel ! j \<noteq> 0) \<and>
    curr_task_pos s' = of_nat k \<and> runn_task_num s' = 2 \<and> curr_pcb s' = Some p \<and> file_array p = std_files \<and>
    holds_string (list_view (arg_buffer p)) [0x78]"
proof -
  note h = demo_execute_hyps
  have "runn_task_num demo_kernel + 1 = 2" by (simp add: demo_kernel_fields)
  then show ?thesis
    using execute_starts_program [OF demo_tasks_ok(1,5,2,3) h(1) demo_command h(2-9) demo_tasks_ok(4), of "0x7FFFF8"]
    unfolding demo_kernel_fields(1,2) demo_entry demo_words by metis
qed

text \<open>C22: A command that names no file of the directory, or a file whose first 30 bytes cannot be read or
  do not start with the magic bytes, is refused: \<open>execute\<close> returns -1 and changes nothing but the interrupt flag and
  the position the file system keeps of its last lookup: tasks, page tables and all of memory are as they were.\<close>

theorem execute_refuses_non_programs:
  assumes "command \<noteq> 0" "runn_task_num s < 6"
    and "holds_string (vview s command) cs" "length cs < 128" "length (command_word cs) < 20" "length (command_args cs) < 30"
    and "dir_ok (ram s) (fs s)"
    and "lookup_name (ram s) (fs s) (command_word cs) = None \<or>
      (\<exists>i. lookup_name (ram s) (fs s) (command_word cs) = Some i \<and>
         (let (r, b) = read_data (ram s) (fs s) (read32 (ram s) (dentry_addr (fs s) i + 36)) 0 local_buffer 30
          in r = ERR \<or> r = 0 \<or> (\<exists>j<4. j < length b \<and> b ! j \<noteq> [0x7F, 0x45, 0x4C, 0x46] ! j)))"
  shows "\<exists>s'. execute esp ebp command s = Some (Return ERR, s') \<and> same_memory s s'"
  using execute_refuses_file [OF assms] .

lemma demo_no_file: "lookup_name demo_ram demo_files [0x78] = None"
proof -
  have "\<not> name_matches [0x78] (disk_name demo_ram demo_files i)" if "i < 63" for i
  proof -
    have "unat (dentry_addr demo_files i) = 0x1040 + 64 * i"
      using unat_offset [of "0x1040 + 64 * i"] that by (simp add: dentry_addr_def demo_files_def)
    then have "dentry_addr demo_files i \<noteq> 0x848102" using that by auto
    then have "demo_ram (dentry_addr demo_files i) \<noteq> 0x78" by (simp add: demo_ram_def)
    moreover have "bytes_at demo_ram (dentry_addr demo_files i) 32 =
        demo_ram (dentry_addr demo_files i) # bytes_at demo_ram (dentry_addr demo_files i + 1) 31"
      by (simp add: numeral_eq_Suc bytes_at_Suc)
    ultimately show ?thesis by (auto simp: name_matches_def disk_name_def)
  qed
  then show ?thesis by (auto simp: lookup_name_def find_None_iff)
qed

lemma demo_command_x: "holds_string (vview demo_kernel 0x08048102) [0x78]"
proof -
  have "vview demo_kernel 0x08048102 i = vview demo_kernel 0x08048100 (i + 2)" for i
    by (simp add: vview_def add.assoc add.commute [of _ 2])
  from this [of 0] this [of 1] show ?thesis using demo_command by (auto simp: holds_string_def numeral_3_eq_3 less_Suc_eq)
qed

theorem execute_refuses_non_programs_witness:
  "\<exists>s'. execute 0x7FFFF0 0x7FFFF8 0x08048102 demo_kernel = Some (Return ERR, s') \<and> same_memory demo_kernel s'"
  by (rule execute_refuses_non_programs [OF _ demo_tasks_ok(5) demo_command_x])
    (simp_all add: command_word_def command_args_def demo_kernel_fields demo_dir_ok demo_no_file)

section \<open>There and back\<close>

text \<open>\<open>halt\<close> in a state that has the bookkeeping \<open>execute\<close> left undoes it.\<close>

lemma execute_halt:
  fixes s :: "'a kernel_scheme"
  assumes s: "tasks_ok s" "runn_task_num s \<noteq> 0" "task_bitmap s ! 0 \<noteq> 0"
    and caller: "pcb_index (esp AND PROCESSMASK) = Some (unat (curr_task_pos s))"
      "task_bitmap s ! unat (curr_task_pos s) \<noteq> 0"
      "process_id (pcbs s ! unat (curr_task_pos s)) = uint (curr_task_pos s)"
    and start: "execute esp ebp command s = Some (User_mode addr usp, s1)"
    and run: "same_tasks s1 s2"
  shows "\<exists>s'. halt status s2 = Some (Resume esp ebp (expand_status status), s') \<and>
    curr_task_pos s' = curr_task_pos s \<and> runn_task_num s' = runn_task_num s \<and> task_bitmap s' = task_bitmap s \<and>
    pcbs s' = (pcbs s2)[unat (curr_task_pos s1) := zero_pcb] \<and> tss_esp0 s' = kernel_stack (curr_task_pos s) \<and>
    mmu s' = enable_paging (set_task_page (curr_task_pos s) (mmu s2))"
proof -
  let ?i = "unat (curr_task_pos s)"
  from execute_bookkeeping [OF start] obtain t :: "'a kernel_scheme" and p p' p'' args where
    e: "runn_task_num s < 6" "curr_task_pos t = curr_task_pos s1" "runn_task_num t = runn_task_num s" "pcbs t = pcbs s"
      "new_process esp ebp t p = Some p'" "new_files args p' = Some p''"
      "task_bitmap s1 = task_bitmap (claim_slot s)" "curr_task_pos s1 = curr_task_pos (claim_slot s)"
      "runn_task_num s1 = runn_task_num s + 1" "pcbs s1 = (pcbs s)[unat (curr_task_pos s1) := p'']" by blast
  obtain k where k: "k < 6" "task_bitmap s ! k = 0" "curr_task_pos s1 = of_nat k" "task_bitmap s1 = (task_bitmap s)[k := 1]"
    using tasks_ok_claim [OF s(1) e(1)] e(7,8) by metis
  have uk: "unat (of_nat k :: u8) = k" "uint (of_nat k :: u8) = int k"
    using k(1) u8_position [of k] unfolding uint_nat by simp_all
  have ne: "k \<noteq> ?i" "k \<noteq> 0" using k(2) caller(2) s(3) by metis+
  have len: "length (task_bitmap s) = 6" "length (pcbs s) = 6" "?i < 6" using s(1) by (simp_all add: tasks_ok_def)
  have "process_id (pcbs t ! ?i) = int ?i" using caller(3) e(4) by (simp only: uint_nat)
  then have "ancestry p'' = (int k, int ?i, esp, ebp)"
    using new_process_fields [OF e(5) _ caller(1)] new_files_ancestry [OF e(6)] s(2) e(2,3) k(3) uk ne
    by simp
  then have anc: "ancestry (pcbs s2 ! unat (curr_task_pos s2)) = (int k, int ?i, esp, ebp)"
    using run e(10) k uk len by (simp add: same_tasks_def)
  have two: "length (task_bitmap s2) = 6" "length (pcbs s2) = 6" "curr_task_pos s2 = of_nat k"
      "task_bitmap s2 = (task_bitmap s)[k := 1]" "runn_task_num s2 = runn_task_num s + 1"
    using run e(9,10) k len by (simp_all add: same_tasks_def)
  have "(of_nat k :: u8) \<noteq> 0" using uk(1) ne(2) by auto
  moreover have "runn_task_num s + 1 \<noteq> 1" using s(2) by simp
  ultimately obtain s' where "halt status s2 = Some (Resume esp ebp (expand_status status), s') \<and>
    curr_task_pos s' = of_nat ?i \<and> runn_task_num s' = runn_task_num s2 - 1 \<and>
    task_bitmap s' = (task_bitmap s2)[unat (curr_task_pos s2) := 0] \<and>
    pcbs s' = (pcbs s2)[unat (curr_task_pos s2) := zero_pcb] \<and> tss_esp0 s' = kernel_stack (of_nat ?i) \<and>
    mmu s' = enable_paging (set_task_page (of_nat ?i) (mmu s2))"
    using halt_to_parent [OF two(1,2) _ _ _ anc, of status] k(1) ne len uk two(3,5) by auto
  moreover have "(task_bitmap s)[k := 0] = task_bitmap s" using k(2) list_update_id by metis
  ultimately show ?thesis using two k(3) uk by simp
qed

lemma demo_caller: "pcb_index (0x7FFFF0 AND PROCESSMASK) = Some (unat (curr_task_pos demo_kernel))"
proof -
  have "pcb_index (0x7FFFF0 AND PROCESSMASK) = Some 0" by code_simp
  then show ?thesis by (simp add: demo_kernel_fields)
qed

lemma demo_start:
  obtains s1 where "execute 0x7FFFF0 0x7FFFF8 0x08048100 demo_kernel = Some (User_mode 0x08048018 0x083FFFFC, s1)"
proof -
  note h = demo_execute_hyps
  show ?thesis
    using execute_loads [OF demo_tasks_ok(1,5,2,3) h(1) demo_command h(2-7) _ demo_tasks_ok(4), of "0x7FFFF8"] h(9) that
    unfolding demo_kernel_fields(1,2) demo_inode(1) demo_entry by blast
qed

end
