(* ===== verification/Process_Files.thy ===== *)
theory Process_Files
  imports Process_Tasks
begin

text \<open>
  Properties of the system calls on open files and of the dispatch of \<open>syscallasm.S\<close>: the table of open
  files stays consistent, a call never touches the tasks, opening and closing undo each other, and a read
  returns the next bytes of the file.
\<close>

section \<open>The dispatcher\<close>

text \<open>\<open>syscall\<close>: the number in EAX selects the entry of the table; interrupts are on during the call. A
  call that returns comes back through \<open>iret\<close> with interrupts enabled.\<close>

definition syscall ::
    "('a kernel_scheme \<Rightarrow> 'a kernel_scheme) list \<Rightarrow> u32 \<Rightarrow> u32 \<Rightarrow> u32 \<Rightarrow> u32 \<Rightarrow> u32 \<Rightarrow> u32 \<Rightarrow> 'a kernel_scheme \<Rightarrow>
       (transfer \<times> 'a kernel_scheme) option" where
  "syscall hs esp ebp eax ebx ecx edx s =
     (let s = con_io cli s
      in if eax > 10 \<or> eax < 1 then Some (Return ERR, con_io sti s)
      else do {
        let s = con_io sti s;
        (t, s) \<leftarrow>
          (if eax = 1 then halt (ucast ebx) s
           else if eax = 2 then execute esp ebp ebx s
           else map_option (\<lambda>(r, s). (Return r, s))
             (if eax = 3 then read_call hs ebx ecx edx s
              else if eax = 4 then write_call ebx ecx edx s
              else if eax = 5 then open_call ebx s
              else if eax = 6 then close_call ebx s
              else if eax = 7 then getargs ebx ecx s
              else if eax = 8 then vidmap ebx s
              else if eax = 9 then Some (set_handler ebx ecx s)
              else Some (sigreturn s)));
        Some (t, case t of Return _ \<Rightarrow> con_io sti (con_io cli s) | _ \<Rightarrow> s)
      })"

section \<open>Stores through pointers of a program\<close>

text \<open>A range of physical memory outside the kernel's frame.\<close>

definition off_kernel :: "u32 \<Rightarrow> nat \<Rightarrow> bool" where
  "off_kernel pa n \<longleftrightarrow> (\<forall>i<n. \<not> kernel_frame (pa + of_nat i))"

lemma off_kernel_le: "off_kernel pa n \<Longrightarrow> k \<le> n \<Longrightarrow> off_kernel pa k"
  by (simp add: off_kernel_def)

lemma spares_range: "maps_range (mmu s) va pa n \<Longrightarrow> spares_kernel s va n = off_kernel pa n"
  by (auto simp: spares_kernel_def off_kernel_def maps_range_def)

lemma spares_kernel_mmu: "mmu t = mmu s \<Longrightarrow> spares_kernel t = spares_kernel s"
  by (simp add: spares_kernel_def fun_eq_iff)

lemma uwrite_range:
  "maps_range (mmu s) va pa (length xs) \<Longrightarrow>
     uwrite va xs s = (if off_kernel pa (length xs) then Some (s\<lparr>ram := write_bytes (ram s) pa xs\<rparr>) else None)"
  by (simp add: uwrite_def spares_range vwrite_range)

lemma uwrite_vwrite: "uwrite va xs s = Some s' \<Longrightarrow> vwrite va xs s = Some s'"
  by (simp add: uwrite_def split: if_splits)

lemma off_kernel_high:
  assumes "0x800000 \<le> unat pa" "unat pa + n < 2 ^ 32"
  shows "off_kernel pa n"
  unfolding off_kernel_def
proof (intro allI impI)
  fix i assume "i < n"
  then have "unat (pa + of_nat i) = unat pa + i" using assms(2) unat_plus_below [of pa i] by simp
  then have "unat (drop_bit 22 (pa + of_nat i)) = (unat pa + i) div 2 ^ 22" by (simp add: drop_bit_eq_div unat_div)
  moreover have "2 \<le> (unat pa + i) div 2 ^ 22" using assms(1) by simp
  ultimately show "\<not> kernel_frame (pa + of_nat i)" by (auto simp: kernel_frame_def)
qed

lemma off_kernel_task:
  assumes "pos < 6" "k + n \<le> 0x400000"
  shows "off_kernel (task_frame pos + of_nat k) n"
proof (rule off_kernel_high)
  have "unat (task_frame pos + of_nat k) = 0x800000 + 0x400000 * pos + k"
    using assms unat_offset [of "0x800000 + 0x400000 * pos + k"] by (simp add: task_frame_def)
  then show "0x800000 \<le> unat (task_frame pos + of_nat k)" "unat (task_frame pos + of_nat k) + n < 2 ^ 32"
    using assms by simp_all
qed

section \<open>What output and memory writes leave alone\<close>

definition same_procs :: "'a kernel_scheme \<Rightarrow> 'a kernel_scheme \<Rightarrow> bool" where
  "same_procs s t \<longleftrightarrow> curr_task_pos t = curr_task_pos s \<and> runn_task_num t = runn_task_num s \<and>
     task_bitmap t = task_bitmap s \<and> pcbs t = pcbs s"

lemma same_procs_refl [simp]: "same_procs s s"
  by (simp add: same_procs_def)

lemma same_procs_trans: "same_procs s t \<Longrightarrow> same_procs t u \<Longrightarrow> same_procs s u"
  by (simp add: same_procs_def)

lemma same_procs_updates [simp]:
  "same_procs s (con_io f t) = same_procs s t" "same_procs s (t\<lparr>ram := m\<rparr>) = same_procs s t"
  "same_procs s (t\<lparr>hw := h\<rparr>) = same_procs s t" "same_procs s (t\<lparr>fs := f'\<rparr>) = same_procs s t"
  "same_procs s (t\<lparr>mmu := p\<rparr>) = same_procs s t" "same_procs s (t\<lparr>ter_read_indicator := i\<rparr>) = same_procs s t"
  "same_procs s (t\<lparr>cross_enter_flag := j\<rparr>) = same_procs s t"
  by (simp_all add: same_procs_def)

lemma same_procs_io [simp]: "same_procs (con_io f s) t = same_procs s t"
  by (simp add: same_procs_def)

lemma same_procs_curr: "same_procs s t \<Longrightarrow> curr_pcb t = curr_pcb s"
  by (simp add: same_procs_def curr_pcb_def)

lemma curr_pcb_io [simp]: "curr_pcb (con_io f s) = curr_pcb s"
  by (simp add: curr_pcb_def)

lemma more_procs: "con.more t = con.more s \<Longrightarrow> same_procs s t" for s t :: "'a kernel_scheme"
proof -
  assume "con.more t = con.more s"
  then have "t = s\<lparr>hw := hw t, ram := ram t, screen_x := screen_x t, screen_y := screen_y t,
      enter_tracker := enter_tracker t, keyboard_buffer := keyboard_buffer t,
      kb_buffer_position := kb_buffer_position t, enter_flag := enter_flag t,
      first_scroll_indicator := first_scroll_indicator t\<rparr>" (is "_ = ?t")
    by (intro con.equality) simp_all
  moreover have "same_procs s ?t" by (simp add: same_procs_def)
  ultimately show ?thesis by simp
qed

lemma output_more [simp]:
  "con.more (scrolling s) = con.more s" "con.more (move_cursor s) = con.more s" "con.more (put_at_cursor c s) = con.more s"
  by (simp_all add: scrolling_def scroll_buffers_def Let_def move_cursor_def update_cursor_def put_at_cursor_def con_io_def
      split: option.split)

lemma putc_more: "putc c s = Some s' \<Longrightarrow> con.more s' = con.more s"
  by (auto simp: putc_def Let_def split: if_splits bind_splits)

lemma write_chars_procs: "write_chars buf i n s = Some s' \<Longrightarrow> same_procs s s'"
  by (induction n arbitrary: i s)
    (auto split: bind_splits intro: same_procs_trans [OF more_procs [OF putc_more]])

lemma vstore_procs: "vstore va x s = Some s' \<Longrightarrow> same_procs s s'"
  by (auto simp: vstore_def)

lemma vwrite_procs: "vwrite va xs s = Some s' \<Longrightarrow> same_procs s s'"
  using vwrite_kernel [of va xs s s'] by (simp add: same_procs_def)

lemma uwrite_procs: "uwrite va xs s = Some s' \<Longrightarrow> same_procs s s'"
  using vwrite_procs uwrite_vwrite by blast

lemma copy_line_procs: "copy_line buf n i s = Some (k, s') \<Longrightarrow> same_procs s s'"
proof (induction buf n i s arbitrary: k s' rule: copy_line.induct)
  case (1 buf n i s)
  from "1.prems" show ?case
    by (subst (asm) copy_line.simps)
      (auto split: if_splits option.splits intro: same_procs_trans [OF vstore_procs] "1.IH" [simplified])
qed

lemma strcpy_from_procs:
  "strcpy_from (\<lambda>s i x. vstore (buf + of_nat i) x s) v i s = Some s' \<Longrightarrow> same_procs s s'"
  by (erule strcpy_from.raw_induct [where P = "\<lambda>wr v i s s'. wr = (\<lambda>s i x. vstore (buf + of_nat i) x s) \<longrightarrow> same_procs s s'",
        rotated, THEN mp])
    (auto split: option.splits if_splits bind_splits intro: same_procs_trans [OF vstore_procs] vstore_procs)

text \<open>Interrupt handlers that leave the tasks alone.\<close>

definition quiet :: "('a kernel_scheme \<Rightarrow> 'a kernel_scheme) list \<Rightarrow> bool" where
  "quiet hs \<longleftrightarrow> (\<forall>h \<in> set hs. \<forall>s. same_procs s (h s))"

lemma spin_procs: "spin_until flag hs s = Some s' \<Longrightarrow> quiet hs \<Longrightarrow> same_procs s s'"
proof (induction hs arbitrary: s)
  case (Cons h hs)
  then show ?case by (cases "flag s") (auto simp: quiet_def intro: same_procs_trans)
qed (simp split: if_splits)

lemma terminal_read_procs: "terminal_read hs fd buf n s = Some (r, s') \<Longrightarrow> quiet hs \<Longrightarrow> same_procs s s'"
  by (auto simp: terminal_read_def Let_def split: if_splits bind_splits dest!: spin_procs copy_line_procs vstore_procs)
    (simp_all add: same_procs_def)

lemma terminal_read_call_procs: "terminal_read_call hs fd buf n s = Some (r, s') \<Longrightarrow> quiet hs \<Longrightarrow> same_procs s s'"
  by (auto simp: terminal_read_call_def split: if_splits bind_splits dest!: terminal_read_procs)

lemma terminal_write_procs: "terminal_write fd buf n s = Some (r, s') \<Longrightarrow> same_procs s s'"
  by (auto simp: terminal_write_def Let_def split: bind_splits dest!: write_chars_procs)

section \<open>The table of open files\<close>

definition open_fds :: "pcb \<Rightarrow> nat list" where
  "open_fds p = filter (\<lambda>fd. flags (file_array p ! fd) = 1) [0..<8]"

text \<open>A consistent table: every descriptor is in use or not, exactly those in use have operations, the two
  terminal descriptors keep theirs, no other one has terminal operations, and the counter counts.\<close>

definition node_ok :: "nat \<Rightarrow> file_node \<Rightarrow> bool" where
  "node_ok fd f \<longleftrightarrow> flags f \<in> {0, 1} \<and> (flags f = 1 \<longleftrightarrow> fop f \<noteq> None) \<and>
     (flags f = 0 \<longrightarrow> f = closed_node) \<and> (2 \<le> fd \<longrightarrow> fop f \<notin> {Some Stdin_ops, Some Stdout_ops})"

definition files_ok :: "pcb \<Rightarrow> bool" where
  "files_ok p \<longleftrightarrow> pcb_shape p \<and> open_file_num p = int (length (open_fds p)) \<and> (\<forall>fd<8. node_ok fd (file_array p ! fd)) \<and>
     fop (file_array p ! 0) = Some Stdin_ops \<and> fop (file_array p ! 1) = Some Stdout_ops"

text \<open>The step of a call that may only change the open files of its own process.\<close>

definition call_step :: "'a kernel_scheme \<Rightarrow> 'a kernel_scheme \<Rightarrow> bool" where
  "call_step s t \<longleftrightarrow> curr_task_pos t = curr_task_pos s \<and> runn_task_num t = runn_task_num s \<and>
     task_bitmap t = task_bitmap s \<and>
     (\<exists>p p'. curr_pcb s = Some p \<and> pcbs t = (pcbs s)[unat (curr_task_pos s) := p'] \<and> ancestry p' = ancestry p \<and>
        arg_buffer p' = arg_buffer p \<and> (files_ok p \<longrightarrow> files_ok p'))"

lemma call_step_procs: "same_procs s t \<Longrightarrow> curr_pcb s = Some p \<Longrightarrow> call_step s t"
  unfolding call_step_def same_procs_def
  by (intro conjI exI [of _ p]) (auto simp: curr_pcb_def split: if_splits)

lemma call_step_set:
  assumes "curr_pcb s = Some p" "same_procs s t" "ancestry p' = ancestry p" "arg_buffer p' = arg_buffer p"
    and "files_ok p \<Longrightarrow> files_ok p'"
  shows "call_step s (set_curr_pcb p' t)"
  using assms unfolding call_step_def by (auto simp: set_curr_pcb_def same_procs_def)

lemma call_step_same_tasks: "call_step s t \<Longrightarrow> same_tasks s t"
  by (auto simp: call_step_def same_tasks_def curr_pcb_def split: if_splits)

lemma call_step_files: "call_step s t \<Longrightarrow> \<exists>p p'. curr_pcb s = Some p \<and> curr_pcb t = Some p' \<and> (files_ok p \<longrightarrow> files_ok p')"
  by (auto simp: call_step_def curr_pcb_def split: if_splits)

lemma open_fds_update:
  assumes "fd < 8" "length (file_array p) = 8" "flags f \<in> {0, 1}" "flags (file_array p ! fd) \<in> {0, 1}"
  shows "int (length (open_fds (p\<lparr>file_array := (file_array p)[fd := f]\<rparr>))) =
    int (length (open_fds p)) + uint (flags f) - uint (flags (file_array p ! fd))"
proof -
  have u: "upt 0 8 = upt 0 fd @ fd # upt (Suc fd) 8"
    using assms(1) upt_add_eq_append [of 0 fd "8 - fd"] by (simp add: upt_conv_Cons)
  let ?a = "(file_array p)[fd := f]"
  have "filter (\<lambda>i. flags (?a ! i) = 1) (upt 0 fd) = filter (\<lambda>i. flags (file_array p ! i) = 1) (upt 0 fd)"
    "filter (\<lambda>i. flags (?a ! i) = 1) (upt (Suc fd) 8) = filter (\<lambda>i. flags (file_array p ! i) = 1) (upt (Suc fd) 8)"
    by (auto intro: filter_cong)
  moreover have "?a ! fd = f" using assms(1,2) by simp
  ultimately show ?thesis
    using assms(3,4) unfolding open_fds_def u by auto
qed

lemma files_ok_set:
  assumes "files_ok p" "fd < 8" "node_ok fd f" "fd < 2 \<Longrightarrow> fop f = fop (file_array p ! fd)"
    and "file_array p' = (file_array p)[fd := f]" "length (file_names p') = 256" "arg_buffer p' = arg_buffer p"
    and "open_file_num p' = open_file_num p + uint (flags f) - uint (flags (file_array p ! fd))"
  shows "files_ok p'"
proof -
  have "open_fds p' = open_fds (p\<lparr>file_array := (file_array p)[fd := f]\<rparr>)" using assms(5) by (simp add: open_fds_def)
  moreover have "flags (file_array p ! fd) \<in> {0, 1}" "flags f \<in> {0, 1}" "length (file_array p) = 8"
      "open_file_num p = int (length (open_fds p))"
    using assms(1-3) by (auto simp: files_ok_def node_ok_def pcb_shape_def)
  ultimately have "open_file_num p' = int (length (open_fds p'))"
    using open_fds_update [OF assms(2), of p f] assms(8) by simp
  moreover have n: "file_array p' ! i = (if i = fd then f else file_array p ! i)" if "i < 8" for i
    using assms(1,2,5) that by (simp add: files_ok_def pcb_shape_def)
  have "\<forall>i<8. node_ok i (file_array p' ! i)" using n assms(1,3) by (simp add: files_ok_def)
  moreover have "fop (file_array p' ! i) = fop (file_array p ! i)" if "i < 2" for i
    using n [of i] that assms(4) by (cases "i = fd") simp_all
  from this [of 0] this [of 1] have "fop (file_array p' ! 0) = Some Stdin_ops \<and> fop (file_array p' ! 1) = Some Stdout_ops"
    using assms(1) by (simp add: files_ok_def)
  moreover have "pcb_shape p'" using assms(1,5,6,7) by (simp add: files_ok_def pcb_shape_def)
  ultimately show ?thesis by (simp add: files_ok_def)
qed

lemma files_ok_move:
  assumes "files_ok p" "fd < 8" "flags (file_array p ! fd) \<noteq> 0"
  shows "files_ok (p\<lparr>file_array := (file_array p)[fd := (file_array p ! fd)\<lparr>file_pos := k\<rparr>]\<rparr>)"
  by (rule files_ok_set [OF assms(1,2), where f = "(file_array p ! fd)\<lparr>file_pos := k\<rparr>"])
    (use assms in \<open>auto simp: files_ok_def pcb_shape_def node_ok_def\<close>)

section \<open>Every call\<close>

lemma filesys_read_step:
  assumes "filesys_read fd buf n s = Some (r, s')" "fd < 8" "curr_pcb s = Some p" "flags (file_array p ! fd) \<noteq> 0"
  shows "call_step s s'"
proof -
  obtain bytes fs' t where p: "uwrite buf bytes (s\<lparr>fs := fs'\<rparr>) = Some t"
      "s' = set_curr_pcb (p\<lparr>file_array := (file_array p)[fd := (file_array p ! fd)\<lparr>file_pos := file_pos (file_array p ! fd) + r\<rparr>]\<rparr>) t"
    using assms(1,3) by (auto simp: filesys_read_def Let_def split: bind_splits)
  have "same_procs s t" using uwrite_procs [OF p(1)] by (simp add: same_procs_def)
  then show ?thesis unfolding p(2)
    by (intro call_step_set [OF assms(3)]) (use files_ok_move [OF _ assms(2,4)] in \<open>auto simp: ancestry_def\<close>)
qed

lemma fs_dir_read_procs: "fs_dir_read fd buf n s = Some (r, s') \<Longrightarrow> same_procs s s'"
  by (auto simp: fs_dir_read_def same_procs_def split: bind_splits dest!: uwrite_procs)

lemma rtc_call_procs:
  "rtc_read_call hs s = Some (r, s') \<Longrightarrow> quiet hs \<Longrightarrow> same_procs s s'" "rtc_write_call buf s = Some (r, s') \<Longrightarrow> same_procs s s'"
  by (auto simp: rtc_read_call_def rtc_write_call_def same_procs_def split: bind_splits if_splits dest!: spin_procs)

lemma fd_range: "0 \<le> sint fd \<Longrightarrow> sint fd \<le> 7 \<Longrightarrow> int (unat fd) = sint fd" for fd :: u32
proof -
  assume "0 \<le> sint fd" "sint fd \<le> 7"
  then have "uint fd = sint fd" by (simp add: uint_sint take_bit_eq_mod)
  then show "int (unat fd) = sint fd" unfolding uint_nat .
qed

lemma fd_index: "open_node fd p = Some f \<Longrightarrow> unat fd < 8 \<and> flags (file_array p ! unat fd) \<noteq> 0"
proof -
  assume "open_node fd p = Some f"
  then have "0 \<le> sint fd" "sint fd \<le> 7" by (auto simp: open_node_def split: if_splits)
  with fd_range [OF this] have "unat fd < 8" by linarith
  with \<open>open_node fd p = Some f\<close> show ?thesis by (auto simp: open_node_def Let_def split: if_splits)
qed

lemma read_call_step: "read_call hs fd buf n s = Some (r, s') \<Longrightarrow> quiet hs \<Longrightarrow> call_step s s'"
  by (auto simp: read_call_def split: bind_splits option.splits fop_table.splits
      intro: call_step_procs filesys_read_step dest: terminal_read_call_procs rtc_call_procs(1) fs_dir_read_procs fd_index)

lemma write_call_step: "write_call fd buf n s = Some (r, s') \<Longrightarrow> call_step s s'"
  by (auto simp: write_call_def split: bind_splits option.splits fop_table.splits
      intro: call_step_procs dest: terminal_write_procs rtc_call_procs(2))

lemma getargs_step: "getargs buf n s = Some (r, s') \<Longrightarrow> call_step s s'"
  by (auto simp: getargs_def Let_def strcpy_def split: bind_splits if_splits
     intro: call_step_procs dest!: strcpy_from_procs)

lemma vidmap_step: "vidmap a s = Some (r, s') \<Longrightarrow> curr_pcb s = Some p \<Longrightarrow> call_step s s'"
  by (rule call_step_procs) (auto simp: vidmap_def Let_def same_procs_def split: if_splits bind_splits dest!: uwrite_procs)

lemma close_call_step: "close_call fd s = Some (r, s') \<Longrightarrow> call_step s s'"
proof -
  assume c: "close_call fd s = Some (r, s')"
  then obtain p where p: "curr_pcb s = Some p" by (auto simp: close_call_def Let_def split: bind_splits)
  show ?thesis
  proof (cases "sint fd < 2 \<or> sint fd > 7 \<or> open_file_num p \<le> 2")
    case True
    with c p show ?thesis
      by (auto simp: close_call_def Let_def intro: call_step_procs)
  next
    case False
    let ?p = "p\<lparr>file_array := (file_array p)[unat fd := closed_node], open_file_num := open_file_num p - 1\<rparr>"
    have fd: "2 \<le> unat fd" "unat fd < 8" using False fd_range [of fd] by linarith+
    have s': "s' = set_curr_pcb ?p (con_io cli s)" "fop (file_array p ! unat fd) \<noteq> None"
      using c p False by (auto simp: close_call_def Let_def split: option.splits fop_table.splits)
    have "files_ok ?p" if ok: "files_ok p"
    proof (rule files_ok_set [OF ok fd(2), where f = closed_node])
      have "flags (file_array p ! unat fd) = 1" using ok fd s'(2) by (auto simp: files_ok_def node_ok_def)
      then show "open_file_num ?p = open_file_num p + uint (flags closed_node) - uint (flags (file_array p ! unat fd))"
        by (simp add: closed_node_def)
    qed (use fd ok in \<open>auto simp: node_ok_def closed_node_def files_ok_def pcb_shape_def\<close>)
    then show ?thesis unfolding s'(1) by (intro call_step_set [OF p]) (simp_all add: ancestry_def)
  qed
qed


text \<open>The descriptor the search of \<open>open\<close> ends at: number 2 when it is free; otherwise the lowest free one,
  but none at all while the last descriptor is in use.\<close>

definition free_fd :: "file_node list \<Rightarrow> nat option" where
  "free_fd a = (if flags (a ! 2) \<noteq> 0 \<and> flags (a ! 7) = 1 then None else find (\<lambda>i. flags (a ! i) = 0) [2..<8])"

lemma find_fd_last: "flags (a ! 7) \<noteq> 1 \<Longrightarrow> find_fd a is = (case find (\<lambda>i. flags (a ! i) = 0) is of Some i \<Rightarrow> Free i | None \<Rightarrow> Unset)"
  by (induction "is") auto

lemma find_fd_free:
  assumes "flags (a ! 7) \<in> {0, 1}"
  shows "find_fd a [2..<8] = (case free_fd a of None \<Rightarrow> Full | Some i \<Rightarrow> Free i)"
proof (cases "flags (a ! 7) = 1")
  case True
  have u: "[2..<8] = 2 # [3..<8]" by (simp add: upt_conv_Cons)
  show ?thesis unfolding free_fd_def u using True by simp
next
  case False
  then have "find (\<lambda>i. flags (a ! i) = 0) [2..<8] \<noteq> None"
    using assms unfolding find_None_iff by (auto intro!: bexI [of _ 7])
  then obtain i where i: "find (\<lambda>i. flags (a ! i) = 0) [2..<8] = Some i" by blast
  then have "free_fd a = Some i" using False by (simp only: free_fd_def simp_thms if_False)
  then show ?thesis unfolding find_fd_last [OF False] i by (simp only: option.case)
qed

lemma free_fd_range: "free_fd a = Some fd \<Longrightarrow> 2 \<le> fd \<and> fd < 8 \<and> flags (a ! fd) = 0"
  by (auto simp: free_fd_def find_Some_iff split: if_splits)

lemma find_fd_range: "find_fd a is = Free fd \<Longrightarrow> fd \<in> set is \<and> flags (a ! fd) = 0"
  by (induction "is") (auto split: if_splits)

lemma strcpy_store_length: "strcpy_from store v i b = Some b' \<Longrightarrow> length b' = length b"
  by (erule strcpy_from.raw_induct [where P = "\<lambda>wr v i b b'. wr = store \<longrightarrow> length b' = length b", rotated, THEN mp])
    (auto simp: store_def split: option.splits if_splits bind_splits)

lemma copy_name_length:
  assumes "copy_name fd v p = Some p'" "32 * fd \<le> length (file_names p)"
  shows "length (file_names p') = length (file_names p)"
  using assms by (auto simp: copy_name_def strcpy_def dest!: strcpy_store_length)

lemma opened_step:
  assumes "curr_pcb s = Some p" "same_procs s t" "2 \<le> fd" "fd < 8" "flags (file_array p ! fd) = 0"
    and "f = \<lparr>fop = Some ops, inode = Stack_inode, file_pos = 0, flags = 1\<rparr>" "ops \<notin> {Stdin_ops, Stdout_ops}"
    and "copy_name fd name (p\<lparr>file_array := (file_array p)[fd := f]\<rparr>) = Some q"
  shows "call_step s (set_curr_pcb (q\<lparr>open_file_num := open_file_num q + 1\<rparr>) t)"
proof (rule call_step_set [OF assms(1,2)])
  note q = copy_name_frame [OF assms(8)]
  then show "ancestry (q\<lparr>open_file_num := open_file_num q + 1\<rparr>) = ancestry p"
    "arg_buffer (q\<lparr>open_file_num := open_file_num q + 1\<rparr>) = arg_buffer p" by (simp_all add: ancestry_def)
  assume ok: "files_ok p"
  show "files_ok (q\<lparr>open_file_num := open_file_num q + 1\<rparr>)"
    by (rule files_ok_set [OF ok assms(4), where f = f])
      (use q assms(3-7) ok copy_name_length [OF assms(8)] in \<open>auto simp: node_ok_def files_ok_def pcb_shape_def\<close>)
qed

lemma ops_of_type_file: "ops_of_type t = Some ops \<Longrightarrow> ops \<notin> {Stdin_ops, Stdout_ops}"
  by (auto split: if_splits)

lemma open_entry_step:
  assumes "open_entry d name p t = Some (r, s')" "curr_pcb s = Some p" "same_procs s t"
  shows "call_step s s'"
proof (cases "same_procs s s'")
  case True
  then show ?thesis using assms(2) by (rule call_step_procs)
next
  case False
  then obtain fd ops f q where f: "find_fd (file_array p) [2..<8] = Free fd" "ops_of_type (file_type d) = Some ops"
      "f = \<lparr>fop = Some ops, inode = Stack_inode, file_pos = 0, flags = 1\<rparr>"
      "copy_name fd name (p\<lparr>file_array := (file_array p)[fd := f]\<rparr>) = Some q"
      "s' = set_curr_pcb (q\<lparr>open_file_num := open_file_num q + 1\<rparr>) t"
    using assms(1,3) unfolding open_entry_def by (auto split: fd_search.splits option.splits bind_splits simp: Let_def)
  show ?thesis unfolding f(5)
    by (rule opened_step [OF assms(2,3) _ _ _ f(3) ops_of_type_file [OF f(2)] f(4)])
      (use find_fd_range [OF f(1)] in auto)
qed

lemma two_tests:
  assumes "Option.bind A (\<lambda>r. if r = 0 then Some (x, s) else Option.bind B (\<lambda>r. if r = 0 then Some (x, s) else C)) = Some (y, s')"
  shows "s' = s \<or> C = Some (y, s')"
  using assms by (auto simp: bind_eq_Some_conv split: if_splits)

lemma open_call_cases:
  assumes "open_call a s = Some (r, s')"
  obtains p where "curr_pcb s = Some p" "same_procs s s'"
  | p d fs' where "curr_pcb s = Some p" "open_entry d (vview (con_io cli s) a) p ((con_io cli s)\<lparr>fs := fs'\<rparr>) = Some (r, s')"
proof -
  let ?s = "con_io cli s"
  obtain p where p: "curr_pcb s = Some p" using assms by (auto simp: open_call_def Let_def bind_eq_Some_conv)
  note o = assms [unfolded open_call_def Let_def curr_pcb_io p Option.bind.bind_lunit]
  from two_tests [OF o] show ?thesis
  proof
    assume "s' = ?s"
    then show ?thesis using p that(1) by simp
  next
    assume "Option.bind (read_dentry_by_name (ram ?s) (vview ?s a) (Some local_dentry) (fs ?s))
      (\<lambda>(ret, d, fs'). if ret = ERR \<or> open_file_num p = 8 then Some (ERR, ?s\<lparr>fs := fs'\<rparr>)
         else Option.bind d (\<lambda>dentry. open_entry dentry (vview ?s a) p (?s\<lparr>fs := fs'\<rparr>))) = Some (r, s')"
    then show ?thesis using p that by (auto simp: bind_eq_Some_conv split: if_splits)
  qed
qed

lemma open_call_step: "open_call a s = Some (r, s') \<Longrightarrow> call_step s s'"
  by (erule open_call_cases) (auto intro: call_step_procs open_entry_step)

section \<open>A system call\<close>

lemma syscall_step:
  assumes "syscall hs esp ebp eax ebx ecx edx s = Some (t, s')" "eax \<noteq> 1" "eax \<noteq> 2" "quiet hs" "curr_pcb s = Some p"
  shows "(\<exists>r. t = Return r) \<and> call_step s s'"
proof -
  have io: "call_step s (con_io sti (con_io cli u)) = call_step s u" "call_step (con_io sti (con_io cli s)) u = call_step s u" for u
    by (simp_all add: call_step_def)
  have "call_step s s" using call_step_procs [of s s p] assms(5) by simp
  then show ?thesis using assms unfolding syscall_def
    by (auto simp: Let_def io set_handler_def sigreturn_def bind_eq_Some_conv split: if_splits
        dest: read_call_step write_call_step open_call_step close_call_step getargs_step vidmap_step)
qed

section \<open>Opening a file\<close>

lemma all_open:
  assumes "files_ok p" "open_file_num p = 8"
  shows "free_fd (file_array p) = None"
proof -
  have len: "length (filter (\<lambda>fd. flags (file_array p ! fd) = 1) [0..<8]) = 8"
    using assms by (simp add: files_ok_def open_fds_def del: upt_rec_numeral)
  have "flags (file_array p ! fd) = 1" if "fd < 8" for fd
  proof (rule ccontr)
    assume "flags (file_array p ! fd) \<noteq> 1"
    from length_filter_less [of fd "[0..<8]" "\<lambda>fd. flags (file_array p ! fd) = 1", OF _ this] that len show False
      by (simp del: upt_rec_numeral)
  qed
  from this [of 2] this [of 7] show ?thesis by (simp add: free_fd_def)
qed

definition opened_node :: "fop_table \<Rightarrow> file_node" where
  "opened_node ops = \<lparr>fop = Some ops, inode = Stack_inode, file_pos = 0, flags = 1\<rparr>"

definition opened_as :: "nat \<Rightarrow> fop_table \<Rightarrow> u8 list \<Rightarrow> pcb \<Rightarrow> pcb \<Rightarrow> bool" where
  "opened_as fd ops cs p q \<longleftrightarrow> file_array q = (file_array p)[fd := opened_node ops] \<and>
     open_file_num q = open_file_num p + 1 \<and> holds_string (name_view q fd) cs \<and>
     take (32 * fd) (file_names q) = take (32 * fd) (file_names p) \<and> ancestry q = ancestry p \<and> arg_buffer q = arg_buffer p"

lemma same_memory_fields:
  assumes "same_memory s t"
  shows "same_procs s t" "ram t = ram s" "mmu t = mmu s" "\<exists>k. fs t = (fs s)\<lparr>file_pos_keeper := k\<rparr>"
  using assms by (auto simp: same_memory_def)

text \<open>The types of directory entries, as the file system numbers them: the clock, a directory, a regular file.\<close>

definition type_ops :: "u32 \<Rightarrow> fop_table option" where
  "type_ops ty = map_of [(0, Rtc_ops), (1, Dir_ops), (2, File_ops)] ty"

lemma ops_of_type_spec: "ops_of_type ty = type_ops ty"
  by (simp add: type_ops_def)

text \<open>The descriptor and the operations \<open>open\<close> of a file of the given type ends with.\<close>

definition open_choice :: "u32 \<Rightarrow> pcb \<Rightarrow> (nat \<times> fop_table) option" where
  "open_choice ty p = do { fd \<leftarrow> free_fd (file_array p); ops \<leftarrow> type_ops ty; Some (fd, ops) }"

lemmas open_choice_spec = open_choice_def type_ops_def

lemma open_entry_result:
  assumes "files_ok p" "holds_string name cs" "length cs < 32" "unat (curr_task_pos t) < length (pcbs t)"
  shows "case open_choice (file_type d) p of
      None \<Rightarrow> open_entry d name p t = Some (ERR, t)
    | Some (fd, ops) \<Rightarrow> \<exists>q. open_entry d name p t = Some (of_nat fd, set_curr_pcb q t) \<and>
        opened_as fd ops cs p q"
proof -
  have "node_ok 7 (file_array p ! 7)" using assms(1) by (simp add: files_ok_def)
  then have "flags (file_array p ! 7) \<in> {0, 1}" by (auto simp: node_ok_def)
  note ff = find_fd_free [OF this] ops_of_type_spec
  show ?thesis
  proof (cases "open_choice (file_type d) p")
    case None
    then show ?thesis unfolding open_entry_def ff
      by (auto simp: open_choice_def split: option.splits bind_splits)
  next
    case (Some r)
    then obtain fd ops where r: "r = (fd, ops)" "free_fd (file_array p) = Some fd" "type_ops (file_type d) = Some ops"
      by (auto simp: open_choice_def bind_eq_Some_conv)
    let ?p = "p\<lparr>file_array := (file_array p)[fd := opened_node ops]\<rparr>"
    have n: "32 * fd + length cs < length (file_names ?p)"
      using free_fd_range [OF r(2)] assms(1,3) by (simp add: files_ok_def pcb_shape_def)
    from copy_name_ok [OF assms(2) n] obtain q where q: "copy_name fd name ?p = Some q" "holds_string (name_view q fd) cs"
      by blast
    let ?q = "q\<lparr>open_file_num := open_file_num q + 1\<rparr>"
    have "open_entry d name p t = Some (of_nat fd, set_curr_pcb ?q t)"
      unfolding open_entry_def ff r(2,3) using q(1) by (simp add: opened_node_def)
    moreover have "take (32 * fd) (file_names ?q) = take (32 * fd) (file_names p)" using q(1) n by (auto simp: copy_name_def)
    ultimately show ?thesis using Some r copy_name_frame [OF q(1)] q(2)
      by (auto simp: opened_as_def name_view_def ancestry_def intro!: exI [of _ ?q])
  qed
qed

lemma strncmp_other: "holds_string v cs \<Longrightarrow> holds_string w ds \<Longrightarrow> length ds = n \<Longrightarrow> take n cs \<noteq> ds \<Longrightarrow>
    \<exists>r. strncmp v w n = Some r \<and> r \<noteq> 0"
  using strncmp_strings [of v cs w ds n] strncmp_list_zero_iff [of cs ds n] by (simp add: holds_string_def)

lemma open_call_file:
  fixes s :: "'a kernel_scheme"
  assumes p: "curr_pcb s = Some p" "files_ok p"
    and name: "holds_string (vview s a) cs" "length cs < 32" "take 5 cs \<noteq> text_of ''stdin''" "take 6 cs \<noteq> text_of ''stdout''"
    and disk: "dir_ok (ram s) (fs s)"
  shows "case Option.bind (lookup_name (ram s) (fs s) cs) (\<lambda>i. open_choice (read32 (ram s) (dentry_addr (fs s) i + 32)) p) of
      None \<Rightarrow> \<exists>s'. open_call a s = Some (ERR, s') \<and> same_memory s s'
    | Some (fd, ops) \<Rightarrow> \<exists>t q. open_call a s = Some (of_nat fd, set_curr_pcb q t) \<and> same_memory s t \<and> opened_as fd ops cs p q \<and>
        map_option int (lookup_name (ram s) (fs s) cs) = Some (file_pos_keeper (fs t))"
proof -
  let ?s = "con_io cli s"
  have v: "vview ?s a = vview s a" by (intro ext) (simp add: vview_def vload_def)
  obtain r1 where r1: "strncmp (vview s a) (list_view (c_string ''stdin'')) 5 = Some r1" "r1 \<noteq> 0"
    using strncmp_other [OF name(1) std_names(1,2) name(3)] by blast
  obtain r2 where r2: "strncmp (vview s a) (list_view (c_string ''stdout'')) 6 = Some r2" "r2 \<noteq> 0"
    using strncmp_other [OF name(1) std_names(3,4) name(4)] by blast
  have o: "open_call a s = Option.bind (read_dentry_by_name (ram s) (vview s a) (Some local_dentry) (fs s))
      (\<lambda>(ret, d, fs'). if ret = ERR \<or> open_file_num p = 8 then Some (ERR, ?s\<lparr>fs := fs'\<rparr>)
         else Option.bind d (\<lambda>dentry. open_entry dentry (vview s a) p (?s\<lparr>fs := fs'\<rparr>)))"
    unfolding open_call_def Let_def curr_pcb_io v p(1) Option.bind.bind_lunit r1(1) r2(1) using r1(2) r2(2) by simp
  have "dentry_ok local_dentry" by (simp add: dentry_ok_def local_dentry_def)
  note lk = read_dentry_by_name_lookup [OF name(1) disk this]
  show ?thesis
  proof (cases "lookup_name (ram s) (fs s) cs")
    case None
    then show ?thesis using lk o same_memory_lookup(3) by auto
  next
    case (Some i)
    let ?f = "(fs s)\<lparr>file_pos_keeper := int i\<rparr>"
    from lk Some obtain d where d: "holds_dentry (ram s) (fs s) i d"
        "read_dentry_by_name (ram s) (vview s a) (Some local_dentry) (fs s) = Some (0, Some d, ?f)" by auto
    have ty: "read32 (ram s) (dentry_addr (fs s) i + 32) = file_type d" using d(1) by (simp add: holds_dentry_def)
    show ?thesis
    proof (cases "open_file_num p = 8")
      case True
      then have "open_choice (file_type d) p = None" using all_open [OF p(2)] by (simp add: open_choice_def)
      then show ?thesis using Some o d(2) ty True same_memory_lookup(2) by auto
    next
      case False
      then have o: "open_call a s = open_entry d (vview s a) p (?s\<lparr>fs := ?f\<rparr>)" using o d(2) by simp
      have "unat (curr_task_pos (?s\<lparr>fs := ?f\<rparr>)) < length (pcbs (?s\<lparr>fs := ?f\<rparr>))"
        using p(1) by (simp add: curr_pcb_def split: if_splits)
      note e = open_entry_result [OF p(2) name(1,2) this, of d]
      show ?thesis
      proof (cases "open_choice (file_type d) p")
        case None
        then show ?thesis using e o ty Some same_memory_lookup(2) by auto
      next
        case c: (Some r)
        obtain fd ops where r: "r = (fd, ops)" by (cases r)
        with e c obtain q where "open_entry d (vview s a) p (?s\<lparr>fs := ?f\<rparr>) = Some (of_nat fd, set_curr_pcb q (?s\<lparr>fs := ?f\<rparr>))"
            "opened_as fd ops cs p q" by auto
        moreover have "int i = file_pos_keeper (fs (?s\<lparr>fs := ?f\<rparr>))" by simp
        ultimately have "\<exists>t q. open_call a s = Some (of_nat fd, set_curr_pcb q t) \<and> same_memory s t \<and> opened_as fd ops cs p q \<and>
            int i = file_pos_keeper (fs t)"
          using o same_memory_lookup(2) by metis
        then show ?thesis using Some ty c r by simp
      qed
    qed
  qed
qed

section \<open>A program at work\<close>

text \<open>Between \<open>execute\<close> and \<open>halt\<close> a program makes system calls that return, stores into its own pages, and is
  interrupted by handlers that leave the tasks alone. None of it writes into the kernel's frame: no page of a program
  is there, and a call with a pointer into it has no result.\<close>

inductive program_step :: "'a kernel_scheme \<Rightarrow> 'a kernel_scheme \<Rightarrow> bool" where
  call: "syscall hs esp ebp eax ebx ecx edx s = Some (Return r, s') \<Longrightarrow> eax \<noteq> 1 \<Longrightarrow> eax \<noteq> 2 \<Longrightarrow> quiet hs \<Longrightarrow> program_step s s'"
| user_store: "translate (mmu s) True va = Some pa \<Longrightarrow> \<not> kernel_frame pa \<Longrightarrow> program_step s (s\<lparr>ram := (ram s)(pa := x)\<rparr>)"
| interrupt: "quiet [h] \<Longrightarrow> program_step s (h s)"

lemma call_step_trans: "call_step s t \<Longrightarrow> call_step t u \<Longrightarrow> call_step s u"
  unfolding call_step_def by (auto simp: curr_pcb_def split: if_splits)

lemma program_step_call: "program_step s s' \<Longrightarrow> curr_pcb s = Some p \<Longrightarrow> call_step s s'"
proof (induction rule: program_step.induct)
  case (call hs esp ebp eax ebx ecx edx s r s')
  then show ?case using syscall_step by blast
next
  case (user_store s va pa x)
  then show ?case by (intro call_step_procs) auto
next
  case (interrupt h s)
  then show ?case by (intro call_step_procs) (simp_all add: quiet_def)
qed

lemma program_steps_call: "program_step\<^sup>*\<^sup>* s t \<Longrightarrow> curr_pcb s = Some p \<Longrightarrow> call_step s t"
proof (induction rule: rtranclp_induct)
  case base
  then show ?case by (intro call_step_procs) auto
next
  case (step t u)
  then have "call_step s t" by blast
  moreover from this obtain q where "curr_pcb t = Some q" using call_step_files by blast
  ultimately show ?case using program_step_call [OF step.hyps(2)] call_step_trans by blast
qed

lemma process_halts:
  fixes s :: "'a kernel_scheme"
  assumes s: "tasks_ok s" "runn_task_num s \<noteq> 0" "task_bitmap s ! 0 \<noteq> 0"
    and caller: "pcb_index (esp AND PROCESSMASK) = Some (unat (curr_task_pos s))"
      "task_bitmap s ! unat (curr_task_pos s) \<noteq> 0"
      "process_id (pcbs s ! unat (curr_task_pos s)) = uint (curr_task_pos s)"
    and start: "execute esp ebp command s = Some (User_mode addr usp, s1)"
    and run: "\<And>p. curr_pcb s1 = Some p \<Longrightarrow> call_step s1 s2"
  shows "\<exists>s' k. halt status s2 = Some (Resume esp ebp (expand_status status), s') \<and>
    k < 6 \<and> task_bitmap s ! k = 0 \<and> pcbs s' = (pcbs s)[k := zero_pcb] \<and>
    curr_task_pos s' = curr_task_pos s \<and> runn_task_num s' = runn_task_num s \<and> task_bitmap s' = task_bitmap s \<and>
    tss_esp0 s' = kernel_stack (curr_task_pos s) \<and> mmu s' = enable_paging (set_task_page (curr_task_pos s) (mmu s2))"
proof -
  from execute_bookkeeping [OF start] obtain p where
    e: "runn_task_num s < 6" "curr_task_pos s1 = curr_task_pos (claim_slot s)" "pcbs s1 = (pcbs s)[unat (curr_task_pos s1) := p]"
    by blast
  obtain k where k: "k < 6" "task_bitmap s ! k = 0" "curr_task_pos s1 = of_nat k"
    using tasks_ok_claim [OF s(1) e(1)] e(2) by metis
  have uk: "unat (curr_task_pos s1) = k" using k u8_position [of k] by simp
  have "curr_pcb s1 = Some p" using e(3) uk k(1) s(1) by (simp add: curr_pcb_def tasks_ok_def)
  then have step: "call_step s1 s2" by (rule run)
  then obtain q where q: "pcbs s2 = (pcbs s)[k := q]" using e(3) uk by (auto simp: call_step_def)
  from execute_halt [OF s caller start call_step_same_tasks [OF step], of status] obtain s' where
    "halt status s2 = Some (Resume esp ebp (expand_status status), s')" "pcbs s' = (pcbs s2)[k := zero_pcb]"
    "curr_task_pos s' = curr_task_pos s" "runn_task_num s' = runn_task_num s" "task_bitmap s' = task_bitmap s"
    "tss_esp0 s' = kernel_stack (curr_task_pos s)" "mmu s' = enable_paging (set_task_page (curr_task_pos s) (mmu s2))"
    unfolding uk by blast
  then show ?thesis using k(1,2) q by (intro exI [of _ s'] exI [of _ k]) simp
qed




section \<open>A process with an open file\<close>

definition demo_pcb :: pcb where
  "demo_pcb = zero_pcb\<lparr>file_array := std_files[2 := opened_node File_ops], open_file_num := 3,
     file_names := replicate 64 0 @ 0x61 # 0 # replicate 190 0, arg_buffer := 0x78 # 0 # replicate 98 0\<rparr>"

definition demo_shell :: kernel where
  "demo_shell = demo_kernel\<lparr>pcbs := (replicate 6 zero_pcb)[0 := demo_pcb]\<rparr>"

lemma demo_shell_fields:
  "ram demo_shell = demo_ram" "fs demo_shell = demo_files" "curr_task_pos demo_shell = 0"
  "mmu demo_shell = set_task_page (of_nat 0) (init_paging demo_paging)" "curr_pcb demo_shell = Some demo_pcb"
  by (simp_all add: demo_shell_def demo_kernel_def curr_pcb_def)

lemma demo_pcb_ok: "files_ok demo_pcb" "file_array demo_pcb ! 2 = opened_node File_ops" "open_file_num demo_pcb = 3"
  "length (file_array demo_pcb) = 8"
proof -
  have n: "i = 0 \<or> i = 1 \<or> i = 2 \<or> i = 3 \<or> i = 4 \<or> i = 5 \<or> i = 6 \<or> i = 7" if "i < 8" for i :: nat using that by linarith
  have a: "file_array demo_pcb = std_files[2 := opened_node File_ops]" by (simp add: demo_pcb_def)
  then have l: "file_array demo_pcb = [\<lparr>fop = Some Stdin_ops, inode = Null_inode, file_pos = 0, flags = 1\<rparr>,
     \<lparr>fop = Some Stdout_ops, inode = Null_inode, file_pos = 0, flags = 1\<rparr>, opened_node File_ops, closed_node, closed_node,
     closed_node, closed_node, closed_node]"
    by (simp add: std_files_def numeral_eq_Suc)
  have "node_ok i (file_array demo_pcb ! i)" if "i < 8" for i
    using n [OF that] unfolding l by (elim disjE) (simp_all add: node_ok_def opened_node_def closed_node_def)
  moreover have "open_fds demo_pcb = [0, 1, 2]"
    unfolding open_fds_def l by (simp add: opened_node_def closed_node_def upt_conv_Cons)
  ultimately show "files_ok demo_pcb"
    by (simp add: files_ok_def l) (simp add: pcb_shape_def demo_pcb_def zero_pcb_def std_files_def)
  show "file_array demo_pcb ! 2 = opened_node File_ops" "open_file_num demo_pcb = 3" "length (file_array demo_pcb) = 8"
    unfolding l by (simp_all add: demo_pcb_def)
qed


section \<open>Opening and closing\<close>

lemma two_open: "files_ok p \<Longrightarrow> 2 \<le> open_file_num p"
proof -
  assume ok: "files_ok p"
  then have "node_ok 0 (file_array p ! 0)" "node_ok 1 (file_array p ! 1)" by (simp_all add: files_ok_def)
  then have "flags (file_array p ! 0) = 1" "flags (file_array p ! 1) = 1" using ok by (auto simp: files_ok_def node_ok_def)
  moreover have "[0..<8] = 0 # 1 # [2..<8]" by (simp add: upt_conv_Cons)
  ultimately have "2 \<le> length (open_fds p)" unfolding open_fds_def by simp
  then show ?thesis using ok by (simp add: files_ok_def)
qed

lemma open_choice_range:
  "open_choice ty p = Some (fd, ops) \<Longrightarrow> 2 \<le> fd \<and> fd < 8 \<and> flags (file_array p ! fd) = 0 \<and> ops \<notin> {Stdin_ops, Stdout_ops}"
  using ops_of_type_file [unfolded ops_of_type_spec] free_fd_range by (auto simp: open_choice_def bind_eq_Some_conv)

lemma fd_sint: "fd < 8 \<Longrightarrow> sint (of_nat fd :: u32) = int fd \<and> unat (of_nat fd :: u32) = fd"
  by (simp add: unat_offset sint_uint uint_nat signed_take_bit_int_eq_self)

text \<open>C15: \<open>open\<close> looks the name up in the directory and takes the lowest free descriptor from 2 on for an entry
  of a known type: the descriptor gets the operations of the type (the clock for type 0, the directory for type 1, a
  regular file for type 2) and position 0, the name is kept, and the counter goes up, and a listing of the directory
  is set to the entry. It fails with -1 and without effect on the process for a name that is not in the directory, an
  unknown type, a full table, and also whenever the last descriptor is in use and descriptor 2 is not free.\<close>

theorem open_call_opens:
  assumes "curr_pcb s = Some p" "files_ok p" "holds_string (vview s a) cs" "length cs < 32"
    and "take 5 cs \<noteq> text_of ''stdin''" "take 6 cs \<noteq> text_of ''stdout''" "dir_ok (ram s) (fs s)"
  shows "case Option.bind (lookup_name (ram s) (fs s) cs) (\<lambda>i. open_choice (read32 (ram s) (dentry_addr (fs s) i + 32)) p) of
      None \<Rightarrow> \<exists>s'. open_call a s = Some (ERR, s') \<and> same_memory s s'
    | Some (fd, ops) \<Rightarrow> \<exists>t q. open_call a s = Some (of_nat fd, set_curr_pcb q t) \<and> same_memory s t \<and> opened_as fd ops cs p q \<and>
        map_option int (lookup_name (ram s) (fs s) cs) = Some (file_pos_keeper (fs t))"
  using assms by (rule open_call_file)

lemma demo_open_name: "holds_string (vview demo_shell 0x08048102) [0x78]" "take 5 [0x78] \<noteq> text_of ''stdin''"
    "take 6 [0x78] \<noteq> text_of ''stdout''" "dir_ok (ram demo_shell) (fs demo_shell)"
proof -
  have "vview demo_shell = vview demo_kernel" by (intro ext) (simp add: vview_def vload_def demo_shell_def)
  then show "holds_string (vview demo_shell 0x08048102) [0x78]" using demo_command_x by simp
qed (simp_all add: text_of_def demo_shell_fields demo_dir_ok)

lemma demo_choice: "open_choice (read32 demo_ram (dentry_addr demo_files 0 + 32)) demo_pcb = Some (3, File_ops)"
proof -
  have "read32 demo_ram (dentry_addr demo_files 0 + 32) = 2" by code_simp
  moreover have "find (\<lambda>i. flags (file_array demo_pcb ! i) = 0) [2..<8] = Some 3"
    by (simp add: upt_conv_Cons demo_pcb_def std_files_def opened_node_def closed_node_def)
  moreover have "flags (file_array demo_pcb ! 7) = 0"
    by (simp add: demo_pcb_def std_files_def closed_node_def)
  ultimately show ?thesis by (simp only: open_choice_def free_fd_def type_ops_def) simp
qed

lemma demo_open_a: "holds_string (vview demo_shell 0x08048110) [0x61]" "take 5 [0x61] \<noteq> text_of ''stdin''"
    "take 6 [0x61] \<noteq> text_of ''stdout''"
proof -
  have "vview demo_shell = vview demo_kernel" by (intro ext) (simp add: vview_def vload_def demo_shell_def)
  then show "holds_string (vview demo_shell 0x08048110) [0x61]" using demo_file_name by simp
qed (simp_all add: text_of_def)

theorem open_call_opens_witness:
  "(\<exists>t q. open_call 0x08048110 demo_shell = Some (3, set_curr_pcb q t) \<and> same_memory demo_shell t \<and>
      file_array q = (file_array demo_pcb)[3 := \<lparr>fop = Some File_ops, inode = Stack_inode, file_pos = 0, flags = 1\<rparr>] \<and>
      open_file_num q = 4 \<and> holds_string (name_view q 3) [0x61]) \<and>
   (\<exists>s'. open_call 0x08048102 demo_shell = Some (ERR, s') \<and> same_memory demo_shell s')"
proof
  show "\<exists>t q. open_call 0x08048110 demo_shell = Some (3, set_curr_pcb q t) \<and> same_memory demo_shell t \<and>
      file_array q = (file_array demo_pcb)[3 := \<lparr>fop = Some File_ops, inode = Stack_inode, file_pos = 0, flags = 1\<rparr>] \<and>
      open_file_num q = 4 \<and> holds_string (name_view q 3) [0x61]"
    using open_call_opens [OF demo_shell_fields(5) demo_pcb_ok(1) demo_open_a(1) _ demo_open_a(2,3) demo_open_name(4)]
    by (auto simp: demo_shell_fields demo_program(2) demo_choice demo_pcb_ok(3) opened_as_def opened_node_def)
  show "\<exists>s'. open_call 0x08048102 demo_shell = Some (ERR, s') \<and> same_memory demo_shell s'"
    using open_call_opens [OF demo_shell_fields(5) demo_pcb_ok(1) demo_open_name(1) _ demo_open_name(2-4)]
    by (simp add: demo_shell_fields demo_no_file)
qed

text \<open>C16: Closing the descriptor a successful \<open>open\<close> returned undoes it: the table of open files and the counter
  are as before, and so are memory and the page tables.\<close>

theorem open_close_round_trip:
  assumes p: "curr_pcb s = Some p" "files_ok p" "holds_string (vview s a) cs" "length cs < 32"
      "take 5 cs \<noteq> text_of ''stdin''" "take 6 cs \<noteq> text_of ''stdout''" "dir_ok (ram s) (fs s)"
    and found: "lookup_name (ram s) (fs s) cs = Some i" "open_choice (read32 (ram s) (dentry_addr (fs s) i + 32)) p = Some (fd, ops)"
  shows "\<exists>s1 s2 q. open_call a s = Some (of_nat fd, s1) \<and> close_call (of_nat fd) s1 = Some (0, s2) \<and> curr_pcb s2 = Some q \<and>
    file_array q = file_array p \<and> open_file_num q = open_file_num p \<and> files_ok q \<and> ram s2 = ram s \<and> mmu s2 = mmu s"
proof -
  from open_call_file [OF p] found obtain t q where
    o: "open_call a s = Some (of_nat fd, set_curr_pcb q t)" "same_memory s t" "opened_as fd ops cs p q" by auto
  let ?s1 = "set_curr_pcb q t"
  have c: "curr_pcb ?s1 = Some q"
    using p(1) same_memory_fields(1) [OF o(2)] by (auto simp: curr_pcb_def set_curr_pcb_def same_procs_def split: if_splits)
  have "files_ok q" using call_step_files [OF open_call_step [OF o(1)]] p(1,2) c by auto
  have r: "2 \<le> fd" "fd < 8" "flags (file_array p ! fd) = 0" "ops \<notin> {Stdin_ops, Stdout_ops}"
    using open_choice_range [OF found(2)] by auto
  have len: "length (file_array p) = 8" using p(2) by (simp add: files_ok_def pcb_shape_def)
  have old: "file_array p ! fd = closed_node" using p(2) r(2,3) by (auto simp: files_ok_def node_ok_def)
  have q: "file_array q = (file_array p)[fd := opened_node ops]" "open_file_num q = open_file_num p + 1"
    using o(3) by (simp_all add: opened_as_def)
  let ?q = "q\<lparr>file_array := (file_array q)[fd := closed_node], open_file_num := open_file_num q - 1\<rparr>"
  have "fop (file_array q ! fd) = Some ops" using q(1) r(2) len by (simp add: opened_node_def)
  then have cl: "close_call (of_nat fd) ?s1 = Some (0, set_curr_pcb ?q (con_io cli ?s1))"
    using c r fd_sint [OF r(2)] q(2) two_open [OF p(2)]
    by (auto simp: close_call_def Let_def split: fop_table.split)
  have "(file_array q)[fd := closed_node] = file_array p" using q(1) old by (metis list_update_id list_update_overwrite)
  moreover have "curr_pcb (set_curr_pcb ?q (con_io cli ?s1)) = Some ?q"
    using c by (auto simp: curr_pcb_def set_curr_pcb_def split: if_splits)
  moreover from this have "files_ok ?q" using call_step_files [OF close_call_step [OF cl]] c \<open>files_ok q\<close> by auto
  moreover have "ram (set_curr_pcb ?q (con_io cli ?s1)) = ram s" "mmu (set_curr_pcb ?q (con_io cli ?s1)) = mmu s"
    using same_memory_fields [OF o(2)] by simp_all
  ultimately show ?thesis using o(1) cl q(2) by (intro exI [of _ ?s1] exI [of _ "set_curr_pcb ?q (con_io cli ?s1)"] exI [of _ ?q]) simp
qed

theorem open_close_round_trip_witness:
  "\<exists>s1 s2 q. open_call 0x08048110 demo_shell = Some (3, s1) \<and> close_call 3 s1 = Some (0, s2) \<and>
    curr_pcb s2 = Some q \<and> file_array q = file_array demo_pcb \<and> open_file_num q = 3"
proof -
  show ?thesis
    using open_close_round_trip [OF demo_shell_fields(5) demo_pcb_ok(1) demo_open_a(1) _ demo_open_a(2,3) demo_open_name(4), of 0 3 File_ops]
      demo_choice demo_program(2) demo_pcb_ok(3) by (auto simp: demo_shell_fields)
qed

section \<open>Reading an open file\<close>

lemma read_call_file:
  fixes s :: "'a kernel_scheme"
  assumes p: "curr_pcb s = Some p" "files_ok p" "fd < 8" "fop (file_array p ! fd) = Some File_ops"
      "holds_string (name_view p fd) cs"
    and disk: "dir_ok (ram s) (fs s)" "lookup_name (ram s) (fs s) cs = Some i" "ino = read32 (ram s) (dentry_addr (fs s) i + 36)"
      "ino < num_inodes (ram s) (fs s)" "off = file_pos (file_array p ! fd)" "blocks_valid (ram s) (fs s) ino (unat off) (unat nbytes)"
      "n = min (unat nbytes) (unat (inode_length (ram s) (fs s) ino) - unat off)"
    and buf: "buf \<noteq> 0" "maps_range (mmu s) buf pa n"
  defines "q \<equiv> p\<lparr>file_array := (file_array p)[fd := (file_array p ! fd)\<lparr>file_pos := off + of_nat n\<rparr>]\<rparr>"
  defines "t \<equiv> s\<lparr>fs := (fs s)\<lparr>file_pos_keeper := int i\<rparr>, ram := write_bytes (ram s) pa (map (file_byte (ram s) (fs s) ino) [unat off..<unat off + n])\<rparr>"
  shows "read_call hs (of_nat fd) buf nbytes s = (if off_kernel pa n then Some (of_nat n, set_curr_pcb q t) else None)"
    "curr_pcb (set_curr_pcb q t) = Some q" "files_ok q"
proof -
  let ?f = "(fs s)\<lparr>file_pos_keeper := int i\<rparr>" and ?b = "map (file_byte (ram s) (fs s) ino) [unat off..<unat off + n]"
  have "dentry_ok local_dentry" by (simp add: dentry_ok_def local_dentry_def)
  from filesys_read_helper_spec [OF p(5) disk(1) this, where buf = buf and offset = off and nbytes = nbytes] disk buf(1)
  have h: "filesys_read_helper (ram s) (Some (name_view p fd)) off buf nbytes local_dentry (fs s) = Some (of_nat n, ?b, ?f)"
    by (simp add: Let_def)
  have w: "uwrite buf ?b (s\<lparr>fs := ?f\<rparr>) = (if off_kernel pa n then Some t else None)"
    using uwrite_range [of "s\<lparr>fs := ?f\<rparr>" buf pa ?b] buf(2) by (simp add: t_def)
  have fl: "flags (file_array p ! fd) \<noteq> 0" using p(2-4) by (auto simp: files_ok_def node_ok_def)
  have "filesys_read fd buf nbytes s = (if off_kernel pa n then Some (of_nat n, set_curr_pcb q t) else None)"
    using p(1) h w disk(5) by (simp add: filesys_read_def Let_def q_def)
  moreover have "open_node (of_nat fd) p = Some (file_array p ! fd)"
    using fd_sint [OF p(3)] p(3,4) fl by (auto simp: open_node_def Let_def)
  ultimately show "read_call hs (of_nat fd) buf nbytes s = (if off_kernel pa n then Some (of_nat n, set_curr_pcb q t) else None)"
    using p(1,4) fd_sint [OF p(3)] by (simp add: read_call_def)
  show "curr_pcb (set_curr_pcb q t) = Some q"
    using p(1) by (auto simp: curr_pcb_def set_curr_pcb_def t_def split: if_splits)
  show "files_ok q" using files_ok_move [OF p(2,3) fl, of "off + of_nat n"] by (simp add: q_def)
qed

text \<open>C17: A read of an open regular file returns the next bytes of the file, as many as asked for and left:
  they stand at the buffer, nothing else of memory changes, the position of the descriptor moves behind them, and
  the result is their number, 0 at the end of the file. A buffer that reaches into the kernel's own frame is written
  all the same, and what the call does then is not defined by the model.\<close>

theorem read_call_reads_file:
  fixes s :: "'a kernel_scheme"
  assumes p: "curr_pcb s = Some p" "files_ok p" "fd < 8" "fop (file_array p ! fd) = Some File_ops"
      "holds_string (name_view p fd) cs"
    and disk: "dir_ok (ram s) (fs s)" "lookup_name (ram s) (fs s) cs = Some i" "ino = read32 (ram s) (dentry_addr (fs s) i + 36)"
      "ino < num_inodes (ram s) (fs s)" "off = file_pos (file_array p ! fd)" "blocks_valid (ram s) (fs s) ino (unat off) (unat nbytes)"
      "n = min (unat nbytes) (unat (inode_length (ram s) (fs s) ino) - unat off)"
    and buf: "buf \<noteq> 0" "maps_range (mmu s) buf pa n"
  shows "if off_kernel pa n
    then \<exists>s' q. read_call hs (of_nat fd) buf nbytes s = Some (of_nat n, s') \<and>
      ram s' = write_bytes (ram s) pa (map (file_byte (ram s) (fs s) ino) [unat off..<unat off + n]) \<and>
      curr_pcb s' = Some q \<and> files_ok q \<and>
      file_array q = (file_array p)[fd := (file_array p ! fd)\<lparr>file_pos := off + of_nat n\<rparr>]
    else read_call hs (of_nat fd) buf nbytes s = None"
proof -
  let ?q = "p\<lparr>file_array := (file_array p)[fd := (file_array p ! fd)\<lparr>file_pos := off + of_nat n\<rparr>]\<rparr>"
  let ?t = "s\<lparr>fs := (fs s)\<lparr>file_pos_keeper := int i\<rparr>, ram := write_bytes (ram s) pa (map (file_byte (ram s) (fs s) ino) [unat off..<unat off + n])\<rparr>"
  note r = read_call_file [OF p disk buf]
  show ?thesis
  proof (cases "off_kernel pa n")
    case True
    then have "read_call hs (of_nat fd) buf nbytes s = Some (of_nat n, set_curr_pcb ?q ?t)" using r(1) [of hs] by simp
    moreover have "ram (set_curr_pcb ?q ?t) = write_bytes (ram s) pa (map (file_byte (ram s) (fs s) ino) [unat off..<unat off + n])" by simp
    moreover have "file_array ?q = (file_array p)[fd := (file_array p ! fd)\<lparr>file_pos := off + of_nat n\<rparr>]" by simp
    ultimately show ?thesis using True r(2,3) by metis
  next
    case False
    then show ?thesis using r(1) [of hs] by simp
  qed
qed

theorem read_call_reads_file_witness:
  "\<exists>s'. read_call [] 2 0x08048200 4 demo_shell = Some (4, s') \<and>
    ram s' = write_bytes demo_ram 0x848200 (map (file_byte demo_ram demo_files 0) [0..<4])"
proof -
  have "maps_range (mmu demo_shell) (0x08000000 + of_nat 0x48200) (task_frame 0 + of_nat 0x48200) 4"
    unfolding demo_shell_fields by (rule maps_range_task) (simp_all add: paging_ok_steps demo_paging_ok)
  then have m: "maps_range (mmu demo_shell) 0x08048200 0x848200 4" by (simp add: task_frame_def)
  have "drop 64 (file_names demo_pcb) = 0x61 # 0 # replicate 190 0" by (simp add: demo_pcb_def)
  then have n: "holds_string (name_view demo_pcb 2) [0x61]"
    unfolding name_view_def by (intro holds_string_list) simp_all
  have f: "fop (file_array demo_pcb ! 2) = Some File_ops" "0 = file_pos (file_array demo_pcb ! 2)" "(2 :: nat) < 8"
    by (simp_all add: demo_pcb_ok opened_node_def)
  have d: "lookup_name (ram demo_shell) (fs demo_shell) [0x61] = Some 0"
    "0 = read32 (ram demo_shell) (dentry_addr (fs demo_shell) 0 + 36)" "0 < num_inodes (ram demo_shell) (fs demo_shell)"
    "blocks_valid (ram demo_shell) (fs demo_shell) 0 (unat (0 :: u32)) (unat (4 :: u32))"
    "4 = min (unat (4 :: u32)) (unat (inode_length (ram demo_shell) (fs demo_shell) 0) - unat (0 :: u32))"
    by (simp_all add: demo_shell_fields demo_inode demo_program(2) blocks_valid_def)
  from read_call_reads_file [OF demo_shell_fields(5) demo_pcb_ok(1) f(3,1) n demo_open_name(4) d(1-3) f(2) d(4,5) _ m, of "[]"]
  show ?thesis using off_kernel_high [of "0x848200" 4] unfolding demo_shell_fields(1,2) by fastforce
qed

section \<open>Arguments and the video page\<close>

lemma strcpy_from_vwrite:
  fixes s :: "'a vm_scheme"
  assumes "holds_string v cs" "i \<le> length cs"
  shows "strcpy_from (\<lambda>s i x. vstore (buf + of_nat i) x s) v i s = vwrite (buf + of_nat i) (drop i cs @ [0]) s"
  using assms(2)
proof (induction "length cs - i" arbitrary: i s)
  case 0
  then have "i = length cs" by simp
  then show ?case using assms(1)
    by (subst strcpy_from.simps) (cases "vstore (buf + of_nat (length cs)) 0 s"; simp add: holds_string_def)
next
  case (Suc n)
  then have i: "i < length cs" by simp
  have v: "v i = Some (cs ! i)" "cs ! i \<noteq> 0" using nth_mem [OF i] i assms(1) unfolding holds_string_def by metis+
  have "strcpy_from (\<lambda>s i x. vstore (buf + of_nat i) x s) v (Suc i) t = vwrite (buf + of_nat i + 1) (drop (Suc i) cs @ [0]) t"
      for t :: "'a vm_scheme"
    using Suc.hyps(1) [of "i + 1" t] Suc.hyps(2) i by (simp add: add.assoc add.commute [of 1])
  then have "strcpy_from (\<lambda>s i x. vstore (buf + of_nat i) x (s :: 'a vm_scheme)) v (Suc i) =
      vwrite (buf + of_nat i + 1) (drop (Suc i) cs @ [0])" by (rule ext)
  then show ?case using v i by (subst strcpy_from.simps) (simp flip: Cons_nth_drop_Suc)
qed

lemma getargs_result:
  assumes p: "curr_pcb s = Some p" "holds_string (list_view (arg_buffer p)) cs" "length cs < 100"
    and buf: "maps_range (mmu s) buf pa (length cs + 1)"
  shows "if buf = 0 \<or> nbytes = 0 \<or> length cs > unat nbytes \<or> cs = []
    then getargs buf nbytes s = Some (ERR, con_io cli s)
    else if off_kernel pa (length cs + 1)
    then getargs buf nbytes s = Some (0, (con_io cli s)\<lparr>ram := write_bytes (ram s) pa (cs @ [0])\<rparr>)
    else getargs buf nbytes s = None"
proof -
  have len: "strlen (list_view (arg_buffer p)) = Some (length cs)" by (rule strlen_string [OF p(2)])
  have "unat (of_nat (length cs) :: u32) = length cs" using p(3) by (simp add: unat_offset)
  then have cmp: "(of_nat (length cs) > nbytes) = (length cs > unat nbytes)" by (simp add: word_less_nat_alt)
  have "strcpy (\<lambda>s i x. vstore (buf + of_nat i) x s) (con_io cli s) (list_view (arg_buffer p)) =
      Some ((con_io cli s)\<lparr>ram := write_bytes (ram s) pa (cs @ [0])\<rparr>)"
    unfolding strcpy_def using strcpy_from_vwrite [OF p(2), of 0 buf "con_io cli s"] vwrite_range [of "con_io cli s" buf pa "cs @ [0]"] buf
    by simp
  moreover have "spares_kernel (con_io cli s) buf (Suc (length cs)) = off_kernel pa (Suc (length cs))"
    using spares_range [of "con_io cli s" buf pa "Suc (length cs)"] buf by simp
  ultimately show ?thesis using p(1) len cmp by (auto simp: getargs_def Let_def)
qed

text \<open>C18: \<open>getargs\<close> copies the argument text of the process and its terminator to the buffer and returns 0 when the
  text is not empty and not longer than the given size; otherwise, and for a null buffer, it returns -1 and
  changes nothing. A text of exactly the given size is accepted, so one byte more than the size is written. A buffer that reaches into the
  kernel's own frame is written all the same, and what the call does then is not defined by the model.\<close>

theorem getargs_copies_arguments:
  assumes p: "curr_pcb s = Some p" "holds_string (list_view (arg_buffer p)) cs" "length cs < 100"
    and buf: "maps_range (mmu s) buf pa (length cs + 1)"
  shows "if buf = 0 \<or> nbytes = 0 \<or> length cs > unat nbytes \<or> cs = []
    then getargs buf nbytes s = Some (ERR, con_io cli s)
    else if off_kernel pa (length cs + 1)
    then getargs buf nbytes s = Some (0, (con_io cli s)\<lparr>ram := write_bytes (ram s) pa (cs @ [0])\<rparr>)
    else getargs buf nbytes s = None"
  using assms by (rule getargs_result)

theorem getargs_copies_arguments_witness:
  "getargs 0x08048200 10 demo_shell = Some (0, (con_io cli demo_shell)\<lparr>ram := write_bytes demo_ram 0x848200 [0x78, 0]\<rparr>) \<and>
   getargs 0x08048200 0 demo_shell = Some (ERR, con_io cli demo_shell)"
proof -
  have "maps_range (mmu demo_shell) (0x08000000 + of_nat 0x48200) (task_frame 0 + of_nat 0x48200) 2"
    unfolding demo_shell_fields by (rule maps_range_task) (simp_all add: paging_ok_steps demo_paging_ok)
  then have m: "maps_range (mmu demo_shell) 0x08048200 0x848200 (length [0x78 :: u8] + 1)" by (simp add: task_frame_def numeral_2_eq_2)
  have "arg_buffer demo_pcb = 0x78 # 0 # replicate 98 0" by (simp add: demo_pcb_def)
  then have a: "holds_string (list_view (arg_buffer demo_pcb)) [0x78]" by (intro holds_string_list) simp_all
  note g = getargs_copies_arguments [OF demo_shell_fields(5) a _ m]
  show ?thesis using g [of 10] g [of 0] off_kernel_high [of "0x848200" "Suc (Suc 0)"] by (simp add: demo_shell_fields)
qed

lemma video_address:
  assumes "k < 4096"
  shows "drop_bit 12 (0x08800000 + of_nat k :: u32) = 0x8800" "take_bit 12 (0x08800000 + of_nat k :: u32) = of_nat k"
proof -
  have u: "unat (0x08800000 + of_nat k :: u32) = 0x08800000 + k"
    using unat_offset [of "0x08800000 + k"] assms by simp
  have "unat (drop_bit 12 (0x08800000 + of_nat k :: u32)) = 0x8800"
    using assms by (simp add: drop_bit_eq_div unat_div u)
  then show "drop_bit 12 (0x08800000 + of_nat k :: u32) = 0x8800" using unat_eq_offset [of "0x8800"] by simp
  have "(4096 * 34816 + k) mod 4096 = k mod 4096" by (rule mod_mult_self4)
  also have "\<dots> = k" using assms by simp
  finally have "(4096 * 34816 + k) mod 4096 = k" .
  then have "(0x08800000 + k) mod 4096 = k" by simp
  then have "unat (take_bit 12 (0x08800000 + of_nat k :: u32)) = k" by (simp add: take_bit_eq_mod unat_mod u)
  then show "take_bit 12 (0x08800000 + of_nat k :: u32) = of_nat k" using assms unat_eq_offset [of k] by simp
qed

text \<open>C19: \<open>vidmap\<close> of an address inside the page of the program stores the address 0x08800000 there and maps the
  page at that address to video memory, for user mode too, while the page of the program stays as it was; an
  address outside of the page is refused with -1 and without effect. The result on success is the mapped address.\<close>

theorem vidmap_maps_screen:
  assumes m: "paging_ok m" "pos < 6" "mmu s = set_task_page (of_nat pos) m"
    and a: "a = 0x08000000 + of_nat k" "k + 4 \<le> 0x400000"
  shows "(\<exists>s'. vidmap a s = Some (0x08800000, s') \<and>
      ram s' = write_bytes (ram s) (task_frame pos + of_nat k) (bytes32 0x08800000) \<and>
      (\<forall>user j. j < 4096 \<longrightarrow> translate (mmu s') user (0x08800000 + of_nat j) = Some (0xB8000 + of_nat j)) \<and>
      (\<forall>user va. drop_bit 22 va = 32 \<longrightarrow> translate (mmu s') user va = translate (mmu s) user va)) \<and>
    (\<forall>b. b < 0x08000000 \<or> b \<ge> 0x08400000 \<longrightarrow> vidmap b s = Some (ERR, s))"
proof (intro conjI allI impI)
  have ok: "paging_ok (mmu s)" using m by (simp add: paging_ok_steps)
  let ?p = "enable_paging (set_video_page VIDEO (mmu s))"
  have v: "translate ?p user (0x08800000 + of_nat j) = Some (0xB8000 + of_nat j)" if "j < 4096" for user j
    using translate_set_video_page [OF ok, of VIDEO] video_address [OF that] by simp
  have big: "bit (page_dir (mmu s) ! 32) 7"
    using m task_page_bits(2) [OF m(2)] by (simp add: set_task_page_entry paging_ok_def)
  have t: "translate ?p user va = translate (mmu s) user va" if "drop_bit 22 va = 32" for user va
    using translate_set_video_page_other [OF ok, of va VIDEO user] that big by simp
  have "maps_range (mmu s) a (task_frame pos + of_nat k) 4"
    unfolding m(3) a(1) by (rule maps_range_task [OF m(1,2) a(2)])
  then have "maps_range ?p a (task_frame pos + of_nat k) 4"
    unfolding maps_range_def using t task_address(1) a by (simp add: add.assoc flip: of_nat_add)
  moreover have "length (bytes32 x) = 4" for x by (simp add: bytes32_def)
  moreover have "off_kernel (task_frame pos + of_nat k) 4" by (rule off_kernel_task [OF m(2) a(2)])
  ultimately have w: "uwrite a (bytes32 0x08800000) (s\<lparr>mmu := ?p\<rparr>) =
      Some (s\<lparr>mmu := ?p, ram := write_bytes (ram s) (task_frame pos + of_nat k) (bytes32 0x08800000)\<rparr>)"
    using uwrite_range [of "s\<lparr>mmu := ?p\<rparr>" a "task_frame pos + of_nat k" "bytes32 0x08800000"] by simp
  have u: "unat a = 0x08000000 + k" using a unat_offset [of "0x08000000 + k"] by simp
  then have "a \<noteq> 0" "\<not> a \<ge> 0x08400000" "\<not> a < 0x08000000" using a(2) by (auto simp: word_le_nat_alt word_less_nat_alt)
  then have "vidmap a s = Some (0x08800000, s\<lparr>mmu := ?p, ram := write_bytes (ram s) (task_frame pos + of_nat k) (bytes32 0x08800000)\<rparr>)"
    using w by (simp add: vidmap_def Let_def)
  then show "\<exists>s'. vidmap a s = Some (0x08800000, s') \<and>
      ram s' = write_bytes (ram s) (task_frame pos + of_nat k) (bytes32 0x08800000) \<and>
      (\<forall>user j. j < 4096 \<longrightarrow> translate (mmu s') user (0x08800000 + of_nat j) = Some (0xB8000 + of_nat j)) \<and>
      (\<forall>user va. drop_bit 22 va = 32 \<longrightarrow> translate (mmu s') user va = translate (mmu s) user va)"
    using v t by simp
  fix b :: u32 assume "b < 0x08000000 \<or> b \<ge> 0x08400000"
  then show "vidmap b s = Some (ERR, s)" by (auto simp: vidmap_def)
qed

theorem vidmap_maps_screen_witness:
  "\<exists>s'. vidmap 0x08048200 demo_shell = Some (0x08800000, s') \<and> translate (mmu s') True 0x08800000 = Some 0xB8000"
proof -
  have m: "mmu demo_shell = set_task_page (of_nat 0) (init_paging demo_paging)" "(0x08048200 :: u32) = 0x08000000 + of_nat 0x48200"
    by (simp_all add: demo_shell_fields)
  from vidmap_maps_screen [OF paging_ok_steps(1) [OF demo_paging_ok] _ m] obtain s' where
    "vidmap 0x08048200 demo_shell = Some (0x08800000, s')"
    "\<forall>user j. j < 4096 \<longrightarrow> translate (mmu s') user (0x08800000 + of_nat j) = Some (0xB8000 + of_nat j)" by auto
  then show ?thesis by (auto dest!: spec [of _ True] spec [of _ 0])
qed

end
