(* ===== verification/Terminals.thy ===== *)
theory Terminals
  imports Process_Files Lib_Mem
begin

text \<open>
  \<open>terminal.c\<close>: the three terminals, their start and the switch between them. A terminal that is not shown
  keeps its screen in its own page of memory (0xB9000, 0xBA000, 0xBB000), reached through the page tables
  once the terminal has been started; an access to a page that is not mapped has no result.

  \<open>terminal_boot\<close> calls \<open>execute\<close>, which leaves the kernel for the new shell when it succeeds: the switch
  is then suspended, and \<open>terminal_resume\<close> is the rest of it that runs when that shell is halted. The
  command name is a local array, so its address is an argument.
\<close>

section \<open>State\<close>

record ter_info =
  terminal_index :: u8
  screen_buffer :: "u8 list"
  ter_keyboard_buffer :: "u8 list"
  read_buffer :: "u8 list"
  cursor_pos_x :: u8
  cursor_pos_y :: u8
  terminal_state :: int

record terminals = kernel +
  terminal_array :: "ter_info list"
  current_terminal_idx :: u32

abbreviation (input) MAX_TER_INDEX :: nat where "MAX_TER_INDEX \<equiv> 2"
abbreviation (input) TERMINAL_NUM :: nat where "TERMINAL_NUM \<equiv> 3"
abbreviation (input) VIDEO_BUF_SIZE :: u32 where "VIDEO_BUF_SIZE \<equiv> 4096"
abbreviation (input) USER_RW_PRE :: u32 where "USER_RW_PRE \<equiv> 0x07"

definition video_buf_addr :: "u32 list" where
  "video_buf_addr = [0xB9000, 0xBA000, 0xBB000]"

definition pic_call :: "(pic \<Rightarrow> pic) \<Rightarrow> 'a con_scheme \<Rightarrow> 'a con_scheme" where
  "pic_call f = hw_update (rtc_pic_update f)"

text \<open>Access to one page at its own address.\<close>

definition page_mapped :: "u32 \<Rightarrow> 'a vm_scheme \<Rightarrow> bool" where
  "page_mapped a s \<longleftrightarrow> translate (mmu s) False a = Some a"

definition copy_page :: "u32 \<Rightarrow> u32 \<Rightarrow> 'a vm_scheme \<Rightarrow> 'a vm_scheme option" where
  "copy_page dest src s =
     (if page_mapped dest s \<and> page_mapped src s
      then Some (s\<lparr>ram := memcpy (ram s) dest src VIDEO_BUF_SIZE\<rparr>) else None)"

section \<open>Start of a terminal\<close>

definition boot_message :: "u8 list" where
  "boot_message = text_of ''terminal %d booted.\<newline>''"

definition error_message :: "u8 list" where
  "error_message = text_of ''return from first shell : -1. \<newline>''"

definition shell_name :: "u8 list" where
  "shell_name = text_of ''shell'' @ replicate 95 0"

text \<open>What \<open>terminal_boot\<close> does with the result of \<open>execute\<close>.\<close>

definition boot_return :: "u32 \<Rightarrow> 'a terminals_scheme \<Rightarrow> 'a terminals_scheme option" where
  "boot_return retval s =
     (if retval = ERR
      then map_option snd (printf error_message [] (pic_call (send_eoi 0) (con_io sti s)))
      else Some s)"

definition terminal_boot :: "u32 \<Rightarrow> u32 \<Rightarrow> u32 \<Rightarrow> nat \<Rightarrow> 'a terminals_scheme \<Rightarrow> (transfer \<times> 'a terminals_scheme) option" where
  "terminal_boot shell_at esp ebp index s =
     (if index < TERMINAL_NUM then do {
        let s = reset s;
        (_, s) \<leftarrow> printf boot_message [Num (of_nat index + 1)] s;
        let s = s\<lparr>terminal_array := (terminal_array s)[index := (terminal_array s ! index)\<lparr>terminal_state := 1\<rparr>]\<rparr>;
        let video_addr = unat (drop_bit 12 (video_buf_addr ! index));
        let s = s\<lparr>mmu := (mmu s)\<lparr>page_tab := or_entry video_addr (video_buf_addr ! index)
                   (or_entry video_addr USER_RW_PRE (page_tab (mmu s)))\<rparr>\<rparr>;
        s \<leftarrow> vwrite shell_at shell_name s;
        let s = s\<lparr>current_terminal_idx := of_nat index\<rparr>;
        let s = con_io sti (pic_call (send_eoi 1) s);
        (t, s) \<leftarrow> execute esp ebp shell_at s;
        case t of
          Return retval \<Rightarrow> map_option (\<lambda>s. (Return 0, s)) (boot_return retval s)
        | _ \<Rightarrow> Some (t, s)
      } else None)"

definition clear_terminal :: "nat \<Rightarrow> ter_info \<Rightarrow> ter_info" where
  "clear_terminal i t =
     t\<lparr>terminal_index := of_nat i, screen_buffer := for_to 4096 (\<lambda>j b. b[j := 0]) (screen_buffer t),
       ter_keyboard_buffer := for_to BUF_SIZE (\<lambda>j b. b[j := 0]) (ter_keyboard_buffer t),
       read_buffer := for_to BUF_SIZE (\<lambda>j b. b[j := 0]) (read_buffer t),
       cursor_pos_x := 0, cursor_pos_y := 0, terminal_state := 0\<rparr>"

definition terminal_init :: "u32 \<Rightarrow> u32 \<Rightarrow> u32 \<Rightarrow> 'a terminals_scheme \<Rightarrow> (transfer \<times> 'a terminals_scheme) option" where
  "terminal_init shell_at esp ebp s =
     (let s = s\<lparr>current_terminal_idx := 0,
                terminal_array := for_to MAX_TER_INDEX (\<lambda>i a. a[i := clear_terminal i (a ! i)]) (terminal_array s)\<rparr>
      in terminal_boot shell_at esp ebp 0 s)"

section \<open>The switch\<close>

text \<open>The cursor goes into signed bytes.\<close>

definition save_terminal :: "nat \<Rightarrow> 'a terminals_scheme \<Rightarrow> 'a terminals_scheme option" where
  "save_terminal cur s =
     (let t = terminal_array s ! cur;
          t = t\<lparr>ter_keyboard_buffer := for_to BUF_SIZE (\<lambda>i b. b[i := keyboard_buffer s ! i]) (ter_keyboard_buffer t),
                read_buffer := for_to BUF_SIZE (\<lambda>i b. b[i := ter_read_buffer s ! i]) (read_buffer t),
                cursor_pos_x := of_int (x_pos s), cursor_pos_y := of_int (y_pos s)\<rparr>
      in copy_page (video_buf_addr ! cur) VIDEO (s\<lparr>terminal_array := (terminal_array s)[cur := t]\<rparr>))"

definition restore_terminal :: "nat \<Rightarrow> 'a terminals_scheme \<Rightarrow> 'a terminals_scheme option" where
  "restore_terminal idx s = do {
     let t = terminal_array s ! idx;
     let s = s\<lparr>keyboard_buffer := for_to BUF_SIZE (\<lambda>i b. b[i := ter_keyboard_buffer t ! i]) (keyboard_buffer s),
               ter_read_buffer := for_to BUF_SIZE (\<lambda>i b. b[i := read_buffer t ! i]) (ter_read_buffer s)\<rparr>;
     s \<leftarrow> copy_page VIDEO (video_buf_addr ! idx) s;
     let s = s\<lparr>current_terminal_idx := of_nat idx\<rparr>;
     let s = update_y (sint (cursor_pos_y t)) (update_x (sint (cursor_pos_x t)) s);
     Some (update_cursor (scast (cursor_pos_y t)) (scast (cursor_pos_x t)) s)
   }"

text \<open>The end of a switch whose shell has been halted with the given value.\<close>

definition terminal_resume :: "nat \<Rightarrow> u32 \<Rightarrow> 'a terminals_scheme \<Rightarrow> (u32 \<times> 'a terminals_scheme) option" where
  "terminal_resume idx retval s = do {
     s \<leftarrow> boot_return retval s;
     s \<leftarrow> restore_terminal idx s;
     Some (0, s)
   }"

definition terminal_switch :: "u32 \<Rightarrow> u32 \<Rightarrow> u32 \<Rightarrow> int \<Rightarrow> 'a terminals_scheme \<Rightarrow> (transfer \<times> 'a terminals_scheme) option" where
  "terminal_switch shell_at esp ebp terminal_idx s =
     (if terminal_idx > int TERMINAL_NUM then Some (Return ERR, s)
      else if of_int terminal_idx = current_terminal_idx s then Some (Return 0, s)
      else if 0 \<le> terminal_idx \<and> terminal_idx < int TERMINAL_NUM \<and> unat (current_terminal_idx s) < TERMINAL_NUM then do {
        let idx = nat terminal_idx;
        let cur = unat (current_terminal_idx s);
        s \<leftarrow> save_terminal cur s;
        let s = reset (s\<lparr>mmu := flush_tlb (set_video_page (video_buf_addr ! cur) (mmu s))\<rparr>);
        if terminal_state (terminal_array s ! idx) = 0 then do {
          (t, s) \<leftarrow> terminal_boot shell_at esp ebp idx s;
          case t of
            Return _ \<Rightarrow> map_option (Pair (Return 0)) (restore_terminal idx s)
          | _ \<Rightarrow> Some (t, s)
        } else map_option (Pair (Return 0)) (restore_terminal idx s)
      } else None)"

section \<open>The pages of the screens\<close>

text \<open>Page 0 is the screen, page \<open>i + 1\<close> the buffer of terminal \<open>i\<close>.\<close>

definition display :: "nat \<Rightarrow> u32" where
  "display k = VIDEO + of_nat (0x1000 * k)"

definition display_bytes :: "memory \<Rightarrow> nat \<Rightarrow> u8 list" where
  "display_bytes m k = bytes_at m (display k) 4096"

lemma video_buf_display: "i < 3 \<Longrightarrow> video_buf_addr ! i = display (i + 1)" "VIDEO = display 0"
proof -
  assume "i < 3"
  then have "i = 0 \<or> i = 1 \<or> i = 2" by auto
  then show "video_buf_addr ! i = display (i + 1)" by (elim disjE) (simp_all add: video_buf_addr_def display_def)
qed (simp add: display_def)

lemma display_offset: "k < 4 \<Longrightarrow> j < 4096 \<Longrightarrow> unat (display k + of_nat j) = 0xB8000 + 0x1000 * k + j"
  using unat_offset [of "0xB8000 + 0x1000 * k + j"] by (simp add: display_def add.assoc)

lemma display_disjoint: "k < 4 \<Longrightarrow> l < 4 \<Longrightarrow> k \<noteq> l \<Longrightarrow> disjoint_ranges (display k) (display l) 4096"
  unfolding disjoint_ranges_def
proof (intro allI impI)
  fix i j :: nat
  assume "k < 4" "l < 4" "k \<noteq> l" "i < 4096" "j < 4096"
  then have "unat (display k + of_nat i) \<noteq> unat (display l + of_nat j)" unfolding display_offset [OF \<open>k < 4\<close> \<open>i < 4096\<close>]
      display_offset [OF \<open>l < 4\<close> \<open>j < 4096\<close>] by (cases "k < l") linarith+
  then show "display k + of_nat i \<noteq> display l + of_nat j" by auto
qed

lemma display_copy:
  assumes "k < 4" "l < 4" "k \<noteq> l" "i < 4"
  shows "display_bytes (memcpy m (display k) (display l) 4096) i = (if i = k then display_bytes m l else display_bytes m i)"
proof -
  have c: "memcpy m (display k) (display l) 4096 = write_bytes m (display k) (display_bytes m l)"
    using memcpy_eq [of "display k" "display l" 4096 m] display_disjoint [OF assms(1-3)] by (simp add: display_bytes_def)
  show ?thesis
  proof (cases "i = k")
    case True
    have "unat (display k + of_nat j - display k) = j" if "j < 4096" for j using that by (simp add: unat_offset)
    then show ?thesis unfolding c
      by (intro nth_equalityI) (simp_all add: True display_bytes_def bytes_at_def write_bytes_apply)
  next
    case False
    from display_disjoint [OF assms(4,1) False]
    have "\<forall>a<4096. \<forall>b<4096. display i + of_nat a \<noteq> display k + of_nat b" by (simp add: disjoint_ranges_def)
    then have "write_bytes m (display k) (display_bytes m l) (display i + of_nat j) = m (display i + of_nat j)" if "j < 4096" for j
      using that by (intro write_bytes_outside) (simp add: display_bytes_def bytes_at_def)
    then show ?thesis using False unfolding c by (simp add: display_bytes_def bytes_at_def)
  qed
qed

lemma display_clear: "0 < k \<Longrightarrow> k < 4 \<Longrightarrow> display_bytes (clear_video m) k = display_bytes m k"
  unfolding display_bytes_def
proof (rule bytes_at_frame)
  fix j :: nat assume k: "0 < k" "k < 4" "j < 4096"
  have "display k + of_nat j \<noteq> vaddr i \<and> display k + of_nat j \<noteq> vaddr i + 1" if "i < 2000" for i
  proof -
    have "unat (vaddr i) = 0xB8000 + 2 * i" "unat (vaddr i + 1) = 0xB8000 + 2 * i + 1"
      using that unat_offset [of "0xB8000 + 2 * i"] unat_offset [of "0xB8000 + 2 * i + 1"] by (simp_all add: vaddr_def add.assoc)
    then have "unat (display k + of_nat j) \<noteq> unat (vaddr i)" "unat (display k + of_nat j) \<noteq> unat (vaddr i + 1)"
      using that k display_offset [OF k(2,3)] by linarith+
    then show ?thesis by auto
  qed
  then show "clear_video m (display k + of_nat j) = m (display k + of_nat j)"
    using clear_video_spec(3) [of m] unfolding same_outside_video_def by blast
qed

section \<open>The terminals as consoles\<close>

text \<open>What the switch saves of a terminal: the screen, the bytes of the keyboard buffer, the last line read and the
  cursor. The shown terminal has them in the machine, the others in their buffers. The number of characters typed
  (\<open>kb_buffer_position\<close>), the marks of line ends (\<open>enter_tracker\<close>) and the size of the last line read exist only once
  for all terminals.\<close>

type_synonym console = "u8 list \<times> u8 list \<times> u8 list \<times> int \<times> int"

definition console_of :: "'a terminals_scheme \<Rightarrow> nat \<Rightarrow> console" where
  "console_of s i =
     (if i = unat (current_terminal_idx s)
      then (display_bytes (ram s) 0, keyboard_buffer s, ter_read_buffer s, screen_x s, screen_y s)
      else let t = terminal_array s ! i
           in (display_bytes (ram s) (i + 1), ter_keyboard_buffer t, read_buffer t, sint (cursor_pos_x t), sint (cursor_pos_y t)))"

text \<open>A terminal comes back as it was left, but with a cursor in column or row 0 moved to the last one.\<close>

fun shown_again :: "console \<Rightarrow> console" where
  "shown_again (scr, kb, rd, x, y) = (scr, kb, rd, if x = 0 then 79 else x, if y = 0 then 24 else y)"

definition ter_ok :: "ter_info \<Rightarrow> bool" where
  "ter_ok t \<longleftrightarrow> length (ter_keyboard_buffer t) = 128 \<and> length (read_buffer t) = 128 \<and>
     0 \<le> sint (cursor_pos_x t) \<and> sint (cursor_pos_x t) < 80 \<and> 0 \<le> sint (cursor_pos_y t) \<and> sint (cursor_pos_y t) < 25"

definition terminals_ok :: "'a terminals_scheme \<Rightarrow> bool" where
  "terminals_ok s \<longleftrightarrow> con_inv s \<and> length (ter_read_buffer s) = 128 \<and> paging_ok (mmu s) \<and>
     length (terminal_array s) = 3 \<and> (\<forall>i<3. ter_ok (terminal_array s ! i)) \<and>
     unat (current_terminal_idx s) < 3 \<and> terminal_state (terminal_array s ! unat (current_terminal_idx s)) \<noteq> 0 \<and>
     page_mapped VIDEO s \<and> (\<forall>i<3. terminal_state (terminal_array s ! i) \<noteq> 0 \<longrightarrow> page_mapped (display (i + 1)) s)"

lemma copy_buffer: "length b = 128 \<Longrightarrow> length c = 128 \<Longrightarrow> for_to 128 (\<lambda>i b. b[i := c ! i]) b = c"
  using map_nth [of c] by (simp add: for_to_fill)

lemma reset_more [simp]:
  "mmu (reset s) = mmu s" "terminal_array (reset t) = terminal_array t" "current_terminal_idx (reset t) = current_terminal_idx t"
  "ter_read_buffer (reset t) = ter_read_buffer t" "ter_read_buf_size (reset t) = ter_read_buf_size t"
  by (simp_all add: reset_def clear_def Let_def move_cursor_def update_cursor_def con_io_def)

lemma display_mapped_video:
  assumes "paging_ok (mmu s)" "k < 4"
  shows "translate (set_video_page f (mmu s)) user (display k) = translate (mmu s) user (display k)"
proof -
  have "k = 0 \<or> k = 1 \<or> k = 2 \<or> k = 3" using assms(2) by auto
  then have "drop_bit 22 (display k) = 0" "take_bit 10 (drop_bit 12 (display k)) \<noteq> 0"
    by (elim disjE; simp add: display_def)+
  then show ?thesis using translate_set_video_page_other [OF assms(1), of "display k" f user] by simp
qed

lemma small_sint: "0 \<le> x \<Longrightarrow> x < 80 \<Longrightarrow> sint (of_int x :: u8) = x"
  by (simp add: signed_of_int signed_take_bit_int_eq_self)

definition saved :: "'a terminals_scheme \<Rightarrow> ter_info \<Rightarrow> ter_info" where
  "saved s t = t\<lparr>ter_keyboard_buffer := keyboard_buffer s, read_buffer := ter_read_buffer s,
     cursor_pos_x := of_int (screen_x s), cursor_pos_y := of_int (screen_y s)\<rparr>"

lemma save_terminal_ok:
  assumes ok: "terminals_ok s" and cur: "cur = unat (current_terminal_idx s)"
  shows "save_terminal cur s =
      Some (s\<lparr>terminal_array := (terminal_array s)[cur := saved s (terminal_array s ! cur)],
              ram := memcpy (ram s) (display (cur + 1)) (display 0) 4096\<rparr>)"
    and "ter_ok (saved s (terminal_array s ! cur))"
proof -
  have c: "cur < 3" "ter_ok (terminal_array s ! cur)" "page_mapped (display 0) s" "page_mapped (display (cur + 1)) s"
    "con_inv s" "length (ter_read_buffer s) = 128"
    using ok cur video_buf_display(2) by (auto simp: terminals_ok_def)
  show "ter_ok (saved s (terminal_array s ! cur))"
    using c(2,5,6) by (auto simp: ter_ok_def saved_def con_inv_def small_sint)
  show "save_terminal cur s =
      Some (s\<lparr>terminal_array := (terminal_array s)[cur := saved s (terminal_array s ! cur)],
              ram := memcpy (ram s) (display (cur + 1)) (display 0) 4096\<rparr>)"
    using c(2-6) unfolding save_terminal_def video_buf_display(1) [OF c(1)] video_buf_display(2) copy_page_def Let_def
    by (simp add: copy_buffer ter_ok_def con_inv_def saved_def x_pos_def y_pos_def page_mapped_def)
qed

lemma update_xy:
  "0 \<le> x \<Longrightarrow> x < 80 \<Longrightarrow> update_x x s = s\<lparr>screen_x := if x = 0 then 79 else x\<rparr>"
  "0 \<le> y \<Longrightarrow> y < 25 \<Longrightarrow> update_y y s = s\<lparr>screen_y := if y = 0 then 24 else y\<rparr>"
  by (auto simp: update_x_def update_y_def)

lemma restore_terminal_ok:
  assumes "idx < 3" "ter_ok t" "t = terminal_array s ! idx" "page_mapped (display 0) s" "page_mapped (display (idx + 1)) s"
    and "length (keyboard_buffer s) = 128" "length (ter_read_buffer s) = 128"
  shows "restore_terminal idx s = Some (update_cursor (scast (cursor_pos_y t)) (scast (cursor_pos_x t))
    (s\<lparr>keyboard_buffer := ter_keyboard_buffer t, ter_read_buffer := read_buffer t,
       ram := memcpy (ram s) (display 0) (display (idx + 1)) 4096, current_terminal_idx := of_nat idx,
       screen_x := (if sint (cursor_pos_x t) = 0 then 79 else sint (cursor_pos_x t)),
       screen_y := (if sint (cursor_pos_y t) = 0 then 24 else sint (cursor_pos_y t))\<rparr>))"
  using assms unfolding restore_terminal_def video_buf_display(1) [OF assms(1)] video_buf_display(2) copy_page_def Let_def
  by (simp add: copy_buffer ter_ok_def page_mapped_def update_xy)

lemma update_cursor_fields [simp]:
  "ram (update_cursor r c s) = ram s" "screen_x (update_cursor r c s) = screen_x s" "screen_y (update_cursor r c s) = screen_y s"
  "keyboard_buffer (update_cursor r c s) = keyboard_buffer s" "enter_tracker (update_cursor r c s) = enter_tracker s"
  "kb_buffer_position (update_cursor r c s) = kb_buffer_position s"
  "mmu (update_cursor r c v) = mmu v" "ter_read_buf_size (update_cursor r c w) = ter_read_buf_size w" "ter_read_buffer (update_cursor r c w) = ter_read_buffer w"
  "terminal_array (update_cursor r c t) = terminal_array t" "current_terminal_idx (update_cursor r c t) = current_terminal_idx t"
  by (simp_all add: update_cursor_def con_io_def Let_def)

lemma translate_flush [simp]: "translate (flush_tlb p) = translate p"
  by (intro ext) (simp add: translate_def flush_tlb_def Let_def)

lemma terminal_switch_run:
  assumes "idx < 3" "of_nat idx \<noteq> current_terminal_idx s" "unat (current_terminal_idx s) = cur" "cur < 3"
    and "save_terminal cur s = Some s0" "s1 = reset (s0\<lparr>mmu := flush_tlb (set_video_page (video_buf_addr ! cur) (mmu s0))\<rparr>)"
    and "terminal_state (terminal_array s1 ! idx) \<noteq> 0" "restore_terminal idx s1 = Some s2"
  shows "terminal_switch shell_at esp ebp (int idx) s = Some (Return 0, s2)"
  using assms by (simp add: terminal_switch_def Let_def)

lemma terminal_switch_active:
  assumes ok: "terminals_ok s" and idx: "idx < 3" "of_nat idx \<noteq> current_terminal_idx s"
      "terminal_state (terminal_array s ! idx) \<noteq> 0"
  shows "\<exists>s'. terminal_switch shell_at esp ebp (int idx) s = Some (Return 0, s') \<and> terminals_ok s' \<and>
    current_terminal_idx s' = of_nat idx \<and>
    (\<forall>i<3. console_of s' i = (if i = idx then shown_again (console_of s i) else console_of s i)) \<and>
    kb_buffer_position s' = 0 \<and> enter_tracker s' = replicate 25 0 \<and> ter_read_buf_size s' = ter_read_buf_size s \<and>
    translate (mmu s') = translate (set_video_page (video_buf_addr ! unat (current_terminal_idx s)) (mmu s))"
proof -
  define cur where "cur = unat (current_terminal_idx s)"
  have cur: "cur < 3" "current_terminal_idx s = of_nat cur" using ok by (simp_all add: terminals_ok_def cur_def)
  with idx(2) have ne: "idx \<noteq> cur" by auto
  let ?t = "terminal_array s ! idx" and ?p = "flush_tlb (set_video_page (video_buf_addr ! cur) (mmu s))"
  let ?a = "(terminal_array s)[cur := saved s (terminal_array s ! cur)]"
  let ?m = "memcpy (ram s) (display (cur + 1)) (display 0) 4096"
  let ?s0 = "s\<lparr>terminal_array := ?a, ram := ?m\<rparr>"
  let ?s1 = "reset (?s0\<lparr>mmu := ?p\<rparr>)"
  note save = save_terminal_ok [OF ok cur_def]
  have k: "con_inv s" "length (ter_read_buffer s) = 128" "paging_ok (mmu s)" "length (terminal_array s) = 3"
      "\<forall>i<3. ter_ok (terminal_array s ! i)" "page_mapped (display 0) s"
      "\<forall>i<3. terminal_state (terminal_array s ! i) \<noteq> 0 \<longrightarrow> page_mapped (display (i + 1)) s"
    using ok video_buf_display(2) by (simp_all add: terminals_ok_def)
  have pm: "page_mapped (display i) u = page_mapped (display i) s" if "mmu u = ?p" "i < 4" for i and u :: "'a terminals_scheme"
    using display_mapped_video [OF k(3) that(2)] that(1) by (simp add: page_mapped_def)
  have r: "keyboard_buffer ?s1 = replicate 128 0" "con_inv ?s1" "enter_tracker ?s1 = replicate 25 0"
    using reset_spec [of "?s0\<lparr>mmu := ?p\<rparr>"] k(1) by (simp_all add: con_inv_def)
  have t1: "?t = terminal_array ?s1 ! idx" using ne by simp
  let ?s2 = "update_cursor (scast (cursor_pos_y ?t)) (scast (cursor_pos_x ?t))
    (?s1\<lparr>keyboard_buffer := ter_keyboard_buffer ?t, ter_read_buffer := read_buffer ?t,
       ram := memcpy (ram ?s1) (display 0) (display (idx + 1)) 4096, current_terminal_idx := of_nat idx,
       screen_x := (if sint (cursor_pos_x ?t) = 0 then 79 else sint (cursor_pos_x ?t)),
       screen_y := (if sint (cursor_pos_y ?t) = 0 then 24 else sint (cursor_pos_y ?t))\<rparr>)"
  have "restore_terminal idx ?s1 = Some ?s2"
  proof (rule restore_terminal_ok [OF idx(1) _ t1])
    show "ter_ok ?t" using k(5) idx(1) by simp
    show "page_mapped (display 0) ?s1" "page_mapped (display (idx + 1)) ?s1" using pm [of ?s1] k(6,7) idx(1,3) by simp_all
  qed (use r(1) k(2) in simp_all)
  moreover have "terminal_state (terminal_array ?s1 ! idx) \<noteq> 0" using t1 idx by simp
  ultimately have sw: "terminal_switch shell_at esp ebp (int idx) s = Some (Return 0, ?s2)"
    using terminal_switch_run [OF idx(1,2) cur_def [symmetric] cur(1) save(1)] by simp
  have ui: "unat (of_nat i :: u32) = i" if "i < 3" for i using that by (simp add: unat_offset)
  have d: "display_bytes (ram ?s2) 0 = display_bytes (ram s) (idx + 1)"
      "display_bytes (ram ?s2) (i + 1) = (if i = cur then display_bytes (ram s) 0 else display_bytes (ram s) (i + 1))" if "i < 3" for i
    using that cur(1) idx(1) ne by (simp_all add: display_copy display_clear)
  have con: "console_of ?s2 i = (if i = idx then shown_again (console_of s i) else console_of s i)" if "i < 3" for i
    using that cur idx(1) ne k(1,4) d(1) [OF that] d(2) [OF that] ui [OF idx(1)] ui [OF cur(1)]
    by (auto simp: console_of_def saved_def Let_def con_inv_def small_sint)
  have "con_inv ?s2" "length (ter_read_buffer ?s2) = 128" "paging_ok (mmu ?s2)"
    using k(3,5) idx(1) r(3) by (auto simp: con_inv_def ter_ok_def intro!: paging_ok_steps)
  moreover have "ter_ok (terminal_array ?s2 ! i) \<and> terminal_state (terminal_array ?s2 ! i) = terminal_state (terminal_array s ! i)"
    if "i < 3" for i
    using k(4,5) save(2) that by (cases "i = cur") (auto simp: saved_def)
  moreover have "page_mapped (display i) ?s2 = page_mapped (display i) s" if "i < 4" for i using pm [of ?s2] that by simp
  moreover have "current_terminal_idx ?s2 = of_nat idx" "length (terminal_array ?s2) = 3" using k(4) by simp_all
  ultimately have "terminals_ok ?s2"
    using idx ui [OF idx(1)] k(6,7) video_buf_display(2) by (simp only: terminals_ok_def) simp
  moreover have "kb_buffer_position ?s2 = 0" "enter_tracker ?s2 = replicate 25 0" "ter_read_buf_size ?s2 = ter_read_buf_size s"
    using r(3) by simp_all
  ultimately show ?thesis using sw con by (intro exI [of _ ?s2]) (simp add: cur_def)
qed

section \<open>Claims\<close>

text \<open>C14: Switching to another terminal that has been started keeps what the switch saves of every terminal: the one
  switched to is shown with its screen, the bytes of its keyboard buffer, its last read line and its cursor, the one
  left keeps all of its own in its buffer, the third is not touched. It does not keep everything: the cursor comes
  back in the last column or row when it was left in column or row 0; the number of characters typed so far is 0
  afterwards, so that a half-typed line is lost to the line editor although its bytes are back in the buffer; the
  marks of line ends are cleared; and the size of the last read line stays that of the terminal that was left. The
  switch redirects the video page of programs to the buffer of the terminal that was left.\<close>

theorem terminal_switch_keeps_consoles:
  assumes "terminals_ok s" "idx < 3" "of_nat idx \<noteq> current_terminal_idx s" "terminal_state (terminal_array s ! idx) \<noteq> 0"
  shows "\<exists>s'. terminal_switch shell_at esp ebp (int idx) s = Some (Return 0, s') \<and> terminals_ok s' \<and>
    current_terminal_idx s' = of_nat idx \<and>
    (\<forall>i<3. console_of s' i = (if i = idx then shown_again (console_of s i) else console_of s i)) \<and>
    kb_buffer_position s' = 0 \<and> enter_tracker s' = replicate 25 0 \<and> ter_read_buf_size s' = ter_read_buf_size s \<and>
    translate (mmu s') = translate (set_video_page (video_buf_addr ! unat (current_terminal_idx s)) (mmu s))"
  using assms by (rule terminal_switch_active)

definition demo_ter :: ter_info where
  "demo_ter = \<lparr>terminal_index = 0, screen_buffer = [], ter_keyboard_buffer = replicate 128 0x42, read_buffer = replicate 128 0,
     cursor_pos_x = 5, cursor_pos_y = 0, terminal_state = 1\<rparr>"

definition demo_terminals :: terminals where
  "demo_terminals = (kernel.extend demo_kernel (terminals.fields [demo_ter, demo_ter, demo_ter\<lparr>terminal_state := 0\<rparr>] 0))
     \<lparr>mmu := (init_paging demo_paging)\<lparr>page_tab := (replicate 1024 2)[0xB8 := 0xB8007, 0xB9 := 0xB9007, 0xBA := 0xBA007]\<rparr>\<rparr>"

lemma all_below_3: "(\<forall>i<(3 :: nat). P i) \<longleftrightarrow> P 0 \<and> P 1 \<and> P 2"
  by (auto simp: numeral_3_eq_3 numeral_2_eq_2 less_Suc_eq)

lemma demo_terminals_ok: "terminals_ok demo_terminals"
proof -
  have f: "terminal_array demo_terminals = [demo_ter, demo_ter, demo_ter\<lparr>terminal_state := 0\<rparr>]" "current_terminal_idx demo_terminals = 0"
    "mmu demo_terminals = (init_paging demo_paging)\<lparr>page_tab := (replicate 1024 2)[0xB8 := 0xB8007, 0xB9 := 0xB9007, 0xBA := 0xBA007]\<rparr>"
    "con_inv demo_terminals" "length (ter_read_buffer demo_terminals) = 128"
    by (simp_all add: demo_terminals_def kernel.defs terminals.defs demo_kernel_def con_inv_def)
  have n: "i = 0 \<or> i = 1 \<or> i = 2" if "i < 3" for i :: nat using that by auto
  have "page_tab_at demo_paging = 0x411000" by (simp add: demo_paging_def)
  then have e: "page_dir (init_paging demo_paging) ! 0 = 0x411003" "page_tab_at (init_paging demo_paging) = 0x411000"
    by (simp_all add: init_paging_entries [OF demo_paging_ok])
  have "page_mapped (display k) demo_terminals" if "k < 3" for k
    using n [OF that] unfolding page_mapped_def f(3)
    by (elim disjE) (simp_all add: display_def translate_def e entry_ok_def Let_def)
  from this [of 0] this [of 1] this [of 2] have
    "page_mapped (display 0) demo_terminals" "page_mapped (display 1) demo_terminals" "page_mapped (display 2) demo_terminals" by simp_all
  moreover have "paging_ok (mmu demo_terminals)" using paging_ok_steps(1) [OF demo_paging_ok] unfolding f(3) by (simp add: paging_ok_def)
  moreover have "\<forall>i<3. ter_ok ([demo_ter, demo_ter, demo_ter\<lparr>terminal_state := 0\<rparr>] ! i)"
    unfolding all_below_3 by (simp add: ter_ok_def demo_ter_def)
  ultimately show ?thesis using f video_buf_display(2)
    unfolding terminals_ok_def all_below_3 by (simp add: demo_ter_def numeral_2_eq_2)
qed

text \<open>The same with two characters typed at the first terminal.\<close>

definition demo_typing :: terminals where
  "demo_typing = demo_terminals\<lparr>keyboard_buffer := [0x6C, 0x73] @ replicate 126 0, kb_buffer_position := 2\<rparr>"

lemma demo_typing_ok: "terminals_ok demo_typing"
  using demo_terminals_ok by (simp add: demo_typing_def terminals_ok_def con_inv_def page_mapped_def)

theorem terminal_switch_keeps_consoles_witness:
  "\<exists>s'. terminal_switch 0 0 0 1 demo_typing = Some (Return 0, s') \<and> current_terminal_idx s' = 1 \<and>
    keyboard_buffer s' = replicate 128 0x42 \<and> screen_x s' = 5 \<and> screen_y s' = 24 \<and>
    ter_keyboard_buffer (terminal_array s' ! 0) = [0x6C, 0x73] @ replicate 126 0 \<and>
    kb_buffer_position demo_typing = 2 \<and> kb_buffer_position s' = 0"
proof -
  have f: "terminal_array demo_typing ! 1 = demo_ter" "current_terminal_idx demo_typing = 0"
    "keyboard_buffer demo_typing = [0x6C, 0x73] @ replicate 126 0" "kb_buffer_position demo_typing = 2"
    by (simp_all add: demo_typing_def demo_terminals_def kernel.defs terminals.defs)
  from terminal_switch_keeps_consoles [OF demo_typing_ok, of 1 0 0 0] obtain s' where
    s': "terminal_switch 0 0 0 (int 1) demo_typing = Some (Return 0, s')" "current_terminal_idx s' = of_nat 1"
      "console_of s' 1 = shown_again (console_of demo_typing 1)" "console_of s' 0 = console_of demo_typing 0"
      "kb_buffer_position s' = 0"
    using f by (auto simp: demo_ter_def)
  then show ?thesis using f by (auto simp: console_of_def demo_ter_def Let_def)
qed

end
