(* ===== verification/Sche.thy ===== *)
theory Sche
  imports Terminals
begin

text \<open>
  \<open>sche.c\<close> and the timer interrupt of \<open>pit.c\<close>. The handler returns before its first test, so no task is ever
  switched by the timer; the statements behind that return are \<open>schedule\<close> here, which nothing calls.
  The assembly at their end is a value: the stack pointer and the frame pointer it loads.
\<close>

section \<open>The next process\<close>

fun next_loop :: "nat list \<Rightarrow> 'a kernel_scheme \<Rightarrow> int" where
  "next_loop [] s = -1"
| "next_loop (i # is) s =
     (let next_task_pos = (unat (curr_task_pos s) + i) mod (MAXNUMTASK - 1)
      in if running_state (pcbs s ! next_task_pos) \<noteq> 0 then int next_task_pos else next_loop is s)"

definition get_next_availble_process :: "'a kernel_scheme \<Rightarrow> int" where
  "get_next_availble_process s = next_loop [1..<MAXNUMTASK] s"

section \<open>The handlers\<close>

definition scheduling_handler :: "'a kernel_scheme \<Rightarrow> 'a kernel_scheme" where
  "scheduling_handler s = s"

datatype switch = Stay | Switch u32 u32

definition schedule :: "u32 \<Rightarrow> u32 \<Rightarrow> 'a kernel_scheme \<Rightarrow> (switch \<times> 'a kernel_scheme) option" where
  "schedule esp ebp s =
     (if runn_task_num s \<le> 1 then Some (Stay, s)
      else let next_task_pos = get_next_availble_process s
      in if next_task_pos = -1 then Some (Stay, s)
      else do {
        curr \<leftarrow> curr_pcb s;
        let s = s\<lparr>mmu := flush_tlb (set_task_page (of_int next_task_pos) (mmu s))\<rparr>;
        let s = s\<lparr>tss_ss0 := KERNEL_DS, tss_esp0 := kernel_stack (of_int next_task_pos)\<rparr>;
        let s = set_curr_pcb (curr\<lparr>pcb_esp := esp, pcb_ebp := ebp\<rparr>) s;
        let nxt = pcbs s ! nat next_task_pos;
        Some (Switch (pcb_esp nxt) (pcb_ebp nxt), s)
      })"

definition idt_pit_irq_handler :: "'a kernel_scheme \<Rightarrow> 'a kernel_scheme" where
  "idt_pit_irq_handler s = con_io sti (pic_call (send_eoi 0) (scheduling_handler (con_io cli s)))"

section \<open>Round robin\<close>

text \<open>The task \<open>d\<close> places after the current one, among the first five.\<close>

definition place :: "'a kernel_scheme \<Rightarrow> nat \<Rightarrow> nat" where
  "place s d = (unat (curr_task_pos s) + d) mod 5"

definition runs :: "'a kernel_scheme \<Rightarrow> nat \<Rightarrow> bool" where
  "runs s p \<longleftrightarrow> running_state (pcbs s ! p) \<noteq> 0"

lemma next_loop_find:
  "next_loop is s = (case find (\<lambda>d. runs s (place s d)) is of None \<Rightarrow> -1 | Some d \<Rightarrow> int (place s d))"
  by (induction "is") (auto simp: place_def runs_def Let_def)

lemma place_onto:
  assumes "p < 5"
  shows "\<exists>d\<in>{1..<6}. place s d = p"
proof -
  let ?c = "unat (curr_task_pos s) mod 5"
  define d where "d = (if ?c < p then p - ?c else p + 5 - ?c)"
  have "?c < 5" by simp
  then have "d \<in> {1..<6}" "(?c + d) mod 5 = p" using assms by (auto simp: d_def)
  then show ?thesis by (metis place_def mod_add_left_eq)
qed

lemma next_process_cases:
  "get_next_availble_process s = -1 \<and> (\<forall>p<5. \<not> runs s p) \<or>
   (\<exists>d\<in>{1..<6}. get_next_availble_process s = int (place s d) \<and> runs s (place s d) \<and>
      (\<forall>e. 1 \<le> e \<longrightarrow> e < d \<longrightarrow> \<not> runs s (place s e)))"
proof (cases "find (\<lambda>d. runs s (place s d)) [1..<6]")
  case None
  then have n: "\<forall>d\<in>{1..<6}. \<not> runs s (place s d)" by (simp add: find_None_iff)
  have "\<not> runs s p" if "p < 5" for p using place_onto [OF that, of s] n by metis
  then show ?thesis using None by (simp add: get_next_availble_process_def next_loop_find)
next
  case (Some d)
  then obtain i where i: "i < 5" "d = [1..<6] ! i" "runs s (place s d)" "\<forall>j<i. \<not> runs s (place s ([1..<6] ! j))"
    by (auto simp: find_Some_iff)
  have d: "d = Suc i" using i(1,2) by (simp add: nth_upt)
  have "\<not> runs s (place s e)" if "1 \<le> e" "e < d" for e
    using i(4) [rule_format, of "e - 1"] i(1) that d by (simp add: nth_upt)
  moreover have "get_next_availble_process s = int (place s d)"
    using Some by (simp add: get_next_availble_process_def next_loop_find)
  ultimately show ?thesis using i(1,3) d by (intro disjI2 bexI [of _ d]) auto
qed

text \<open>C36: The search for the next process is round robin over the first five tasks: it fails exactly when none of
  them runs, and otherwise it gives a running task with no running task between it and the current one, the current
  task being the last choice. The sixth task is never chosen.\<close>

theorem next_process_round_robin:
  "(get_next_availble_process s = -1 \<longleftrightarrow> (\<forall>p<5. \<not> runs s p)) \<and>
   (get_next_availble_process s \<noteq> -1 \<longrightarrow>
      (\<exists>d\<in>{1..<6}. get_next_availble_process s = int (place s d) \<and> runs s (place s d) \<and> place s d < 5 \<and>
         (\<forall>e. 1 \<le> e \<longrightarrow> e < d \<longrightarrow> \<not> runs s (place s e))))"
proof -
  have "place s d < 5" for d by (simp add: place_def)
  then show ?thesis using next_process_cases [of s] by fastforce
qed

theorem next_process_round_robin_witness:
  "get_next_availble_process (demo_kernel\<lparr>pcbs := (replicate 6 zero_pcb)[3 := zero_pcb\<lparr>running_state := 1\<rparr>]\<rparr>) = 3"
proof -
  let ?s = "demo_kernel\<lparr>pcbs := (replicate 6 zero_pcb)[3 := zero_pcb\<lparr>running_state := 1\<rparr>]\<rparr>"
  have r: "runs ?s p \<longleftrightarrow> p = 3" if "p < 5" for p
    using that by (cases "p = 3") (simp_all add: runs_def zero_pcb_def)
  then have "runs ?s 3" by simp
  moreover have "(3 :: nat) < 5" by simp
  ultimately have "get_next_availble_process ?s \<noteq> -1" using next_process_round_robin [of ?s] by blast
  then obtain d where "get_next_availble_process ?s = int (place ?s d)" "runs ?s (place ?s d)" "place ?s d < 5"
    using next_process_round_robin [of ?s] by blast
  then show ?thesis using r by simp
qed

text \<open>What the unreachable part would do: it gives the processor to the task the search found, with the page and the
  kernel stack of that task, but the number of the current task stays.\<close>

lemma schedule_switches:
  assumes "runn_task_num s > 1" "get_next_availble_process s = int k" "curr_pcb s = Some p" "k \<noteq> unat (curr_task_pos s)"
  shows "\<exists>s'. schedule esp ebp s = Some (Switch (pcb_esp (pcbs s ! k)) (pcb_ebp (pcbs s ! k)), s') \<and>
    page_dir (mmu s') = page_dir (set_task_page (of_nat k) (mmu s)) \<and> tss_esp0 s' = kernel_stack (of_nat k) \<and>
    curr_pcb s' = Some (p\<lparr>pcb_esp := esp, pcb_ebp := ebp\<rparr>) \<and> curr_task_pos s' = curr_task_pos s"
proof -
  have "unat (curr_task_pos s) < length (pcbs s)" "p = pcbs s ! unat (curr_task_pos s)"
    using assms(3) by (auto simp: curr_pcb_def split: if_splits)
  then show ?thesis using assms by (auto simp: schedule_def Let_def set_curr_pcb_def curr_pcb_def flush_tlb_def)
qed

section \<open>The timer interrupt\<close>

lemma timer_interrupt_transparent:
  fixes s :: "'a kernel_scheme"
  shows "\<exists>h. idt_pit_irq_handler s = s\<lparr>hw := h\<rparr> \<and> irq_open (rtc_pic h) = irq_open (rtc_pic (hw s)) \<and>
    pic_synced (rtc_pic h) = pic_synced (rtc_pic (hw s)) \<and> int_enabled (pic_io (rtc_pic h))"
proof -
  let ?h = "rtc_io sti (rtc_pic_update (send_eoi 0) (rtc_io cli (hw s)))"
  have "idt_pit_irq_handler s = s\<lparr>hw := ?h\<rparr>"
    by (simp add: idt_pit_irq_handler_def scheduling_handler_def pic_call_def con_io_def)
  moreover have "irq_open (rtc_pic ?h) = irq_open (rtc_pic (hw s))"
    by (intro ext) (simp add: rtc_io_def irq_open_def send_eoi_def Let_def)
  moreover have "pic_synced (rtc_pic ?h) = pic_synced (rtc_pic (hw s))"
    by (simp add: pic_synced_def rtc_io_def send_eoi_def Let_def)
  moreover have "int_enabled (pic_io (rtc_pic ?h))" by (simp add: rtc_io_def)
  ultimately show ?thesis by blast
qed

section \<open>Interrupts in the background\<close>

text \<open>An interrupt that leaves the tasks alone does not disturb a program; one that only works on its device changes
  nothing a program can see.\<close>

locale background_interrupt =
  fixes handler :: "'a kernel_scheme \<Rightarrow> 'a kernel_scheme"
  assumes keeps_procs: "same_procs s (handler s)"
begin

lemma quiet_handler: "quiet (replicate n handler)"
  using keeps_procs by (simp add: quiet_def)

lemma program_goes_on: "program_step\<^sup>*\<^sup>* s t \<Longrightarrow> program_step\<^sup>*\<^sup>* s ((handler ^^ n) t)"
proof (induction n)
  case (Suc n)
  have "program_step ((handler ^^ n) t) (handler ((handler ^^ n) t))"
    using quiet_handler [of 1] by (intro program_step.interrupt) simp
  then show ?case using Suc by simp
qed simp

end

locale device_interrupt =
  fixes handler :: "'a kernel_scheme \<Rightarrow> 'a kernel_scheme"
  assumes on_device: "\<exists>h. handler s = s\<lparr>hw := h\<rparr>"
begin

lemma device_only: "handler s = s\<lparr>hw := hw (handler s)\<rparr>"
  using on_device [of s] by auto

lemma wait_device: "fold (\<lambda>g. g) (replicate n handler) s = s\<lparr>hw := hw (fold (\<lambda>g. g) (replicate n handler) s)\<rparr>"
proof (induction n arbitrary: s)
  case (Suc n)
  have "fold (\<lambda>g. g) (replicate n handler) (handler s) = (handler s)\<lparr>hw := hw (fold (\<lambda>g. g) (replicate n handler) (handler s))\<rparr>"
    by (rule Suc)
  also have "\<dots> = s\<lparr>hw := hw (fold (\<lambda>g. g) (replicate n handler) (handler s))\<rparr>" by (subst device_only) simp
  finally show ?case by simp
qed simp

end

sublocale device_interrupt \<subseteq> background_interrupt
proof
  fix s
  show "same_procs s (handler s)" by (subst device_only) simp
qed

interpretation timer: device_interrupt idt_pit_irq_handler
  using timer_interrupt_transparent by unfold_locales blast

interpretation clock: device_interrupt "hw_update idt_rtc_irq_handler"
proof
  fix s :: "'a kernel_scheme"
  show "\<exists>h. hw_update idt_rtc_irq_handler s = s\<lparr>hw := h\<rparr>" by (rule exI [of _ "idt_rtc_irq_handler (hw s)"]) simp
qed

lemma timer_keeps_flag: "rtc_interrupt_occured (hw (idt_pit_irq_handler s)) = rtc_interrupt_occured (hw s)"
  by (simp add: idt_pit_irq_handler_def scheduling_handler_def pic_call_def con_io_def rtc_io_def)

lemma clock_read_run:
  assumes p: "curr_pcb s = Some p" "open_node fd p = Some f" "fop f = Some Rtc_ops"
  shows "syscall (replicate n idt_pit_irq_handler) esp ebp 3 fd buf nbytes s = None \<and>
    (\<exists>h. syscall (replicate n idt_pit_irq_handler @ hw_update idt_rtc_irq_handler # hs) esp ebp 3 fd buf nbytes s =
      Some (Return 0, s\<lparr>hw := h\<rparr>))"
proof -
  let ?T = "replicate n idt_pit_irq_handler" and ?flag = "\<lambda>s. rtc_interrupt_occured (hw s) \<noteq> 0"
  let ?s = "con_io sti (con_io cli s)"
  let ?u = "?s\<lparr>hw := (hw ?s)\<lparr>rtc_interrupt_occured := 0\<rparr>\<rparr>"
  have k: "\<not> ?flag (h t)" if "h \<in> set ?T" "\<not> ?flag t" for h t using that by (auto simp: timer_keeps_flag)
  have r: "read_call hs fd buf nbytes ?s = rtc_read_call hs ?s" for hs using p by (simp add: read_call_def)
  have never: "spin_until ?flag ?T ?u = None" by (rule spin_never) (use k in auto)
  have first: "spin_until ?flag (?T @ hw_update idt_rtc_irq_handler # hs) ?u =
      Some (hw_update idt_rtc_irq_handler (fold (\<lambda>g. g) ?T ?u))"
    by (rule spin_first) (use k in auto)
  have "fold (\<lambda>g. g) ?T ?u = ?u\<lparr>hw := hw (fold (\<lambda>g. g) ?T ?u)\<rparr>" by (rule timer.wait_device)
  then obtain h where e: "fold (\<lambda>g. g) ?T ?u = s\<lparr>hw := h\<rparr>" by (auto simp: con_io_def)
  have "\<exists>h'. con_io sti (con_io cli (hw_update idt_rtc_irq_handler (fold (\<lambda>g. g) ?T ?u))) = s\<lparr>hw := h'\<rparr>"
    unfolding e by (rule exI [of _ "rtc_io sti (rtc_io cli (idt_rtc_irq_handler h))"]) (simp add: con_io_def comp_def)
  then show ?thesis using never first r
    by (simp add: syscall_def Let_def rtc_read_call_def)
qed

text \<open>C33: A read of the clock waits for the clock and for nothing else: however many timer interrupts arrive,
  the call does not return before the clock interrupt, and at the first one it returns 0 with memory, screen, page
  tables, files and tasks as they were; only the devices have changed.\<close>

theorem clock_read_waits:
  assumes p: "curr_pcb s = Some p" "open_node fd p = Some f" "fop f = Some Rtc_ops"
  shows "syscall (replicate n idt_pit_irq_handler) esp ebp 3 fd buf nbytes s = None \<and>
    (\<exists>h. syscall (replicate n idt_pit_irq_handler @ hw_update idt_rtc_irq_handler # hs) esp ebp 3 fd buf nbytes s =
      Some (Return 0, s\<lparr>hw := h\<rparr>))"
  using assms by (rule clock_read_run)

definition clock_shell :: kernel where
  "clock_shell = demo_kernel\<lparr>pcbs := (replicate 6 zero_pcb)[0 := zero_pcb\<lparr>file_array := std_files[2 := opened_node Rtc_ops]\<rparr>]\<rparr>"

theorem clock_read_waits_witness:
  "syscall (replicate 3 idt_pit_irq_handler) 0 0 3 2 0 4 clock_shell = None \<and>
    (\<exists>h. syscall (replicate 3 idt_pit_irq_handler @ [hw_update idt_rtc_irq_handler]) 0 0 3 2 0 4 clock_shell =
      Some (Return 0, clock_shell\<lparr>hw := h\<rparr>))"
proof -
  let ?p = "zero_pcb\<lparr>file_array := std_files[2 := opened_node Rtc_ops]\<rparr>"
  have "curr_pcb clock_shell = Some ?p" by (simp add: clock_shell_def curr_pcb_def demo_kernel_fields)
  moreover have "open_node 2 ?p = Some (opened_node Rtc_ops)"
    by (simp add: open_node_def std_files_def opened_node_def)
  moreover have "fop (opened_node Rtc_ops) = Some Rtc_ops" by (simp add: opened_node_def)
  ultimately show ?thesis by (rule clock_read_waits)
qed

end
