(* ===== verification/Idt.thy ===== *)
theory Idt
  imports Sche
begin

text \<open>
  \<open>idt_init.c\<close>: the interrupt descriptor table and the exception handlers. Where the linker puts the handlers is a
  parameter. The bit fields of a descriptor have their widths. The faulting address, which the processor leaves
  in CR2, is an argument of the page-fault handler.
\<close>

section \<open>Descriptors\<close>

datatype exception = DE | DB | NMI | BP | OF | BR | UD | NM | DF | OLD_MF | TS | NP | SS | GP | PF | SPURIOUS | MF | AC | MC | XF

datatype handler = Exception exception | Interrupt_pit | Interrupt_kb | Interrupt_rtc | Interrupt_mouse | Syscall

record idt_desc =
  offset_15_00 :: u16
  seg_selector :: u16
  reserved4 :: u8
  reserved3 :: "1 word"
  reserved2 :: "1 word"
  reserved1 :: "1 word"
  size_bit :: "1 word"
  reserved0 :: "1 word"
  dpl :: "2 word"
  present :: "1 word"
  offset_31_16 :: u16

abbreviation (input) NUM_VEC :: nat where "NUM_VEC \<equiv> 256"
abbreviation (input) SYSCALL :: nat where "SYSCALL \<equiv> 0x80"
abbreviation (input) KERNEL_CS :: u16 where "KERNEL_CS \<equiv> 0x10"

definition SET_IDT_ENTRY :: "nat \<Rightarrow> u32 \<Rightarrow> idt_desc list \<Rightarrow> idt_desc list" where
  "SET_IDT_ENTRY i h idt =
     idt[i := (idt ! i)\<lparr>offset_31_16 := ucast (drop_bit 16 (h AND 0xFFFF0000)), offset_15_00 := ucast (h AND 0xFFFF)\<rparr>]"

definition set_gate :: "nat \<Rightarrow> idt_desc \<Rightarrow> idt_desc" where
  "set_gate index d =
     (let d = d\<lparr>reserved4 := reserved4 d AND 0x1F\<rparr>;
          d = d\<lparr>reserved3 := 0, reserved2 := 1, reserved1 := 1, reserved0 := 0\<rparr>;
          d = d\<lparr>seg_selector := KERNEL_CS, size_bit := 1\<rparr>;
          d = (if index \<noteq> SYSCALL then d\<lparr>dpl := 0\<rparr> else d\<lparr>reserved3 := 1, dpl := 3\<rparr>)
      in d\<lparr>present := 1\<rparr>)"

definition exceptions :: "exception list" where
  "exceptions = [DE, DB, NMI, BP, OF, BR, UD, NM, DF, OLD_MF, TS, NP, SS, GP, PF, SPURIOUS, MF, AC, MC, XF]"

definition handlers :: "(nat \<times> handler) list" where
  "handlers = zip [0..<20] (map Exception exceptions) @
     [(0x20, Interrupt_pit), (0x21, Interrupt_kb), (0x28, Interrupt_rtc), (0x2C, Interrupt_mouse), (0x80, Syscall)]"

definition idt_set_all :: "(handler \<Rightarrow> u32) \<Rightarrow> idt_desc list \<Rightarrow> idt_desc list" where
  "idt_set_all addr idt =
     (let idt = for_to NUM_VEC (\<lambda>index t. t[index := set_gate index (t ! index)]) idt
      in fold (\<lambda>(i, h). SET_IDT_ENTRY i (addr h)) handlers idt)"

section \<open>Exceptions\<close>

fun exception_message :: "exception \<Rightarrow> string" where
  "exception_message DE = ''Divide-by-zero.''"
| "exception_message DB = ''Debug.''"
| "exception_message NMI = ''Non-maskable Interrupt.''"
| "exception_message BP = ''Breakpoint.''"
| "exception_message OF = ''Overflow.''"
| "exception_message BR = ''Bound Range Exceeded.''"
| "exception_message UD = ''Invalid Opcode.''"
| "exception_message NM = ''Device Not Available.''"
| "exception_message DF = ''Double Fault.''"
| "exception_message OLD_MF = ''Coprocessor Segment Overrun.''"
| "exception_message TS = ''Invalid TSS.''"
| "exception_message NP = ''Segment Not Present.''"
| "exception_message SS = ''Stack Segment Fault.''"
| "exception_message GP = ''General Protection Fault.''"
| "exception_message PF = ''Page Fault.\<newline>''"
| "exception_message SPURIOUS = ''Spurious Interrupt.''"
| "exception_message MF = ''x87 Floating-Point Exception.''"
| "exception_message AC = ''Alignment Check.''"
| "exception_message MC = ''Machine Check.''"
| "exception_message XF = ''SIMD Floating-Point Exception.''"

definition fault_message :: "u8 list" where
  "fault_message = text_of ''faulting at addr 0x%#x\<newline>''"

definition idt_handle_all :: "'a kernel_scheme \<Rightarrow> (transfer \<times> 'a kernel_scheme) option" where
  "idt_handle_all s = do {
     (_, s) \<leftarrow> printf (text_of ''Testing: Undefined Interrupt.'') [] (clear s);
     halt 255 s
   }"

definition idt_handle_exception :: "exception \<Rightarrow> u32 \<Rightarrow> 'a kernel_scheme \<Rightarrow> (transfer \<times> 'a kernel_scheme) option" where
  "idt_handle_exception e cr2 s = do {
     (_, s) \<leftarrow> printf (text_of (exception_message e)) [] (clear s);
     s \<leftarrow> (if e = PF then map_option snd (printf fault_message [Num cr2] s) else Some s);
     halt 255 s
   }"

section \<open>What the processor sees\<close>

text \<open>The type field of a gate (14 for an interrupt gate, 15 for a trap gate, of 32 bits) and its target.\<close>

definition gate_type :: "idt_desc \<Rightarrow> nat" where
  "gate_type d = 16 * unat (reserved0 d) + 8 * unat (size_bit d) + 4 * unat (reserved1 d) + 2 * unat (reserved2 d) + unat (reserved3 d)"

definition gate_offset :: "idt_desc \<Rightarrow> u32" where
  "gate_offset d = push_bit 16 (ucast (offset_31_16 d)) OR ucast (offset_15_00 d)"

text \<open>A program may enter a gate with the \<open>int\<close> instruction when its privilege level allows it.\<close>

definition open_to_programs :: "idt_desc \<Rightarrow> bool" where
  "open_to_programs d \<longleftrightarrow> present d = 1 \<and> dpl d = 3"

lemma gate_offset_set:
  "gate_offset (d\<lparr>offset_31_16 := ucast (drop_bit 16 (h AND 0xFFFF0000)), offset_15_00 := ucast (h AND 0xFFFF)\<rparr>) = h"
proof (rule bit_word_eqI)
  fix n assume "n < LENGTH(32)"
  then have n: "n < 32" by simp
  have l: "bit (0xFFFF :: u32) m \<longleftrightarrow> m < 16" for m
    using bit_mask_iff [where 'a = u32 and m = 16 and n = m] by (auto simp: mask_eq_exp_minus_1 possible_bit_def)
  have e: "(0xFFFF0000 :: u32) = push_bit 16 0xFFFF" by simp
  have u: "bit (0xFFFF0000 :: u32) m \<longleftrightarrow> 16 \<le> m \<and> m < 32" for m
    unfolding e bit_push_bit_iff using l [of "m - 16"] by (auto simp: possible_bit_def)
  show "bit (gate_offset (d\<lparr>offset_31_16 := ucast (drop_bit 16 (h AND 0xFFFF0000)), offset_15_00 := ucast (h AND 0xFFFF)\<rparr>)) n = bit h n"
    using n l [of n] l [of "n - 16"] u [of n]
    by (cases "n < 16") (auto simp: gate_offset_def bit_or_iff bit_push_bit_iff bit_unsigned_iff bit_drop_bit_eq bit_and_iff)
qed

lemma install_nth:
  "distinct (map fst hs) \<Longrightarrow> \<forall>(i, h) \<in> set hs. i < length t \<Longrightarrow> n < length t \<Longrightarrow>
    fold (\<lambda>(i, h). SET_IDT_ENTRY i (addr h)) hs t ! n =
      (case map_of hs n of None \<Rightarrow> t ! n | Some h \<Rightarrow> SET_IDT_ENTRY n (addr h) t ! n)"
proof (induction hs arbitrary: t)
  case (Cons p hs)
  obtain i h where p: "p = (i, h)" by force
  have len: "length (SET_IDT_ENTRY i (addr h) t) = length t" by (simp add: SET_IDT_ENTRY_def)
  show ?case
  proof (cases "i = n")
    case True
    then have "map_of hs n = None" using Cons.prems(1) p by (simp add: map_of_eq_None_iff)
    then show ?thesis using Cons.IH [of "SET_IDT_ENTRY i (addr h) t"] Cons.prems p len True by auto
  next
    case False
    then have "SET_IDT_ENTRY i (addr h) t ! n = t ! n" "SET_IDT_ENTRY n (addr h') (SET_IDT_ENTRY i (addr h) t) ! n = SET_IDT_ENTRY n (addr h') t ! n" for h'
      using Cons.prems(3) by (simp_all add: SET_IDT_ENTRY_def)
    then show ?thesis using Cons.IH [of "SET_IDT_ENTRY i (addr h) t"] Cons.prems p len False by (auto split: option.splits)
  qed
qed simp

lemma handlers_vectors: "distinct (map fst handlers)" "\<forall>(i, h) \<in> set handlers. i < 256"
  unfolding handlers_def exceptions_def by (simp_all add: upt_conv_Cons)

lemma set_gate_all:
  assumes "length t = 256" "n < 256"
  shows "for_to 256 (\<lambda>index t. t[index := set_gate index (t ! index)]) t ! n = set_gate n (t ! n)"
    "length (for_to 256 (\<lambda>index t. t[index := set_gate index (t ! index)]) t) = 256"
proof -
  let ?P = "\<lambda>k u. length u = 256 \<and> (\<forall>j<256. u ! j = (if j < k then set_gate j (t ! j) else t ! j))"
  have "?P 256 (for_to 256 (\<lambda>index t. t[index := set_gate index (t ! index)]) t)"
    by (rule for_to_invariant [where P = ?P]) (use assms(1) in \<open>auto simp: nth_list_update\<close>)
  then show "for_to 256 (\<lambda>index t. t[index := set_gate index (t ! index)]) t ! n = set_gate n (t ! n)"
    "length (for_to 256 (\<lambda>index t. t[index := set_gate index (t ! index)]) t) = 256" using assms(2) by simp_all
qed

text \<open>The vectors at which the processor raises its exceptions.\<close>

fun exception_vector :: "exception \<Rightarrow> nat" where
  "exception_vector DE = 0"
| "exception_vector DB = 1"
| "exception_vector NMI = 2"
| "exception_vector BP = 3"
| "exception_vector OF = 4"
| "exception_vector BR = 5"
| "exception_vector UD = 6"
| "exception_vector NM = 7"
| "exception_vector DF = 8"
| "exception_vector OLD_MF = 9"
| "exception_vector TS = 10"
| "exception_vector NP = 11"
| "exception_vector SS = 12"
| "exception_vector GP = 13"
| "exception_vector PF = 14"
| "exception_vector SPURIOUS = 15"
| "exception_vector MF = 16"
| "exception_vector AC = 17"
| "exception_vector MC = 18"
| "exception_vector XF = 19"

lemma handlers_exception: "map_of handlers (exception_vector e) = Some (Exception e)"
  by (cases e) (simp_all add: handlers_def exceptions_def upt_conv_Cons)

lemma handlers_devices:
  "map_of handlers 0x20 = Some Interrupt_pit" "map_of handlers 0x21 = Some Interrupt_kb" "map_of handlers 0x28 = Some Interrupt_rtc"
  "map_of handlers 0x2C = Some Interrupt_mouse" "map_of handlers 0x80 = Some Syscall"
  by (simp_all add: handlers_def exceptions_def upt_conv_Cons)

lemma handlers_none: "20 \<le> n \<Longrightarrow> n \<notin> {0x20, 0x21, 0x28, 0x2C, 0x80} \<Longrightarrow> map_of handlers n = None"
  by (simp add: handlers_def exceptions_def upt_conv_Cons)

lemma gate_set:
  assumes "length t = 256" "n < 256"
  shows "let d = idt_set_all addr t ! n in present d = 1 \<and> seg_selector d = KERNEL_CS \<and>
    gate_type d = (if n = 0x80 then 15 else 14) \<and> (open_to_programs d \<longleftrightarrow> n = 0x80) \<and>
    gate_offset d = (case map_of handlers n of Some h \<Rightarrow> addr h | None \<Rightarrow> gate_offset (t ! n))"
proof -
  let ?u = "for_to 256 (\<lambda>index t. t[index := set_gate index (t ! index)]) t"
  have u: "?u ! n = set_gate n (t ! n)" "length ?u = 256" by (rule set_gate_all [OF assms])+
  have d: "idt_set_all addr t ! n = (case map_of handlers n of None \<Rightarrow> ?u ! n | Some h \<Rightarrow> SET_IDT_ENTRY n (addr h) ?u ! n)"
    unfolding idt_set_all_def Let_def by (rule install_nth) (use handlers_vectors u(2) assms(2) in auto)
  have g: "gate_offset (set_gate n (t ! n)) = gate_offset (t ! n)" by (simp add: set_gate_def gate_offset_def Let_def)
  show ?thesis
  proof (cases "map_of handlers n")
    case None
    then show ?thesis unfolding d Let_def using u(1) g by (simp add: set_gate_def gate_type_def open_to_programs_def Let_def)
  next
    case (Some h)
    then have "idt_set_all addr t ! n = (set_gate n (t ! n))
        \<lparr>offset_31_16 := ucast (drop_bit 16 (addr h AND 0xFFFF0000)), offset_15_00 := ucast (addr h AND 0xFFFF)\<rparr>"
      using d u assms(2) by (simp add: SET_IDT_ENTRY_def)
    then show ?thesis unfolding Let_def using Some gate_offset_set
      by (simp add: set_gate_def gate_type_def open_to_programs_def Let_def)
  qed
qed


definition zero_gate :: idt_desc where
  "zero_gate = \<lparr>offset_15_00 = 0, seg_selector = 0, reserved4 = 0, reserved3 = 0, reserved2 = 0, reserved1 = 0, size_bit = 0,
     reserved0 = 0, dpl = 0, present = 0, offset_31_16 = 0\<rparr>"


section \<open>A program that fails\<close>

text \<open>What an exception leaves on the screen: the name of the exception at its vector, and for a page fault, which is
  followed by a line break, the address.\<close>

definition exception_names :: "string list" where
  "exception_names = [''Divide-by-zero.'', ''Debug.'', ''Non-maskable Interrupt.'', ''Breakpoint.'', ''Overflow.'',
     ''Bound Range Exceeded.'', ''Invalid Opcode.'', ''Device Not Available.'', ''Double Fault.'', ''Coprocessor Segment Overrun.'',
     ''Invalid TSS.'', ''Segment Not Present.'', ''Stack Segment Fault.'', ''General Protection Fault.'', ''Page Fault.\<newline>'',
     ''Spurious Interrupt.'', ''x87 Floating-Point Exception.'', ''Alignment Check.'', ''Machine Check.'',
     ''SIMD Floating-Point Exception.'']"

definition exception_text :: "nat \<Rightarrow> u32 \<Rightarrow> u8 list" where
  "exception_text v cr2 =
     text_of (exception_names ! v) @ (if v = 14 then text_of ''faulting at addr 0x'' @ hex8_text cr2 @ [NEWLINE] else [])"

lemma exception_text_shown:
  "exception_text (exception_vector e) cr2 =
     text_of (exception_message e) @ (if e = PF then text_of ''faulting at addr 0x'' @ hex8_text cr2 @ [NEWLINE] else [])"
  by (cases e) (simp_all add: exception_text_def exception_names_def)

lemma exception_format: "format_text (text_of (exception_message e)) [] = Some (text_of (exception_message e))"
  by (cases e) (simp_all add: text_of_def)

lemma fault_format: "format_text fault_message [Num cr2] = Some (text_of ''faulting at addr 0x'' @ hex8_text cr2 @ [NEWLINE])"
  by (simp add: fault_message_def text_of_def)

lemma printf_run:
  assumes "con_inv s" "format_text f args = Some t"
  obtains s' where "printf f args s = Some (length f, s')" "con_run (tty_write t) s s'"
  using put_all_run [OF assms(1), of t] printf_prints(1) [OF assms(2), of s] that by (auto simp: printf_def)

lemma exception_prints:
  fixes s :: "'a kernel_scheme"
  assumes "con_inv s"
  obtains t where "idt_handle_exception e cr2 s = halt 255 t" "con_inv t" "same_procs s t" "mmu t = mmu s"
    "tty t = tty_write (exception_text (exception_vector e) cr2) (replicate 2000 BLANK, position s)"
proof -
  have c: "con_inv (clear s)" "tty (clear s) = (replicate 2000 BLANK, position s)" "con.more (clear s) = con.more s"
    using assms by (simp_all add: clear_def con_inv_def tty_def position_def clear_video_spec)
  obtain u where u: "printf (text_of (exception_message e)) [] (clear s) = Some (length (text_of (exception_message e)), u)"
      "con_run (tty_write (text_of (exception_message e))) (clear s) u"
    by (rule printf_run [OF c(1) exception_format])
  have iu: "con_inv u" using u(2) by (simp add: con_run_def)
  obtain v where v: "printf fault_message [Num cr2] u = Some (length fault_message, v)"
      "con_run (tty_write (text_of ''faulting at addr 0x'' @ hex8_text cr2 @ [NEWLINE])) u v"
    by (rule printf_run [OF iu fault_format])
  let ?t = "if e = PF then v else u"
  have "idt_handle_exception e cr2 s = halt 255 ?t" using u(1) v(1) by (simp add: idt_handle_exception_def)
  moreover have "con_inv ?t" "con.more ?t = con.more s" using u(2) v(2) c(3) by (auto simp: con_run_def con_frame_def)
  moreover have "tty ?t = tty_write (exception_text (exception_vector e) cr2) (replicate 2000 BLANK, position s)"
    using u(2) v(2) c(2) by (simp add: con_run_def exception_text_shown tty_write_def)
  ultimately show thesis using that [of ?t] more_procs [of ?t s] mmu_more [of ?t s] by simp
qed

lemma halt_tty: "halt status s = Some (Resume a b c, s') \<Longrightarrow> tty s' = tty s"
  by (auto simp: halt_def restart_shell_def Let_def tty_def position_def map_task_def split: if_splits bind_splits prod.splits)

lemma vwrite_con_inv:
  assumes "vwrite va xs s = Some s'"
  shows "con_inv s' = con_inv s"
  by (subst vwrite_ram [OF assms]) (simp add: con_inv_def)

lemma execute_con_inv:
  assumes "execute esp ebp command s = Some (User_mode addr usp, s')"
  shows "con_inv s' = con_inv s"
proof -
  obtain bytes fs' t p where
    "vwrite LOADADDR bytes (map_task (claim_slot ((con_io cli s)\<lparr>fs := fs'\<rparr>))) = Some t"
    "s' = (set_curr_pcb p t)\<lparr>tss_ss0 := KERNEL_DS, tss_esp0 := kernel_stack (curr_task_pos t), runn_task_num := runn_task_num t + 1\<rparr>"
    using execute_success [OF assms] by blast
  then show ?thesis using vwrite_con_inv [of LOADADDR bytes "map_task (claim_slot ((con_io cli s)\<lparr>fs := fs'\<rparr>))" t]
    by (simp add: con_inv_def set_curr_pcb_def map_task_def claim_slot_def split: option.splits)
qed

text \<open>C20: An exception in a program ends that program and nothing else: from any state the program reaches after
  \<open>execute\<close> started it, by calls, stores and interrupts that miss the kernel's own frame, the handler of the vector
  clears the screen, shows the name of the exception of that vector (and the address of a page fault) and halts the
  program, so that \<open>execute\<close> returns 256 to the parent, on its own stack and page, with the slot of the program free
  and the other tasks as they were.\<close>

theorem exception_ends_program:
  fixes s :: "'a kernel_scheme"
  assumes s: "tasks_ok s" "runn_task_num s \<noteq> 0" "task_bitmap s ! 0 \<noteq> 0"
    and caller: "pcb_index (esp AND PROCESSMASK) = Some (unat (curr_task_pos s))"
      "task_bitmap s ! unat (curr_task_pos s) \<noteq> 0"
      "process_id (pcbs s ! unat (curr_task_pos s)) = uint (curr_task_pos s)"
    and start: "execute esp ebp command s = Some (User_mode addr usp, s1)"
    and run: "program_step\<^sup>*\<^sup>* s1 s2" "con_inv s2"
  shows "\<exists>s' k. idt_handle_exception e cr2 s2 = Some (Resume esp ebp 256, s') \<and>
    tty s' = tty_write (exception_text (exception_vector e) cr2) (replicate 2000 BLANK, position s2) \<and>
    k < 6 \<and> task_bitmap s ! k = 0 \<and> pcbs s' = (pcbs s)[k := zero_pcb] \<and> curr_task_pos s' = curr_task_pos s \<and>
    runn_task_num s' = runn_task_num s \<and> task_bitmap s' = task_bitmap s \<and> tss_esp0 s' = kernel_stack (curr_task_pos s) \<and>
    mmu s' = enable_paging (set_task_page (curr_task_pos s) (mmu s2))"
proof -
  obtain t where t: "idt_handle_exception e cr2 s2 = halt 255 t" "same_procs s2 t" "mmu t = mmu s2"
      "tty t = tty_write (exception_text (exception_vector e) cr2) (replicate 2000 BLANK, position s2)"
    using exception_prints [OF run(2)] by metis
  have c: "call_step s1 t" if "curr_pcb s1 = Some p" for p
  proof -
    have "call_step s1 s2" by (rule program_steps_call [OF run(1) that])
    moreover from this obtain q where "curr_pcb s2 = Some q" using call_step_files by blast
    ultimately show ?thesis using call_step_procs [OF t(2)] call_step_trans by blast
  qed
  obtain s' k where
    h: "halt 255 t = Some (Resume esp ebp (expand_status 255), s')" "k < 6" "task_bitmap s ! k = 0" "pcbs s' = (pcbs s)[k := zero_pcb]"
      "curr_task_pos s' = curr_task_pos s" "runn_task_num s' = runn_task_num s" "task_bitmap s' = task_bitmap s"
      "tss_esp0 s' = kernel_stack (curr_task_pos s)" "mmu s' = enable_paging (set_task_page (curr_task_pos s) (mmu t))"
    using process_halts [OF s caller start, of t 255] c by blast
  have "tty s' = tty t" using halt_tty [OF h(1)] .
  moreover have "expand_status 255 = 256" by (simp add: expand_status_def)
  ultimately show ?thesis using h t by (intro exI [of _ s'] exI [of _ k]) simp
qed

theorem exception_ends_program_witness:
  "\<exists>s1 s'. execute 0x7FFFF0 0x7FFFF8 0x08048100 demo_kernel = Some (User_mode 0x08048018 0x083FFFFC, s1) \<and>
    idt_handle_exception DE 0 s1 = Some (Resume 0x7FFFF0 0x7FFFF8 256, s') \<and>
    tty s' = tty_write (text_of ''Divide-by-zero.'') (replicate 2000 BLANK, position s1) \<and> task_bitmap s' = [1, 0, 0, 0, 0, 0]"
proof -
  obtain s1 where s1: "execute 0x7FFFF0 0x7FFFF8 0x08048100 demo_kernel = Some (User_mode 0x08048018 0x083FFFFC, s1)"
    by (rule demo_start)
  have r: "program_step\<^sup>*\<^sup>* s1 s1" by simp
  have "con_inv demo_kernel" by (simp add: demo_kernel_def con_inv_def)
  then have i: "con_inv s1" using execute_con_inv [OF s1] by simp
  from exception_ends_program [OF demo_tasks_ok(1) _ _ demo_caller _ _ s1 r i, of DE 0] show ?thesis
    using s1 by (auto simp: demo_kernel_fields zero_pcb_def exception_text_def exception_names_def)
qed

end
