(* ===== verification/Keyboard.thy ===== *)
theory Keyboard
  imports Terminals
begin

text \<open>
  \<open>keyboard.c\<close>: the line buffer, the translation of scan codes and the keyboard interrupt. \<open>keyboard.c\<close> declares
  \<open>ter_read_buf_size\<close> and \<open>ter_read_indicator\<close> with eight bits although they have 32: it reads and writes
  their lowest byte. A key may switch to a terminal that has to be started, and then the interrupt ends in
  the new shell.
\<close>

section \<open>State\<close>

record kbd = terminals +
  cap_flag :: int
  shift_flag :: int
  control_flag :: int
  alt_flag :: int
  rtc_test_mode :: int
  rtc_count :: u8

abbreviation (input) KEYB_PORT :: u16 where "KEYB_PORT \<equiv> 0x60"
abbreviation (input) KEY_RELEASE_ADD :: u32 where "KEY_RELEASE_ADD \<equiv> 0x80"
abbreviation (input) IRQ1 :: u32 where "IRQ1 \<equiv> 1"
abbreviation (input) PRINT_TABLE_SIZE :: u8 where "PRINT_TABLE_SIZE \<equiv> 54"
abbreviation (input) TRACKER_SIZE :: nat where "TRACKER_SIZE \<equiv> 25"
abbreviation (input) SC_CAP :: u32 where "SC_CAP \<equiv> 0x3A"
abbreviation (input) SC_L :: u32 where "SC_L \<equiv> 0x26"
abbreviation (input) SC_P :: u32 where "SC_P \<equiv> 0x19"
abbreviation (input) L_SHIFT :: u32 where "L_SHIFT \<equiv> 0x2A"
abbreviation (input) R_SHIFT :: u32 where "R_SHIFT \<equiv> 0x36"
abbreviation (input) CONTROL :: u32 where "CONTROL \<equiv> 0x1D"
abbreviation (input) BACKSPACE :: u32 where "BACKSPACE \<equiv> 0x0E"
abbreviation (input) SPACE :: u32 where "SPACE \<equiv> 0x39"
abbreviation (input) ENTER :: u32 where "ENTER \<equiv> 0x1C"
abbreviation (input) L_ALT :: u32 where "L_ALT \<equiv> 0x38"
abbreviation (input) FONEKEY :: u32 where "FONEKEY \<equiv> 0x3B"
abbreviation (input) FTWOKEY :: u32 where "FTWOKEY \<equiv> 0x3C"
abbreviation (input) FTHREEKEY :: u32 where "FTHREEKEY \<equiv> 0x3D"

definition prompt :: "u8 list" where
  "prompt = c_string ''391OS> ''"

definition text_mode_interface :: "u8 list" where
  "text_mode_interface = c_string ''[[==================<text editing mode>==<history not saved>==================]]''"

definition keyboard_init :: "'a kbd_scheme \<Rightarrow> 'a kbd_scheme" where
  "keyboard_init s =
     (let s = pic_call (enable_irq IRQ1) s;
          s = s\<lparr>cap_flag := 0, shift_flag := 0, control_flag := 0, alt_flag := 0, enter_flag := 0,
                cross_enter_flag := 0, rtc_test_mode := 0, rtc_count := 1\<rparr>;
          s = s\<lparr>keyboard_buffer := for_to BUF_SIZE (\<lambda>i b. b[i := 0]) (keyboard_buffer s)\<rparr>;
          s = s\<lparr>enter_tracker := for_to TRACKER_SIZE (\<lambda>i b. b[i := 0]) (enter_tracker s)\<rparr>
      in s\<lparr>kb_buffer_position := 0, first_scroll_indicator := 0\<rparr>)"

section \<open>The line buffer\<close>

definition set_low_byte :: "u8 \<Rightarrow> u32 \<Rightarrow> u32" where
  "set_low_byte b w = (w AND NOT 0xFF) OR ucast b"

definition add_key :: "u8 \<Rightarrow> 'a tio_scheme \<Rightarrow> 'a tio_scheme option" where
  "add_key data s =
     (if unat (kb_buffer_position s) = BUF_SIZE then Some s
      else do {
        s \<leftarrow> putc data s;
        b \<leftarrow> store (keyboard_buffer s) (unat (kb_buffer_position s)) data;
        Some (s\<lparr>keyboard_buffer := b, kb_buffer_position := kb_buffer_position s + 1\<rparr>)
      })"

definition delete_key :: "'a tio_scheme \<Rightarrow> 'a tio_scheme option" where
  "delete_key s =
     (if kb_buffer_position s = 0 then Some s
      else do {
        s \<leftarrow> backspace s;
        let s = s\<lparr>kb_buffer_position := kb_buffer_position s - 1\<rparr>;
        b \<leftarrow> store (keyboard_buffer s) (unat (kb_buffer_position s)) 0;
        Some (s\<lparr>keyboard_buffer := b\<rparr>)
      })"

text \<open>The hand-over of a line to a read that waits for it.\<close>

definition hand_over :: "'a tio_scheme \<Rightarrow> 'a tio_scheme option" where
  "hand_over s = do {
     let pos = unat (kb_buffer_position s);
     let b = for_to BUF_SIZE (\<lambda>i b. b[i := keyboard_buffer s ! i]) (ter_read_buffer s);
     s \<leftarrow> (if pos < BUF_SIZE then do {
             b \<leftarrow> store b pos NEWLINE;
             b \<leftarrow> store b (pos + 1) 0;
             Some (s\<lparr>ter_read_buffer := b, ter_read_buf_size := set_low_byte (of_nat pos + 1) (ter_read_buf_size s)\<rparr>)
           } else Some (s\<lparr>ter_read_buffer := b, ter_read_buf_size := set_low_byte (of_nat BUF_SIZE) (ter_read_buf_size s)\<rparr>));
     Some (s\<lparr>cross_enter_flag := 1\<rparr>)
   }"

definition enter_key :: "'a tio_scheme \<Rightarrow> 'a tio_scheme option" where
  "enter_key s = do {
     s \<leftarrow> (if (ucast (ter_read_indicator s) :: u8) = 1 then hand_over s else Some s);
     putc NEWLINE (keyboard_buffer_reset s)
   }"

definition keyboard_buffer_edit :: "u8 \<Rightarrow> u8 \<Rightarrow> 'a tio_scheme \<Rightarrow> 'a tio_scheme option" where
  "keyboard_buffer_edit indicator data s =
     (if indicator = 1 then add_key data s
      else if indicator = 0 then delete_key s
      else if indicator = 2 then Some (reset s)
      else if indicator = 3 then enter_key s
      else Some s)"

section \<open>Scan codes\<close>

definition ascii_array :: "u8 list" where
  "ascii_array = [0, 0] @ text_of ''1234567890-='' @ [0, 0] @ text_of ''qwertyuiop[]'' @ [0, 0] @
     text_of ''asdfghjkl;'' @ [0x27] @ text_of ''`'' @ [0, 0x5C] @ text_of ''zxcvbnm,./''"

definition shift_array :: "u8 list" where
  "shift_array = [0, 0] @ text_of ''!@#$%^&*()_+'' @ [0, 0] @ text_of ''QWERTYUIOP{}'' @ [0, 0] @
     text_of ''ASDFGHJKL:'' @ [0x22] @ text_of ''~'' @ [0] @ text_of ''|ZXCVBNM<>?''"

definition ascii :: "u8 \<Rightarrow> 'a kbd_scheme \<Rightarrow> u8" where
  "ascii scan_code s =
     (if scan_code \<ge> PRINT_TABLE_SIZE then -1
      else let ret = ascii_array ! unat scan_code
           in if cap_flag s = 1 \<and> ret \<ge> 0x61 \<and> ret \<le> 0x7A then ret - 0x20 else ret)"

definition shift :: "u8 \<Rightarrow> u8" where
  "shift scan_code = (if scan_code \<ge> PRINT_TABLE_SIZE then -1 else shift_array ! unat scan_code)"

section \<open>The interrupt\<close>

datatype key_result = Char u8 | Leave transfer

definition modifier_keys :: "u32 \<Rightarrow> 'a kbd_scheme \<Rightarrow> 'a kbd_scheme" where
  "modifier_keys input s =
     (let s = (if (input = L_SHIFT \<or> input = R_SHIFT) \<and> shift_flag s = 0 then s\<lparr>shift_flag := 1\<rparr> else s);
          s = (if (input = L_SHIFT + KEY_RELEASE_ADD \<or> input = R_SHIFT + KEY_RELEASE_ADD) \<and> shift_flag s = 1
               then s\<lparr>shift_flag := 0\<rparr> else s);
          s = (if input = CONTROL \<and> control_flag s = 0 then s\<lparr>control_flag := 1\<rparr> else s);
          s = (if input = CONTROL + KEY_RELEASE_ADD \<and> control_flag s = 1 then s\<lparr>control_flag := 0\<rparr> else s);
          s = (if input = L_ALT \<and> alt_flag s = 0 then s\<lparr>alt_flag := 1\<rparr> else s)
      in if input = L_ALT + KEY_RELEASE_ADD \<and> alt_flag s = 1 then s\<lparr>alt_flag := 0\<rparr> else s)"

definition terminal_key :: "u32 \<Rightarrow> 'a kbd_scheme \<Rightarrow> int option" where
  "terminal_key input s =
     (if alt_flag s \<noteq> 1 then None
      else if input = FONEKEY then Some 0
      else if input = FTWOKEY then Some 1
      else if input = FTHREEKEY then Some 2
      else None)"

definition text_mode_key :: "'a kbd_scheme \<Rightarrow> 'a kbd_scheme option" where
  "text_mode_key s = do {
     s \<leftarrow> keyboard_buffer_edit 2 BLANK s;
     let s = s\<lparr>enter_flag := - enter_flag s - 1\<rparr>;
     if enter_flag s = 0 then map_option snd (puts (list_view prompt) s)
     else if enter_flag s = -1 then map_option snd (puts (list_view text_mode_interface) (s\<lparr>first_scroll_indicator := 0\<rparr>))
     else Some s
   }"

text \<open>The keys behind the terminal switches.\<close>

definition character_key :: "u32 \<Rightarrow> 'a kbd_scheme \<Rightarrow> (key_result \<times> 'a kbd_scheme) option" where
  "character_key input s =
     (if control_flag s = 1 \<and> input = SC_L then map_option (Pair (Char 0)) (keyboard_buffer_edit 2 BLANK s)
      else if control_flag s = 1 \<and> input = SC_P then map_option (Pair (Char 0)) (text_mode_key s)
      else if shift_flag s = 0 then Some (Char (ascii (ucast input) s), s)
      else if shift_flag s = 1 then Some (Char (shift (ucast input)), s)
      else None)"

definition get_char :: "u32 \<Rightarrow> u32 \<Rightarrow> u32 \<Rightarrow> 'a kbd_scheme \<Rightarrow> (key_result \<times> 'a kbd_scheme) option" where
  "get_char shell_at esp ebp s =
     (let (input, m) = inb KEYB_PORT (pic_io (rtc_pic (hw s)));
          s = con_io (\<lambda>_. m) s
      in if input = ENTER then
           map_option (Pair (Char 0)) (keyboard_buffer_edit (if enter_flag s = -1 then 1 else 3) NEWLINE s)
         else if input = SC_CAP \<and> cap_flag s = 0 then Some (Char 0, s\<lparr>cap_flag := 1\<rparr>)
         else if input = SC_CAP \<and> cap_flag s = 1 then Some (Char 0, s\<lparr>cap_flag := 0\<rparr>)
         else if input = BACKSPACE then map_option (Pair (Char 0)) (keyboard_buffer_edit 0 BLANK s)
         else if input = SPACE then Some (Char BLANK, s)
         else do {
           let s = modifier_keys input s;
           case terminal_key input s of
             None \<Rightarrow> character_key input s
           | Some n \<Rightarrow> do {
               (t, s) \<leftarrow> terminal_switch shell_at esp ebp n s;
               case t of Return _ \<Rightarrow> character_key input s | _ \<Rightarrow> Some (Leave t, s)
             }
         })"

definition idt_keyboard_irq_handler :: "u32 \<Rightarrow> u32 \<Rightarrow> u32 \<Rightarrow> 'a kbd_scheme \<Rightarrow> (transfer \<times> 'a kbd_scheme) option" where
  "idt_keyboard_irq_handler shell_at esp ebp s = do {
     (r, s) \<leftarrow> get_char shell_at esp ebp (con_io cli s);
     case r of
       Leave t \<Rightarrow> Some (t, s)
     | Char output \<Rightarrow> do {
         s \<leftarrow> (if output \<ge> 0x20 \<and> output \<le> 0x7E \<and> output \<noteq> 0 then keyboard_buffer_edit 1 output s else Some s);
         Some (Return 0, con_io sti (pic_call (send_eoi IRQ1) s))
       }
   }"

section \<open>The line editor\<close>

text \<open>The line being typed, in normal mode.\<close>

definition line :: "'a con_scheme \<Rightarrow> u8 list" where
  "line s = take (unat (kb_buffer_position s)) (keyboard_buffer s)"

definition kbd_ok :: "'a con_scheme \<Rightarrow> bool" where
  "kbd_ok s \<longleftrightarrow> con_inv s \<and> enter_flag s = 0 \<and> unat (kb_buffer_position s) \<le> 128 \<and>
     keyboard_buffer s = line s @ replicate (128 - length (line s)) 0"

text \<open>The editor the buffer implements, on the line and the screen.\<close>

fun edit_line :: "u8 \<Rightarrow> u8 \<Rightarrow> u8 list \<times> tty \<Rightarrow> u8 list \<times> tty" where
  "edit_line indicator c (l, t) =
     (if indicator = 1 then if length l = 128 then (l, t) else (l @ [c], tty_putc c t)
      else if indicator = 0 then if l = [] then (l, t) else (butlast l, tty_erase t)
      else if indicator = 2 then ([], replicate 2000 BLANK, 0)
      else if indicator = 3 then ([], tty_putc NEWLINE t)
      else (l, t))"

lemma kbd_ok_length: "kbd_ok s \<Longrightarrow> length (line s) = unat (kb_buffer_position s) \<and> length (keyboard_buffer s) = 128"
  by (auto simp: kbd_ok_def line_def con_inv_def)

lemma kbd_ok_intro:
  assumes "con_inv s" "enter_flag s = 0" "length l \<le> 128" "keyboard_buffer s = l @ replicate (128 - length l) 0"
    "kb_buffer_position s = of_nat (length l)"
  shows "kbd_ok s" "line s = l"
proof -
  have "unat (kb_buffer_position s) = length l" using assms(3,5) by (simp add: u8_position)
  then show "line s = l" "kbd_ok s" using assms by (simp_all add: kbd_ok_def line_def)
qed

lemma kbd_ok_frame:
  assumes "kbd_ok s" "con_step f s t"
  shows "kbd_ok t" "line t = line s" "tty t = f (tty s)"
    "keyboard_buffer t = keyboard_buffer s" "kb_buffer_position t = kb_buffer_position s"
  using assms by (simp_all add: kbd_ok_def con_step_def con_frame_def line_def)

lemma add_key_line:
  assumes "kbd_ok s" "length (line s) \<noteq> 128"
  shows "\<exists>t s'. putc c s = Some t \<and> con_step (tty_putc c) s t \<and> add_key c s = Some s' \<and>
    s' = t\<lparr>keyboard_buffer := (keyboard_buffer s)[length (line s) := c], kb_buffer_position := kb_buffer_position s + 1\<rparr> \<and>
    kbd_ok s' \<and> line s' = line s @ [c] \<and> tty s' = tty_putc c (tty s)"
proof -
  note len = kbd_ok_length [OF assms(1)]
  have n: "length (line s) < 128" using assms len by (auto simp: kbd_ok_def)
  obtain t where t: "putc c s = Some t" "con_step (tty_putc c) s t" using putc_step assms(1) by (auto simp: kbd_ok_def)
  note k = kbd_ok_frame [OF assms(1) t(2)]
  let ?s = "t\<lparr>keyboard_buffer := (keyboard_buffer s)[length (line s) := c], kb_buffer_position := kb_buffer_position s + 1\<rparr>"
  have a: "add_key c s = Some ?s" using assms(2) len n t(1) k(4,5) by (auto simp: add_key_def store_def)
  have "replicate (128 - length (line s)) (0 :: u8) = 0 # replicate (127 - length (line s)) 0"
    using n by (simp flip: replicate_Suc add: Suc_diff_Suc)
  moreover have "keyboard_buffer s = line s @ replicate (128 - length (line s)) 0" using assms(1) by (simp add: kbd_ok_def)
  ultimately have b: "(keyboard_buffer s)[length (line s) := c] = (line s @ [c]) @ replicate (127 - length (line s)) 0" by simp
  have pos: "kb_buffer_position s + 1 = of_nat (length (line s @ [c]))"
    using len by simp
  have "con_inv t" "enter_flag t = 0" using k(1) by (simp_all add: kbd_ok_def)
  then have f: "con_inv ?s" "enter_flag ?s = 0" "length (line s @ [c]) \<le> 128" "kb_buffer_position ?s = of_nat (length (line s @ [c]))"
    "keyboard_buffer ?s = (line s @ [c]) @ replicate (128 - length (line s @ [c])) 0"
    using len n pos b by (simp_all add: con_inv_def)
  note kbd_ok_intro [OF f(1,2,3,5,4)]
  moreover have "tty ?s = tty_putc c (tty s)" using k(3) by (simp add: tty_def position_def)
  ultimately show ?thesis using t a by blast
qed

lemma backspace_any:
  assumes "con_inv s" "enter_flag s \<noteq> -1"
  shows "\<exists>t. backspace s = Some t \<and> con_inv t \<and> con_frame s t \<and> tty t = tty_erase (tty s)"
proof (cases "position s = 0")
  case False
  then show ?thesis using backspace_step [OF assms False] by (auto simp: con_step_def)
next
  case True
  have "screen_x s = 0" "screen_y s = 0" using True assms(1) by (auto simp: position_def con_inv_def)
  then show ?thesis using assms(1) True by (simp add: backspace_def tty_def)
qed

lemma delete_key_line:
  assumes "kbd_ok s" "line s \<noteq> []"
  shows "\<exists>s'. delete_key s = Some s' \<and> kbd_ok s' \<and> line s' = butlast (line s) \<and> tty s' = tty_erase (tty s)"
proof -
  note len = kbd_ok_length [OF assms(1)]
  have "0 < length (line s)" using assms(2) by simp
  moreover have "length (line s) \<le> 128" using len assms(1) by (simp add: kbd_ok_def)
  ultimately have n: "0 < length (line s)" "length (line s) \<le> 128" .
  obtain t where t: "backspace s = Some t" "con_inv t" "con_frame s t" "tty t = tty_erase (tty s)"
    using backspace_any [of s] assms(1) by (auto simp: kbd_ok_def)
  have k: "enter_flag t = 0" "keyboard_buffer t = keyboard_buffer s" "kb_buffer_position t = kb_buffer_position s"
    using t(3) assms(1) by (auto simp: con_frame_def kbd_ok_def)
  have nz: "kb_buffer_position s \<noteq> 0" using n len by auto
  then have u: "unat (kb_buffer_position s - 1) = length (line s) - 1" using len by (simp add: unat_minus_one)
  let ?b = "(keyboard_buffer s)[length (line s) - 1 := 0]"
  let ?s = "t\<lparr>kb_buffer_position := kb_buffer_position s - 1, keyboard_buffer := ?b\<rparr>"
  have d: "delete_key s = Some ?s" using nz t(1) k u len n by (simp add: delete_key_def store_def Let_def)
  have "keyboard_buffer s = butlast (line s) @ last (line s) # replicate (128 - length (line s)) 0"
    using assms by (simp add: kbd_ok_def)
  then have "?b = butlast (line s) @ 0 # replicate (128 - length (line s)) 0"
    using list_update_length [of "butlast (line s)" "last (line s)" _ 0] by simp
  moreover have "128 - length (butlast (line s)) = Suc (128 - length (line s))" using n unfolding length_butlast by linarith
  ultimately have b: "?b = butlast (line s) @ replicate (128 - length (butlast (line s))) 0"
    by (simp only: replicate_Suc)
  have "kb_buffer_position s - 1 = of_nat (length (butlast (line s)))"
    using u by (metis length_butlast of_nat_unat ucast_id)
  then have f: "con_inv ?s" "enter_flag ?s = 0" "length (butlast (line s)) \<le> 128"
    "keyboard_buffer ?s = butlast (line s) @ replicate (128 - length (butlast (line s))) 0"
    "kb_buffer_position ?s = of_nat (length (butlast (line s)))"
    using t(2) len n k(1) b by (simp_all add: con_inv_def)
  note kbd_ok_intro [OF f]
  moreover have "tty ?s = tty_erase (tty s)" using t(4) by (simp add: tty_def position_def)
  ultimately show ?thesis using d by blast
qed

lemma keyboard_buffer_reset_ok:
  assumes "con_inv s" "enter_flag s = 0"
  shows "kbd_ok (keyboard_buffer_reset s)" "line (keyboard_buffer_reset s) = []" "tty (keyboard_buffer_reset s) = tty s"
  using assms kbd_ok_intro [of "keyboard_buffer_reset s" "[]"]
  by (auto simp: keyboard_buffer_reset_def con_inv_def for_to_fill_all map_replicate_const tty_def position_def)

lemma newline_after_reset:
  assumes "con_inv s" "enter_flag s = 0"
  shows "\<exists>s'. putc NEWLINE (keyboard_buffer_reset s) = Some s' \<and> con_step (tty_putc NEWLINE) (keyboard_buffer_reset s) s' \<and>
    kbd_ok s' \<and> line s' = [] \<and> tty s' = tty_putc NEWLINE (tty s)"
proof -
  note r = keyboard_buffer_reset_ok [OF assms]
  obtain s' where s': "putc NEWLINE (keyboard_buffer_reset s) = Some s'" "con_step (tty_putc NEWLINE) (keyboard_buffer_reset s) s'"
    using putc_step r(1) by (auto simp: kbd_ok_def)
  with kbd_ok_frame [OF r(1) s'(2)] r show ?thesis by auto
qed

text \<open>The line with its end, as a waiting read gets it.\<close>

definition handed :: "u8 list \<Rightarrow> u8 list" where
  "handed l = l @ NEWLINE # replicate (127 - length l) 0"

lemma hand_over_line:
  assumes "kbd_ok s" "length (ter_read_buffer s) = 128" "length (line s) < 127"
  shows "hand_over s = Some (s\<lparr>ter_read_buffer := handed (line s),
    ter_read_buf_size := set_low_byte (of_nat (length (line s)) + 1) (ter_read_buf_size s), cross_enter_flag := 1\<rparr>)"
proof -
  note len = kbd_ok_length [OF assms(1)]
  let ?n = "length (line s)"
  have c: "for_to BUF_SIZE (\<lambda>i b. b[i := keyboard_buffer s ! i]) (ter_read_buffer s) = keyboard_buffer s"
    using assms(2) len by (simp add: copy_buffer)
  have "replicate (128 - ?n) (0 :: u8) = 0 # 0 # replicate (126 - ?n) 0"
    using assms(3) by (simp flip: replicate_Suc add: Suc_diff_Suc numeral_eq_Suc)
  then have "keyboard_buffer s = line s @ 0 # 0 # replicate (126 - ?n) 0" using assms(1) by (simp add: kbd_ok_def)
  then have "(keyboard_buffer s)[?n := NEWLINE, ?n + 1 := 0] = line s @ NEWLINE # 0 # replicate (126 - ?n) 0"
    by (simp add: list_update_append)
  also have "0 # replicate (126 - ?n) 0 = replicate (127 - ?n) (0 :: u8)"
    using assms(3) by (simp flip: replicate_Suc add: Suc_diff_Suc numeral_eq_Suc)
  finally have "(keyboard_buffer s)[?n := NEWLINE, ?n + 1 := 0] = handed (line s)" by (simp add: handed_def)
  then show ?thesis using c len assms(3) by (simp add: hand_over_def store_def Let_def)
qed

lemma enter_key_line:
  assumes "kbd_ok s" "length (ter_read_buffer s) = 128" "length (line s) < 127 \<or> (ucast (ter_read_indicator s) :: u8) \<noteq> 1"
  shows "\<exists>s'. enter_key s = Some s' \<and> kbd_ok s' \<and> line s' = [] \<and> tty s' = tty_putc NEWLINE (tty s)"
proof (cases "(ucast (ter_read_indicator s) :: u8) = 1")
  case True
  then have h: "hand_over s = Some (s\<lparr>ter_read_buffer := handed (line s),
      ter_read_buf_size := set_low_byte (of_nat (length (line s)) + 1) (ter_read_buf_size s), cross_enter_flag := 1\<rparr>)" (is "_ = Some ?t")
    using hand_over_line assms by blast
  have "con_inv s" "enter_flag s = 0" using assms(1) by (simp_all add: kbd_ok_def)
  then have "con_inv ?t" "enter_flag ?t = 0" "tty ?t = tty s" by (simp_all add: con_inv_def tty_def position_def)
  then show ?thesis using newline_after_reset [of ?t] True h by (auto simp: enter_key_def)
next
  case False
  then show ?thesis using newline_after_reset [of s] assms(1) by (auto simp: enter_key_def kbd_ok_def)
qed

lemma reset_line:
  assumes "kbd_ok s"
  shows "kbd_ok (reset s)" "line (reset s) = []" "tty (reset s) = (replicate 2000 BLANK, 0)"
proof -
  have "con_inv s" "enter_flag s = 0" using assms by (simp_all add: kbd_ok_def)
  then have "con_inv (reset s)" "keyboard_buffer (reset s) = replicate 128 0" "tty (reset s) = (replicate 2000 BLANK, 0)"
    "enter_flag (reset s) = 0" "kb_buffer_position (reset s) = of_nat (length ([] :: u8 list))"
    using reset_spec [of s] by (simp_all add: con_inv_def)
  then show "kbd_ok (reset s)" "line (reset s) = []" "tty (reset s) = (replicate 2000 BLANK, 0)"
    using kbd_ok_intro [of "reset s" "[]"] by auto
qed

text \<open>C13: In normal mode the keyboard buffer is a line editor of at most 128 characters: adding a character appends it
  to the line and prints it, deleting one takes the last character off the line and off the screen, and both do
  nothing on a full or an empty line; clearing empties line and screen; the enter key ends the line and starts a
  new one on the screen. The buffer always holds the line followed by zeros.\<close>

theorem keyboard_buffer_edit_refines:
  assumes "kbd_ok s" "length (ter_read_buffer s) = 128"
    and "indicator = 3 \<Longrightarrow> length (line s) < 127 \<or> (ucast (ter_read_indicator s) :: u8) \<noteq> 1"
  shows "\<exists>s'. keyboard_buffer_edit indicator c s = Some s' \<and> kbd_ok s' \<and>
    (line s', tty s') = edit_line indicator c (line s, tty s)"
proof -
  consider "indicator = 1" | "indicator = 0" | "indicator = 2" | "indicator = 3" | "indicator \<notin> {0, 1, 2, 3}" by auto
  then show ?thesis
  proof cases
    case 1
    show ?thesis
    proof (cases "length (line s) = 128")
      case True
      then show ?thesis using 1 assms(1) kbd_ok_length [OF assms(1)] by (simp add: keyboard_buffer_edit_def add_key_def)
    next
      case False
      then show ?thesis using 1 add_key_line [OF assms(1), of c] by (auto simp: keyboard_buffer_edit_def)
    qed
  next
    case 2
    show ?thesis
    proof (cases "line s = []")
      case True
      then have "kb_buffer_position s = 0" using kbd_ok_length [OF assms(1)] by (simp add: unsigned_eq_0_iff)
      then show ?thesis using 2 True assms(1) by (simp add: keyboard_buffer_edit_def delete_key_def)
    next
      case False
      then show ?thesis using 2 delete_key_line [OF assms(1)] by (auto simp: keyboard_buffer_edit_def)
    qed
  next
    case 3
    then show ?thesis using reset_line [OF assms(1)] by (simp add: keyboard_buffer_edit_def)
  next
    case 4
    then show ?thesis using enter_key_line [OF assms(1,2)] assms(3) by (auto simp: keyboard_buffer_edit_def)
  next
    case 5
    then show ?thesis using assms(1) by (simp add: keyboard_buffer_edit_def)
  qed
qed

lemma demo_tio_ok: "kbd_ok demo_tio" "line demo_tio = []" "length (ter_read_buffer demo_tio) = 128" "ter_read_indicator demo_tio = 0"
  using kbd_ok_intro [of demo_tio "[]"] by (simp_all add: demo_tio_def con_inv_def)

theorem keyboard_buffer_edit_refines_witness:
  "\<exists>s'. keyboard_buffer_edit 1 0x61 demo_tio = Some s' \<and> kbd_ok s' \<and> line s' = [0x61] \<and> tty s' = tty_putc 0x61 (tty demo_tio)"
  using keyboard_buffer_edit_refines [OF demo_tio_ok(1,3), of 1 "0x61"] demo_tio_ok(2) by simp

section \<open>Keys that give a character\<close>

text \<open>A key press: the port delivers the scan code and the interrupt is taken.\<close>

definition press :: "u32 \<Rightarrow> u32 \<Rightarrow> u32 \<Rightarrow> u8 \<Rightarrow> 'a kbd_scheme \<Rightarrow> (transfer \<times> 'a kbd_scheme) option" where
  "press shell_at esp ebp code s = idt_keyboard_irq_handler shell_at esp ebp (con_io (\<lambda>m. m\<lparr>device_in := \<lambda>_ _. code\<rparr>) s)"

definition key_char :: "u8 \<Rightarrow> 'a kbd_scheme \<Rightarrow> u8 option" where
  "key_char code s =
     (let c = (if code = 0x39 then BLANK else if shift_flag s = 0 then ascii code s else shift code)
      in if 0x20 \<le> c \<and> c \<le> 0x7E then Some c else None)"

text \<open>No modifier but shift or caps lock is down.\<close>

definition plain_keys :: "'a kbd_scheme \<Rightarrow> bool" where
  "plain_keys s \<longleftrightarrow> shift_flag s \<in> {0, 1} \<and> cap_flag s \<in> {0, 1} \<and> control_flag s = 0 \<and> alt_flag s = 0"

lemma special_codes:
  "ascii 0x1C s = 0" "ascii 0x0E s = 0" "ascii 0x2A s = 0" "ascii 0x1D s = 0"
  "shift 0x1C = 0" "shift 0x0E = 0" "shift 0x2A = 0" "shift 0x1D = 0"
proof -
  have "ascii_array ! 28 = 0" "ascii_array ! 14 = 0" "ascii_array ! 42 = 0" "ascii_array ! 29 = 0"
    "shift_array ! 28 = 0" "shift_array ! 14 = 0" "shift_array ! 42 = 0" "shift_array ! 29 = 0" by code_simp+
  then show "ascii 0x1C s = 0" "ascii 0x0E s = 0" "ascii 0x2A s = 0" "ascii 0x1D s = 0"
    "shift 0x1C = 0" "shift 0x0E = 0" "shift 0x2A = 0" "shift 0x1D = 0"
    by (simp_all add: ascii_def shift_def)
qed

lemma key_char_code:
  assumes "key_char code s = Some c"
  shows "code = 0x39 \<or> code < 54 \<and> code \<notin> {0x1C, 0x0E, 0x2A, 0x1D}"
proof (cases "code = 0x39")
  case False
  have "code < 54"
  proof (rule ccontr)
    assume "\<not> code < 54"
    then have "ascii code s = -1" "shift code = -1" by (simp_all add: ascii_def shift_def not_less)
    moreover have "\<not> (-1 :: u8) \<le> 0x7E" by code_simp
    ultimately show False using assms False by (auto simp: key_char_def Let_def split: if_splits)
  qed
  moreover have "code \<notin> {0x1C, 0x0E, 0x2A, 0x1D}"
    using assms by (auto simp: key_char_def Let_def special_codes split: if_splits)
  ultimately show ?thesis by simp
qed simp

lemma u8_eq: "n < 256 \<Longrightarrow> unat (x :: u8) = n \<longleftrightarrow> x = of_nat n"
  using u8_position [of n] by auto

lemma input_eq: "n < 256 \<Longrightarrow> (ucast (code :: u8) :: u32) = of_nat n \<longleftrightarrow> unat code = n"
proof -
  assume n: "n < 256"
  have "unat (ucast code :: u32) = unat code"
    using unsigned_less [of code, where 'a = nat] by (simp add: unsigned_ucast_eq take_bit_nat_eq_self)
  then show ?thesis using unat_eq_offset [of n "ucast code"] n by simp
qed

lemma get_char_key:
  assumes "key_char code s = Some c" "plain_keys s" "device_in (pic_io (rtc_pic (hw s))) = (\<lambda>_ _. code)"
  shows "\<exists>f. get_char shell_at esp ebp s = Some (Char c, con_io f s)"
proof -
  let ?i = "ucast code :: u32"
  obtain m where i: "inb KEYB_PORT (pic_io (rtc_pic (hw s))) = (?i, m)" using assms(3) by (simp add: inb_def Let_def)
  let ?s = "con_io (\<lambda>_. m) s"
  have fl: "cap_flag ?s = cap_flag s" "shift_flag ?s = shift_flag s" "control_flag ?s = control_flag s" "alt_flag ?s = alt_flag s"
    by (simp_all add: con_io_def)
  have i_eq: "?i = of_nat n \<longleftrightarrow> unat code = n" if "n < 256" for n using that by (rule input_eq)
  consider "unat code = 0x39" | "unat code < 54" "unat code \<notin> {0x1C, 0x0E, 0x2A, 0x1D}"
    using key_char_code [OF assms(1)] u8_eq [of 28 code] u8_eq [of 14 code] u8_eq [of 42 code] u8_eq [of 29 code]
    by (auto simp: word_less_nat_alt)
  then show ?thesis
  proof cases
    case 1
    then have "code = 0x39" "?i = 0x39" using i_eq [of 57] u8_eq [of 57 code] by simp_all
    then have "get_char shell_at esp ebp s = Some (Char c, ?s)"
      using assms(1) i by (auto simp: get_char_def key_char_def Let_def split: if_splits)
    then show ?thesis by blast
  next
    case 2
    then have ne: "?i \<noteq> 0x1C" "?i \<noteq> 0x3A" "?i \<noteq> 0x0E" "?i \<noteq> 0x39" "?i \<noteq> 0x2A" "?i \<noteq> 0x36" "?i \<noteq> 0xAA" "?i \<noteq> 0xB6"
        "?i \<noteq> 0x1D" "?i \<noteq> 0x9D" "?i \<noteq> 0x38" "?i \<noteq> 0xB8"
      using i_eq [of 28] i_eq [of 58] i_eq [of 14] i_eq [of 57] i_eq [of 42] i_eq [of 54] i_eq [of 170] i_eq [of 182]
        i_eq [of 29] i_eq [of 157] i_eq [of 56] i_eq [of 184] by auto
    then have "modifier_keys ?i ?s = ?s" by (simp add: modifier_keys_def)
    moreover have "terminal_key ?i ?s = None" using assms(2) fl by (simp add: terminal_key_def plain_keys_def)
    moreover have "(ucast ?i :: u8) = code" by simp
    then have "character_key ?i ?s = Some (Char c, ?s)"
      using assms(1,2) fl 2 by (auto simp: character_key_def plain_keys_def key_char_def ascii_def Let_def split: if_splits)
    ultimately have "get_char shell_at esp ebp s = Some (Char c, ?s)" using i ne by (simp add: get_char_def)
    then show ?thesis by blast
  qed
qed

section \<open>Typing a line\<close>

lemma kbd_ok_read [simp]:
  "kbd_ok (s\<lparr>ter_read_indicator := i\<rparr>) = kbd_ok s" "line (s\<lparr>ter_read_indicator := i\<rparr>) = line s"
  "kbd_ok (s\<lparr>cross_enter_flag := j\<rparr>) = kbd_ok s" "line (s\<lparr>cross_enter_flag := j\<rparr>) = line s"
  "kbd_ok (s\<lparr>ram := m\<rparr>) = kbd_ok s" "line (s\<lparr>ram := m\<rparr>) = line s"
  "tty (s\<lparr>ter_read_indicator := i\<rparr>) = tty s" "tty (s\<lparr>cross_enter_flag := j\<rparr>) = tty s"
  "key_char c (k\<lparr>ter_read_indicator := i\<rparr>) = key_char c k" "plain_keys (k\<lparr>ter_read_indicator := i\<rparr>) = plain_keys k"
  by (simp_all add: kbd_ok_def line_def con_inv_def tty_def position_def key_char_def ascii_def plain_keys_def)

lemma more_kbd:
  fixes s t :: "'a kbd_scheme"
  assumes "con.more t = con.more s"
  shows "shift_flag t = shift_flag s" "cap_flag t = cap_flag s" "control_flag t = control_flag s" "alt_flag t = alt_flag s"
    "ter_read_buffer t = ter_read_buffer s" "ter_read_buf_size t = ter_read_buf_size s"
    "ter_read_indicator t = ter_read_indicator s" "cross_enter_flag t = cross_enter_flag s" "mmu t = mmu s"
proof -
  let ?t = "s\<lparr>hw := hw t, ram := ram t, screen_x := screen_x t, screen_y := screen_y t,
      enter_tracker := enter_tracker t, keyboard_buffer := keyboard_buffer t,
      kb_buffer_position := kb_buffer_position t, enter_flag := enter_flag t,
      first_scroll_indicator := first_scroll_indicator t\<rparr>"
  have t: "t = ?t" using assms by (intro con.equality) simp_all
  have "shift_flag ?t = shift_flag s" "cap_flag ?t = cap_flag s" "control_flag ?t = control_flag s" "alt_flag ?t = alt_flag s"
    "ter_read_buffer ?t = ter_read_buffer s" "ter_read_buf_size ?t = ter_read_buf_size s"
    "ter_read_indicator ?t = ter_read_indicator s" "cross_enter_flag ?t = cross_enter_flag s" "mmu ?t = mmu s" by simp_all
  then show "shift_flag t = shift_flag s" "cap_flag t = cap_flag s" "control_flag t = control_flag s" "alt_flag t = alt_flag s"
    "ter_read_buffer t = ter_read_buffer s" "ter_read_buf_size t = ter_read_buf_size s"
    "ter_read_indicator t = ter_read_indicator s" "cross_enter_flag t = cross_enter_flag s" "mmu t = mmu s"
    unfolding t [symmetric] .
qed

text \<open>An update of the line handed over is an update of the same part of the state.\<close>

lemma more_read:
  fixes s t :: "'a tio_scheme"
  assumes "con.more t = con.more s"
  shows "con.more (t\<lparr>ter_read_buffer := b, ter_read_buf_size := n, cross_enter_flag := i\<rparr>) =
      con.more (s\<lparr>ter_read_buffer := b, ter_read_buf_size := n, cross_enter_flag := i\<rparr>)"
    "con.more (t\<lparr>cross_enter_flag := i, ter_read_indicator := j\<rparr>) = con.more (s\<lparr>cross_enter_flag := i, ter_read_indicator := j\<rparr>)"
proof -
  let ?t = "s\<lparr>hw := hw t, ram := ram t, screen_x := screen_x t, screen_y := screen_y t,
      enter_tracker := enter_tracker t, keyboard_buffer := keyboard_buffer t,
      kb_buffer_position := kb_buffer_position t, enter_flag := enter_flag t,
      first_scroll_indicator := first_scroll_indicator t\<rparr>"
  have t: "t = ?t" using assms by (intro con.equality) simp_all
  have "con.more (?t\<lparr>ter_read_buffer := b, ter_read_buf_size := n, cross_enter_flag := i\<rparr>) =
      con.more (s\<lparr>ter_read_buffer := b, ter_read_buf_size := n, cross_enter_flag := i\<rparr>)"
    "con.more (?t\<lparr>cross_enter_flag := i, ter_read_indicator := j\<rparr>) = con.more (s\<lparr>cross_enter_flag := i, ter_read_indicator := j\<rparr>)"
    by (cases s, simp)+
  then show "con.more (t\<lparr>ter_read_buffer := b, ter_read_buf_size := n, cross_enter_flag := i\<rparr>) =
      con.more (s\<lparr>ter_read_buffer := b, ter_read_buf_size := n, cross_enter_flag := i\<rparr>)"
    "con.more (t\<lparr>cross_enter_flag := i, ter_read_indicator := j\<rparr>) = con.more (s\<lparr>cross_enter_flag := i, ter_read_indicator := j\<rparr>)"
    unfolding t [symmetric] .
qed

lemma io_kbd [simp]:
  "kbd_ok (con_io f s) = kbd_ok s" "line (con_io f s) = line s" "con.more (con_io f s) = con.more s"
  "kbd_ok (pic_call g s) = kbd_ok s" "line (pic_call g s) = line s" "con.more (pic_call g s) = con.more s"
  "tty (pic_call g s) = tty s" "ram (pic_call g s) = ram s"
  by (simp_all add: kbd_ok_def line_def con_inv_def pic_call_def con_io_def tty_def position_def)

lemma key_char_more: "con.more t = con.more s \<Longrightarrow> key_char code t = key_char code s \<and> plain_keys t = plain_keys s"
  using more_kbd [of t s] by (simp add: key_char_def ascii_def plain_keys_def)

lemma press_char:
  assumes ok: "kbd_ok s" "plain_keys s" "key_char code s = Some c" "length (line s) < 128"
  shows "\<exists>s'. press shell_at esp ebp code s = Some (Return 0, s') \<and> kbd_ok s' \<and> line s' = line s @ [c] \<and>
    tty s' = tty_putc c (tty s) \<and> con.more s' = con.more s \<and> same_outside_video (ram s) (ram s')"
proof -
  let ?s = "con_io cli (con_io (\<lambda>m. m\<lparr>device_in := \<lambda>_ _. code\<rparr>) s)"
  have m: "con.more ?s = con.more s" by simp
  have "device_in (pic_io (rtc_pic (hw ?s))) = (\<lambda>_ _. code)" by (simp add: con_io_def rtc_io_def)
  then obtain f where g: "get_char shell_at esp ebp ?s = Some (Char c, con_io f ?s)"
    using get_char_key [of code ?s c] key_char_more [OF m] ok(2,3) by metis
  have k: "kbd_ok (con_io f ?s)" "length (line (con_io f ?s)) \<noteq> 128" using ok(1,4) by simp_all
  from add_key_line [OF k, of c] obtain t s' where a: "con_step (tty_putc c) (con_io f ?s) t" "add_key c (con_io f ?s) = Some s'"
      "s' = t\<lparr>keyboard_buffer := (keyboard_buffer (con_io f ?s))[length (line (con_io f ?s)) := c],
             kb_buffer_position := kb_buffer_position (con_io f ?s) + 1\<rparr>"
      "kbd_ok s'" "line s' = line s @ [c]" "tty s' = tty_putc c (tty s)" by auto
  have "con.more t = con.more s" "same_outside_video (ram s) (ram t)" using a(1) by (simp_all add: con_step_def con_frame_def)
  then have fr: "con.more s' = con.more s" "same_outside_video (ram s) (ram s')" unfolding a(3) by simp_all
  have "0x20 \<le> c \<and> c \<le> 0x7E \<and> c \<noteq> 0" using ok(3) by (auto simp: key_char_def Let_def split: if_splits)
  then have "press shell_at esp ebp code s = Some (Return 0, con_io sti (pic_call (send_eoi 1) s'))"
    using g a(2) by (simp add: press_def idt_keyboard_irq_handler_def keyboard_buffer_edit_def)
  then show ?thesis using a(4-6) fr by simp
qed

lemma press_enter:
  assumes ok: "kbd_ok s" "length (ter_read_buffer s) = 128" "length (line s) < 127" "(ucast (ter_read_indicator s) :: u8) = 1"
  shows "\<exists>s'. press shell_at esp ebp 0x1C s = Some (Return 0, s') \<and> kbd_ok s' \<and> line s' = [] \<and>
    tty s' = tty_putc NEWLINE (tty s) \<and> ter_read_buffer s' = handed (line s) \<and> cross_enter_flag s' = 1 \<and>
    ter_read_buf_size s' = set_low_byte (of_nat (length (line s)) + 1) (ter_read_buf_size s) \<and> mmu s' = mmu s \<and>
    same_outside_video (ram s) (ram s') \<and> con.more s' = con.more (s\<lparr>ter_read_buffer := ter_read_buffer s',
      ter_read_buf_size := ter_read_buf_size s', cross_enter_flag := 1\<rparr>)"
proof -
  let ?s = "con_io cli (con_io (\<lambda>m. m\<lparr>device_in := \<lambda>_ _. 0x1C\<rparr>) s)"
  obtain m where i: "inb KEYB_PORT (pic_io (rtc_pic (hw ?s))) = (0x1C, m)"
    by (simp add: inb_def Let_def con_io_def rtc_io_def)
  let ?u = "con_io (\<lambda>_. m) ?s"
  have m: "con.more ?u = con.more s" by simp
  note f = more_kbd [OF m]
  let ?h = "?u\<lparr>ter_read_buffer := handed (line s),
    ter_read_buf_size := set_low_byte (of_nat (length (line s)) + 1) (ter_read_buf_size s), cross_enter_flag := 1\<rparr>"
  have h: "hand_over ?u = Some ?h" using hand_over_line [of ?u] ok f by simp
  have "con_inv ?u" "enter_flag ?u = 0" "kbd_ok ?u" using ok(1) by (simp_all add: kbd_ok_def)
  then have hc: "con_inv ?h" "enter_flag ?h = 0" "tty ?h = tty s" by (simp_all add: con_inv_def tty_def position_def)
  from newline_after_reset [OF hc(1,2)] obtain s' where
    p: "putc NEWLINE (keyboard_buffer_reset ?h) = Some s'" "con_step (tty_putc NEWLINE) (keyboard_buffer_reset ?h) s'"
      "kbd_ok s'" "line s' = []" "tty s' = tty_putc NEWLINE (tty s)" using hc(3) by auto
  have "enter_key ?u = Some s'" using h p(1) ok(4) f by (simp add: enter_key_def)
  then have "get_char shell_at esp ebp ?s = Some (Char 0, s')"
    using i \<open>enter_flag ?u = 0\<close> by (simp add: get_char_def keyboard_buffer_edit_def)
  then have r: "press shell_at esp ebp 0x1C s = Some (Return 0, con_io sti (pic_call (send_eoi 1) s'))"
    by (simp add: press_def idt_keyboard_irq_handler_def)
  have fr: "con.more s' = con.more ?h" "same_outside_video (ram s) (ram s')"
    using p(2) by (simp_all add: con_step_def con_frame_def keyboard_buffer_reset_def)
  let ?r = "con_io sti (pic_call (send_eoi 1) s')"
  have "con.more ?r = con.more ?h" using fr(1) by simp
  note g = more_kbd [OF this]
  have "con.more ?r = con.more (s\<lparr>ter_read_buffer := ter_read_buffer ?r, ter_read_buf_size := ter_read_buf_size ?r, cross_enter_flag := 1\<rparr>)"
    using \<open>con.more ?r = con.more ?h\<close> g more_read(1) [OF m] by simp
  then show ?thesis using r p(3-5) fr(2) g f by (intro exI [of _ ?r]) simp
qed

text \<open>The interrupt of a key as the handler a spinning read meets.\<close>

definition key_irq :: "u32 \<Rightarrow> u32 \<Rightarrow> u32 \<Rightarrow> u8 \<Rightarrow> 'a kbd_scheme \<Rightarrow> 'a kbd_scheme" where
  "key_irq shell_at esp ebp code s = (case press shell_at esp ebp code s of Some (Return _, s') \<Rightarrow> s' | _ \<Rightarrow> s)"

lemma typing:
  assumes "kbd_ok s" "plain_keys s" "cross_enter_flag s = 0" "map (\<lambda>c. key_char c s) codes = map Some cs"
    and "length (line s) + length cs < 128"
  shows "\<exists>t. spin_until (\<lambda>s. cross_enter_flag s \<noteq> 0) (map (key_irq shell_at esp ebp) codes @ hs) s =
      spin_until (\<lambda>s. cross_enter_flag s \<noteq> 0) hs t \<and> kbd_ok t \<and> line t = line s @ cs \<and> tty t = tty_write cs (tty s) \<and>
    con.more t = con.more s \<and> same_outside_video (ram s) (ram t)"
  using assms
proof (induction codes arbitrary: cs s)
  case Nil
  then show ?case by (intro exI [of _ s]) (simp add: tty_write_def)
next
  case (Cons code codes)
  then obtain c ds where cs: "cs = c # ds" "key_char code s = Some c" "map (\<lambda>c. key_char c s) codes = map Some ds"
    by (cases cs) auto
  have "length (line s) < 128" using Cons.prems(5) by simp
  from press_char [OF Cons.prems(1,2) cs(2) this, of shell_at esp ebp] obtain u where
    u: "press shell_at esp ebp code s = Some (Return 0, u)" "kbd_ok u" "line u = line s @ [c]" "tty u = tty_putc c (tty s)"
      "con.more u = con.more s" "same_outside_video (ram s) (ram u)" by blast
  note m = more_kbd [OF u(5)] key_char_more [OF u(5)]
  have "map (\<lambda>c. key_char c u) codes = map Some ds" using cs(3) key_char_more [OF u(5)] by simp
  from Cons.IH [OF u(2) _ _ this] obtain t where
    t: "spin_until (\<lambda>s. cross_enter_flag s \<noteq> 0) (map (key_irq shell_at esp ebp) codes @ hs) u =
        spin_until (\<lambda>s. cross_enter_flag s \<noteq> 0) hs t" "kbd_ok t" "line t = line u @ ds" "tty t = tty_write ds (tty u)"
      "con.more t = con.more u" "same_outside_video (ram u) (ram t)"
    using m Cons.prems(2,3,5) u(3) cs(1) by auto
  have "key_irq shell_at esp ebp code s = u" using u(1) by (simp add: key_irq_def)
  then show ?case using t u Cons.prems(3) cs(1) same_outside_trans [OF u(6) t(6)]
    by (intro exI [of _ t]) (simp add: tty_write_def)
qed

lemma set_low_byte_small:
  assumes "w < 256"
  shows "set_low_byte b w = ucast b"
proof -
  have "w AND NOT 0xFF = w AND NOT (mask 8)" by (simp add: mask_eq_exp_minus_1)
  also have "\<dots> = 0"
  proof (rule bit_word_eqI)
    fix n
    have "unat (take_bit 8 w) = unat w"
      using assms by (simp add: unsigned_take_bit_eq take_bit_nat_eq_self word_less_nat_alt)
    then have "take_bit 8 w = w" by (rule unsigned_word_eqI)
    then have "bit w n \<Longrightarrow> n < 8" by (metis bit_take_bit_iff)
    then show "bit (w AND NOT (mask 8)) n = bit (0 :: u32) n" by (auto simp: bit_simps)
  qed
  finally show ?thesis by (simp add: set_low_byte_def)
qed

lemma line_from_handed:
  assumes "0 \<notin> set cs" "length cs < 127" "int (length cs) < n"
  shows "line_from 0 (handed cs) n = cs @ [NEWLINE]"
proof -
  let ?k = "min (nat n) 128" and ?l = "cs @ [NEWLINE]"
  have k: "length ?l \<le> ?k" using assms(2,3) by simp
  have "handed cs = ?l @ replicate (127 - length cs) 0" by (simp add: handed_def)
  then have "take ?k (handed cs) = ?l @ replicate (min (?k - length ?l) (127 - length cs)) 0"
    using k take_append [of ?k ?l "replicate (127 - length cs) 0"] take_all [of ?l ?k] by (simp only: take_replicate)
  moreover have "takeWhile (\<lambda>c. c \<noteq> 0) (?l @ replicate m 0) = ?l" for m
    using assms(1) by (induction cs) (auto simp: takeWhile_replicate)
  ultimately show ?thesis by (simp only: line_from_def drop0)
qed

lemma write_read_back:
  assumes "length xs < 1000"
  shows "bytes_at ((write_bytes m a xs)(a + of_nat (length xs) + 1 := x)) a (length xs) = xs"
proof (rule nth_equalityI)
  fix i assume "i < length (bytes_at ((write_bytes m a xs)(a + of_nat (length xs) + 1 := x)) a (length xs))"
  then have i: "i < length xs" by (simp add: bytes_at_def)
  have "unat (of_nat i :: u32) = i" "unat (of_nat (length xs) + 1 :: u32) = length xs + 1"
    using i assms unat_offset [of i] unat_offset [of "length xs + 1"] by (simp_all add: add.commute)
  then have "(of_nat i :: u32) \<noteq> of_nat (length xs) + 1" using i by auto
  then have "a + of_nat i \<noteq> a + of_nat (length xs) + 1" by (simp add: add.assoc)
  then show "bytes_at ((write_bytes m a xs)(a + of_nat (length xs) + 1 := x)) a (length xs) ! i = xs ! i"
    using i assms \<open>unat (of_nat i :: u32) = i\<close> by (simp add: bytes_at_def write_bytes_apply)
qed (simp add: bytes_at_def)

lemma chars_off_screen:
  assumes "off_screen a n" "length xs + 1 < n"
  shows "chars ((write_bytes m a xs)(a + of_nat (length xs) + 1 := x)) = chars m"
proof -
  have "((write_bytes m a xs)(a + of_nat (length xs) + 1 := x)) (vaddr j) = m (vaddr j)" if "j < 2000" for j
  proof -
    have o: "vaddr j \<noteq> a + of_nat i" if "i < n" for i using assms(1) that \<open>j < 2000\<close> unfolding off_screen_def by metis
    have "write_bytes m a xs (vaddr j) = m (vaddr j)" by (rule write_bytes_outside) (use o assms(2) in auto)
    moreover have "vaddr j \<noteq> a + of_nat (length xs) + 1" using o [of "length xs + 1"] assms(2) by (simp add: ac_simps)
    ultimately show ?thesis by simp
  qed
  then show ?thesis by (simp add: chars_def)
qed

lemma key_char_nonzero: "map (\<lambda>c. key_char c s) codes = map Some cs \<Longrightarrow> 0 \<notin> set cs"
proof
  assume k: "map (\<lambda>c. key_char c s) codes = map Some cs" "0 \<in> set cs"
  then obtain c where "key_char c s = Some 0" by (metis (no_types, lifting) in_set_conv_nth length_map nth_map)
  then show False by (auto simp: key_char_def Let_def split: if_splits)
qed

lemma typed_line_waits:
  fixes s :: "'a kbd_scheme"
  assumes s: "kbd_ok s" "line s = []" "plain_keys s" "cross_enter_flag s = 0" "length (ter_read_buffer s) = 128" "ter_read_buf_size s < 256"
    and i: "(ucast (ter_read_indicator s) :: u8) = 1"
    and keys: "map (\<lambda>c. key_char c s) codes = map Some cs" "length cs < 127"
  obtains u where "spin_until (\<lambda>s. cross_enter_flag s \<noteq> 0) (map (key_irq shell_at esp ebp) (codes @ [0x1C])) s = Some u"
    "kbd_ok u" "line u = []" "tty u = tty_write (cs @ [NEWLINE]) (tty s)" "ter_read_buffer u = handed cs"
    "ter_read_buf_size u = of_nat (length cs + 1)" "mmu u = mmu s" "same_outside_video (ram s) (ram u)"
    "con.more u = con.more (s\<lparr>ter_read_buffer := handed cs, ter_read_buf_size := of_nat (length cs + 1), cross_enter_flag := 1\<rparr>)"
proof -
  let ?n = "length cs" and ?e = "key_irq shell_at esp ebp 0x1C"
  obtain t where t: "spin_until (\<lambda>s. cross_enter_flag s \<noteq> 0) (map (key_irq shell_at esp ebp) codes @ [?e]) s =
        spin_until (\<lambda>s. cross_enter_flag s \<noteq> 0) [?e] t"
      "kbd_ok t" "line t = cs" "tty t = tty_write cs (tty s)" "con.more t = con.more s" "same_outside_video (ram s) (ram t)"
    using typing [of s codes cs shell_at esp ebp "[?e]"] s keys by auto
  note ft = more_kbd [OF t(5)]
  obtain u where u: "press shell_at esp ebp 0x1C t = Some (Return 0, u)" "kbd_ok u" "line u = []" "tty u = tty_putc NEWLINE (tty t)"
      "ter_read_buffer u = handed cs" "cross_enter_flag u = 1" "ter_read_buf_size u = set_low_byte (of_nat ?n + 1) (ter_read_buf_size s)"
      "mmu u = mmu s" "same_outside_video (ram t) (ram u)"
      "con.more u = con.more (t\<lparr>ter_read_buffer := handed cs, ter_read_buf_size := ter_read_buf_size u, cross_enter_flag := 1\<rparr>)"
    using press_enter [OF t(2), of shell_at esp ebp] ft t(3) s(5) i keys(2) by auto
  have "spin_until (\<lambda>s. cross_enter_flag s \<noteq> 0) (map (key_irq shell_at esp ebp) (codes @ [0x1C])) s = Some u"
    using t(1) u(1,6) ft(8) s(4) by (simp add: key_irq_def)
  moreover have "tty u = tty_write (cs @ [NEWLINE]) (tty s)"
    unfolding u(4) t(4) tty_write_def fold_append fold.simps by simp
  moreover have "unat (of_nat ?n + 1 :: u8) = ?n + 1" using keys(2) u8_position [of "?n + 1"] by (simp add: add.commute)
  then have "ter_read_buf_size u = of_nat (?n + 1)"
    using u(7) set_low_byte_small [OF s(6)] input_eq [of "?n + 1"] keys(2) by simp
  ultimately show thesis using that u(2,3,5,8) same_outside_trans [OF t(6) u(9)] u(10) more_read(1) [OF t(5)] by simp
qed

lemma size_below: "int n < sint nbytes \<Longrightarrow> n < 127 \<Longrightarrow> \<not> of_nat (n + 1) > (nbytes :: u32)"
proof -
  assume n: "int n < sint nbytes" "n < 127"
  then have "uint nbytes = sint nbytes"
    using sint_lt [of nbytes] by (simp add: uint_sint take_bit_int_eq_self)
  then have "n + 1 \<le> unat nbytes" using n(1) unfolding uint_nat by linarith
  then show ?thesis using n(2) unat_offset [of "n + 1"] by (simp add: not_less word_le_nat_alt)
qed

lemma typed_line_read:
  fixes s :: "'a kbd_scheme"
  assumes s: "kbd_ok s" "line s = []" "plain_keys s" "cross_enter_flag s = 0" "length (ter_read_buffer s) = 128" "ter_read_buf_size s < 256"
    and keys: "map (\<lambda>c. key_char c s) codes = map Some cs" "length cs < 127"
    and buf: "sint nbytes > int (length cs)" "maps_range (mmu s) buf pa (length cs + 3)"
  shows "\<exists>s' m. terminal_read (map (key_irq shell_at esp ebp) (codes @ [0x1C])) fd buf nbytes s = Some (of_nat (length cs + 1), s') \<and>
    ram s' = (write_bytes m pa (cs @ [NEWLINE]))(pa + of_nat (length cs + 1) + 1 := 0) \<and> same_outside_video (ram s) m \<and>
    kbd_ok s' \<and> line s' = [] \<and> (off_screen pa (length cs + 3) \<longrightarrow> tty s' = tty_write (cs @ [NEWLINE]) (tty s)) \<and>
    con.more s' = con.more (s\<lparr>ter_read_indicator := 1, ter_read_buffer := handed cs, ter_read_buf_size := of_nat (length cs + 1),
      cross_enter_flag := 0, ter_read_indicator := 0\<rparr>)"
proof -
  let ?s = "s\<lparr>ter_read_indicator := 1\<rparr>" and ?n = "length cs"
  obtain u where u: "spin_until (\<lambda>s. cross_enter_flag s \<noteq> 0) (map (key_irq shell_at esp ebp) (codes @ [0x1C])) ?s = Some u"
    "kbd_ok u" "line u = []" "tty u = tty_write (cs @ [NEWLINE]) (tty s)" "ter_read_buffer u = handed cs"
    "ter_read_buf_size u = of_nat (?n + 1)" "mmu u = mmu s" "same_outside_video (ram s) (ram u)"
    "con.more u = con.more (?s\<lparr>ter_read_buffer := handed cs, ter_read_buf_size := of_nat (?n + 1), cross_enter_flag := 1\<rparr>)"
    using typed_line_waits [of ?s codes cs shell_at esp ebp] s keys by auto
  have l: "cs @ [NEWLINE] = line_from 0 (ter_read_buffer u) (sint nbytes)"
    unfolding u(5) using line_from_handed [OF key_char_nonzero [OF keys(1)] keys(2) buf(1)] by simp
  let ?m = "(write_bytes (ram u) pa (cs @ [NEWLINE]))(pa + of_nat (length (cs @ [NEWLINE])) + 1 := 0)"
  let ?s' = "con_io sti (con_io cli (u\<lparr>cross_enter_flag := 0, ter_read_indicator := 0, ram := ?m\<rparr>))"
  have "length (ter_read_buffer u) = 128" unfolding u(5) using keys(2) by (simp add: handed_def)
  moreover have "maps_range (mmu u) buf pa (length (line_from 0 (ter_read_buffer u) (sint nbytes)) + 2)"
    unfolding l [symmetric] u(7) using buf(2) by (simp add: numeral_3_eq_3)
  moreover have "enter_flag s = 0" using s(1) by (simp add: kbd_ok_def)
  ultimately have r: "terminal_read (map (key_irq shell_at esp ebp) (codes @ [0x1C])) fd buf nbytes s = Some (of_nat (?n + 1), ?s')"
    using terminal_read_line [OF _ u(1) _ _ l, of buf pa fd] size_below [OF buf(1) keys(2)] u(6) by simp
  have k: "kbd_ok ?s'" "line ?s' = []"
    using kbd_ok_intro [of ?s' "[]"] u(2,3) kbd_ok_length [OF u(2)] by (auto simp: kbd_ok_def con_inv_def)
  have y: "tty ?s' = tty_write (cs @ [NEWLINE]) (tty s)" if "off_screen pa (?n + 3)"
  proof -
    have "chars ?m = chars (ram u)" using chars_off_screen [OF that, of "cs @ [NEWLINE]" "ram u" 0] by simp
    then have "tty ?s' = tty u" by (simp add: tty_def position_def)
    then show ?thesis using u(4) by (simp only:)
  qed
  have m: "con.more ?s' = con.more (s\<lparr>ter_read_indicator := 1, ter_read_buffer := handed cs, ter_read_buf_size := of_nat (?n + 1),
      cross_enter_flag := 0, ter_read_indicator := 0\<rparr>)"
    using more_read(2) [OF u(9), of 0 0] by simp
  have "ram ?s' = (write_bytes (ram u) pa (cs @ [NEWLINE]))(pa + of_nat (?n + 1) + 1 := 0)" by simp
  then show ?thesis using r k y m u(8) by (intro exI [of _ ?s'] exI [of _ "ram u"] conjI impI)
qed

text \<open>C4: A line typed while a program waits in a terminal read is what the read returns: with no control or alt key
  down, at most 126 character keys followed by the enter key are echoed on the screen, and the read then ends with
  the characters and a newline in the buffer of the program and their number as its result. The characters are
  the ones of the key table for the state of shift and caps lock.\<close>

theorem typed_line_is_read:
  fixes s :: "'a kbd_scheme"
  assumes s: "kbd_ok s" "line s = []" "plain_keys s" "cross_enter_flag s = 0" "length (ter_read_buffer s) = 128" "ter_read_buf_size s < 256"
    and keys: "map (\<lambda>c. key_char c s) codes = map Some cs" "length cs < 127"
    and buf: "sint nbytes > int (length cs)" "maps_range (mmu s) buf pa (length cs + 3)"
  shows "\<exists>s'. terminal_read (map (key_irq shell_at esp ebp) (codes @ [0x1C])) fd buf nbytes s = Some (of_nat (length cs + 1), s') \<and>
    bytes_at (ram s') pa (length cs + 1) = cs @ [NEWLINE] \<and> kbd_ok s' \<and> line s' = [] \<and>
    (off_screen pa (length cs + 3) \<longrightarrow> tty s' = tty_write (cs @ [NEWLINE]) (tty s))"
proof -
  from typed_line_read [OF assms, of shell_at esp ebp fd] obtain s' m where
    s': "terminal_read (map (key_irq shell_at esp ebp) (codes @ [0x1C])) fd buf nbytes s = Some (of_nat (length cs + 1), s')"
      "ram s' = (write_bytes m pa (cs @ [NEWLINE]))(pa + of_nat (length cs + 1) + 1 := 0)" "kbd_ok s'" "line s' = []"
      "off_screen pa (length cs + 3) \<longrightarrow> tty s' = tty_write (cs @ [NEWLINE]) (tty s)" by blast
  have "bytes_at (ram s') pa (length cs + 1) = cs @ [NEWLINE]"
    unfolding s'(2) using write_read_back [of "cs @ [NEWLINE]" m pa 0] keys(2) by simp
  then show ?thesis using s' by blast
qed

definition demo_kbd :: kbd where
  "demo_kbd = (terminals.extend demo_terminals (kbd.fields 0 0 0 0 0 1))
     \<lparr>mmu := set_task_page 0 (init_paging demo_paging), keyboard_buffer := replicate 128 0\<rparr>"

theorem typed_line_is_read_witness:
  "\<exists>s'. terminal_read (map (key_irq 0 0 0) [0x1E, 0x30, 0x1C]) 0 0x08048000 10 demo_kbd = Some (3, s') \<and>
    bytes_at (ram s') 0x00848000 3 = [0x61, 0x62, 10] \<and> kbd_ok s' \<and> line s' = []"
proof -
  have f: "mmu demo_kbd = set_task_page (of_nat 0) (init_paging demo_paging)" "kbd_ok demo_kbd" "line demo_kbd = []" "plain_keys demo_kbd"
    "cross_enter_flag demo_kbd = 0" "length (ter_read_buffer demo_kbd) = 128" "ter_read_buf_size demo_kbd < 256"
    by (simp_all add: demo_kbd_def demo_terminals_def demo_kernel_def kernel.defs terminals.defs kbd.defs con_inv_def kbd_ok_def line_def plain_keys_def)
  have "cap_flag demo_kbd = 0" "shift_flag demo_kbd = 0" by (simp_all add: demo_kbd_def kbd.defs terminals.defs)
  then have k: "map (\<lambda>c. key_char c demo_kbd) [0x1E, 0x30] = map Some [0x61, 0x62]"
    by (simp add: key_char_def ascii_def ascii_array_def text_of_def)
  have "maps_range (mmu demo_kbd) (0x08000000 + of_nat 0x48000) (task_frame 0 + of_nat 0x48000) 5"
    unfolding f by (rule maps_range_task) (simp_all add: paging_ok_steps demo_paging_ok)
  then have m: "maps_range (mmu demo_kbd) 0x08048000 0x848000 (length [0x61, 0x62 :: u8] + 3)" by (simp add: task_frame_def)
  have n: "length [0x61, 0x62 :: u8] < 127" "int (length [0x61, 0x62 :: u8]) < sint (10 :: u32)" by simp_all
  from typed_line_is_read [OF f(2-7) k n m, where shell_at = 0 and esp = 0 and ebp = 0 and fd = 0] obtain s' where
    "terminal_read (map (key_irq 0 0 0) ([0x1E, 0x30] @ [0x1C])) 0 0x08048000 10 demo_kbd = Some (of_nat (length [0x61, 0x62 :: u8] + 1), s')"
    "bytes_at (ram s') 0x00848000 (length [0x61, 0x62 :: u8] + 1) = [0x61, 0x62] @ [NEWLINE]" "kbd_ok s'" "line s' = []" by blast
  moreover have "length [0x61, 0x62 :: u8] + 1 = 3" by simp
  ultimately show ?thesis by (intro exI [of _ s']) (simp del: length_Cons list.size)
qed

end
