(* ===== verification/Boot.thy ===== *)
theory Boot
  imports Idt Keyboard
begin

text \<open>
  \<open>kernel.c\<close>: the start of the kernel. \<open>entry\<close> prints what the boot loader left in memory, fills in the descriptors of
  the LDT and the TSS, sets up paging, the file system and the devices, and starts the first terminal. The
  addresses the linker chooses are parameters, and so is the mouse driver, whose source is not part of the
  repository. Paging is off while the report is printed, so the boot information is read at physical addresses.
  Locals that are printed or used before they are set have an arbitrary value, an argument of \<open>entry\<close>.
\<close>

section \<open>State\<close>

record seg_desc =
  seg_lim_15_00 :: u16
  base_15_00 :: u16
  base_23_16 :: u8
  seg_type :: "4 word"
  sys :: "1 word"
  seg_dpl :: "2 word"
  seg_present :: "1 word"
  seg_lim_19_16 :: "4 word"
  avail :: "1 word"
  seg_reserved :: "1 word"
  opsize :: "1 word"
  granularity :: "1 word"
  base_31_24 :: u8

record boot = kbd +
  idt :: "idt_desc list"
  ldt_desc_ptr :: seg_desc
  tss_desc_ptr :: seg_desc
  tss_ldt_segment_selector :: u16
  ldtr :: u16
  task_register :: u16

record linker =
  handler_at :: "handler \<Rightarrow> u32"
  ldt_at :: u32
  tss_at :: u32

abbreviation (input) MULTIBOOT_BOOTLOADER_MAGIC :: u32 where "MULTIBOOT_BOOTLOADER_MAGIC \<equiv> 0x2BADB002"
abbreviation (input) KERNEL_TSS :: u16 where "KERNEL_TSS \<equiv> 0x30"
abbreviation (input) KERNEL_LDT :: u16 where "KERNEL_LDT \<equiv> 0x38"
abbreviation (input) ldt_size :: u32 where "ldt_size \<equiv> 31"
abbreviation (input) tss_size :: u32 where "tss_size \<equiv> 103"

section \<open>The report\<close>

definition CHECK_FLAG :: "u32 \<Rightarrow> nat \<Rightarrow> bool" where
  "CHECK_FLAG fl b \<longleftrightarrow> fl AND push_bit b 1 \<noteq> 0"

definition say :: "string \<Rightarrow> printf_arg list \<Rightarrow> 'a con_scheme \<Rightarrow> 'a con_scheme option" where
  "say format args s = map_option snd (printf (text_of format) args s)"

definition field :: "u32 \<Rightarrow> u32 \<Rightarrow> 'a con_scheme \<Rightarrow> u32" where
  "field base offset s = read32 (ram s) (base + offset)"

fun print_bytes :: "u32 \<Rightarrow> nat list \<Rightarrow> 'a con_scheme \<Rightarrow> 'a con_scheme option" where
  "print_bytes start [] s = Some s"
| "print_bytes start (i # is) s =
     Option.bind (say ''0x%x '' [Num (scast (ram s (start + of_nat i)))] s) (print_bytes start is)"

partial_function (option) print_modules :: "u32 \<Rightarrow> u32 \<Rightarrow> u32 \<Rightarrow> 'a con_scheme \<Rightarrow> 'a con_scheme option" where
  "print_modules mbi mod_count md s =
     (if mod_count < field mbi 20 s then do {
        s \<leftarrow> say ''Module %d loaded at address: 0x%#x\<newline>'' [Num mod_count, Num (field md 0 s)] s;
        s \<leftarrow> say ''Module %d ends at address: 0x%#x\<newline>'' [Num mod_count, Num (field md 4 s)] s;
        s \<leftarrow> say ''First few bytes of module:\<newline>'' [] s;
        s \<leftarrow> print_bytes (field md 0 s) [0..<16] s;
        s \<leftarrow> say ''\<newline>'' [] s;
        print_modules mbi (mod_count + 1) (md + 16) s
      } else Some s)"

partial_function (option) print_mmap :: "u32 \<Rightarrow> u32 \<Rightarrow> 'a con_scheme \<Rightarrow> 'a con_scheme option" where
  "print_mmap mbi mmap s =
     (if mmap < field mbi 48 s + field mbi 44 s then do {
        s \<leftarrow> say '' size = 0x%x,     base_addr = 0x%#x%#x\<newline>     type = 0x%x,  length    = 0x%#x%#x\<newline>''
              [Num (field mmap 0 s), Num (field mmap 8 s), Num (field mmap 4 s), Num (field mmap 20 s),
               Num (field mmap 16 s), Num (field mmap 12 s)] s;
        print_mmap mbi (mmap + field mmap 0 s + 4) s
      } else Some s)"

text \<open>The report ends early, without the rest of the start, when bits 4 and 5 are both set. It also finds the start
  of the file system.\<close>

definition report_memory :: "u32 \<Rightarrow> 'a con_scheme \<Rightarrow> 'a con_scheme option" where
  "report_memory mbi s = do {
     s \<leftarrow> say ''flags = 0x%#x\<newline>'' [Num (field mbi 0 s)] s;
     s \<leftarrow> (if CHECK_FLAG (field mbi 0 s) 0
           then say ''mem_lower = %uKB, mem_upper = %uKB\<newline>'' [Num (field mbi 4 s), Num (field mbi 8 s)] s else Some s);
     s \<leftarrow> (if CHECK_FLAG (field mbi 0 s) 1 then say ''boot_device = 0x%#x\<newline>'' [Num (field mbi 12 s)] s else Some s);
     if CHECK_FLAG (field mbi 0 s) 2 then say ''cmdline = %s\<newline>'' [Str (mem_view (ram s) (field mbi 16 s))] s else Some s
   }"

definition report_modules :: "u32 \<Rightarrow> u32 \<Rightarrow> 'a con_scheme \<Rightarrow> (u32 \<times> 'a con_scheme) option" where
  "report_modules fs_start mbi s =
     (if CHECK_FLAG (field mbi 0 s) 3
      then map_option (Pair (field (field mbi 24 s) 0 s)) (print_modules mbi 0 (field mbi 24 s) s)
      else Some (fs_start, s))"

definition report_sections :: "u32 \<Rightarrow> 'a con_scheme \<Rightarrow> 'a con_scheme option" where
  "report_sections mbi s = do {
     s \<leftarrow> (if CHECK_FLAG (field mbi 0 s) 5
           then say ''elf_sec: num = %u, size = 0x%#x, addr = 0x%#x, shndx = 0x%#x\<newline>''
                  [Num (field mbi 28 s), Num (field mbi 32 s), Num (field mbi 36 s), Num (field mbi 40 s)] s else Some s);
     if CHECK_FLAG (field mbi 0 s) 6 then do {
       s \<leftarrow> say ''mmap_addr = 0x%#x, mmap_length = 0x%x\<newline>'' [Num (field mbi 48 s), Num (field mbi 44 s)] s;
       print_mmap mbi (field mbi 48 s) s
     } else Some s
   }"

section \<open>Descriptors of the LDT and the TSS\<close>

definition SET_PARAMS :: "u32 \<Rightarrow> u32 \<Rightarrow> seg_desc \<Rightarrow> seg_desc" where
  "SET_PARAMS addr lim d =
     d\<lparr>base_31_24 := ucast (drop_bit 24 (addr AND 0xFF000000)), base_23_16 := ucast (drop_bit 16 (addr AND 0x00FF0000)),
       base_15_00 := ucast (addr AND 0x0000FFFF),
       seg_lim_19_16 := ucast (drop_bit 16 (lim AND 0x000F0000)), seg_lim_15_00 := ucast (lim AND 0x0000FFFF)\<rparr>"

definition set_ldt :: "linker \<Rightarrow> 'a boot_scheme \<Rightarrow> 'a boot_scheme" where
  "set_ldt l s =
     (let the_ldt_desc = (ldt_desc_ptr s)\<lparr>granularity := 0, opsize := 1, seg_reserved := 0, avail := 0, seg_present := 1,
            seg_dpl := 0, sys := 0, seg_type := 2\<rparr>
      in s\<lparr>ldt_desc_ptr := SET_PARAMS (ldt_at l) ldt_size the_ldt_desc, ldtr := KERNEL_LDT\<rparr>)"

definition set_tss :: "linker \<Rightarrow> 'a boot_scheme \<Rightarrow> 'a boot_scheme" where
  "set_tss l s =
     (let the_tss_desc = (tss_desc_ptr s)\<lparr>granularity := 0, opsize := 0, seg_reserved := 0, avail := 0,
            seg_lim_19_16 := ucast ((104 :: u32) AND 0x000F0000), seg_present := 1, seg_dpl := 0, sys := 0, seg_type := 9,
            seg_lim_15_00 := ucast ((104 :: u32) AND 0x0000FFFF)\<rparr>
      in s\<lparr>tss_desc_ptr := SET_PARAMS (tss_at l) tss_size the_tss_desc, tss_ldt_segment_selector := KERNEL_LDT,
           tss_ss0 := KERNEL_DS, tss_esp0 := 0x800000, task_register := KERNEL_TSS\<rparr>)"

section \<open>The start\<close>

text \<open>Paging is on when \<open>init_filesys\<close> reads the number of inodes from the module: the four bytes are loaded through
  the page tables, and a module outside the pages of the kernel is a page fault, which the handlers cannot survive
  before there is a task (\<open>None\<close>).\<close>

definition mount :: "u32 \<Rightarrow> 'a kernel_scheme \<Rightarrow> 'a kernel_scheme option" where
  "mount fs_start s =
     (if \<forall>i \<in> set [0..<4]. vload s (fs_start + 4 + of_nat i) \<noteq> None
      then Some (s\<lparr>fs := init_filesys (vmem s) fs_start (fs s)\<rparr>) else None)"

definition init_devices :: "('a boot_scheme \<Rightarrow> 'a boot_scheme) \<Rightarrow> u32 \<Rightarrow> 'a boot_scheme \<Rightarrow> 'a boot_scheme option" where
  "init_devices mouse_init fs_start s = do {
     let s = s\<lparr>mmu := init_paging (mmu s)\<rparr>;
     s \<leftarrow> mount fs_start s;
     let s = pic_call i8259_init s;
     let s = keyboard_init s;
     let s = hw_update rtc_init s;
     let s = mouse_init s;
     let s = pic_call pit_init s;
     let s = pcb_init s;
     Some (con_io sti (reset s))
   }"

definition entry ::
    "linker \<Rightarrow> ('a boot_scheme \<Rightarrow> 'a boot_scheme) \<Rightarrow> u32 \<Rightarrow> u32 \<Rightarrow> u32 \<Rightarrow> u32 \<Rightarrow> u32 \<Rightarrow> u32 \<Rightarrow> 'a boot_scheme \<Rightarrow>
       (transfer \<times> 'a boot_scheme) option" where
  "entry l mouse_init shell_at esp ebp fs_start magic mbi s = do {
     let s = clear (s\<lparr>idt := idt_set_all (handler_at l) (idt s)\<rparr>);
     if magic \<noteq> MULTIBOOT_BOOTLOADER_MAGIC
     then map_option (Pair (Return 0)) (say ''Invalid magic number: 0x%#x\<newline>'' [Num magic] s)
     else do {
       s \<leftarrow> report_memory mbi s;
       (fs_start, s) \<leftarrow> report_modules fs_start mbi s;
       if CHECK_FLAG (field mbi 0 s) 4 \<and> CHECK_FLAG (field mbi 0 s) 5
       then map_option (Pair (Return 0)) (say ''Both bits 4 and 5 are set.\<newline>'' [] s)
       else do {
         s \<leftarrow> report_sections mbi s;
         s \<leftarrow> init_devices mouse_init fs_start (set_tss l (set_ldt l s));
         terminal_init shell_at esp ebp s
       }
     }
   }"

section \<open>Output leaves the rest alone\<close>

definition printed :: "'a con_scheme \<Rightarrow> 'a con_scheme \<Rightarrow> bool" where
  "printed s t \<longleftrightarrow> con_inv t \<and> con_frame s t"

lemma printed_trans: "printed s t \<Longrightarrow> printed t u \<Longrightarrow> printed s u"
  using con_frame_trans by (auto simp: printed_def)

lemma say_prints:
  assumes "con_inv s" "format_text (text_of f) args = Some x"
  shows "\<exists>t. say f args s = Some t \<and> printed s t"
  using put_all_run [OF assms(1), of x] printf_prints(1) [OF assms(2), of s]
  by (auto simp: say_def printf_def printed_def con_run_def)

lemma printed_field:
  assumes "printed s t" "off_screen a n" "k + 4 \<le> n"
  shows "field a (of_nat k) t = field a (of_nat k) s"
proof -
  have m: "same_outside_video (ram s) (ram t)" using assms(1) by (simp add: printed_def con_frame_def)
  have "ram t (a + of_nat k + of_nat j) = ram s (a + of_nat k + of_nat j)" if "j < 4" for j
    using off_screen_same [OF assms(2) m, of "k + j"] that assms(3) by (simp add: add.assoc)
  from this [of 0] this [of 1] this [of 2] this [of 3] show ?thesis by (simp add: field_def read32_def)
qed

text \<open>Memory as the boot loader left it, outside the screen.\<close>

definition boot_memory :: "memory \<Rightarrow> 'a con_scheme \<Rightarrow> bool" where
  "boot_memory m s \<longleftrightarrow> con_inv s \<and> same_outside_video m (ram s)"

definition prints :: "memory \<Rightarrow> ('a con_scheme \<Rightarrow> 'a con_scheme option) \<Rightarrow> bool" where
  "prints m f \<longleftrightarrow> (\<forall>s. boot_memory m s \<longrightarrow> (\<exists>t. f s = Some t \<and> printed s t))"

lemma printed_boot_memory: "boot_memory m s \<Longrightarrow> printed s t \<Longrightarrow> boot_memory m t"
  unfolding boot_memory_def printed_def con_frame_def by (auto intro: same_outside_trans)

lemma prints_Some: "prints m Some"
  by (simp add: prints_def printed_def boot_memory_def)

lemma prints_bind: "prints m f \<Longrightarrow> prints m g \<Longrightarrow> prints m (\<lambda>s. Option.bind (f s) g)"
  unfolding prints_def by (metis bind.bind_lunit printed_boot_memory printed_trans)

lemma prints_unfold: "(\<And>s. f s = g s) \<Longrightarrow> prints m g \<Longrightarrow> prints m f"
  by (simp add: prints_def)

lemma prints_arg: "(\<And>x. prints m (f x)) \<Longrightarrow> prints m (\<lambda>s. f (g s) s)"
  by (simp add: prints_def)

lemma prints_if:
  assumes "\<And>s. boot_memory m s \<Longrightarrow> b s = c" "c \<Longrightarrow> prints m f" "\<not> c \<Longrightarrow> prints m g"
  shows "prints m (\<lambda>s. if b s then f s else g s)"
  using assms by (cases c) (auto simp: prints_def)

lemma prints_say:
  assumes "\<And>s :: 'a con_scheme. boot_memory m s \<Longrightarrow> format_text (text_of f) (args s) \<noteq> None"
  shows "prints m (\<lambda>s :: 'a con_scheme. say f (args s) s)"
  using assms say_prints unfolding prints_def boot_memory_def by (metis not_None_eq)

lemma boot_field:
  assumes "off_screen a n" "k + 4 \<le> n" "boot_memory m s"
  shows "field a (of_nat k) s = read32 m (a + of_nat k)"
proof -
  have "same_outside_video m (ram s)" using assms(3) by (simp add: boot_memory_def)
  then have "ram s (a + of_nat k + of_nat j) = m (a + of_nat k + of_nat j)" if "j < 4" for j
    using off_screen_same [OF assms(1), of m "ram s" "k + j"] that assms(2) by (simp add: add.assoc)
  from this [of 0] this [of 1] this [of 2] this [of 3] show ?thesis by (simp add: field_def read32_def)
qed

section \<open>The report ends\<close>

lemma print_bytes_prints: "prints m (print_bytes start is)"
proof (induction "is")
  case (Cons i "is")
  have "prints m (\<lambda>s. say ''0x%x '' [Num (scast (ram s (start + of_nat i)))] s)"
    by (rule prints_say) (simp add: text_of_def)
  from prints_bind [OF this Cons] show ?case by simp
qed (simp add: prints_Some)

lemma print_modules_prints:
  assumes "off_screen mbi 52"
  shows "prints m (print_modules mbi i md :: 'a con_scheme \<Rightarrow> 'a con_scheme option)"
proof (induction "unat (read32 m (mbi + 20)) - unat i" arbitrary: i md rule: less_induct)
  case less
  let ?n = "read32 m (mbi + 20)"
  have c: "(i < field mbi 20 s) = (i < ?n)" if "boot_memory m s" for s :: "'a con_scheme"
    using boot_field [OF assms, of 20 m s] that by simp
  have more: "prints m (print_modules mbi (i + 1) (md + 16) :: 'a con_scheme \<Rightarrow> 'a con_scheme option)" if "i < ?n"
    using less word_diff_decreases [OF that] by blast
  show ?case
    by (rule prints_unfold, rule print_modules.simps, rule prints_if, erule c)
      (intro prints_bind prints_say prints_arg [OF print_bytes_prints] more prints_Some; simp add: text_of_def)+
qed

text \<open>The walk over the memory map, whose entries give the distance to the next: it ends after some entries.\<close>

fun mmap_walk :: "nat \<Rightarrow> memory \<Rightarrow> u32 \<Rightarrow> u32 \<Rightarrow> bool" where
  "mmap_walk 0 m a e = (e \<le> a)"
| "mmap_walk (Suc n) m a e = (e \<le> a \<or> off_screen a 4 \<and> mmap_walk n m (a + read32 m a + 4) e)"

lemma print_mmap_prints:
  assumes "off_screen mbi 52"
  shows "mmap_walk n m a (read32 m (mbi + 48) + read32 m (mbi + 44)) \<Longrightarrow>
    prints m (print_mmap mbi a :: 'a con_scheme \<Rightarrow> 'a con_scheme option)"
proof (induction n arbitrary: a)
  case 0
  have "\<not> a < field mbi 48 s + field mbi 44 s" if "boot_memory m s" for s :: "'a con_scheme"
    using 0 boot_field [OF assms, of 48 m s] boot_field [OF assms, of 44 m s] that by simp
  then show ?case unfolding prints_def by (metis prints_Some prints_def print_mmap.simps)
next
  case (Suc n)
  let ?e = "read32 m (mbi + 48) + read32 m (mbi + 44)"
  have c: "(a < field mbi 48 s + field mbi 44 s) = (a < ?e)" if "boot_memory m s" for s :: "'a con_scheme"
    using boot_field [OF assms, of 48 m s] boot_field [OF assms, of 44 m s] that by simp
  have "off_screen a 4" if "a < ?e" using Suc.prems that by auto
  then have f: "field a 0 s = read32 m a" if "a < ?e" "boot_memory m s" for s :: "'a con_scheme"
    using boot_field [of a 4 0 m s] that by simp
  have "prints m (print_mmap mbi (a + read32 m a + 4) :: 'a con_scheme \<Rightarrow> 'a con_scheme option)" if "a < ?e"
    using Suc that by auto
  then have more: "prints m (\<lambda>s :: 'a con_scheme. print_mmap mbi (a + field a 0 s + 4) s)" if "a < ?e"
    using f that by (simp add: prints_def)
  show ?case
    by (rule prints_unfold, rule print_mmap.simps, rule prints_if, erule c)
      (intro prints_bind prints_say more prints_Some; simp add: text_of_def)+
qed

definition multiboot_ok :: "memory \<Rightarrow> u32 \<Rightarrow> bool" where
  "multiboot_ok m mbi \<longleftrightarrow> off_screen mbi 52 \<and>
     (CHECK_FLAG (read32 m mbi) 2 \<longrightarrow> (\<exists>cs. holds_string (mem_view m (read32 m (mbi + 16))) cs \<and> off_screen (read32 m (mbi + 16)) (length cs + 1))) \<and>
     (CHECK_FLAG (read32 m mbi) 3 \<longrightarrow> off_screen (read32 m (mbi + 24)) 4) \<and>
     (CHECK_FLAG (read32 m mbi) 6 \<longrightarrow> (\<exists>n. mmap_walk n m (read32 m (mbi + 48)) (read32 m (mbi + 48) + read32 m (mbi + 44))))"

lemma boot_flag: "multiboot_ok m mbi \<Longrightarrow> boot_memory m s \<Longrightarrow> CHECK_FLAG (field mbi 0 s) b = CHECK_FLAG (read32 m mbi) b"
  using boot_field [of mbi 52 0 m s] by (simp add: multiboot_ok_def)

lemma cmdline_text:
  assumes "holds_string (mem_view m a) cs" "off_screen a (length cs + 1)" "boot_memory m s"
  shows "format_text (text_of ''cmdline = %s\<newline>'') [Str (mem_view (ram s) a)] \<noteq> None"
proof -
  have "mem_view (ram s) a i = mem_view m a i" if "i \<le> length cs" for i
    using off_screen_same [OF assms(2), of m "ram s" i] assms(3) that by (simp add: boot_memory_def mem_view_def)
  then have "holds_string (mem_view (ram s) a) cs" using assms(1) by (simp add: holds_string_def)
  from strlen_string [OF this] show ?thesis by (simp add: text_of_def view_text_def)
qed

lemma report_memory_prints:
  assumes "multiboot_ok m mbi"
  shows "prints m (report_memory mbi :: 'a con_scheme \<Rightarrow> 'a con_scheme option)"
proof -
  have "format_text (text_of ''cmdline = %s\<newline>'') [Str (mem_view (ram s) (field mbi 16 s))] \<noteq> None"
    if "CHECK_FLAG (read32 m mbi) 2" "boot_memory m s" for s :: "'a con_scheme"
    using assms that boot_field [of mbi 52 16 m s] cmdline_text [of m "read32 m (mbi + 16)" _ s] by (auto simp: multiboot_ok_def)
  then show ?thesis unfolding report_memory_def [abs_def]
    by (intro prints_bind prints_say prints_if [OF boot_flag [OF assms]] prints_Some; (assumption | simp add: text_of_def))
qed

lemma report_sections_prints:
  assumes "multiboot_ok m mbi"
  shows "prints m (report_sections mbi :: 'a con_scheme \<Rightarrow> 'a con_scheme option)"
proof -
  have o: "off_screen mbi 52" using assms by (simp add: multiboot_ok_def)
  have f: "field mbi 48 s = read32 m (mbi + 48)" if "boot_memory m s" for s :: "'a con_scheme"
    using boot_field [OF o, of 48 m s] that by simp
  have "prints m (print_mmap mbi (read32 m (mbi + 48)) :: 'a con_scheme \<Rightarrow> 'a con_scheme option)" if "CHECK_FLAG (read32 m mbi) 6"
    using assms that print_mmap_prints [OF o] by (auto simp: multiboot_ok_def)
  then have "prints m (\<lambda>s :: 'a con_scheme. print_mmap mbi (field mbi 48 s) s)" if "CHECK_FLAG (read32 m mbi) 6"
    using f that by (simp add: prints_def)
  then show ?thesis unfolding report_sections_def [abs_def]
    by (intro prints_bind prints_say prints_if [OF boot_flag [OF assms]] prints_Some; (assumption | simp add: text_of_def))
qed

section \<open>What the processor sees of a segment\<close>

definition seg_base :: "seg_desc \<Rightarrow> u32" where
  "seg_base d = push_bit 24 (ucast (base_31_24 d)) OR push_bit 16 (ucast (base_23_16 d)) OR ucast (base_15_00 d)"

definition seg_limit :: "seg_desc \<Rightarrow> u32" where
  "seg_limit d = push_bit 16 (ucast (seg_lim_19_16 d)) OR ucast (seg_lim_15_00 d)"

lemma bit_ones:
  fixes w :: u32
  assumes "w = push_bit k (mask n)"
  shows "bit w m \<longleftrightarrow> k \<le> m \<and> m < k + n \<and> m < 32"
  unfolding assms by (auto simp: bit_push_bit_iff bit_mask_iff possible_bit_def)

lemma base_masks:
  "bit (0xFF000000 :: u32) m \<longleftrightarrow> 24 \<le> m \<and> m < 32" "bit (0x00FF0000 :: u32) m \<longleftrightarrow> 16 \<le> m \<and> m < 24"
  "bit (0x0000FFFF :: u32) m \<longleftrightarrow> m < 16"
  using bit_ones [of "0xFF000000" 24 8 m] bit_ones [of "0x00FF0000" 16 8 m] bit_ones [of "0x0000FFFF" 0 16 m]
  by (auto simp: mask_eq_exp_minus_1)

lemma base_parts:
  fixes a :: u32
  assumes "n < 32"
  shows "bit (push_bit 24 (ucast (ucast (drop_bit 24 (a AND 0xFF000000)) :: u8)) :: u32) n \<longleftrightarrow> 24 \<le> n \<and> bit a n"
    "bit (push_bit 16 (ucast (ucast (drop_bit 16 (a AND 0x00FF0000)) :: u8)) :: u32) n \<longleftrightarrow> 16 \<le> n \<and> n < 24 \<and> bit a n"
    "bit (ucast (ucast (a AND 0x0000FFFF) :: u16) :: u32) n \<longleftrightarrow> n < 16 \<and> bit a n"
proof -
  show "bit (push_bit 24 (ucast (ucast (drop_bit 24 (a AND 0xFF000000)) :: u8)) :: u32) n \<longleftrightarrow> 24 \<le> n \<and> bit a n"
    unfolding bit_push_bit_iff bit_unsigned_iff bit_drop_bit_eq comp_def bit_and_iff base_masks using assms
    by (cases "24 \<le> n") auto
  show "bit (push_bit 16 (ucast (ucast (drop_bit 16 (a AND 0x00FF0000)) :: u8)) :: u32) n \<longleftrightarrow> 16 \<le> n \<and> n < 24 \<and> bit a n"
    unfolding bit_push_bit_iff bit_unsigned_iff bit_drop_bit_eq comp_def bit_and_iff base_masks using assms
    by (cases "16 \<le> n") auto
  show "bit (ucast (ucast (a AND 0x0000FFFF) :: u16) :: u32) n \<longleftrightarrow> n < 16 \<and> bit a n"
    unfolding bit_unsigned_iff bit_and_iff base_masks using assms by auto
qed

lemma SET_PARAMS_base: "seg_base (SET_PARAMS a l d) = a"
proof (rule bit_word_eqI)
  fix n assume "n < LENGTH(32)"
  then have n: "n < 32" by simp
  have "seg_base (SET_PARAMS a l d) = push_bit 24 (ucast (ucast (drop_bit 24 (a AND 0xFF000000)) :: u8)) OR
      push_bit 16 (ucast (ucast (drop_bit 16 (a AND 0x00FF0000)) :: u8)) OR ucast (ucast (a AND 0x0000FFFF) :: u16)"
    by (simp add: seg_base_def SET_PARAMS_def)
  then show "bit (seg_base (SET_PARAMS a l d)) n = bit a n"
    by (simp only: bit_or_iff base_parts [OF n]) auto
qed

lemma tss_limit: "seg_limit (SET_PARAMS a 103 d) = 103" "seg_limit (SET_PARAMS a 31 d) = 31"
  by (simp_all add: seg_limit_def SET_PARAMS_def)

section \<open>The devices\<close>

text \<open>What the start relies on in the mouse driver: it programs its device and opens its line, 12, at the
  interrupt controllers, and changes nothing else.\<close>

definition mouse_driver :: "('a boot_scheme \<Rightarrow> 'a boot_scheme) \<Rightarrow> bool" where
  "mouse_driver f \<longleftrightarrow> (\<forall>s. \<exists>h. f s = s\<lparr>hw := h\<rparr> \<and> (pic_synced (rtc_pic (hw s)) \<longrightarrow> pic_synced (rtc_pic h)) \<and>
     (\<forall>k. irq_open (rtc_pic h) k \<longleftrightarrow> k = 12 \<or> irq_open (rtc_pic (hw s)) k))"

definition lines_ok :: "rtc \<Rightarrow> bool" where
  "lines_ok h \<longleftrightarrow> pic_synced (rtc_pic h) \<and> {k. irq_open (rtc_pic h) k} = {0, 1, 2, 8, 12}"

lemma reset_hw: "\<exists>f. hw (reset s) = rtc_io f (hw s) \<and> (pic_synced (rtc_pic (hw s)) \<longrightarrow> pic_synced (rtc_pic (hw (reset s))))"
  by (auto simp: reset_def clear_def Let_def move_cursor_def update_cursor_def con_io_def rtc_io_def pic_synced_def)

text \<open>The header of the module lies in the kernel's own frame, which \<open>init_paging\<close> maps at its own addresses.\<close>

lemma screen_not_kernel: "j < 2000 \<Longrightarrow> \<not> kernel_frame (vaddr j) \<and> \<not> kernel_frame (vaddr j + 1)"
proof -
  assume j: "j < 2000"
  have "unat (vaddr j) = 0xB8000 + 2 * j" "unat (vaddr j + 1) = 0xB8000 + 2 * j + 1"
    using j unat_offset [of "0xB8000 + 2 * j"] unat_offset [of "0xB8000 + 2 * j + 1"] by (simp_all add: vaddr_def add.assoc)
  then have "unat (drop_bit 22 (vaddr j)) = 0" "unat (drop_bit 22 (vaddr j + 1)) = 0"
    using j by (simp_all add: drop_bit_eq_div unat_div)
  then show ?thesis by (auto simp: kernel_frame_def)
qed

lemma kernel_same: "same_outside_video m m' \<Longrightarrow> kernel_frame a \<Longrightarrow> m' a = m a"
  unfolding same_outside_video_def using screen_not_kernel by metis

lemma init_filesys_cong: "(\<And>i. i < 4 \<Longrightarrow> m' (start + 4 + of_nat i) = m (start + 4 + of_nat i)) \<Longrightarrow> init_filesys m' start f = init_filesys m start f"
proof -
  assume e: "m' (start + 4 + of_nat i) = m (start + 4 + of_nat i)" if "i < 4" for i
  from e [of 0] e [of 1] e [of 2] e [of 3] have "read32 m' (start + 4) = read32 m (start + 4)" by (simp add: read32_def)
  then show ?thesis by (simp add: init_filesys_def)
qed

lemma mount_kernel:
  fixes s :: "'a kernel_scheme"
  assumes "paging_ok p" "mmu s = init_paging p" "\<forall>i<4. kernel_frame (start + 4 + of_nat i)"
  shows "mount start s = Some (s\<lparr>fs := init_filesys (ram s) start (fs s)\<rparr>)"
proof -
  have v: "vload s (start + 4 + of_nat i) = Some (ram s (start + 4 + of_nat i))" if "i < 4" for i
    using assms(3) that translate_init [OF assms(1), of False "start + 4 + of_nat i"] assms(2) by (simp add: vload_def kernel_frame_def)
  then have "init_filesys (vmem s) start (fs s) = init_filesys (ram s) start (fs s)" by (intro init_filesys_cong) (simp add: vmem_def)
  then show ?thesis using v by (simp add: mount_def)
qed

lemma init_devices_run:
  fixes s :: "'a boot_scheme"
  assumes "mouse_driver mouse_init" "paging_ok (mmu s)" "\<forall>i<4. kernel_frame (start + 4 + of_nat i)"
  obtains h where "init_devices mouse_init start s = Some (con_io sti (reset (pcb_init ((keyboard_init (s\<lparr>mmu := init_paging (mmu s),
      fs := init_filesys (ram s) start (fs s)\<rparr>))\<lparr>hw := h\<rparr>))))"
    "(\<And>k. \<not> irq_open (rtc_pic (hw s)) k) \<Longrightarrow> lines_ok h"
proof -
  let ?s = "s\<lparr>mmu := init_paging (mmu s), fs := init_filesys (ram s) start (fs s)\<rparr>"
  let ?k = "keyboard_init (pic_call i8259_init ?s)"
  let ?g = "rtc_init (rtc_pic_update (enable_irq 1) (rtc_pic_update i8259_init (hw s)))"
  obtain h where h: "mouse_init (hw_update rtc_init ?k) = (hw_update rtc_init ?k)\<lparr>hw := h\<rparr>"
      "pic_synced (rtc_pic ?g) \<longrightarrow> pic_synced (rtc_pic h)"
      "\<And>k. irq_open (rtc_pic h) k \<longleftrightarrow> k = 12 \<or> irq_open (rtc_pic ?g) k"
    using assms(1) [unfolded mouse_driver_def, rule_format, of "hw_update rtc_init ?k"]
    by (auto simp: keyboard_init_def pic_call_def Let_def)
  have "pic_call pit_init (mouse_init (hw_update rtc_init ?k)) = (keyboard_init ?s)\<lparr>hw := rtc_pic_update pit_init h\<rparr>"
    unfolding h(1) by (simp add: pic_call_def keyboard_init_def Let_def)
  moreover have "mount start (s\<lparr>mmu := init_paging (mmu s)\<rparr>) = Some ?s"
    using mount_kernel [OF assms(2), of "s\<lparr>mmu := init_paging (mmu s)\<rparr>" start] assms(3) by simp
  ultimately have "init_devices mouse_init start s = Some (con_io sti (reset (pcb_init ((keyboard_init ?s)\<lparr>hw := rtc_pic_update pit_init h\<rparr>))))"
    by (simp add: init_devices_def Let_def)
  moreover have "lines_ok (rtc_pic_update pit_init h)" if "\<And>k. \<not> irq_open (rtc_pic (hw s)) k"
  proof -
    have "pic_synced (rtc_pic ?g)" by (intro inv_intros) (simp, intro inv_intros)
    moreover have "irq_open (rtc_pic ?g) k \<longleftrightarrow> k \<in> {1, 2, 8}" for k
      using irq_open_rtc_init [of "rtc_pic_update (enable_irq 1) (rtc_pic_update i8259_init (hw s))" k]
        irq_open_enable [of 1 "i8259_init (rtc_pic (hw s))" k] that by auto
    ultimately show ?thesis using h(2,3) by (auto simp: lines_ok_def irq_open_pit_init intro!: inv_intros)
  qed
  ultimately show thesis using that by blast
qed

section \<open>The state the first terminal finds\<close>

lemma more_boot:
  fixes s t :: "'a boot_scheme"
  assumes "con.more t = con.more s"
  shows "mmu t = mmu s" "fs t = fs s" "runn_task_num t = runn_task_num s" "curr_task_pos t = curr_task_pos s"
    "task_bitmap t = task_bitmap s" "pcbs t = pcbs s" "idt t = idt s"
proof -
  let ?t = "s\<lparr>hw := hw t, ram := ram t, screen_x := screen_x t, screen_y := screen_y t,
      enter_tracker := enter_tracker t, keyboard_buffer := keyboard_buffer t,
      kb_buffer_position := kb_buffer_position t, enter_flag := enter_flag t,
      first_scroll_indicator := first_scroll_indicator t\<rparr>"
  have t: "t = ?t" using assms by (intro con.equality) simp_all
  have "mmu ?t = mmu s" "fs ?t = fs s" "runn_task_num ?t = runn_task_num s" "curr_task_pos ?t = curr_task_pos s"
    "task_bitmap ?t = task_bitmap s" "pcbs ?t = pcbs s" "idt ?t = idt s" by simp_all
  then show "mmu t = mmu s" "fs t = fs s" "runn_task_num t = runn_task_num s" "curr_task_pos t = curr_task_pos s"
    "task_bitmap t = task_bitmap s" "pcbs t = pcbs s" "idt t = idt s"
    unfolding t [symmetric] .
qed

lemma prints_run:
  assumes "prints m f" "boot_memory m s"
  obtains t where "f s = Some t" "printed s t" "boot_memory m t"
  using assms printed_boot_memory unfolding prints_def by blast

lemma entry_reports:
  fixes s :: "'a boot_scheme"
  assumes info: "multiboot_ok (ram s) mbi" "CHECK_FLAG (read32 (ram s) mbi) 3"
      "\<not> (CHECK_FLAG (read32 (ram s) mbi) 4 \<and> CHECK_FLAG (read32 (ram s) mbi) 5)"
    and inv: "con_inv s"
  obtains u where "entry l mouse_init shell_at esp ebp junk MULTIBOOT_BOOTLOADER_MAGIC mbi s =
      Option.bind (init_devices mouse_init (read32 (ram s) (read32 (ram s) (mbi + 24))) (set_tss l (set_ldt l u))) (terminal_init shell_at esp ebp)"
    "printed (clear (s\<lparr>idt := idt_set_all (handler_at l) (idt s)\<rparr>)) u" "same_outside_video (ram s) (ram u)"
proof -
  let ?m = "ram s" and ?s = "clear (s\<lparr>idt := idt_set_all (handler_at l) (idt s)\<rparr>)"
  have o: "off_screen mbi 52" "off_screen (read32 ?m (mbi + 24)) 4" using info by (simp_all add: multiboot_ok_def)
  have b: "boot_memory ?m ?s" using inv clear_video_spec(3) by (simp add: boot_memory_def clear_def con_inv_def)
  obtain t1 where t1: "report_memory mbi ?s = Some t1" "printed ?s t1" "boot_memory ?m t1"
    by (rule prints_run [OF report_memory_prints [OF info(1)] b])
  obtain t2 where t2: "print_modules mbi 0 (read32 ?m (mbi + 24)) t1 = Some t2" "printed t1 t2" "boot_memory ?m t2"
    by (rule prints_run [OF print_modules_prints [OF o(1)] t1(3)])
  have f: "field mbi 24 t1 = read32 ?m (mbi + 24)" "field (read32 ?m (mbi + 24)) 0 t1 = read32 ?m (read32 ?m (mbi + 24))"
    using boot_field [OF o(1) _ t1(3), of 24] boot_field [OF o(2) _ t1(3), of 0] by simp_all
  have m: "report_modules junk mbi t1 = Some (read32 ?m (read32 ?m (mbi + 24)), t2)"
    using t2(1) f info(2) boot_flag [OF info(1) t1(3)] by (simp add: report_modules_def)
  obtain u where u: "report_sections mbi t2 = Some u" "printed t2 u" "boot_memory ?m u"
    by (rule prints_run [OF report_sections_prints [OF info(1)] t2(3)])
  have "entry l mouse_init shell_at esp ebp junk MULTIBOOT_BOOTLOADER_MAGIC mbi s =
      Option.bind (init_devices mouse_init (read32 ?m (read32 ?m (mbi + 24))) (set_tss l (set_ldt l u))) (terminal_init shell_at esp ebp)"
    using t1(1) m u(1) info(3) boot_flag [OF info(1) t2(3)] by (auto simp: entry_def)
  moreover have "printed ?s u" using t1(2) t2(2) u(2) by (blast intro: printed_trans)
  ultimately show thesis using that u(3) by (simp add: boot_memory_def)
qed

lemma keyboard_init_con:
  assumes "length (enter_tracker s) = 25" "length (keyboard_buffer s) = 128"
  shows "length (enter_tracker (keyboard_init s)) = 25" "length (keyboard_buffer (keyboard_init s)) = 128"
    "enter_flag (keyboard_init s) = 0" "plain_keys (keyboard_init s)" "ram (keyboard_init s) = ram s"
  using assms by (simp_all add: keyboard_init_def Let_def for_to_fill_all pic_call_def plain_keys_def)

lemma lines_ok_reset: "lines_ok (hw s) \<Longrightarrow> lines_ok (hw (con_io sti (reset s)))"
proof -
  assume a: "lines_ok (hw s)"
  obtain f where f: "hw (reset s) = rtc_io f (hw s)" "pic_synced (rtc_pic (hw (reset s)))"
    using reset_hw [of s] a by (auto simp: lines_ok_def)
  have "pic_synced (rtc_pic (hw (con_io sti (reset s))))" using f(2) by (simp add: con_io_def rtc_io_def pic_synced_def)
  moreover have "irq_open (rtc_pic (hw (con_io sti (reset s)))) = irq_open (rtc_pic (hw s))"
    using f(1) by (simp add: con_io_def)
  ultimately show ?thesis using a by (simp add: lines_ok_def)
qed

lemma init_devices_state:
  fixes s :: "'a boot_scheme" and start :: u32
  assumes mouse: "mouse_driver mouse_init" and s: "con_inv s" "length (pcbs s) = 6" "\<And>k. \<not> irq_open (rtc_pic (hw s)) k"
    and p: "paging_ok (mmu s)" "\<forall>i<4. kernel_frame (start + 4 + of_nat i)"
    and t: "t = the (init_devices mouse_init start s)"
  shows "init_devices mouse_init start s = Some t" "kbd_ok t \<and> line t = [] \<and> tty t = (replicate 2000 BLANK, 0)" "plain_keys t" "same_outside_video (ram s) (ram t)" "lines_ok (hw t)"
    "int_enabled (pic_io (rtc_pic (hw t)))" "pcbs t = replicate 6 zero_pcb" "mmu t = init_paging (mmu s)" "fs t = init_filesys (ram s) start (fs s)"
    "runn_task_num t = runn_task_num s" "curr_task_pos t = curr_task_pos s" "task_bitmap t = task_bitmap s" "idt t = idt s"
    "tss_desc_ptr t = tss_desc_ptr s" "task_register t = task_register s" "tss_esp0 t = tss_esp0 s"
proof -
  obtain h where h: "t = con_io sti (reset (pcb_init ((keyboard_init (s\<lparr>mmu := init_paging (mmu s),
      fs := init_filesys (ram s) start (fs s)\<rparr>))\<lparr>hw := h\<rparr>)))" "lines_ok h"
      "init_devices mouse_init start s = Some t"
    using init_devices_run [OF mouse p] s(3) unfolding t by (metis option.sel)
  show "init_devices mouse_init start s = Some t" by (rule h(3))
  let ?s = "s\<lparr>mmu := init_paging (mmu s), fs := init_filesys (ram s) start (fs s)\<rparr>"
  let ?k = "pcb_init ((keyboard_init ?s)\<lparr>hw := h\<rparr>)"
  have l: "length (enter_tracker ?s) = 25" "length (keyboard_buffer ?s) = 128" using s(1) by (simp_all add: con_inv_def)
  note k = keyboard_init_con [OF l]
  have r: "length (enter_tracker ?k) = 25" "length (keyboard_buffer ?k) = 128" using k by (simp_all add: pcb_init_def)
  note r = reset_spec [OF r]
  show "kbd_ok t \<and> line t = [] \<and> tty t = (replicate 2000 BLANK, 0)"
    using r kbd_ok_intro [of "reset ?k" "[]"] k(3) unfolding h(1) by (simp add: pcb_init_def)
  show "same_outside_video (ram s) (ram t)" using r(6) k(5) unfolding h(1) by (simp add: pcb_init_def)
  show "lines_ok (hw t)" using lines_ok_reset [of ?k] h(2) unfolding h(1) by (simp add: pcb_init_def)
  show "int_enabled (pic_io (rtc_pic (hw t)))" unfolding h(1) by (simp add: con_io_def rtc_io_def)
  have "pcbs (keyboard_init ?s) = pcbs s" by (simp add: keyboard_init_def pic_call_def Let_def)
  then show "pcbs t = replicate 6 zero_pcb"
    using s(2) unfolding h(1) by (simp add: pcb_init_def reset_def clear_def Let_def move_cursor_def update_cursor_def con_io_def
      for_to_fill_all map_replicate_const)
  show "plain_keys t" "mmu t = init_paging (mmu s)" "fs t = init_filesys (ram s) start (fs s)"
    "runn_task_num t = runn_task_num s" "curr_task_pos t = curr_task_pos s" "task_bitmap t = task_bitmap s" "idt t = idt s"
    "tss_desc_ptr t = tss_desc_ptr s" "task_register t = task_register s" "tss_esp0 t = tss_esp0 s"
    unfolding h(1) by (simp_all add: plain_keys_def pcb_init_def keyboard_init_def pic_call_def reset_def clear_def Let_def move_cursor_def update_cursor_def
      con_io_def init_filesys_def)
qed

lemma descriptors_frame:
  fixes u :: "'a boot_scheme" and l :: linker
  defines "v \<equiv> set_tss l (set_ldt l u)"
  shows "con_inv v = con_inv u" "pcbs v = pcbs u" "hw v = hw u" "ram v = ram u" "mmu v = mmu u" "runn_task_num v = runn_task_num u"
    "curr_task_pos v = curr_task_pos u" "task_bitmap v = task_bitmap u" "idt v = idt u" "task_register v = KERNEL_TSS" "tss_esp0 v = 0x800000"
    "seg_base (tss_desc_ptr v) = tss_at l" "seg_limit (tss_desc_ptr v) = 103" "fs v = fs u"
  unfolding v_def by (simp_all add: set_tss_def set_ldt_def Let_def con_inv_def SET_PARAMS_base tss_limit)


lemma off_screen_low:
  assumes "unat pa + n \<le> 0xB8000"
  shows "off_screen pa n"
  unfolding off_screen_def
proof (intro allI impI)
  fix i j :: nat
  assume "i < n" "j < 2000"
  then have "unat (pa + of_nat i) = unat pa + i" "unat (vaddr j) = 0xB8000 + 2 * j"
    "unat (vaddr j + 1) = 0xB8000 + 2 * j + 1"
    using assms unat_plus_below [of pa i] unat_offset [of "0xB8000 + 2 * j"] unat_offset [of "0xB8000 + 2 * j + 1"]
    by (simp_all add: vaddr_def add.assoc)
  then have "unat (pa + of_nat i) \<noteq> unat (vaddr j)" "unat (pa + of_nat i) \<noteq> unat (vaddr j + 1)"
    using assms \<open>i < n\<close> by linarith+
  then show "pa + of_nat i \<noteq> vaddr j \<and> pa + of_nat i \<noteq> vaddr j + 1" by auto
qed

definition zero_seg :: seg_desc where
  "zero_seg = \<lparr>seg_lim_15_00 = 0, base_15_00 = 0, base_23_16 = 0, seg_type = 0, sys = 0, seg_dpl = 0, seg_present = 0,
     seg_lim_19_16 = 0, avail = 0, seg_reserved = 0, opsize = 0, granularity = 0, base_31_24 = 0\<rparr>"

definition demo_linker :: linker where
  "demo_linker = \<lparr>handler_at = \<lambda>_. 0x400000, ldt_at = 0x410000, tss_at = 0x410100\<rparr>"

definition demo_boot :: boot where
  "demo_boot = (kbd.extend demo_kbd (boot.fields (replicate 256 zero_gate) zero_seg zero_seg 0 0 0))
     \<lparr>ram := (\<lambda>_. 0)(0x102 := 0x41, 0x10000 := 8, 0x10014 := 1, 0x10019 := 1, 0x410004 := 1), task_bitmap := replicate 6 0, runn_task_num := 0\<rparr>"


end
