(* ===== verification/Image.thy ===== *)
theory Image
  imports Process_Files
begin

text \<open>
  The file system image as a region of memory: boot block, inodes and data blocks, as \<open>init_filesys\<close> finds them. The
  contents of files, their names and sizes depend on this region only, so that whatever is written elsewhere
  (screen, buffers of programs, task pages) leaves every file as it is.
\<close>

definition disk_image :: "memory \<Rightarrow> fsys \<Rightarrow> u32 set" where
  "disk_image m f = (\<lambda>k. fs_bootblk f + of_nat k) ` {k. k < (1 + unat (num_inodes m f) + unat (num_data_blocks m f)) * 4096}"

definition image_layout :: "memory \<Rightarrow> fsys \<Rightarrow> bool" where
  "image_layout m f \<longleftrightarrow> fs_dentries f = fs_bootblk f + 64 \<and> fs_inodes f = fs_bootblk f + 0x1000 \<and>
     fs_datablocks f = fs_bootblk f + (num_inodes m f + 1) * 0x1000"

definition same_image :: "fsys \<Rightarrow> memory \<Rightarrow> memory \<Rightarrow> bool" where
  "same_image f m m' \<longleftrightarrow> (\<forall>a \<in> disk_image m f. m' a = m a)"

lemma init_filesys_layout: "image_layout m (init_filesys m start f)"
  by (simp add: image_layout_def init_filesys_def num_inodes_def Let_def)

lemma image_offset: "k < (1 + unat (num_inodes m f) + unat (num_data_blocks m f)) * 4096 \<Longrightarrow> fs_bootblk f + of_nat k \<in> disk_image m f"
  by (auto simp: disk_image_def)

lemma same_image_read32:
  assumes "same_image f m m'" "k + 4 \<le> (1 + unat (num_inodes m f) + unat (num_data_blocks m f)) * 4096"
  shows "read32 m' (fs_bootblk f + of_nat k) = read32 m (fs_bootblk f + of_nat k)"
proof -
  have "m' (fs_bootblk f + of_nat (k + j)) = m (fs_bootblk f + of_nat (k + j))" if "j < 4" for j
    using assms image_offset [of "k + j" m f] that by (simp add: same_image_def)
  from this [of 0] this [of 1] this [of 2] this [of 3] show ?thesis by (simp add: read32_def ac_simps)
qed

lemma same_image_counts:
  assumes "same_image f m m'"
  shows "num_inodes m' f = num_inodes m f" "num_data_blocks m' f = num_data_blocks m f"
  using same_image_read32 [OF assms, of 4] same_image_read32 [OF assms, of 8] by (simp_all add: num_inodes_def num_data_blocks_def)

lemma same_image_layout: "same_image f m m' \<Longrightarrow> image_layout m' f = image_layout m f"
  by (simp add: image_layout_def same_image_counts)

lemma same_image_image: "same_image f m m' \<Longrightarrow> disk_image m' f = disk_image m f"
  by (simp add: disk_image_def same_image_counts)

lemma same_image_refl [simp]: "same_image f m m"
  by (simp add: same_image_def)

lemma same_image_trans: "same_image f m m' \<Longrightarrow> same_image f m' m'' \<Longrightarrow> same_image f m m''"
  unfolding same_image_def by (metis same_image_def same_image_image)

section \<open>The directory\<close>

lemma dentry_offset: "image_layout m f \<Longrightarrow> dentry_addr f i + of_nat j = fs_bootblk f + of_nat (64 + 64 * i + j)"
  by (simp add: image_layout_def dentry_addr_def)

lemma same_image_entry:
  assumes "image_layout m f" "same_image f m m'" "i < 63" "j < 64"
  shows "m' (dentry_addr f i + of_nat j) = m (dentry_addr f i + of_nat j)"
proof -
  have "64 + 64 * i + j < (1 + unat (num_inodes m f) + unat (num_data_blocks m f)) * 4096" using assms(3,4) by simp
  from image_offset [OF this] show ?thesis using assms(2) unfolding dentry_offset [OF assms(1)] by (simp add: same_image_def)
qed

lemma same_image_dir:
  assumes "image_layout m f" "same_image f m m'"
  shows "dir_ok m' f = dir_ok m f" "i < 63 \<Longrightarrow> disk_name m' f i = disk_name m f i" "lookup_name m' f cs = lookup_name m f cs"
    "i < 63 \<Longrightarrow> read32 m' (dentry_addr f i + 36) = read32 m (dentry_addr f i + 36)"
proof -
  note e = same_image_entry [OF assms]
  have "terminated m' (dentry_addr f i) = terminated m (dentry_addr f i)" if "i < 63" for i
    using e [OF that] by (simp add: terminated_def cong: conj_cong)
  then show "dir_ok m' f = dir_ok m f" by (simp add: dir_ok_def)
  show n: "disk_name m' f i = disk_name m f i" if "i < 63" for i
  proof -
    have "map (\<lambda>j. m' (dentry_addr f i + of_nat j)) [0..<32] = map (\<lambda>j. m (dentry_addr f i + of_nat j)) [0..<32]"
      using e [OF that] by (intro map_cong) simp_all
    then show ?thesis by (simp only: disk_name_def bytes_at_def)
  qed
  then show "lookup_name m' f cs = lookup_name m f cs"
    by (auto simp: lookup_name_def intro!: find_cong)
  show "read32 m' (dentry_addr f i + 36) = read32 m (dentry_addr f i + 36)" if "i < 63"
    using e [OF that, of 36] e [OF that, of 37] e [OF that, of 38] e [OF that, of 39] by (simp add: read32_def add.assoc)
qed

section \<open>The files\<close>

lemma same_image_inode:
  assumes "image_layout m f" "same_image f m m'" "ino < num_inodes m f"
  shows "inode_length m' f ino = inode_length m f ino" "k < 1023 \<Longrightarrow> data_block m' f ino (of_nat k) = data_block m f ino (of_nat k)"
proof -
  have p: "inode_ptr f ino + of_nat j = fs_bootblk f + of_nat (4096 + unat ino * 4096 + j)" for j
    using assms(1) by (simp add: image_layout_def inode_ptr_def)
  have b: "4096 + unat ino * 4096 + j + 4 \<le> (1 + unat (num_inodes m f) + unat (num_data_blocks m f)) * 4096" if "j + 4 \<le> 4096" for j
    using assms(3) that by (simp add: word_less_nat_alt)
  show "inode_length m' f ino = inode_length m f ino"
    using same_image_read32 [OF assms(2) b [of 0]] p [of 0] by (simp add: inode_length_def)
  show "data_block m' f ino (of_nat k) = data_block m f ino (of_nat k)" if "k < 1023"
    using same_image_read32 [OF assms(2) b [of "4 + 4 * k"]] p [of "4 + 4 * k"] that by (simp add: data_block_def ac_simps)
qed

lemma same_image_blocks:
  assumes "image_layout m f" "same_image f m m'" "ino < num_inodes m f" "(off + n) div 4096 < 1023"
  shows "blocks_valid m' f ino off n = blocks_valid m f ino off n"
proof -
  have "data_block m' f ino (of_nat k) = data_block m f ino (of_nat k)" if "k \<in> {off div 4096..(off + n) div 4096}" for k
    using same_image_inode(2) [OF assms(1-3)] that assms(4) by simp
  then show ?thesis using same_image_counts [OF assms(2)] by (simp add: blocks_valid_def)
qed

lemma same_image_byte:
  assumes "image_layout m f" "same_image f m m'" "ino < num_inodes m f" "k div 4096 < 1023"
    and valid: "data_block m f ino (of_nat (k div 4096)) < num_data_blocks m f"
  shows "file_byte m' f ino k = file_byte m f ino k"
proof -
  let ?b = "data_block m f ino (of_nat (k div 4096))"
  let ?o = "(unat (num_inodes m f) + 1) * 4096 + unat ?b * 4096 + k mod 4096"
  have "?o < (1 + unat (num_inodes m f) + unat (num_data_blocks m f)) * 4096"
  proof -
    have "(unat ?b + 1) * 4096 \<le> unat (num_data_blocks m f) * 4096" using valid by (intro mult_le_mono1) (simp add: word_less_nat_alt)
    moreover have "k mod 4096 < 4096" by simp
    ultimately show ?thesis by (simp add: algebra_simps)
  qed
  then have "fs_bootblk f + of_nat ?o \<in> disk_image m f" by (rule image_offset)
  moreover have "fs_datablocks f + ?b * 0x1000 + of_nat (k mod 4096) = fs_bootblk f + of_nat ?o"
    using assms(1) by (simp add: image_layout_def algebra_simps)
  ultimately have "m' (fs_datablocks f + ?b * 0x1000 + of_nat (k mod 4096)) = m (fs_datablocks f + ?b * 0x1000 + of_nat (k mod 4096))"
    using assms(2) by (simp only: same_image_def)
  then show ?thesis using same_image_inode(2) [OF assms(1-4)] by (simp add: file_byte_def)
qed

end
