(* ===== verification/User_Programs.thy ===== *)
theory User_Programs
  imports Image
begin

text \<open>
  User programs of \<open>src/syscalls\<close> over an interface of the system calls. A program's arrays are lists; a call that reads
  an array takes it as it is, and a call that writes one returns it as it is after the call. The interface
  (\<open>os\<close>) stands for the assembly wrappers of \<open>ece391syscall.S\<close>, which pass their arguments to interrupt 0x80.
  Characters are unsigned bytes in these sources.
\<close>

section \<open>System calls\<close>

record 's os =
  sys_read :: "u32 \<Rightarrow> u8 list \<Rightarrow> u32 \<Rightarrow> 's \<Rightarrow> (u32 \<times> u8 list \<times> 's) option"
  sys_write :: "u32 \<Rightarrow> u8 list \<Rightarrow> u32 \<Rightarrow> 's \<Rightarrow> (u32 \<times> 's) option"
  sys_open :: "u8 list \<Rightarrow> 's \<Rightarrow> (u32 \<times> 's) option"
  sys_getargs :: "u8 list \<Rightarrow> u32 \<Rightarrow> 's \<Rightarrow> (u32 \<times> u8 list \<times> 's) option"
  sys_close :: "u32 \<Rightarrow> 's \<Rightarrow> (u32 \<times> 's) option"
  sys_execute :: "u8 list \<Rightarrow> 's \<Rightarrow> (u32 \<times> 's) option"
  sys_vidmap :: "u32 \<Rightarrow> 's \<Rightarrow> (u32 \<times> 's) option"
  sys_number :: "u32 \<Rightarrow> 's \<Rightarrow> (u32 \<times> 's) option"

section \<open>ece391support.c\<close>

partial_function (option) ece391_strlen_from :: "byte_view \<Rightarrow> nat \<Rightarrow> nat option" where
  "ece391_strlen_from s len =
     (case s len of None \<Rightarrow> None | Some c \<Rightarrow> if 0 \<noteq> c then ece391_strlen_from s (len + 1) else Some len)"

definition ece391_strlen :: "byte_view \<Rightarrow> nat option" where
  "ece391_strlen s = ece391_strlen_from s 0"

partial_function (option) ece391_strcpy_from ::
    "('d \<Rightarrow> nat \<Rightarrow> u8 \<Rightarrow> 'd option) \<Rightarrow> byte_view \<Rightarrow> nat \<Rightarrow> 'd \<Rightarrow> 'd option" where
  "ece391_strcpy_from wr src i dst = do {
     c \<leftarrow> src i;
     dst \<leftarrow> wr dst i c;
     if 0 \<noteq> c then ece391_strcpy_from wr src (i + 1) dst else Some dst
   }"

definition ece391_strcpy :: "('d \<Rightarrow> nat \<Rightarrow> u8 \<Rightarrow> 'd option) \<Rightarrow> 'd \<Rightarrow> byte_view \<Rightarrow> 'd option" where
  "ece391_strcpy wr dst src = ece391_strcpy_from wr src 0 dst"

definition ece391_fdputs :: "'s os \<Rightarrow> u32 \<Rightarrow> u8 list \<Rightarrow> 's \<Rightarrow> 's option" where
  "ece391_fdputs os fd s st = do {
     n \<leftarrow> ece391_strlen (list_view s);
     (_, st) \<leftarrow> sys_write os fd s (of_nat n) st;
     Some st
   }"

partial_function (option) ece391_strcmp_from :: "byte_view \<Rightarrow> byte_view \<Rightarrow> nat \<Rightarrow> int option" where
  "ece391_strcmp_from s1 s2 i = do {
     c \<leftarrow> s1 i;
     d \<leftarrow> s2 i;
     if c = d then if c = 0 then Some 0 else ece391_strcmp_from s1 s2 (i + 1)
     else Some (uint c - uint d)
   }"

definition ece391_strcmp :: "byte_view \<Rightarrow> byte_view \<Rightarrow> int option" where
  "ece391_strcmp s1 s2 = ece391_strcmp_from s1 s2 0"

fun ece391_strncmp_from :: "byte_view \<Rightarrow> byte_view \<Rightarrow> nat \<Rightarrow> nat \<Rightarrow> int option" where
  "ece391_strncmp_from s1 s2 i 0 = None"
| "ece391_strncmp_from s1 s2 i (Suc n) = do {
     c \<leftarrow> s1 i;
     d \<leftarrow> s2 i;
     if c = d then if c = 0 \<or> n = 0 then Some 0 else ece391_strncmp_from s1 s2 (i + 1) n
     else Some (uint c - uint d)
   }"

definition ece391_strncmp :: "byte_view \<Rightarrow> byte_view \<Rightarrow> u32 \<Rightarrow> int option" where
  "ece391_strncmp s1 s2 n = (if n = 0 then Some 0 else ece391_strncmp_from s1 s2 0 (unat n))"

function ece391_strrev_loop :: "u8 list \<Rightarrow> int \<Rightarrow> int \<Rightarrow> u8 list" where
  "ece391_strrev_loop s b e =
     (if b < e then ece391_strrev_loop (s[nat e := s ! nat b, nat b := s ! nat e]) (b + 1) (e - 1) else s)"
  by pat_completeness auto
termination
  by (relation "measure (\<lambda>(s, b, e). nat (e - b))") auto

declare ece391_strrev_loop.simps [simp del]

definition ece391_strrev :: "u8 list \<Rightarrow> u8 list option" where
  "ece391_strrev s = do {
     n \<leftarrow> ece391_strlen (list_view s);
     let e = int n - 1;
     Some (if e \<le> 0 then s else ece391_strrev_loop s 0 e)
   }"

definition ece391_lookup :: "u8 list" where
  "ece391_lookup = text_of ''0123456789ABCDEFGHIJKLMNOPQRSTUVWXYZ''"

function ece391_itoa_digits :: "nat \<Rightarrow> u8 list \<Rightarrow> nat \<Rightarrow> nat \<Rightarrow> (u8 list \<times> nat) option" where
  "ece391_itoa_digits radix buf pos newval =
     (if newval > 0 then
        if radix < 2 \<or> radix > 36 then None
        else Option.bind (store buf pos (ece391_lookup ! (newval mod radix)))
               (\<lambda>buf. ece391_itoa_digits radix buf (pos + 1) (newval div radix))
      else Some (buf, pos))"
  by pat_completeness auto
termination
  by (relation "measure (\<lambda>(radix, buf, pos, newval). newval)") auto

declare ece391_itoa_digits.simps [simp del]

definition ece391_itoa :: "u32 \<Rightarrow> u8 list \<Rightarrow> nat \<Rightarrow> u8 list option" where
  "ece391_itoa value buf radix =
     (if value = 0 then Option.bind (store buf 0 0x30) (\<lambda>buf. store buf 1 0)
      else do {
        (buf, pos) \<leftarrow> ece391_itoa_digits radix buf 0 (unat value);
        buf \<leftarrow> store buf pos 0;
        ece391_strrev buf
      })"

section \<open>ece391cat.c\<close>

partial_function (option) cat_loop :: "'s os \<Rightarrow> u32 \<Rightarrow> u8 list \<Rightarrow> 's \<Rightarrow> (u32 \<times> 's) option" where
  "cat_loop os fd buf s = do {
     (cnt, buf, s) \<leftarrow> sys_read os fd buf 1024 s;
     if cnt = 0 then Some (0, s)
     else if cnt = ERR then map_option (Pair 3) (ece391_fdputs os 1 (c_string ''file read failed\<newline>'') s)
     else do {
       (r, s) \<leftarrow> sys_write os 1 buf cnt s;
       if r = ERR then Some (3, s) else cat_loop os fd buf s
     }
   }"

definition cat :: "'s os \<Rightarrow> u8 list \<Rightarrow> 's \<Rightarrow> (u32 \<times> 's) option" where
  "cat os buf s = do {
     (r, buf, s) \<leftarrow> sys_getargs os buf 1024 s;
     if r \<noteq> 0 then map_option (Pair 3) (ece391_fdputs os 1 (c_string ''could not read arguments\<newline>'') s)
     else do {
       (fd, s) \<leftarrow> sys_open os buf s;
       if fd = ERR then map_option (Pair 2) (ece391_fdputs os 1 (c_string ''file not found\<newline>'') s)
       else cat_loop os fd buf s
     }
   }"

section \<open>ece391ls.c\<close>

partial_function (option) ls_loop :: "'s os \<Rightarrow> u32 \<Rightarrow> u8 list \<Rightarrow> 's \<Rightarrow> (u32 \<times> 's) option" where
  "ls_loop os fd buf s = do {
     (cnt, buf, s) \<leftarrow> sys_read os fd buf 32 s;
     if cnt = 0 then Some (0, s)
     else if cnt = ERR then map_option (Pair 3) (ece391_fdputs os 1 (c_string ''directory entry read failed\<newline>'') s)
     else do {
       buf \<leftarrow> store buf (unat cnt) NEWLINE;
       (r, s) \<leftarrow> sys_write os 1 buf (cnt + 1) s;
       if r = ERR then Some (3, s) else ls_loop os fd buf s
     }
   }"

definition ls :: "'s os \<Rightarrow> u8 list \<Rightarrow> 's \<Rightarrow> (u32 \<times> 's) option" where
  "ls os buf s = do {
     (fd, s) \<leftarrow> sys_open os (c_string ''.'') s;
     if fd = ERR then map_option (Pair 2) (ece391_fdputs os 1 (c_string ''directory open failed\<newline>'') s)
     else ls_loop os fd buf s
   }"

section \<open>ece391testprint.c\<close>

definition testprint :: "'s os \<Rightarrow> 's \<Rightarrow> (u32 \<times> 's) option" where
  "testprint os s = map_option (Pair 0) (ece391_fdputs os 1 (c_string ''Hello, if this ran, the program was correct. Yay!\<newline>'') s)"

section \<open>The library against the one of the kernel\<close>

lemma ece391_strlen_from_eq: "ece391_strlen_from s i = strlen_from s i"
proof -
  have 1: "strlen_from s i = Some n" if "ece391_strlen_from s i = Some n" for n
    using that by (rule ece391_strlen_from.raw_induct [where P = "\<lambda>s i n. strlen_from s i = Some n", rotated])
      (subst strlen_from.simps, auto split: option.splits if_splits)
  have 2: "ece391_strlen_from s i = Some n" if "strlen_from s i = Some n" for n
    using that by (rule strlen_from.raw_induct [where P = "\<lambda>s i n. ece391_strlen_from s i = Some n", rotated])
      (subst ece391_strlen_from.simps, auto split: option.splits if_splits)
  show ?thesis using 1 2 by (cases "strlen_from s i"; cases "ece391_strlen_from s i") auto
qed

lemma ece391_strlen_eq: "ece391_strlen = strlen"
  by (intro ext) (simp add: ece391_strlen_def strlen_def ece391_strlen_from_eq)

lemma ece391_strrev_eq: "ece391_strrev = strrev"
proof
  fix s
  have "ece391_strrev_loop s b e = strrev_loop s b e" for b e
    by (induction s b e rule: ece391_strrev_loop.induct) (subst ece391_strrev_loop.simps, subst strrev_loop.simps, simp)
  moreover have "strrev_loop s 0 e = s" if "e \<le> 0" for e using that by (subst strrev_loop.simps) simp
  ultimately show "ece391_strrev s = strrev s" by (cases "strlen (list_view s)") (simp_all add: ece391_strrev_def strrev_def ece391_strlen_eq)
qed

lemma ece391_itoa_digits_eq: "ece391_itoa_digits radix buf pos v = itoa_digits radix buf pos v"
proof (induction radix buf pos v rule: ece391_itoa_digits.induct)
  case (1 radix buf pos v)
  have "ece391_lookup = lookup" by (simp add: ece391_lookup_def lookup_def text_of_def)
  then show ?case using 1
    by (subst ece391_itoa_digits.simps, subst itoa_digits.simps) (auto split: option.splits)
qed

text \<open>The library of the programs converts numbers as the kernel does: \<open>ece391_itoa\<close> gives the same array as \<open>itoa\<close>
  for every value, array and radix, and \<open>ece391_strlen\<close> and \<open>ece391_strrev\<close> agree with \<open>strlen\<close> and \<open>strrev\<close>, also where
  they have no result.\<close>

theorem user_library_agrees:
  "ece391_itoa value buf radix = itoa value buf radix \<and> ece391_strlen v = strlen v \<and> ece391_strrev s = strrev s"
  by (simp add: ece391_itoa_def itoa_def ece391_itoa_digits_eq ece391_strrev_eq ece391_strlen_eq)

section \<open>Programs that print\<close>

text \<open>What a program relies on when it writes to its standard output: the bytes appear on the screen. The call returns
  one more than their number. Arrays of programs have at most 2048 bytes.\<close>

locale screen_writer =
  fixes os :: "'s os" and inv :: "'s \<Rightarrow> bool" and out :: "'s \<Rightarrow> tty"
  assumes write_law: "inv s \<Longrightarrow> n \<le> length b \<Longrightarrow> length b \<le> 2048 \<Longrightarrow>
    \<exists>s'. sys_write os 1 b (of_nat n) s = Some (of_nat n + 1, s') \<and> inv s' \<and> out s' = tty_write (take n b) (out s)"
begin

lemma fdputs_prints:
  assumes "inv s" "holds_string (list_view b) cs" "length b \<le> 2048"
  shows "\<exists>s'. ece391_fdputs os 1 b s = Some s' \<and> inv s' \<and> out s' = tty_write cs (out s)"
proof -
  have len: "strlen (list_view b) = Some (length cs)" by (rule strlen_string [OF assms(2)])
  have "length cs < length b" using assms(2) by (auto simp: holds_string_def list_view_def split: if_splits)
  moreover have "take (length cs) b = cs"
    using assms(2) \<open>length cs < length b\<close> by (intro nth_equalityI) (auto simp: holds_string_def list_view_def split: if_splits)
  ultimately show ?thesis using write_law [OF assms(1), of "length cs" b] len assms(3)
    by (auto simp: ece391_fdputs_def ece391_strlen_eq)
qed

lemma literal_prints:
  assumes "inv s" "0 \<notin> set (text_of l)" "length l < 1000"
  shows "\<exists>s'. ece391_fdputs os 1 (c_string l) s = Some s' \<and> inv s' \<and> out s' = tty_write (text_of l) (out s)"
proof -
  have "c_string l = text_of l @ [0]" by (simp add: c_string_def text_of_def)
  then have "holds_string (list_view (c_string l)) (text_of l)" using assms(2) holds_string_list [of "text_of l" "c_string l"] by simp
  then show ?thesis using fdputs_prints [OF assms(1)] assms(3) by (simp add: c_string_def)
qed

lemma testprint_prints:
  assumes "inv s"
  shows "\<exists>s'. testprint os s = Some (0, s') \<and> inv s' \<and>
    out s' = tty_write (text_of ''Hello, if this ran, the program was correct. Yay!\<newline>'') (out s)"
  using literal_prints [OF assms, of "''Hello, if this ran, the program was correct. Yay!\<newline>''"]
  by (auto simp: testprint_def text_of_def)

end

lemma small_not_error:
  assumes "0 < k" "k < 4294967295"
  shows "(of_nat k :: u32) \<noteq> 0" "(of_nat k :: u32) \<noteq> ERR"
proof -
  have "unat (of_nat k :: u32) = k" using assms(2) by (simp add: unat_offset)
  moreover have "unat (ERR :: u32) = 4294967295" by (simp add: unsigned_minus_1_eq_mask mask_eq_exp_minus_1)
  ultimately show "(of_nat k :: u32) \<noteq> 0" "(of_nat k :: u32) \<noteq> ERR" using assms by auto
qed

text \<open>What a program relies on when it reads a file: a read delivers the next bytes, as many as asked for and left,
  and 0 at the end. \<open>rest\<close> is what is left to read on a descriptor of a file.\<close>

locale file_reader = screen_writer +
  fixes rest :: "u32 \<Rightarrow> 's \<Rightarrow> u8 list option"
  assumes write_keeps: "inv s \<Longrightarrow> n \<le> length b \<Longrightarrow> length b \<le> 2048 \<Longrightarrow>
      sys_write os 1 b (of_nat n) s = Some (r, s') \<Longrightarrow> rest fd s' = rest fd s"
    and read_law: "inv s \<Longrightarrow> rest fd s = Some xs \<Longrightarrow> n \<le> length b \<Longrightarrow> length b \<le> 2048 \<Longrightarrow> n \<le> 1024 \<Longrightarrow>
      k = min n (length xs) \<Longrightarrow> \<exists>s'. sys_read os fd b (of_nat n) s = Some (of_nat k, take k xs @ drop k b, s') \<and> inv s' \<and> out s' = out s \<and>
        rest fd s' = Some (drop k xs)"
begin

lemma cat_loop_prints:
  assumes "inv s" "rest fd s = Some xs" "length b = 1024"
  shows "\<exists>s'. cat_loop os fd b s = Some (0, s') \<and> inv s' \<and> out s' = tty_write xs (out s)"
  using assms
proof (induction "length xs" arbitrary: xs s b rule: less_induct)
  case less
  let ?k = "min 1024 (length xs)"
  let ?b = "take ?k xs @ drop ?k b"
  obtain t where t: "sys_read os fd b 1024 s = Some (of_nat ?k, ?b, t)" "inv t" "out t = out s" "rest fd t = Some (drop ?k xs)"
    using read_law [OF less.prems(1,2), of 1024 b ?k] less.prems(3) by auto
  show ?case
  proof (cases "xs = []")
    case True
    then show ?thesis using t by (subst cat_loop.simps) (simp add: tty_write_def)
  next
    case False
    then have k: "0 < ?k" "?k \<le> 1024" by simp_all
    have c: "(of_nat ?k :: u32) \<noteq> 0" "(of_nat ?k :: u32) \<noteq> ERR" by (rule small_not_error; use k in simp)+
    have "(of_nat (?k + 1) :: u32) \<noteq> ERR" by (rule small_not_error; use k in simp)
    then have e: "(of_nat ?k + 1 :: u32) \<noteq> ERR" by (simp only: of_nat_add of_nat_1 not_False_eq_True)
    have l: "length ?b = 1024" using less.prems(3) by simp
    obtain u where u: "sys_write os 1 ?b (of_nat ?k) t = Some (of_nat ?k + 1, u)" "inv u" "out u = tty_write (take ?k xs) (out t)"
      using write_law [OF t(2), of ?k ?b] l by auto
    have "rest fd u = Some (drop ?k xs)" using write_keeps [OF t(2) _ _ u(1)] l t(4) by simp
    from less.hyps [OF _ u(2) this l] k(1) obtain s' where
      "cat_loop os fd ?b u = Some (0, s')" "inv s'" "out s' = tty_write (drop ?k xs) (out u)" by auto
    moreover have "tty_write (drop ?k xs) (tty_write (take ?k xs) y) = tty_write xs y" for y
      unfolding tty_write_def by (metis append_take_drop_id fold_append comp_apply)
    ultimately show ?thesis using t u(1,3) c e by (subst cat_loop.simps) simp
  qed
qed

end

text \<open>What a program relies on when it reads a directory: a read delivers the next name, and 0 after the last one.\<close>

locale dir_reader = screen_writer +
  fixes names :: "u32 \<Rightarrow> 's \<Rightarrow> u8 list list option"
  assumes write_names: "inv s \<Longrightarrow> n \<le> length b \<Longrightarrow> length b \<le> 2048 \<Longrightarrow>
      sys_write os 1 b (of_nat n) s = Some (r, s') \<Longrightarrow> names fd s' = names fd s"
    and dir_end: "inv s \<Longrightarrow> names fd s = Some [] \<Longrightarrow> length b = 33 \<Longrightarrow>
      \<exists>s' b'. sys_read os fd b 32 s = Some (0, b', s') \<and> inv s' \<and> out s' = out s"
    and dir_next: "inv s \<Longrightarrow> names fd s = Some (nm # nms) \<Longrightarrow> length b = 33 \<Longrightarrow>
      \<exists>s' b'. sys_read os fd b 32 s = Some (of_nat (length nm), b', s') \<and> inv s' \<and> out s' = out s \<and> length b' = 33 \<and>
        take (length nm) b' = nm \<and> names fd s' = Some nms \<and> 0 < length nm \<and> length nm \<le> 32"
begin

lemma ls_loop_prints:
  assumes "inv s" "names fd s = Some nms" "length b = 33"
  shows "\<exists>s'. ls_loop os fd b s = Some (0, s') \<and> inv s' \<and> out s' = tty_write (concat (map (\<lambda>nm. nm @ [NEWLINE]) nms)) (out s)"
  using assms
proof (induction nms arbitrary: s b)
  case Nil
  then obtain s' b' where "sys_read os fd b 32 s = Some (0, b', s')" "inv s'" "out s' = out s" using dir_end by blast
  then show ?case by (subst ls_loop.simps) (simp add: tty_write_def)
next
  case (Cons nm nms)
  then obtain t b' where t: "sys_read os fd b 32 s = Some (of_nat (length nm), b', t)" "inv t" "out t = out s" "length b' = 33"
      "take (length nm) b' = nm" "names fd t = Some nms" "0 < length nm" "length nm \<le> 32" using dir_next by blast
  let ?k = "length nm" and ?b = "b'[length nm := NEWLINE]"
  have u: "unat (of_nat ?k :: u32) = ?k" by (rule unat_offset) (use t(8) in simp)
  have c: "(of_nat ?k :: u32) \<noteq> 0" "(of_nat ?k :: u32) \<noteq> ERR" by (rule small_not_error; use t(7,8) in simp)+
  have l: "take (?k + 1) ?b = nm @ [NEWLINE]" using t(4,5,8) by (simp add: take_Suc_conv_app_nth)
  obtain v where v: "sys_write os 1 ?b (of_nat (?k + 1)) t = Some (of_nat (?k + 1) + 1, v)" "inv v" "out v = tty_write (nm @ [NEWLINE]) (out t)"
    using write_law [OF t(2), of "?k + 1" ?b] t(4,8) l by auto
  have n: "names fd v = Some nms" using write_names [OF t(2) _ _ v(1)] t(4,6,8) by simp
  have "(of_nat (?k + 1 + 1) :: u32) \<noteq> ERR" by (rule small_not_error(2)) (use t(8) in simp_all)
  then have "ls_loop os fd b s = ls_loop os fd ?b v"
    using t(1,4,8) u c v(1) by (subst ls_loop.simps) (simp add: ac_simps)
  moreover have "length ?b = 33" using t(4) by simp
  from Cons.IH [OF v(2) n this] obtain s' where "ls_loop os fd ?b v = Some (0, s')" "inv s'"
      "out s' = tty_write (concat (map (\<lambda>nm. nm @ [NEWLINE]) nms)) (out v)" by blast
  ultimately show ?case using v(3) t(3) by (simp add: tty_write_def)
qed

end

end
