(* ===== verification/User_Input.thy ===== *)
theory User_Input
  imports User_Programs
begin

text \<open>
  Programs of \<open>src/syscalls\<close> that read lines from the keyboard: \<open>hello\<close>, \<open>counter\<close> and the shell, over the interface of the
  system calls, and what they do when a read of the keyboard delivers a line.
\<close>

section \<open>ece391hello.c\<close>

definition hello :: "'s os \<Rightarrow> u8 list \<Rightarrow> 's \<Rightarrow> (u32 \<times> 's) option" where
  "hello os buf s = do {
     s \<leftarrow> ece391_fdputs os 1 (c_string ''Hi, what's your name? '') s;
     (cnt, buf, s) \<leftarrow> sys_read os 0 buf 1023 s;
     if cnt = ERR then map_option (Pair 3) (ece391_fdputs os 1 (c_string ''Can't read name from keyboard.\<newline>'') s)
     else do {
       buf \<leftarrow> store buf (unat cnt) 0;
       s \<leftarrow> ece391_fdputs os 1 (c_string ''Hello, '') s;
       s \<leftarrow> ece391_fdputs os 1 buf s;
       Some (0, s)
     }
   }"

section \<open>ece391counter.c\<close>

fun counter_loop :: "'s os \<Rightarrow> nat \<Rightarrow> u32 \<Rightarrow> u8 list \<Rightarrow> 's \<Rightarrow> (u32 \<times> 's) option" where
  "counter_loop os 0 i buf s = Some (0, s)"
| "counter_loop os (Suc n) i buf s = do {
     buf \<leftarrow> ece391_itoa (i + 1) buf 10;
     s \<leftarrow> ece391_fdputs os 1 buf s;
     s \<leftarrow> ece391_fdputs os 1 (c_string ''\<newline>'') s;
     counter_loop os n (i + 1) buf s
   }"

definition counter_max :: "u8 \<Rightarrow> nat" where
  "counter_max c = (if c = 0x30 then 100 else if c = 0x31 then 10000 else if c = 0x32 then 100000 else 0)"

definition counter :: "'s os \<Rightarrow> u8 list \<Rightarrow> 's \<Rightarrow> (u32 \<times> 's) option" where
  "counter os buf s = do {
     s \<leftarrow> ece391_fdputs os 1 (c_string ''Enter the Test Number: (0): 100, (1): 10000, (2): 100000\<newline>'') s;
     (cnt, buf, s) \<leftarrow> sys_read os 0 buf 1023 s;
     if cnt = ERR then map_option (Pair 3) (ece391_fdputs os 1 (c_string ''Can't read the number from keyboard.\<newline>'') s)
     else do {
       buf \<leftarrow> store buf (unat cnt) 0;
       n \<leftarrow> ece391_strlen (list_view buf);
       c \<leftarrow> list_view buf 0;
       if n > 1 \<or> (n = 1 \<and> (c < 0x30 \<or> c > 0x32)) then map_option (Pair 0) (ece391_fdputs os 1 (c_string ''Wrong Choice!\<newline>'') s)
       else counter_loop os (counter_max c) 0 buf s
     }
   }"

section \<open>ece391shell.c\<close>

definition shell_report :: "'s os \<Rightarrow> u32 \<Rightarrow> 's \<Rightarrow> 's option" where
  "shell_report os rval s =
     (if rval = ERR then ece391_fdputs os 1 (c_string ''no such command\<newline>'') s
      else if rval = 256 then ece391_fdputs os 1 (c_string ''program terminated by exception\<newline>'') s
      else if rval \<noteq> 0 then ece391_fdputs os 1 (c_string ''program terminated abnormally\<newline>'') s
      else Some s)"

text \<open>The line without its newline, as a string.\<close>

definition shell_line :: "u32 \<Rightarrow> u8 list \<Rightarrow> u8 list option" where
  "shell_line cnt buf = do {
     cnt \<leftarrow> (if sint cnt > 0 then do { c \<leftarrow> list_view buf (unat (cnt - 1)); Some (if c = NEWLINE then cnt - 1 else cnt) }
            else Some cnt);
     store buf (unat cnt) 0
   }"

partial_function (option) shell_loop :: "'s os \<Rightarrow> u8 list \<Rightarrow> 's \<Rightarrow> (u32 \<times> 's) option" where
  "shell_loop os buf s = do {
     s \<leftarrow> ece391_fdputs os 1 (c_string ''391OS> '') s;
     (cnt, buf, s) \<leftarrow> sys_read os 0 buf 1023 s;
     if cnt = ERR then map_option (Pair 3) (ece391_fdputs os 1 (c_string ''read from keyboard failed\<newline>'') s)
     else do {
       buf \<leftarrow> shell_line cnt buf;
       r \<leftarrow> ece391_strcmp (list_view buf) (list_view (c_string ''exit''));
       if r = 0 then Some (0, s)
       else do {
         c \<leftarrow> list_view buf 0;
         if c = 0 then shell_loop os buf s
         else do {
           (rval, s) \<leftarrow> sys_execute os buf s;
           s \<leftarrow> shell_report os rval s;
           shell_loop os buf s
         }
       }
     }
   }"

definition shell :: "'s os \<Rightarrow> u8 list \<Rightarrow> 's \<Rightarrow> (u32 \<times> 's) option" where
  "shell os buf s = do {
     s \<leftarrow> ece391_fdputs os 1 (c_string ''Starting 391 Shell\<newline>'') s;
     shell_loop os buf s
   }"

section \<open>A keyboard that delivers lines\<close>

lemma ece391_strcmp_from_strings:
  assumes "holds_string v cs" "holds_string w ds" "i \<le> length cs" "i \<le> length ds"
  shows "\<exists>r. ece391_strcmp_from v w i = Some r \<and> (r = 0 \<longleftrightarrow> drop i cs = drop i ds)"
  using assms(3,4)
proof (induction "length cs - i" arbitrary: i rule: less_induct)
  case less
  have v: "v i = Some (if i < length cs then cs ! i else 0)" "w i = Some (if i < length ds then ds ! i else 0)"
    using assms(1,2) less.prems by (auto simp: holds_string_def le_less)
  have z: "i < length cs \<Longrightarrow> cs ! i \<noteq> 0" "i < length ds \<Longrightarrow> ds ! i \<noteq> 0"
    using assms(1,2) by (metis holds_string_def nth_mem)+
  show ?case
  proof (cases "i < length cs \<and> i < length ds \<and> cs ! i = ds ! i")
    case True
    then obtain r where "ece391_strcmp_from v w (i + 1) = Some r" "r = 0 \<longleftrightarrow> drop (Suc i) cs = drop (Suc i) ds"
      using less.hyps [of "i + 1"] diff_less_mono2 [of i "Suc i" "length cs"] by auto
    then show ?thesis using True v z by (subst ece391_strcmp_from.simps) (simp add: Cons_nth_drop_Suc [symmetric])
  next
    case False
    have "uint x - uint y = 0 \<longleftrightarrow> x = y" for x y :: u8 by (metis diff_self eq_iff_diff_eq_0 unsigned_word_eqI)
    then show ?thesis using False v z less.prems
      by (subst ece391_strcmp_from.simps) (auto simp: Cons_nth_drop_Suc [symmetric] not_less)
  qed
qed

lemma ece391_strcmp_strings: "holds_string v cs \<Longrightarrow> holds_string w ds \<Longrightarrow> \<exists>r. ece391_strcmp v w = Some r \<and> (r = 0 \<longleftrightarrow> cs = ds)"
  using ece391_strcmp_from_strings [of v cs w ds 0] by (simp add: ece391_strcmp_def)

lemma tty_write_append: "tty_write (cs @ ds) t = tty_write ds (tty_write cs t)"
  by (simp add: tty_write_def)

lemma literal_string: "0 \<notin> set (text_of l) \<Longrightarrow> holds_string (list_view (c_string l)) (text_of l)"
  using holds_string_list [of "text_of l" "c_string l"] by (simp add: c_string_def text_of_def)

lemma terminated_string:
  assumes "take n b = cs" "n < length b" "0 \<notin> set cs"
  shows "holds_string (list_view (b[n := 0])) cs"
proof -
  have "length cs = n" using assms(1,2) by auto
  moreover have "b ! i = cs ! i" if "i < n" for i using that assms(1) by auto
  ultimately show ?thesis using assms(2,3) by (simp add: holds_string_def)
qed

text \<open>What a program relies on when it reads the keyboard: the read waits for the next line typed, which is echoed, and delivers
  it with its newline. \<open>typed\<close> are the lines still to come.\<close>

locale line_reader = screen_writer +
  fixes typed :: "'s \<Rightarrow> u8 list list"
  assumes write_typed: "inv s \<Longrightarrow> n \<le> length b \<Longrightarrow> length b \<le> 2048 \<Longrightarrow> sys_write os 1 b (of_nat n) s = Some (r, s') \<Longrightarrow> typed s' = typed s"
    and typed_text: "inv s \<Longrightarrow> cs \<in> set (typed s) \<Longrightarrow> length cs < 127 \<and> 0 \<notin> set cs \<and> NEWLINE \<notin> set cs"
    and read_line: "inv s \<Longrightarrow> typed s = cs # lns \<Longrightarrow> length cs + 3 \<le> length b \<Longrightarrow> length b \<le> 2048 \<Longrightarrow> length cs < n \<Longrightarrow> n < 2048 \<Longrightarrow>
      \<exists>s' b'. sys_read os 0 b (of_nat n) s = Some (of_nat (length cs + 1), b', s') \<and> inv s' \<and> out s' = tty_write (cs @ [NEWLINE]) (out s) \<and>
        typed s' = lns \<and> length b' = length b \<and> take (length cs + 1) b' = cs @ [NEWLINE]"
begin

text \<open>Output as a step: the text appears and the lines to come are the same.\<close>

definition said :: "u8 list \<Rightarrow> 's \<Rightarrow> 's \<Rightarrow> bool" where
  "said cs s t \<longleftrightarrow> inv t \<and> out t = tty_write cs (out s) \<and> typed t = typed s"

lemma said_trans: "said cs s t \<Longrightarrow> said ds t u \<Longrightarrow> said (cs @ ds) s u"
  by (simp add: said_def tty_write_append)

lemma fdputs_said:
  assumes "inv s" "holds_string (list_view b) cs" "length b \<le> 2048"
  shows "\<exists>t. ece391_fdputs os 1 b s = Some t \<and> said cs s t"
proof -
  obtain t where t: "ece391_fdputs os 1 b s = Some t" "inv t" "out t = tty_write cs (out s)" using fdputs_prints [OF assms] by blast
  have "strlen (list_view b) = Some (length cs)" by (rule strlen_string [OF assms(2)])
  moreover have "length cs < length b" using assms(2) by (auto simp: holds_string_def list_view_def split: if_splits)
  ultimately have "typed t = typed s"
    using t(1) write_typed [OF assms(1), of "length cs" b] assms(3) by (auto simp: ece391_fdputs_def ece391_strlen_eq split: bind_splits)
  then show ?thesis using t by (simp add: said_def)
qed

lemma literal_said:
  assumes "inv s" "0 \<notin> set (text_of l)" "length l < 1000"
  shows "\<exists>t. ece391_fdputs os 1 (c_string l) s = Some t \<and> said (text_of l) s t"
  using assms by (intro fdputs_said literal_string) (simp_all add: c_string_def)

lemma read_terminated:
  assumes "inv s" "typed s = cs # lns" "length b = 1024"
  shows "\<exists>s' b'. sys_read os 0 b 1023 s = Some (of_nat (length cs + 1), b', s') \<and> inv s' \<and> out s' = tty_write (cs @ [NEWLINE]) (out s) \<and>
    typed s' = lns \<and> length b' = 1024 \<and> take (length cs + 1) b' = cs @ [NEWLINE] \<and> length cs < 127 \<and> 0 \<notin> set cs \<and> NEWLINE \<notin> set cs"
proof -
  have c: "length cs < 127" "0 \<notin> set cs" "NEWLINE \<notin> set cs" using typed_text [OF assms(1), of cs] assms(2) by auto
  then show ?thesis using read_line [OF assms(1,2), of b 1023] assms(3) by auto
qed

text \<open>The greeting repeats the name that was typed.\<close>

lemma hello_greets:
  assumes "inv s" "typed s = cs # lns" "length b = 1024"
  shows "\<exists>t. hello os b s = Some (0, t) \<and> inv t \<and> typed t = lns \<and>
    out t = tty_write (text_of ''Hi, what's your name? '' @ cs @ [NEWLINE] @ text_of ''Hello, '' @ cs @ [NEWLINE]) (out s)"
proof -
  obtain u where u: "ece391_fdputs os 1 (c_string ''Hi, what's your name? '') s = Some u" "said (text_of ''Hi, what's your name? '') s u"
    using literal_said [OF assms(1), of "''Hi, what's your name? ''"] by (auto simp: text_of_def)
  have iu: "inv u" "typed u = cs # lns" using u(2) assms(2) by (simp_all add: said_def)
  obtain v b' where v: "sys_read os 0 b 1023 u = Some (of_nat (length cs + 1), b', v)" "inv v" "out v = tty_write (cs @ [NEWLINE]) (out u)"
      "typed v = lns" "length b' = 1024" "take (length cs + 1) b' = cs @ [NEWLINE]" "length cs < 127" "0 \<notin> set cs"
    using read_terminated [OF iu assms(3)] by blast
  have n: "unat (of_nat (length cs + 1) :: u32) = length cs + 1" "(of_nat (length cs + 1) :: u32) \<noteq> ERR"
    using v(7) unat_offset [of "length cs + 1"] small_not_error(2) [of "length cs + 1"] by simp_all
  let ?b = "b'[length cs + 1 := 0]"
  have h: "holds_string (list_view ?b) (cs @ [NEWLINE])"
    by (rule terminated_string) (use v(5-8) in simp_all)
  obtain w where w: "ece391_fdputs os 1 (c_string ''Hello, '') v = Some w" "said (text_of ''Hello, '') v w"
    using literal_said [OF v(2), of "''Hello, ''"] by (auto simp: text_of_def)
  then have "inv w" by (simp add: said_def)
  from fdputs_said [OF this h] obtain t where t: "ece391_fdputs os 1 ?b w = Some t" "said (cs @ [NEWLINE]) w t" using v(5) by auto
  have "hello os b s = Some (0, t)"
    using u(1) v(1,5,7) n w(1) t(1) by (simp add: hello_def)
  then show ?thesis using u(2) v(3,4) w(2) t(2) by (simp add: said_def tty_write_def)
qed

text \<open>Since a line comes with its newline, the choice of the counter is never a single character.\<close>

lemma counter_refuses:
  assumes "inv s" "typed s = cs # lns" "length b = 1024"
  shows "\<exists>t. counter os b s = Some (0, t) \<and> inv t \<and> typed t = lns \<and>
    out t = tty_write (text_of ''Enter the Test Number: (0): 100, (1): 10000, (2): 100000\<newline>'' @ cs @ [NEWLINE] @ text_of ''Wrong Choice!\<newline>'') (out s)"
proof -
  let ?q = "''Enter the Test Number: (0): 100, (1): 10000, (2): 100000\<newline>''"
  obtain u where u: "ece391_fdputs os 1 (c_string ?q) s = Some u" "said (text_of ?q) s u"
    using literal_said [OF assms(1), of ?q] by (auto simp: text_of_def)
  have iu: "inv u" "typed u = cs # lns" using u(2) assms(2) by (simp_all add: said_def)
  obtain v b' where v: "sys_read os 0 b 1023 u = Some (of_nat (length cs + 1), b', v)" "inv v" "out v = tty_write (cs @ [NEWLINE]) (out u)"
      "typed v = lns" "length b' = 1024" "take (length cs + 1) b' = cs @ [NEWLINE]" "length cs < 127" "0 \<notin> set cs"
    using read_terminated [OF iu assms(3)] by blast
  have n: "unat (of_nat (length cs + 1) :: u32) = length cs + 1" "(of_nat (length cs + 1) :: u32) \<noteq> ERR"
    using v(7) unat_offset [of "length cs + 1"] small_not_error(2) [of "length cs + 1"] by simp_all
  let ?b = "b'[length cs + 1 := 0]"
  have h: "holds_string (list_view ?b) (cs @ [NEWLINE])"
    by (rule terminated_string) (use v(5-8) in simp_all)
  then have l: "strlen (list_view ?b) = Some (length cs + 1)" using strlen_string by fastforce
  have c: "list_view ?b 0 = Some ((cs @ [NEWLINE]) ! 0)" using h by (simp add: holds_string_def)
  have "cs = [] \<Longrightarrow> (cs @ [NEWLINE]) ! 0 < 0x30" by simp
  moreover obtain t where t: "ece391_fdputs os 1 (c_string ''Wrong Choice!\<newline>'') v = Some t" "said (text_of ''Wrong Choice!\<newline>'') v t"
    using literal_said [OF v(2), of "''Wrong Choice!\<newline>''"] by (auto simp: text_of_def)
  ultimately have "counter os b s = Some (0, t)"
    using u(1) v(1,5,7) n l c by (cases cs) (simp_all add: counter_def ece391_strlen_eq)
  then show ?thesis using u(2) v(3,4) t(2) by (simp add: said_def tty_write_def)
qed

lemma shell_line_strips:
  assumes "length b = 1024" "take (length cs + 1) b = cs @ [NEWLINE]" "length cs < 127" "0 \<notin> set cs"
  shows "\<exists>b'. shell_line (of_nat (length cs + 1)) b = Some b' \<and> holds_string (list_view b') cs \<and> length b' = 1024"
proof -
  let ?n = "of_nat (length cs + 1) :: u32"
  have n: "unat ?n = length cs + 1" by (rule unat_offset) (use assms(3) in simp)
  then have s: "sint ?n = int (length cs + 1)" using assms(3) by (simp add: sint_uint uint_nat signed_take_bit_int_eq_self del: of_nat_add)
  have m: "?n - 1 = of_nat (length cs)" "unat (of_nat (length cs) :: u32) = length cs" using assms(3) by (auto intro: unat_offset)
  have "b ! length cs = (take (length cs + 1) b) ! length cs" by simp
  then have c: "b ! length cs = NEWLINE" unfolding assms(2) by simp
  have "take (length cs) b = take (length cs) (take (length cs + 1) b)" by simp
  then have t: "take (length cs) b = cs" unfolding assms(2) by simp
  have "shell_line ?n b = Some (b[length cs := 0])"
    unfolding shell_line_def s m(1) using assms(1,3) c m(2) by simp
  then show ?thesis using terminated_string [OF t] assms(1,3,4) by simp
qed

end

text \<open>What the shell shows for a line: prompt, echo, the output of the command and the report on its result.\<close>

definition status_text :: "u32 \<Rightarrow> u8 list" where
  "status_text r = (if r = ERR then text_of ''no such command\<newline>'' else if r = 256 then text_of ''program terminated by exception\<newline>''
     else if r \<noteq> 0 then text_of ''program terminated abnormally\<newline>'' else [])"

definition dialogue :: "(u8 list \<Rightarrow> (u8 list \<times> u32) option) \<Rightarrow> u8 list \<Rightarrow> u8 list" where
  "dialogue answer l = text_of ''391OS> '' @ l @ [NEWLINE] @
     (if l = [] then [] else case answer l of Some (shown, r) \<Rightarrow> shown @ status_text r | None \<Rightarrow> [])"

text \<open>The text a command prints and the value it returns to the shell, where that does not depend on what was run before.\<close>

locale command_line = line_reader +
  fixes answer :: "u8 list \<Rightarrow> (u8 list \<times> u32) option"
  assumes execute_law: "inv s \<Longrightarrow> holds_string (list_view b) cs \<Longrightarrow> length b = 1024 \<Longrightarrow> answer cs = Some (shown, r) \<Longrightarrow>
    \<exists>s'. sys_execute os b s = Some (r, s') \<and> inv s' \<and> out s' = tty_write shown (out s) \<and> typed s' = typed s"
begin

lemma shell_report_said: "inv s \<Longrightarrow> \<exists>t. shell_report os r s = Some t \<and> said (status_text r) s t"
  using literal_said [of s "''no such command\<newline>''"] literal_said [of s "''program terminated by exception\<newline>''"]
    literal_said [of s "''program terminated abnormally\<newline>''"]
  by (auto simp: shell_report_def status_text_def text_of_def said_def tty_write_def)

lemma strcmp_exit:
  assumes "holds_string (list_view b) cs" "0 \<notin> set cs"
  shows "\<exists>r. ece391_strcmp (list_view b) (list_view (c_string ''exit'')) = Some r \<and> (r = 0 \<longleftrightarrow> cs = text_of ''exit'')"
proof -
  have "holds_string (list_view (c_string ''exit'')) (text_of ''exit'')" by (rule literal_string) (simp add: text_of_def)
  from ece391_strcmp_strings [OF assms(1) this] show ?thesis .
qed

text \<open>One line up to the execution of its command.\<close>

lemma shell_session:
  assumes "inv s" "typed s = cmds @ [text_of ''exit'']" "length b = 1024"
    and "\<forall>l \<in> set cmds. l = [] \<or> (l \<noteq> text_of ''exit'' \<and> answer l \<noteq> None)"
  shows "\<exists>t. shell_loop os b s = Some (0, t) \<and> inv t \<and> typed t = [] \<and>
    out t = tty_write (concat (map (dialogue answer) cmds) @ text_of ''391OS> exit\<newline>'') (out s)"
  using assms
proof (induction cmds arbitrary: s b)
  case Nil
  let ?x = "text_of ''exit''"
  obtain u where u: "ece391_fdputs os 1 (c_string ''391OS> '') s = Some u" "said (text_of ''391OS> '') s u"
    using literal_said [OF Nil.prems(1), of "''391OS> ''"] by (auto simp: text_of_def)
  have iu: "inv u" "typed u = ?x # []" using u(2) Nil.prems(2) by (simp_all add: said_def)
  obtain v b' where v: "sys_read os 0 b 1023 u = Some (of_nat (length ?x + 1), b', v)" "inv v" "out v = tty_write (?x @ [NEWLINE]) (out u)"
      "typed v = []" "length b' = 1024" "take (length ?x + 1) b' = ?x @ [NEWLINE]" "length ?x < 127" "0 \<notin> set ?x"
    using read_terminated [OF iu Nil.prems(3)] by blast
  obtain b'' where b: "shell_line (of_nat (length ?x + 1)) b' = Some b''" "holds_string (list_view b'') ?x"
    using shell_line_strips [OF v(5-8)] by blast
  obtain r where r: "ece391_strcmp (list_view b'') (list_view (c_string ''exit'')) = Some r" "r = 0"
    using strcmp_exit [OF b(2) v(8)] by auto
  have n: "(of_nat (length ?x + 1) :: u32) \<noteq> ERR" by (rule small_not_error) (use v(7) in simp_all)
  have "shell_loop os b s = Some (0, v)"
    using u(1) v(1) b(1) r n by (subst shell_loop.simps) simp
  moreover have "text_of ''391OS> exit\<newline>'' = text_of ''391OS> '' @ ?x @ [NEWLINE]" by (simp add: text_of_def)
  ultimately show ?case using u(2) v(2-4) by (simp add: said_def tty_write_append)
next
  case (Cons l cmds)
  obtain u where u: "ece391_fdputs os 1 (c_string ''391OS> '') s = Some u" "said (text_of ''391OS> '') s u"
    using literal_said [OF Cons.prems(1), of "''391OS> ''"] by (auto simp: text_of_def)
  have iu: "inv u" "typed u = l # (cmds @ [text_of ''exit''])" using u(2) Cons.prems(2) by (simp_all add: said_def)
  obtain v b' where v: "sys_read os 0 b 1023 u = Some (of_nat (length l + 1), b', v)" "inv v" "out v = tty_write (l @ [NEWLINE]) (out u)"
      "typed v = cmds @ [text_of ''exit'']" "length b' = 1024" "take (length l + 1) b' = l @ [NEWLINE]" "length l < 127" "0 \<notin> set l"
    using read_terminated [OF iu Cons.prems(3)] by blast
  obtain b'' where b: "shell_line (of_nat (length l + 1)) b' = Some b''" "holds_string (list_view b'') l" "length b'' = 1024"
    using shell_line_strips [OF v(5-8)] by blast
  have "l \<noteq> text_of ''exit''" using Cons.prems(4) by (auto simp: text_of_def)
  then obtain r where r: "ece391_strcmp (list_view b'') (list_view (c_string ''exit'')) = Some r" "r \<noteq> 0"
    using strcmp_exit [OF b(2) v(8)] by auto
  have n: "(of_nat (length l + 1) :: u32) \<noteq> ERR" by (rule small_not_error) (use v(7) in simp_all)
  show ?case
  proof (cases "l = []")
    case True
    then have "list_view b'' 0 = Some 0" using b(2) by (simp add: holds_string_def)
    then have "shell_loop os b s = shell_loop os b'' v" using u(1) v(1) b(1) r n by (subst shell_loop.simps) simp
    with Cons.IH [OF v(2,4) b(3)] Cons.prems(4) True u(2) v(3) show ?thesis
      by (auto simp: dialogue_def [of answer "[]"] said_def tty_write_def)
  next
    case False
    then obtain shown rv where a: "answer l = Some (shown, rv)" using Cons.prems(4) by auto
    have "list_view b'' 0 = Some (l ! 0)" "l ! 0 \<in> set l" using b(2) False by (simp_all add: holds_string_def)
    moreover from this(2) have "l ! 0 \<noteq> 0" using v(8) by metis
    moreover obtain w where w: "sys_execute os b'' v = Some (rv, w)" "inv w" "out w = tty_write shown (out v)" "typed w = typed v"
      using execute_law [OF v(2) b(2,3) a] by blast
    moreover obtain x where x: "shell_report os rv w = Some x" "said (status_text rv) w x" using shell_report_said [OF w(2)] by blast
    ultimately have "shell_loop os b s = shell_loop os b'' x" using u(1) v(1) b(1) r n by (subst shell_loop.simps) simp
    moreover have "inv x" "typed x = cmds @ [text_of ''exit'']" using x(2) w(4) v(4) by (simp_all add: said_def)
    from Cons.IH [OF this b(3)] Cons.prems(4) obtain t where "shell_loop os b'' x = Some (0, t)" "inv t" "typed t = []"
        "out t = tty_write (concat (map (dialogue answer) cmds) @ text_of ''391OS> exit\<newline>'') (out x)" by auto
    ultimately show ?thesis using u(2) v(3) w(3) x(2) a False by (auto simp: dialogue_def [of answer l] said_def tty_write_def)
  qed
qed

lemma shell_dialogue:
  assumes "inv s" "typed s = cmds @ [text_of ''exit'']" "length b = 1024"
    and "\<forall>l \<in> set cmds. l = [] \<or> (l \<noteq> text_of ''exit'' \<and> answer l \<noteq> None)"
  shows "\<exists>t. shell os b s = Some (0, t) \<and> inv t \<and> typed t = [] \<and>
    out t = tty_write (text_of ''Starting 391 Shell\<newline>'' @ concat (map (dialogue answer) cmds) @ text_of ''391OS> exit\<newline>'') (out s)"
proof -
  obtain u where u: "ece391_fdputs os 1 (c_string ''Starting 391 Shell\<newline>'') s = Some u" "said (text_of ''Starting 391 Shell\<newline>'') s u"
    using literal_said [OF assms(1), of "''Starting 391 Shell\<newline>''"] by (auto simp: text_of_def)
  then have "inv u" "typed u = cmds @ [text_of ''exit'']" using assms(2) by (simp_all add: said_def)
  from shell_session [OF this assms(3,4)] show ?thesis using u by (auto simp: shell_def said_def tty_write_append)
qed

end

end
