(* ===== verification/User_Kernel.thy ===== *)
theory User_Kernel
  imports User_Input Keyboard
begin

text \<open>
  The calls of the kernel as the system calls of a program. An array of the program is in its page, at the address
  \<open>area\<close>: a call finds it there and the program finds it there afterwards. The interrupts that arrive during a
  call are a parameter. A program can work when its page is mapped and the disk is in order (\<open>program_ready\<close>); every call
  of this theory keeps it so (\<open>keeps\<close>), and the laws of the single calls say what they print and return.
\<close>

section \<open>The interface of the kernel\<close>

definition vread :: "u32 \<Rightarrow> nat \<Rightarrow> 'a vm_scheme \<Rightarrow> u8 list option" where
  "vread va n s = those (map (\<lambda>i. vload s (va + of_nat i)) [0..<n])"

definition kernel_call ::
    "('a kernel_scheme \<Rightarrow> 'a kernel_scheme) list \<Rightarrow> u32 \<Rightarrow> u32 \<Rightarrow> u32 \<Rightarrow> u32 \<Rightarrow> u32 \<Rightarrow> u8 list \<Rightarrow> 'a kernel_scheme \<Rightarrow>
       (u32 \<times> u8 list \<times> 'a kernel_scheme) option" where
  "kernel_call hs area eax ebx ecx edx b s = do {
     s \<leftarrow> vwrite area b s;
     (t, s) \<leftarrow> syscall hs 0 0 eax ebx ecx edx s;
     case t of
       Return r \<Rightarrow> do { b \<leftarrow> vread area (length b) s; Some (r, b, s) }
     | _ \<Rightarrow> None
   }"

text \<open>A call that does not use an array of the program.\<close>

definition plain_call ::
    "('a kernel_scheme \<Rightarrow> 'a kernel_scheme) list \<Rightarrow> u32 \<Rightarrow> u32 \<Rightarrow> 'a kernel_scheme \<Rightarrow> (u32 \<times> 'a kernel_scheme) option" where
  "plain_call hs eax ebx s = do {
     (t, s) \<leftarrow> syscall hs 0 0 eax ebx 0 0 s;
     case t of Return r \<Rightarrow> Some (r, s) | _ \<Rightarrow> None
   }"

definition kernel_os :: "('a kernel_scheme \<Rightarrow> 'a kernel_scheme) list \<Rightarrow> u32 \<Rightarrow> 'a kernel_scheme os" where
  "kernel_os hs area = \<lparr>
     sys_read = \<lambda>fd b n s. kernel_call hs area 3 fd area n b s,
     sys_write = \<lambda>fd b n s. map_option (\<lambda>(r, _, s). (r, s)) (kernel_call hs area 4 fd area n b s),
     sys_open = \<lambda>b s. map_option (\<lambda>(r, _, s). (r, s)) (kernel_call hs area 5 area 0 0 b s),
     sys_getargs = \<lambda>b n s. kernel_call hs area 7 area n 0 b s,
     sys_close = \<lambda>fd s. plain_call hs 6 fd s,
     sys_execute = \<lambda>b s. map_option (\<lambda>(r, _, s). (r, s)) (kernel_call hs area 2 area 0 0 b s),
     sys_vidmap = \<lambda>a s. plain_call hs 8 a s,
     sys_number = \<lambda>n s. plain_call hs n 0 s\<rparr>"

section \<open>A program that can work\<close>

text \<open>The area of 2048 bytes is mapped, off the screen, outside the kernel's frame and outside the file system image, which is off the screen too;
  the table of open files is consistent.\<close>

definition program_ready :: "u32 \<Rightarrow> u32 \<Rightarrow> 'a kernel_scheme \<Rightarrow> bool" where
  "program_ready area pa s \<longleftrightarrow> con_inv s \<and> area \<noteq> 0 \<and> maps_range (mmu s) area pa 2048 \<and> off_screen pa 2048 \<and> off_kernel pa 2048 \<and>
     (\<exists>p. curr_pcb s = Some p \<and> files_ok p) \<and> image_layout (ram s) (fs s) \<and> dir_ok (ram s) (fs s) \<and>
     (\<forall>j<2048. pa + of_nat j \<notin> disk_image (ram s) (fs s)) \<and>
     (\<forall>j<2000. vaddr j \<notin> disk_image (ram s) (fs s) \<and> vaddr j + 1 \<notin> disk_image (ram s) (fs s))"

definition file_ok :: "memory \<Rightarrow> fsys \<Rightarrow> u32 \<Rightarrow> bool" where
  "file_ok m f ino \<longleftrightarrow> ino < num_inodes m f \<and> unat (inode_length m f ino) + 1024 < 1023 * 4096 \<and>
     blocks_valid m f ino 0 (unat (inode_length m f ino) + 1024)"

text \<open>What is left of the file an entry of the table stands for.\<close>

definition node_rest :: "memory \<Rightarrow> fsys \<Rightarrow> u8 list \<Rightarrow> nat \<Rightarrow> u8 list option" where
  "node_rest m f cs off =
     (case lookup_name m f cs of
        None \<Rightarrow> None
      | Some i \<Rightarrow> let ino = read32 m (dentry_addr f i + 36)
                 in if file_ok m f ino \<and> off \<le> unat (inode_length m f ino) then Some (drop off (program_bytes m f ino)) else None)"

definition fd_name :: "pcb \<Rightarrow> nat \<Rightarrow> u8 list" where
  "fd_name p fd = takeWhile (\<lambda>c. c \<noteq> 0) (drop (32 * fd) (file_names p))"

definition file_rest :: "u32 \<Rightarrow> 'a kernel_scheme \<Rightarrow> u8 list option" where
  "file_rest fd s =
     (case curr_pcb s of
        None \<Rightarrow> None
      | Some p \<Rightarrow>
          if unat fd < 8 \<and> fop (file_array p ! unat fd) = Some File_ops \<and> 0 \<in> set (drop (32 * unat fd) (file_names p))
          then node_rest (ram s) (fs s) (fd_name p (unat fd)) (unat (file_pos (file_array p ! unat fd))) else None)"

section \<open>The disk under the calls\<close>

definition same_disk :: "fsys \<Rightarrow> fsys \<Rightarrow> bool" where
  "same_disk f g \<longleftrightarrow> (\<exists>k d. g = f\<lparr>file_pos_keeper := k, fs_dir_read_flag := d\<rparr>)"

lemma same_disk_intros [simp]: "same_disk f f" "same_disk f (f\<lparr>file_pos_keeper := k\<rparr>)" "same_disk f (f\<lparr>fs_dir_read_flag := d\<rparr>)"
  "same_disk f (f\<lparr>file_pos_keeper := k, fs_dir_read_flag := d\<rparr>)" "same_disk f (f\<lparr>fs_dir_read_flag := d, file_pos_keeper := k\<rparr>)"
proof -
  have "f = f\<lparr>file_pos_keeper := file_pos_keeper f, fs_dir_read_flag := fs_dir_read_flag f\<rparr>"
    "f\<lparr>file_pos_keeper := k\<rparr> = f\<lparr>file_pos_keeper := k, fs_dir_read_flag := fs_dir_read_flag f\<rparr>"
    "f\<lparr>fs_dir_read_flag := d\<rparr> = f\<lparr>file_pos_keeper := file_pos_keeper f, fs_dir_read_flag := d\<rparr>"
    "f\<lparr>fs_dir_read_flag := d, file_pos_keeper := k\<rparr> = f\<lparr>file_pos_keeper := k, fs_dir_read_flag := d\<rparr>" by simp_all
  then show "same_disk f f" "same_disk f (f\<lparr>file_pos_keeper := k\<rparr>)" "same_disk f (f\<lparr>fs_dir_read_flag := d\<rparr>)"
    "same_disk f (f\<lparr>file_pos_keeper := k, fs_dir_read_flag := d\<rparr>)" "same_disk f (f\<lparr>fs_dir_read_flag := d, file_pos_keeper := k\<rparr>)"
    unfolding same_disk_def by metis+
qed

lemma same_disk_trans: "same_disk f g \<Longrightarrow> same_disk g h \<Longrightarrow> same_disk f h"
  unfolding same_disk_def by (elim exE, hypsubst) (simp, blast)

lemma same_disk_view:
  assumes "same_disk f g"
  shows "dentry_addr g = dentry_addr f" "num_inodes m g = num_inodes m f" "num_data_blocks m g = num_data_blocks m f"
    "data_block m g = data_block m f" "inode_length m g = inode_length m f" "fs_bootblk g = fs_bootblk f"
  using assms by (auto simp: same_disk_def dentry_addr_def num_inodes_def num_data_blocks_def data_block_def inode_length_def inode_ptr_def fun_eq_iff)

lemma same_disk_names:
  assumes "same_disk f g"
  shows "disk_image m g = disk_image m f" "image_layout m g = image_layout m f" "dir_ok m g = dir_ok m f" "disk_name m g = disk_name m f"
    "lookup_name m g = lookup_name m f" "file_ok m g = file_ok m f" "program_bytes m g = program_bytes m f" "dir_count m g = dir_count m f"
    "node_rest m g = node_rest m f" "same_image g = same_image f" "name_field m g = name_field m f"
proof -
  note v = same_disk_view [OF assms]
  show d: "disk_image m g = disk_image m f" for m by (simp add: disk_image_def v)
  then show "same_image g = same_image f" by (simp add: same_image_def fun_eq_iff)
  show "image_layout m g = image_layout m f" using assms by (auto simp: same_disk_def image_layout_def num_inodes_def)
  show n: "disk_name m g = disk_name m f" by (simp add: disk_name_def fun_eq_iff v)
  then show l: "lookup_name m g = lookup_name m f" by (simp add: lookup_name_def fun_eq_iff)
  show "dir_ok m g = dir_ok m f" "dir_count m g = dir_count m f" by (simp_all add: dir_ok_def dir_count_def v)
  show fo: "file_ok m g = file_ok m f" by (simp add: file_ok_def blocks_valid_def fun_eq_iff v)
  have "file_byte m g = file_byte m f" using assms by (auto simp: file_byte_def fun_eq_iff v same_disk_def data_block_def inode_ptr_def)
  then show b: "program_bytes m g = program_bytes m f" by (simp add: program_bytes_def fun_eq_iff v)
  show "node_rest m g = node_rest m f" by (intro ext) (simp only: node_rest_def l v fo b)
  show "name_field m g = name_field m f" by (simp add: name_field_def fun_eq_iff n)
qed

lemma same_image_file:
  assumes "image_layout m f" "same_image f m m'"
  shows "file_ok m' f ino = file_ok m f ino" "file_ok m f ino \<Longrightarrow> program_bytes m' f ino = program_bytes m f ino"
    "file_ok m f ino \<Longrightarrow> inode_length m' f ino = inode_length m f ino"
proof -
  show ok: "file_ok m' f ino = file_ok m f ino"
  proof (cases "ino < num_inodes m f")
    case True
    have len: "inode_length m' f ino = inode_length m f ino" by (rule same_image_inode [OF assms True])
    show ?thesis
    proof (cases "unat (inode_length m f ino) + 1024 < 1023 * 4096")
      case b: True
      then have "(0 + (unat (inode_length m f ino) + 1024)) div 4096 < 1023" by simp
      from same_image_blocks [OF assms True this] show ?thesis using True len same_image_counts [OF assms(2)] by (simp add: file_ok_def)
    qed (simp add: file_ok_def len)
  qed (simp add: file_ok_def same_image_counts [OF assms(2)])
  assume f: "file_ok m f ino"
  then have i: "ino < num_inodes m f" by (simp add: file_ok_def)
  show len: "inode_length m' f ino = inode_length m f ino" by (rule same_image_inode [OF assms i])
  have "file_byte m' f ino k = file_byte m f ino k" if "k < unat (inode_length m f ino)" for k
  proof (rule same_image_byte [OF assms i])
    have "k < 1023 * 4096" using f that by (simp add: file_ok_def)
    then show "k div 4096 < 1023" by (simp add: div_less_iff_less_mult)
    have "k div 4096 \<le> (unat (inode_length m f ino) + 1024) div 4096" using that by (intro div_le_mono) simp
    then show "data_block m f ino (of_nat (k div 4096)) < num_data_blocks m f" using f by (simp add: file_ok_def blocks_valid_def)
  qed
  then show "program_bytes m' f ino = program_bytes m f ino" using len by (simp add: program_bytes_def)
qed

lemma lookup_name_below: "lookup_name m f cs = Some i \<Longrightarrow> i < 63"
  by (auto simp: lookup_name_def find_Some_iff split: if_splits)

lemma same_image_rest:
  assumes "image_layout m f" "same_image f m m'"
  shows "node_rest m' f cs off = node_rest m f cs off"
proof (cases "lookup_name m f cs")
  case None
  then show ?thesis using same_image_dir(3) [OF assms] by (simp add: node_rest_def)
next
  case (Some i)
  then have "read32 m' (dentry_addr f i + 36) = read32 m (dentry_addr f i + 36)" using same_image_dir(4) [OF assms] lookup_name_below by blast
  then show ?thesis using Some same_image_dir(3) [OF assms] same_image_file [OF assms, of "read32 m (dentry_addr f i + 36)"]
    by (auto simp: node_rest_def Let_def)
qed

lemma same_image_type:
  assumes "image_layout m f" "same_image f m m'" "i < 63"
  shows "read32 m' (dentry_addr f i + 32) = read32 m (dentry_addr f i + 32)"
  using same_image_entry [OF assms, of 32] same_image_entry [OF assms, of 33] same_image_entry [OF assms, of 34] same_image_entry [OF assms, of 35]
  by (simp add: read32_def add.assoc)

section \<open>What a call leaves alone\<close>

lemma vread_range: "maps_range (mmu s) va pa n \<Longrightarrow> vread va n s = Some (bytes_at (ram s) pa n)"
proof -
  assume "maps_range (mmu s) va pa n"
  then have "map (\<lambda>i. vload s (va + of_nat i)) [0..<n] = map Some (bytes_at (ram s) pa n)"
    by (simp add: maps_range_def vload_def bytes_at_def)
  moreover have "those (map Some xs) = Some xs" for xs :: "u8 list" by (induction xs) simp_all
  ultimately show ?thesis by (simp add: vread_def)
qed

lemma maps_range_le: "maps_range p va pa n \<Longrightarrow> k \<le> n \<Longrightarrow> maps_range p va pa k"
  by (simp add: maps_range_def)

lemma more_tasks:
  fixes s t :: "'a kernel_scheme"
  assumes "con.more t = con.more s"
  shows "fs t = fs s" "kernel.more t = kernel.more s" "ter_read_buffer t = ter_read_buffer s" "ter_read_buf_size t = ter_read_buf_size s"
    "ter_read_indicator t = ter_read_indicator s" "cross_enter_flag t = cross_enter_flag s" "mmu t = mmu s"
    "curr_task_pos t = curr_task_pos s" "runn_task_num t = runn_task_num s" "task_bitmap t = task_bitmap s" "pcbs t = pcbs s"
proof -
  let ?t = "s\<lparr>hw := hw t, ram := ram t, screen_x := screen_x t, screen_y := screen_y t, enter_tracker := enter_tracker t,
      keyboard_buffer := keyboard_buffer t, kb_buffer_position := kb_buffer_position t, enter_flag := enter_flag t,
      first_scroll_indicator := first_scroll_indicator t\<rparr>"
  have t: "t = ?t" using assms by (intro con.equality) simp_all
  have "fs ?t = fs s" "kernel.more ?t = kernel.more s" "ter_read_buffer ?t = ter_read_buffer s" "ter_read_buf_size ?t = ter_read_buf_size s"
    "ter_read_indicator ?t = ter_read_indicator s" "cross_enter_flag ?t = cross_enter_flag s" "mmu ?t = mmu s"
    "curr_task_pos ?t = curr_task_pos s" "runn_task_num ?t = runn_task_num s" "task_bitmap ?t = task_bitmap s" "pcbs ?t = pcbs s"
    by simp_all
  then show "fs t = fs s" "kernel.more t = kernel.more s" "ter_read_buffer t = ter_read_buffer s" "ter_read_buf_size t = ter_read_buf_size s"
    "ter_read_indicator t = ter_read_indicator s" "cross_enter_flag t = cross_enter_flag s" "mmu t = mmu s"
    "curr_task_pos t = curr_task_pos s" "runn_task_num t = runn_task_num s" "task_bitmap t = task_bitmap s" "pcbs t = pcbs s"
    unfolding t [symmetric] .
qed

text \<open>What belongs to the keyboard and to the terminals.\<close>

definition input_frame :: "'a kernel_scheme \<Rightarrow> 'a kernel_scheme \<Rightarrow> bool" where
  "input_frame s t \<longleftrightarrow> kernel.more t = kernel.more s \<and> ter_read_buffer t = ter_read_buffer s \<and>
     ter_read_buf_size t = ter_read_buf_size s \<and> ter_read_indicator t = ter_read_indicator s \<and> cross_enter_flag t = cross_enter_flag s \<and>
     enter_flag t = enter_flag s \<and>
     (enter_flag s \<noteq> -1 \<longrightarrow> keyboard_buffer t = keyboard_buffer s \<and> kb_buffer_position t = kb_buffer_position s)"

definition keeps :: "'a kernel_scheme \<Rightarrow> 'a kernel_scheme \<Rightarrow> bool" where
  "keeps s t \<longleftrightarrow> con_inv t \<and> mmu t = mmu s \<and> same_disk (fs s) (fs t) \<and> same_image (fs s) (ram s) (ram t) \<and> input_frame s t \<and>
     curr_task_pos t = curr_task_pos s \<and> runn_task_num t = runn_task_num s \<and> task_bitmap t = task_bitmap s"

lemma keeps_trans: "keeps s t \<Longrightarrow> keeps t u \<Longrightarrow> keeps s u"
  using same_disk_names(10) [of "fs s" "fs t"] same_image_trans [of "fs s" "ram s" "ram t" "ram u"]
  by (auto simp: keeps_def input_frame_def intro: same_disk_trans)

lemma curr_pcb_ram [simp]: "curr_pcb (s\<lparr>ram := m\<rparr>) = curr_pcb s" "curr_pcb (s\<lparr>fs := f\<rparr>) = curr_pcb s"
  by (simp_all add: curr_pcb_def)

lemma keeps_updates [simp]:
  "keeps s (con_io f t) = keeps s t" "keeps s (set_curr_pcb q t) = keeps s t"
  by (simp_all add: keeps_def input_frame_def con_inv_def set_curr_pcb_def con_io_def)

lemma keeps_memory:
  assumes "same_memory s t" "con_inv s"
  shows "keeps s t" "tty t = tty s" "curr_pcb t = curr_pcb s"
  using assms by (auto simp: same_memory_def keeps_def input_frame_def con_inv_def tty_def position_def con_io_def curr_pcb_def)

lemma keeps_ready:
  assumes r: "program_ready area pa s" and k: "keeps s t" and q: "curr_pcb t = Some q" "files_ok q"
  shows "program_ready area pa t"
proof -
  have l: "image_layout (ram s) (fs s)" "dir_ok (ram s) (fs s)" using r by (simp_all add: program_ready_def)
  have d: "same_disk (fs s) (fs t)" "same_image (fs s) (ram s) (ram t)" using k by (simp_all add: keeps_def)
  note n = same_disk_names(1-3) [OF d(1)] same_image_layout [OF d(2)] same_image_dir(1) [OF l(1) d(2)] same_image_image [OF d(2)]
  show ?thesis using r k q n by (simp add: program_ready_def keeps_def)
qed

lemma write_same_image:
  assumes "program_ready area pa s" "length b \<le> 2048"
  shows "same_image (fs s) (ram s) (write_bytes (ram s) pa b)"
  unfolding same_image_def
proof
  fix a assume "a \<in> disk_image (ram s) (fs s)"
  then have "a \<noteq> pa + of_nat i" if "i < length b" for i using assms that by (auto simp: program_ready_def)
  then show "write_bytes (ram s) pa b a = ram s a" by (intro write_bytes_outside)
qed

lemma keeps_print:
  fixes s t :: "'a kernel_scheme"
  assumes "program_ready area pa s" "con_inv t" "con_frame s t"
  shows "keeps s t" "curr_pcb t = curr_pcb s" "fs t = fs s"
proof -
  have m: "con.more t = con.more s" using assms(3) by (simp add: con_frame_def)
  show "fs t = fs s" "curr_pcb t = curr_pcb s" using more_tasks [OF m] by (simp_all add: curr_pcb_def)
  moreover have "same_image (fs s) (ram s) (ram t)"
    using assms(1,3) unfolding same_image_def con_frame_def same_outside_video_def program_ready_def by metis
  ultimately show "keeps s t" using assms(2,3) more_tasks [OF m] by (simp add: keeps_def input_frame_def con_frame_def)
qed

section \<open>The way into a call and resumed\<close>

text \<open>The state in which the handler of a call starts, with the array in the page of the program, and the state in which the
  program goes on.\<close>

definition area_state :: "u32 \<Rightarrow> u8 list \<Rightarrow> 'a kernel_scheme \<Rightarrow> 'a kernel_scheme" where
  "area_state pa b s = con_io sti (con_io cli (s\<lparr>ram := write_bytes (ram s) pa b\<rparr>))"

definition resumed :: "'a kernel_scheme \<Rightarrow> 'a kernel_scheme" where
  "resumed s = con_io sti (con_io cli s)"

lemma resumed_simps [simp]:
  "keeps s (resumed t) = keeps s t" "tty (resumed t) = tty t" "curr_pcb (resumed t) = curr_pcb t" "ram (resumed t) = ram t" "fs (resumed t) = fs t"
  "mmu (resumed t) = mmu t" "file_rest fd (resumed t) = file_rest fd t" "kbd_ok (resumed t) = kbd_ok t" "line (resumed t) = line t" "con.more (resumed t) = con.more t"
  by (simp_all add: resumed_def file_rest_def split: option.split)

lemma area_simps [simp]:
  "ram (area_state pa b s) = write_bytes (ram s) pa b" "fs (area_state pa b s) = fs s" "mmu (area_state pa b s) = mmu s"
  "curr_pcb (area_state pa b s) = curr_pcb s" "con_inv (area_state pa b s) = con_inv s"
  by (simp_all add: area_state_def con_inv_def)

lemma tty_write_area:
  assumes "off_screen pa 2048" "length b \<le> 2048"
  shows "tty (s\<lparr>ram := write_bytes (ram s) pa b\<rparr>) = tty s"
proof -
  have "write_bytes (ram s) pa b (vaddr j) = ram s (vaddr j)" if "j < 2000" for j
    using assms that unfolding off_screen_def by (intro write_bytes_outside) (metis order_less_le_trans)
  then show ?thesis by (simp add: tty_def position_def chars_def)
qed

lemma area_keeps:
  assumes "program_ready area pa s" "length b \<le> 2048"
  shows "keeps s (area_state pa b s)" "tty (area_state pa b s) = tty s"
proof -
  show "keeps s (area_state pa b s)"
    using assms(1) write_same_image [OF assms]
    by (simp add: area_state_def keeps_def input_frame_def program_ready_def con_inv_def con_io_def)
  have "off_screen pa 2048" using assms(1) by (simp add: program_ready_def)
  from tty_write_area [OF this assms(2)] show "tty (area_state pa b s) = tty s" by (simp add: area_state_def)
qed

lemma area_ready:
  assumes "program_ready area pa s" "length b \<le> 2048"
  shows "program_ready area pa (area_state pa b s)"
proof -
  obtain p where "curr_pcb s = Some p" "files_ok p" using assms(1) by (auto simp: program_ready_def)
  then show ?thesis using keeps_ready [OF assms(1) area_keeps(1) [OF assms]] by simp
qed

lemma bytes_at_write:
  assumes "n \<le> length b" "length b \<le> 2048"
  shows "bytes_at (write_bytes m pa b) pa n = take n b"
proof (rule nth_equalityI)
  fix i assume "i < length (bytes_at (write_bytes m pa b) pa n)"
  then have i: "i < n" by simp
  then have "unat (of_nat i :: u32) = i" using assms by (intro unat_offset) simp
  then show "bytes_at (write_bytes m pa b) pa n ! i = take n b ! i"
    using i assms by (simp add: bytes_at_def write_bytes_apply)
qed (use assms in simp)

lemma bytes_at_overwrite:
  assumes "length ys \<le> length b" "length b \<le> 2048"
  shows "bytes_at (write_bytes (write_bytes m pa b) pa ys) pa (length b) = ys @ drop (length ys) b"
proof (rule nth_equalityI)
  fix i assume "i < length (bytes_at (write_bytes (write_bytes m pa b) pa ys) pa (length b))"
  then have i: "i < length b" by simp
  then have "unat (of_nat i :: u32) = i" using assms by (intro unat_offset) simp
  then show "bytes_at (write_bytes (write_bytes m pa b) pa ys) pa (length b) ! i = (ys @ drop (length ys) b) ! i"
    using i assms by (simp add: bytes_at_def write_bytes_apply nth_append)
qed (use assms in simp)

lemma kernel_call_returns:
  assumes r: "program_ready area pa s" "length b \<le> 2048"
    and c: "syscall hs 0 0 eax ebx ecx edx (s\<lparr>ram := write_bytes (ram s) pa b\<rparr>) = Some (Return r', v)" "mmu v = mmu s"
  shows "kernel_call hs area eax ebx ecx edx b s = Some (r', bytes_at (ram v) pa (length b), v)"
proof -
  have m: "maps_range (mmu s) area pa (length b)" using r by (auto simp: program_ready_def intro: maps_range_le)
  have "vwrite area b s = Some (s\<lparr>ram := write_bytes (ram s) pa b\<rparr>)" by (rule vwrite_range [OF m])
  moreover have "vread area (length b) v = Some (bytes_at (ram v) pa (length b))" by (rule vread_range) (use m c(2) in simp)
  ultimately show ?thesis using c(1) by (simp add: kernel_call_def)
qed

lemma array_calls:
  fixes s :: "'a kernel_scheme"
  assumes "program_ready area pa s" "length b \<le> 2048" "mmu u = mmu s"
  shows "read_call hs fd area n (area_state pa b s) = Some (r, u) \<Longrightarrow>
      sys_read (kernel_os hs area) fd b n s = Some (r, bytes_at (ram u) pa (length b), resumed u)"
    "write_call fd area n (area_state pa b s) = Some (r, u) \<Longrightarrow> sys_write (kernel_os hs area) fd b n s = Some (r, resumed u)"
    "open_call area (area_state pa b s) = Some (r, u) \<Longrightarrow> sys_open (kernel_os hs area) b s = Some (r, resumed u)"
    "getargs area n (area_state pa b s) = Some (r, u) \<Longrightarrow>
      sys_getargs (kernel_os hs area) b n s = Some (r, bytes_at (ram u) pa (length b), resumed u)"
    "execute 0 0 area (area_state pa b s) = Some (Return r, u) \<Longrightarrow> sys_execute (kernel_os hs area) b s = Some (r, resumed u)"
  using kernel_call_returns [OF assms(1,2), of hs _ _ _ _ r "resumed u"] assms(3)
  by (simp_all add: kernel_os_def syscall_def area_state_def resumed_def Let_def)

lemma plain_calls:
  fixes s :: "'a kernel_scheme"
  defines "t \<equiv> con_io sti (con_io cli s)"
  shows "close_call fd t = Some (r, u) \<Longrightarrow> sys_close (kernel_os hs area) fd s = Some (r, resumed u)"
    "vidmap a t = Some (r, u) \<Longrightarrow> sys_vidmap (kernel_os hs area) a s = Some (r, resumed u)"
    "n > 10 \<or> n < 1 \<Longrightarrow> sys_number (kernel_os hs area) n s = Some (ERR, resumed s)"
  by (auto simp: t_def kernel_os_def plain_call_def syscall_def resumed_def Let_def)

section \<open>Output\<close>

lemma con_frame_io: "con_frame s t \<Longrightarrow> con_frame s (con_io f t)"
proof -
  assume c: "con_frame s t"
  then obtain g where "hw t = rtc_io g (hw s)" by (auto simp: con_frame_def)
  then have "hw (con_io f t) = rtc_io (f \<circ> g) (hw s)" by (simp add: con_io_def)
  then show ?thesis using c by (auto simp: con_frame_def)
qed

lemma terminal_write_run:
  fixes s :: "'a tio_scheme"
  assumes "con_inv s" "maps_range (mmu s) buf pa n" "off_screen pa n" "buf \<noteq> 0" "n \<le> 2048"
  shows "\<exists>t. terminal_write fd buf (of_nat n) s = Some (of_nat n + 1, t) \<and> con_inv t \<and> con_frame s t \<and>
    tty t = tty_write (bytes_at (ram s) pa n) (tty s)"
proof -
  let ?s = "con_io cli s"
  obtain t where t: "write_chars buf 0 n ?s = Some t" "put_all (bytes_at (ram s) pa n) ?s = Some t"
    using write_chars_run [of ?s buf pa n 0 n] assms(1-4) mmu_more [of ?s s] by auto
  then have r: "con_inv t" "tty t = tty_write (bytes_at (ram s) pa n) (tty s)" "con_frame ?s t"
    using put_all_run [of ?s "bytes_at (ram s) pa n"] assms(1) by (auto simp: con_run_def)
  have "con_frame s t" using con_frame_trans [OF con_frame_io [OF con_frame_refl] r(3)] .
  moreover have "sint (of_nat n :: u32) = int n"
    using assms(5) by (simp add: sint_uint uint_nat unat_offset signed_take_bit_int_eq_self)
  ultimately show ?thesis using t(1) r(1,2) by (auto simp: terminal_write_def Let_def intro: con_frame_io)
qed

lemma kernel_write:
  fixes s :: "'a kernel_scheme"
  assumes r: "program_ready area pa s" and b: "n \<le> length b" "length b \<le> 2048"
  shows "\<exists>s'. sys_write (kernel_os hs area) 1 b (of_nat n) s = Some (of_nat n + 1, s') \<and> program_ready area pa s' \<and>
    tty s' = tty_write (take n b) (tty s) \<and> keeps s s' \<and> curr_pcb s' = curr_pcb s \<and> fs s' = fs s"
proof -
  let ?t = "area_state pa b s"
  obtain p where p: "curr_pcb s = Some p" "files_ok p" using r by (auto simp: program_ready_def)
  note a = area_keeps [OF r b(2)]
  have t: "con_inv ?t" "maps_range (mmu ?t) area pa n" "off_screen pa n" "area \<noteq> 0" "n \<le> 2048"
    using r b by (auto simp: program_ready_def off_screen_def intro: maps_range_le)
  from terminal_write_run [OF t, of 1] obtain u where
    u: "terminal_write 1 area (of_nat n) ?t = Some (of_nat n + 1, u)" "con_inv u" "con_frame ?t u"
      "tty u = tty_write (bytes_at (ram ?t) pa n) (tty ?t)" by blast
  note k = keeps_print [OF area_ready [OF r b(2)] u(2,3)]
  have "node_ok 1 (file_array p ! 1)" "fop (file_array p ! 1) = Some Stdout_ops" using p(2) by (simp_all add: files_ok_def)
  then have "open_node 1 p = Some (file_array p ! 1)" "fop (file_array p ! 1) = Some Stdout_ops"
    by (auto simp: open_node_def Let_def node_ok_def)
  then have "write_call 1 area (of_nat n) ?t = Some (of_nat n + 1, u)" using u(1) p(1) by (simp add: write_call_def)
  moreover have "mmu u = mmu s" using k(1) by (simp add: keeps_def)
  ultimately have c: "sys_write (kernel_os hs area) 1 b (of_nat n) s = Some (of_nat n + 1, resumed u)"
    using array_calls(2) [OF r b(2)] by blast
  have ku: "keeps s (resumed u)" using keeps_trans [OF a(1) k(1)] by simp
  have "program_ready area pa (resumed u)" by (rule keeps_ready [OF r ku _ p(2)]) (use k(2) p(1) in simp)
  then show ?thesis using c ku k(2,3) u(4) bytes_at_write [OF b] a(2) p(1) by (intro exI [of _ "resumed u"]) simp
qed

lemma keeps_rest:
  assumes "program_ready area pa s" "keeps s t" "curr_pcb t = curr_pcb s"
  shows "file_rest fd t = file_rest fd s"
proof -
  have l: "image_layout (ram s) (fs s)" "same_disk (fs s) (fs t)" "same_image (fs s) (ram s) (ram t)"
    using assms(1,2) by (simp_all add: program_ready_def keeps_def)
  then show ?thesis using assms(3) same_disk_names(9) [OF l(2)] same_image_rest [OF l(1,3)] by (simp add: file_rest_def split: option.split)
qed

section \<open>Reading a file\<close>

lemma fd_name_string:
  assumes "0 \<in> set (drop (32 * fd) (file_names p))"
  shows "holds_string (name_view p fd) (fd_name p fd)"
proof -
  let ?l = "drop (32 * fd) (file_names p)"
  have "takeWhile (\<lambda>c. c \<noteq> 0) ?l \<noteq> ?l" using assms by (metis set_takeWhileD)
  then have "length (takeWhile (\<lambda>c. c \<noteq> 0) ?l) < length ?l"
    by (metis length_takeWhile_le order_le_imp_less_or_eq takeWhile_eq_take take_all_iff order_refl)
  then have "?l ! length (fd_name p fd) = 0" using nth_length_takeWhile [of "\<lambda>c. c \<noteq> 0" ?l] by (simp add: fd_name_def)
  then have "?l = fd_name p fd @ 0 # drop (Suc (length (fd_name p fd))) ?l"
    using id_take_nth_drop [of "length (fd_name p fd)" ?l] \<open>length (takeWhile (\<lambda>c. c \<noteq> 0) ?l) < length ?l\<close>
    by (simp add: fd_name_def flip: takeWhile_eq_take)
  moreover have "0 \<notin> set (fd_name p fd)" by (auto simp: fd_name_def dest: set_takeWhileD)
  ultimately show ?thesis unfolding name_view_def by (intro holds_string_list) auto
qed

lemma file_slice:
  assumes "off + k \<le> length (program_bytes m f ino)"
  shows "map (file_byte m f ino) [off..<off + k] = take k (drop off (program_bytes m f ino))"
  using assms by (simp add: program_bytes_def drop_map take_map drop_upt take_upt)

lemma file_rest_cases:
  assumes "file_rest fd s = Some xs"
  obtains p i ino where "curr_pcb s = Some p" "unat fd < 8" "fop (file_array p ! unat fd) = Some File_ops"
    "holds_string (name_view p (unat fd)) (fd_name p (unat fd))" "0 \<in> set (drop (32 * unat fd) (file_names p))"
    "lookup_name (ram s) (fs s) (fd_name p (unat fd)) = Some i" "ino = read32 (ram s) (dentry_addr (fs s) i + 36)"
    "file_ok (ram s) (fs s) ino" "unat (file_pos (file_array p ! unat fd)) \<le> unat (inode_length (ram s) (fs s) ino)"
    "xs = drop (unat (file_pos (file_array p ! unat fd))) (program_bytes (ram s) (fs s) ino)"
  using assms fd_name_string
  by (auto simp: file_rest_def node_rest_def Let_def split: option.splits if_splits)

lemma read_part:
  fixes off :: u32
  assumes f: "file_ok m f ino" and off: "unat off \<le> unat (inode_length m f ino)" and xs: "xs = drop (unat off) (program_bytes m f ino)"
    and k: "k = min n (length xs)" "n \<le> 1024"
  shows "blocks_valid m f ino (unat off) n" "k = min n (unat (inode_length m f ino) - unat off)" "k \<le> n"
    "map (file_byte m f ino) [unat off..<unat off + k] = take k xs" "unat (off + of_nat k) = unat off + k"
    "unat off + k \<le> unat (inode_length m f ino)"
proof -
  have l: "length (program_bytes m f ino) = unat (inode_length m f ino)" by (simp add: program_bytes_def)
  show k1: "k = min n (unat (inode_length m f ino) - unat off)" "k \<le> n" using k xs l by simp_all
  then show k2: "unat off + k \<le> unat (inode_length m f ino)" using off by simp
  show "blocks_valid m f ino (unat off) n"
    using f off k(2) by (auto simp: file_ok_def intro: blocks_valid_mono)
  show "map (file_byte m f ino) [unat off..<unat off + k] = take k xs"
    unfolding xs using k2 l by (intro file_slice) simp
  show "unat (off + of_nat k) = unat off + k"
    using unat_plus_below [of off k] k2 f by (simp add: file_ok_def)
qed

lemma kernel_read:
  fixes s :: "'a kernel_scheme"
  assumes r: "program_ready area pa s" and x: "file_rest fd s = Some xs" and b: "n \<le> length b" "length b \<le> 2048" "n \<le> 1024"
    and k: "k = min n (length xs)"
  shows "\<exists>s'. sys_read (kernel_os hs area) fd b (of_nat n) s = Some (of_nat k, take k xs @ drop k b, s') \<and> program_ready area pa s' \<and>
    tty s' = tty s \<and> file_rest fd s' = Some (drop k xs) \<and> keeps s s' \<and>
    (\<forall>p. curr_pcb s = Some p \<longrightarrow>
      (\<exists>x. curr_pcb s' = Some (p\<lparr>file_array := (file_array p)[unat fd := (file_array p ! unat fd)\<lparr>file_pos := x\<rparr>]\<rparr>)) \<and>
      (\<exists>i. lookup_name (ram s) (fs s) (fd_name p (unat fd)) = Some i \<and> fs s' = (fs s)\<lparr>file_pos_keeper := int i\<rparr>))"
proof -
  obtain p i ino where p: "curr_pcb s = Some p" "unat fd < 8" "fop (file_array p ! unat fd) = Some File_ops"
    "holds_string (name_view p (unat fd)) (fd_name p (unat fd))" "0 \<in> set (drop (32 * unat fd) (file_names p))"
    and d: "lookup_name (ram s) (fs s) (fd_name p (unat fd)) = Some i" "ino = read32 (ram s) (dentry_addr (fs s) i + 36)"
    "file_ok (ram s) (fs s) ino" "unat (file_pos (file_array p ! unat fd)) \<le> unat (inode_length (ram s) (fs s) ino)"
    "xs = drop (unat (file_pos (file_array p ! unat fd))) (program_bytes (ram s) (fs s) ino)"
    by (rule file_rest_cases [OF x])
  let ?off = "file_pos (file_array p ! unat fd)" and ?t = "area_state pa b s" and ?m = "write_bytes (ram s) pa b"
  have fp: "files_ok p" using r p(1) by (auto simp: program_ready_def)
  have a: "con_inv s" "maps_range (mmu s) area pa 2048" "off_screen pa 2048" "area \<noteq> 0" "image_layout (ram s) (fs s)" "dir_ok (ram s) (fs s)"
    and ak: "off_kernel pa 2048"
    using r by (simp_all add: program_ready_def)
  note at = area_keeps [OF r b(2)]
  have i1: "same_image (fs s) (ram s) ?m" by (rule write_same_image [OF r b(2)])
  note im = same_image_dir [OF a(5) i1] same_image_file [OF a(5) i1]
  have d': "dir_ok ?m (fs s)" "lookup_name ?m (fs s) (fd_name p (unat fd)) = Some i" "ino = read32 ?m (dentry_addr (fs s) i + 36)" "file_ok ?m (fs s) ino"
    "unat ?off \<le> unat (inode_length ?m (fs s) ino)" "xs = drop (unat ?off) (program_bytes ?m (fs s) ino)"
    using a(6) d im lookup_name_below [OF d(1)] by simp_all
  note rp = read_part [OF d'(4-6) k b(3)]
  have un: "unat (of_nat n :: u32) = n" by (rule unat_offset) (use b(3) in simp)
  let ?q = "p\<lparr>file_array := (file_array p)[unat fd := (file_array p ! unat fd)\<lparr>file_pos := ?off + of_nat k\<rparr>]\<rparr>"
  let ?ys = "map (file_byte (ram ?t) (fs ?t) ino) [unat ?off..<unat ?off + k]"
  let ?u = "set_curr_pcb ?q (?t\<lparr>fs := (fs ?t)\<lparr>file_pos_keeper := int i\<rparr>, ram := write_bytes (ram ?t) pa ?ys\<rparr>)"
  have c: "curr_pcb ?t = Some p" "dir_ok (ram ?t) (fs ?t)" "lookup_name (ram ?t) (fs ?t) (fd_name p (unat fd)) = Some i"
    "ino = read32 (ram ?t) (dentry_addr (fs ?t) i + 36)" "ino < num_inodes (ram ?t) (fs ?t)"
    "blocks_valid (ram ?t) (fs ?t) ino (unat ?off) (unat (of_nat n :: u32))"
    "k = min (unat (of_nat n :: u32)) (unat (inode_length (ram ?t) (fs ?t) ino) - unat ?off)" "maps_range (mmu ?t) area pa k"
    using p(1) d' rp(1-3) a(2) b un by (simp_all add: file_ok_def maps_range_le)
  note hyps = c(1) fp p(2,3,4) c(2-5) refl c(6,7) a(4) c(8)
  have ys: "?ys = take k xs" using rp(4) by simp
  have q: "curr_pcb ?u = Some ?q" "files_ok ?q" using read_call_file(2,3) [OF hyps] by simp_all
  have rd: "read_call hs fd area (of_nat n) ?t = Some (of_nat k, ?u)" using read_call_file(1) [OF hyps, of hs] off_kernel_le [OF ak, of k] rp(3) b by simp
  have u: "ram ?u = write_bytes ?m pa (take k xs)" "mmu ?u = mmu s" "fs ?u = (fs s)\<lparr>file_pos_keeper := int i\<rparr>"
    using ys by (simp_all add: set_curr_pcb_def)
  have "same_image (fs s) ?m (write_bytes ?m pa (take k xs))"
    using write_same_image [OF area_ready [OF r b(2)], of "take k xs"] b rp(3) by simp
  from same_image_trans [OF i1 this] have iu: "same_image (fs s) (ram s) (ram ?u)" unfolding u(1) .
  have ku: "keeps s ?u"
    using at(1) iu u(3) a(1) by (simp add: keeps_def input_frame_def con_inv_def set_curr_pcb_def)
  have bt: "bytes_at (ram ?u) pa (length b) = take k xs @ drop k b"
    unfolding u(1) using bytes_at_overwrite [of "take k xs" b "ram s" pa] b rp(3) k by simp
  have sr: "sys_read (kernel_os hs area) fd b (of_nat n) s = Some (of_nat k, take k xs @ drop k b, resumed ?u)"
    using array_calls(1) [OF r b(2) u(2) rd] bt by simp
  have y: "tty ?u = tty s"
  proof -
    have "tty ?u = tty (?t\<lparr>ram := write_bytes (ram ?t) pa (take k xs)\<rparr>)" using u(1) by (simp add: tty_def position_def set_curr_pcb_def)
    also have "\<dots> = tty ?t" by (rule tty_write_area [OF a(3)]) (use rp(3) b in simp)
    finally show ?thesis using at(2) by simp
  qed
  have rest: "file_rest fd ?u = Some (drop k xs)"
  proof -
    have "length (file_array p) = 8" using fp by (simp add: files_ok_def pcb_shape_def)
    then have n: "fop (file_array ?q ! unat fd) = Some File_ops" "file_pos (file_array ?q ! unat fd) = ?off + of_nat k"
        "file_names ?q = file_names p" "fd_name ?q (unat fd) = fd_name p (unat fd)"
      using p(2,3) by (simp_all add: fd_name_def)
    have "inode_length ?m (fs s) ino = inode_length (ram s) (fs s) ino" using im d(3) by blast
    then have "node_rest (ram s) (fs s) (fd_name p (unat fd)) (unat ?off + k) = Some (drop k xs)"
      using d rp(6) by (simp add: node_rest_def Let_def add.commute)
    moreover have "same_disk (fs s) (fs ?u)" unfolding u(3) by simp
    ultimately have "node_rest (ram ?u) (fs ?u) (fd_name p (unat fd)) (unat ?off + k) = Some (drop k xs)"
      using same_image_rest [OF a(5) iu] by (simp only: same_disk_names(9))
    then show ?thesis unfolding file_rest_def q(1) using n p(2,5) rp(5) by (simp only: option.case simp_thms if_True)
  qed
  have "program_ready area pa (resumed ?u)" by (rule keeps_ready [OF r _ _ q(2)]) (use ku q(1) in simp_all)
  then show ?thesis using sr y rest ku q(1) p(1) d(1) u(3) by (intro exI [of _ "resumed ?u"]) auto
qed

section \<open>Steps since the start\<close>

text \<open>While interrupts leave the tasks alone, a call changes of the processes only the open files of the caller.\<close>

lemma call_step_from: "same_procs s t \<Longrightarrow> call_step t u \<Longrightarrow> call_step s u"
  using same_procs_curr [of s t] by (auto simp: call_step_def same_procs_def)

lemma kernel_call_step:
  assumes "kernel_call hs area eax ebx ecx edx b s = Some (r, b', s')" "eax \<noteq> 1" "eax \<noteq> 2" "quiet hs" "curr_pcb s = Some p"
  shows "call_step s s'"
proof -
  obtain t where t: "vwrite area b s = Some t" "syscall hs 0 0 eax ebx ecx edx t = Some (Return r, s')"
    using assms(1) by (auto simp: kernel_call_def split: bind_splits transfer.splits)
  have p: "same_procs s t" by (rule vwrite_procs [OF t(1)])
  then have "curr_pcb t = Some p" using same_procs_curr assms(5) by metis
  with syscall_step [OF t(2) assms(2-4)] show ?thesis using call_step_from [OF p] by blast
qed

lemma kernel_os_step:
  assumes "quiet hs" "curr_pcb s = Some p"
  shows "sys_write (kernel_os hs area) fd b n s = Some (r, s') \<Longrightarrow> call_step s s'"
    "sys_read (kernel_os hs area) fd b n s = Some (r, b', s') \<Longrightarrow> call_step s s'"
    "sys_open (kernel_os hs area) b s = Some (r, s') \<Longrightarrow> call_step s s'"
    "sys_getargs (kernel_os hs area) b n s = Some (r, b', s') \<Longrightarrow> call_step s s'"
  using kernel_call_step [OF _ _ _ assms] by (auto simp: kernel_os_def)

definition since :: "('a kernel_scheme \<Rightarrow> 'a kernel_scheme) list \<Rightarrow> 'a kernel_scheme \<Rightarrow> 'a kernel_scheme \<Rightarrow> bool" where
  "since hs s t \<longleftrightarrow> keeps s t \<and> (quiet hs \<longrightarrow> call_step s t)"

lemma since_refl: "program_ready area pa s \<Longrightarrow> since hs s s"
  by (auto simp: since_def program_ready_def keeps_def input_frame_def intro: call_step_procs)

lemma since_trans:
  assumes "since hs s t" "keeps t u" "quiet hs \<Longrightarrow> call_step t u"
  shows "since hs s u"
  using assms keeps_trans call_step_trans unfolding since_def by blast

text \<open>A run of a program that started in the state \<open>s0\<close>.\<close>

definition running :: "u32 \<Rightarrow> u32 \<Rightarrow> ('a kernel_scheme \<Rightarrow> 'a kernel_scheme) list \<Rightarrow> 'a kernel_scheme \<Rightarrow> 'a kernel_scheme \<Rightarrow> bool" where
  "running area pa hs s0 s \<longleftrightarrow> program_ready area pa s \<and> since hs s0 s"

lemma running_step:
  assumes "running area pa hs s0 s" "keeps s t" "program_ready area pa t" "quiet hs \<Longrightarrow> call_step s t"
  shows "running area pa hs s0 t"
  using assms since_trans [of hs s0 s t] by (simp add: running_def)

interpretation kernel_files: file_reader "kernel_os (hs :: ('a kernel_scheme \<Rightarrow> 'a kernel_scheme) list) area" "running area pa hs s0" tty file_rest
proof
  fix s :: "'a kernel_scheme" and n and b :: "u8 list"
  assume a: "running area pa hs s0 s" "n \<le> length b" "length b \<le> 2048"
  then have r: "program_ready area pa s" by (simp add: running_def)
  obtain p where p: "curr_pcb s = Some p" using r by (auto simp: program_ready_def)
  from kernel_write [OF r a(2,3), of hs] running_step [OF a(1)] kernel_os_step(1) [OF _ p, of hs area 1 b "of_nat n"] show
    "\<exists>s'. sys_write (kernel_os hs area) 1 b (of_nat n) s = Some (of_nat n + 1, s') \<and> running area pa hs s0 s' \<and> tty s' = tty_write (take n b) (tty s)"
    by blast
next
  fix s s' :: "'a kernel_scheme" and n r fd and b :: "u8 list"
  assume a: "running area pa hs s0 s" "n \<le> length b" "length b \<le> 2048" "sys_write (kernel_os hs area) 1 b (of_nat n) s = Some (r, s')"
  then have p: "program_ready area pa s" by (simp add: running_def)
  then have "keeps s s'" "curr_pcb s' = curr_pcb s" using kernel_write [OF p a(2,3), of hs] a(4) by auto
  then show "file_rest fd s' = file_rest fd s" by (rule keeps_rest [OF p])
next
  fix s :: "'a kernel_scheme" and fd xs k n and b :: "u8 list"
  assume a: "running area pa hs s0 s" "file_rest fd s = Some xs" "n \<le> length b" "length b \<le> 2048" "n \<le> 1024" "k = min n (length xs)"
  then have r: "program_ready area pa s" by (simp add: running_def)
  obtain p where p: "curr_pcb s = Some p" using r by (auto simp: program_ready_def)
  from kernel_read [OF r a(2-6), of hs] running_step [OF a(1)] kernel_os_step(2) [OF _ p, of hs area fd b "of_nat n"] show
    "\<exists>s'. sys_read (kernel_os hs area) fd b (of_nat n) s = Some (of_nat k, take k xs @ drop k b, s') \<and>
      running area pa hs s0 s' \<and> tty s' = tty s \<and> file_rest fd s' = Some (drop k xs)"
    by blast
qed

section \<open>Arguments and names of files\<close>

lemma kernel_getargs:
  fixes s :: "'a kernel_scheme"
  assumes r: "program_ready area pa s" and p: "curr_pcb s = Some p" and b: "length b \<le> 2048" "length cs < length b"
    and cs: "holds_string (list_view (arg_buffer p)) cs" "cs \<noteq> []" "length cs < 100"
  shows "\<exists>s'. sys_getargs (kernel_os hs area) b 1024 s = Some (0, cs @ 0 # drop (length cs + 1) b, s') \<and> program_ready area pa s' \<and>
    tty s' = tty s \<and> curr_pcb s' = Some p \<and> fs s' = fs s \<and> keeps s s'"
proof -
  have a: "con_inv s" "maps_range (mmu s) area pa 2048" "off_screen pa 2048" "area \<noteq> 0" "files_ok p"
    and ak: "off_kernel pa 2048"
    using r p by (auto simp: program_ready_def)
  let ?t = "area_state pa b s" and ?m = "write_bytes (ram s) pa b" and ?c = "cs @ [0]"
  let ?u = "(con_io cli ?t)\<lparr>ram := write_bytes (ram ?t) pa ?c\<rparr>"
  note at = area_keeps [OF r b(1)]
  have m: "curr_pcb ?t = Some p" "maps_range (mmu ?t) area pa (length cs + 1)" using p a(2) cs(3) by (simp_all add: maps_range_le)
  have "unat (1024 :: u32) = 1024" by simp
  then have g: "getargs area 1024 ?t = Some (0, ?u)"
    using getargs_result [OF m(1) cs(1,3) m(2), of 1024] a(4) cs(2,3) off_kernel_le [OF ak, of "Suc (length cs)"] by simp
  have "same_image (fs s) ?m (write_bytes ?m pa ?c)" using write_same_image [OF area_ready [OF r b(1)], of ?c] cs(3) by simp
  then have iu: "same_image (fs s) (ram s) (ram ?u)" using same_image_trans [OF write_same_image [OF r b(1)]] by simp
  have ku: "keeps s ?u" using at(1) iu by (simp add: keeps_def input_frame_def con_inv_def con_io_def)
  have "bytes_at (ram ?u) pa (length b) = ?c @ drop (length ?c) b"
    using bytes_at_overwrite [of ?c b "ram s" pa] b by simp
  then have "sys_getargs (kernel_os hs area) b 1024 s = Some (0, cs @ 0 # drop (length cs + 1) b, resumed ?u)"
    using array_calls(4) [OF r b(1) _ g] by simp
  moreover have "tty ?u = tty s"
  proof -
    have "tty ?u = tty (?t\<lparr>ram := write_bytes (ram ?t) pa ?c\<rparr>)" by (simp add: tty_def position_def)
    also have "\<dots> = tty ?t" by (rule tty_write_area [OF a(3)]) (use cs(3) in simp)
    finally show ?thesis using at(2) by simp
  qed
  moreover have "program_ready area pa (resumed ?u)" by (rule keeps_ready [OF r _ _ a(5)]) (use ku m(1) in simp_all)
  ultimately show ?thesis using ku p by (intro exI [of _ "resumed ?u"]) simp
qed

lemma name_view_fd:
  assumes "holds_string (name_view q fd) cs"
  shows "0 \<in> set (drop (32 * fd) (file_names q))" "fd_name q fd = cs"
proof -
  let ?l = "drop (32 * fd) (file_names q)"
  have n: "\<forall>i<length cs. ?l ! i = cs ! i" "length cs < length ?l" "?l ! length cs = 0" "0 \<notin> set cs"
    using assms by (auto simp: holds_string_def name_view_def list_view_def split: if_splits)
  then show "0 \<in> set ?l" by (metis nth_mem)
  have "take (length cs) ?l = cs" using n by (intro nth_equalityI) auto
  then have l: "?l = cs @ 0 # drop (Suc (length cs)) ?l" using id_take_nth_drop [OF n(2)] n(3) by simp
  have "takeWhile (\<lambda>c. c \<noteq> 0) (cs @ 0 # zs) = cs" for zs using n(4) by (subst takeWhile_append2) auto
  then show "fd_name q fd = cs" unfolding fd_name_def by (metis l)
qed

lemma area_string:
  assumes "maps_range (mmu s) area pa 2048" "area \<noteq> 0" "length b \<le> 2048" "ram s = write_bytes m pa b" "holds_string (list_view b) cs"
  shows "holds_string (vview s area) cs"
proof -
  have n: "\<forall>i<length cs. b ! i = cs ! i" "length cs < length b" "b ! length cs = 0" "0 \<notin> set cs"
    using assms(5) by (auto simp: holds_string_def list_view_def split: if_splits)
  have "vview s area i = Some (b ! i)" if "i < length b" for i
  proof -
    have "unat (of_nat i :: u32) = i" using that assms(3) by (intro unat_offset) simp
    then show ?thesis using assms(1-4) that by (simp add: vview_def vload_def maps_range_def write_bytes_apply)
  qed
  then show ?thesis using n by (simp add: holds_string_def)
qed

lemma kernel_string:
  assumes "program_ready area pa s" "length b \<le> 2048" "holds_string (list_view b) cs"
  shows "holds_string (vview (area_state pa b s) area) cs"
  using assms by (intro area_string [of _ area pa b "ram s"]) (simp_all add: program_ready_def)

text \<open>What a lookup finds does not depend on the array of the program.\<close>

lemma keeps_lookup:
  assumes "program_ready area pa s" "keeps s t"
  shows "dir_ok (ram t) (fs t)" "lookup_name (ram t) (fs t) = lookup_name (ram s) (fs s)"
    "lookup_name (ram s) (fs s) cs = Some i \<Longrightarrow> read32 (ram t) (dentry_addr (fs t) i + 32) = read32 (ram s) (dentry_addr (fs s) i + 32)"
    "node_rest (ram t) (fs t) = node_rest (ram s) (fs s)"
proof -
  have l: "image_layout (ram s) (fs s)" "dir_ok (ram s) (fs s)" "same_disk (fs s) (fs t)" "same_image (fs s) (ram s) (ram t)"
    using assms by (simp_all add: program_ready_def keeps_def)
  show "dir_ok (ram t) (fs t)" using l(2) same_disk_names(3) [OF l(3)] same_image_dir(1) [OF l(1,4)] by simp
  show "lookup_name (ram t) (fs t) = lookup_name (ram s) (fs s)"
    using same_disk_names(5) [OF l(3)] same_image_dir(3) [OF l(1,4)] by (simp add: fun_eq_iff)
  show "node_rest (ram t) (fs t) = node_rest (ram s) (fs s)"
    using same_disk_names(9) [OF l(3)] same_image_rest [OF l(1,4)] by (simp add: fun_eq_iff)
  show "read32 (ram t) (dentry_addr (fs t) i + 32) = read32 (ram s) (dentry_addr (fs s) i + 32)" if "lookup_name (ram s) (fs s) cs = Some i"
    using same_disk_view(1) [OF l(3)] same_image_type [OF l(1,4) lookup_name_below [OF that]] by simp
qed

text \<open>What \<open>open\<close> of the name in the program's array ends with.\<close>

lemma kernel_open:
  fixes s :: "'a kernel_scheme"
  assumes r: "program_ready area pa s" and p: "curr_pcb s = Some p" and b: "length b \<le> 2048"
    and cs: "holds_string (list_view b) cs" "length cs < 32" "take 5 cs \<noteq> text_of ''stdin''" "take 6 cs \<noteq> text_of ''stdout''"
  shows "case Option.bind (lookup_name (ram s) (fs s) cs) (\<lambda>i. open_choice (read32 (ram s) (dentry_addr (fs s) i + 32)) p) of
      None \<Rightarrow> \<exists>s'. sys_open (kernel_os hs area) b s = Some (ERR, s') \<and> program_ready area pa s' \<and> tty s' = tty s \<and>
        keeps s s' \<and> curr_pcb s' = Some p
    | Some (fd, ops) \<Rightarrow> \<exists>s' q. sys_open (kernel_os hs area) b s = Some (of_nat fd, s') \<and> program_ready area pa s' \<and> tty s' = tty s \<and>
        keeps s s' \<and> curr_pcb s' = Some q \<and> opened_as fd ops cs p q \<and> fs_dir_read_flag (fs s') = fs_dir_read_flag (fs s) \<and>
        map_option int (lookup_name (ram s) (fs s) cs) = Some (file_pos_keeper (fs s'))"
proof -
  have fp: "files_ok p" using r p by (auto simp: program_ready_def)
  let ?t = "area_state pa b s"
  note at = area_keeps [OF r b] and kl = keeps_lookup [OF r area_keeps(1) [OF r b]]
  have c: "curr_pcb ?t = Some p" "con_inv ?t" using p r by (simp_all add: program_ready_def)
  note oc = open_call_file [OF c(1) fp kernel_string [OF r b cs(1)] cs(2-4) kl(1)]
  have same: "Option.bind (lookup_name (ram ?t) (fs ?t) cs) (\<lambda>i. open_choice (read32 (ram ?t) (dentry_addr (fs ?t) i + 32)) p) =
      Option.bind (lookup_name (ram s) (fs s) cs) (\<lambda>i. open_choice (read32 (ram s) (dentry_addr (fs s) i + 32)) p)"
    unfolding kl(2) using kl(3) [of cs] by (cases "lookup_name (ram s) (fs s) cs") simp_all
  show ?thesis
  proof (cases "Option.bind (lookup_name (ram s) (fs s) cs) (\<lambda>i. open_choice (read32 (ram s) (dentry_addr (fs s) i + 32)) p)")
    case None
    then obtain u where u: "open_call area ?t = Some (ERR, u)" "same_memory ?t u" using oc unfolding same by auto
    note k = keeps_memory [OF u(2) c(2)]
    have ku: "keeps s (resumed u)" using keeps_trans [OF at(1) k(1)] by simp
    have "program_ready area pa (resumed u)" by (rule keeps_ready [OF r ku _ fp]) (use k(3) p in simp)
    moreover have "sys_open (kernel_os hs area) b s = Some (ERR, resumed u)"
      by (rule array_calls(3) [OF r b _ u(1)]) (use same_memory_fields(3) [OF u(2)] in simp)
    ultimately show ?thesis using ku k at(2) p None by auto
  next
    case (Some z)
    obtain fd ops where z: "z = (fd, ops)" by force
    with Some obtain v q where v: "open_call area ?t = Some (of_nat fd, set_curr_pcb q v)" "same_memory ?t v" "opened_as fd ops cs p q"
        "map_option int (lookup_name (ram ?t) (fs ?t) cs) = Some (file_pos_keeper (fs v))"
      using oc unfolding same by auto
    let ?u = "set_curr_pcb q v"
    note k = keeps_memory [OF v(2) c(2)]
    have q: "curr_pcb ?u = Some q"
      using c(1) k(3) by (auto simp: curr_pcb_def set_curr_pcb_def split: if_splits)
    have "files_ok q" using call_step_files [OF open_call_step [OF v(1)]] c(1) fp q by auto
    have ku: "keeps s (resumed ?u)" using keeps_trans [OF at(1) k(1)] by simp
    have "program_ready area pa (resumed ?u)" by (rule keeps_ready [OF r ku _ \<open>files_ok q\<close>]) (use q in simp)
    moreover have "sys_open (kernel_os hs area) b s = Some (of_nat fd, resumed ?u)"
      by (rule array_calls(3) [OF r b _ v(1)]) (use same_memory_fields(3) [OF v(2)] in \<open>simp add: set_curr_pcb_def\<close>)
    moreover have "tty ?u = tty s" using k(2) at(2) by (simp add: tty_def position_def set_curr_pcb_def)
    moreover have "fs_dir_read_flag (fs ?u) = fs_dir_read_flag (fs s)"
      using same_memory_fields(4) [OF v(2)] by (auto simp: set_curr_pcb_def)
    moreover have "map_option int (lookup_name (ram s) (fs s) cs) = Some (file_pos_keeper (fs ?u))"
      using v(4) unfolding kl(2) by (simp add: set_curr_pcb_def)
    ultimately show ?thesis using ku q v(3) Some z by (auto intro!: exI [of _ "resumed ?u"])
  qed
qed

text \<open>The contents of a file that was opened.\<close>

lemma opened_rest:
  assumes r: "program_ready area pa s" "keeps s t" and q: "curr_pcb t = Some q" "opened_as fd File_ops cs p q" "files_ok p" "fd < 8"
  shows "file_rest (of_nat fd) t = node_rest (ram s) (fs s) cs 0"
proof -
  have "length (file_array p) = 8" using q(3) by (simp add: files_ok_def pcb_shape_def)
  then have n: "fop (file_array q ! fd) = Some File_ops" "file_pos (file_array q ! fd) = 0"
    using q(2,4) by (simp_all add: opened_as_def opened_node_def)
  have nm: "0 \<in> set (drop (32 * fd) (file_names q))" "fd_name q fd = cs" using q(2) name_view_fd by (auto simp: opened_as_def)
  have "unat (of_nat fd :: u32) = fd" using fd_sint q(4) by simp
  then show ?thesis unfolding file_rest_def q(1) using n nm q(4) keeps_lookup(4) [OF r] by (simp only: option.case simp_thms if_True unat_0)
qed

end
