(* ===== verification/User_Files.thy ===== *)
theory User_Files
  imports User_Kernel
begin

text \<open>
  Programs that work on files, on this kernel: \<open>cat\<close> prints a file, \<open>ls\<close> prints the directory.
\<close>

section \<open>cat\<close>

lemma cat_run:
  fixes s :: "'a kernel_scheme"
  assumes r: "program_ready area pa s" "curr_pcb s = Some p" "length buf = 1024"
    and arg: "holds_string (list_view (arg_buffer p)) cs" "cs \<noteq> []" "length cs < 32"
      "take 5 cs \<noteq> text_of ''stdin''" "take 6 cs \<noteq> text_of ''stdout''"
  shows "case lookup_name (ram s) (fs s) cs of
      None \<Rightarrow> \<exists>s'. cat (kernel_os hs area) buf s = Some (2, s') \<and> running area pa hs s s' \<and>
        tty s' = tty_write (text_of ''file not found\<newline>'') (tty s)
    | Some i \<Rightarrow> open_choice (read32 (ram s) (dentry_addr (fs s) i + 32)) p = Some (fd, File_ops) \<longrightarrow>
        file_ok (ram s) (fs s) (read32 (ram s) (dentry_addr (fs s) i + 36)) \<longrightarrow>
        (\<exists>s'. cat (kernel_os hs area) buf s = Some (0, s') \<and> running area pa hs s s' \<and>
          tty s' = tty_write (program_bytes (ram s) (fs s) (read32 (ram s) (dentry_addr (fs s) i + 36))) (tty s))"
proof -
  let ?b = "cs @ 0 # drop (length cs + 1) buf"
  obtain t where t: "sys_getargs (kernel_os hs area) buf 1024 s = Some (0, ?b, t)" "program_ready area pa t" "tty t = tty s" "curr_pcb t = Some p"
      "keeps s t"
    using kernel_getargs [OF r(1,2) _ _ arg(1,2), of buf hs] arg(3) r(3) by auto
  have b: "length ?b = 1024" "holds_string (list_view ?b) cs" using r(3) arg(1,3) holds_string_list [of cs ?b] by (auto simp: holds_string_def)
  have fp: "files_ok p" using r(1,2) by (auto simp: program_ready_def)
  have "running area pa hs s s" using r(1) since_refl by (simp add: running_def)
  then have rt: "running area pa hs s t" by (rule running_step [OF _ t(5,2)]) (rule kernel_os_step(4) [OF _ r(2) t(1)])
  note kl = keeps_lookup [OF r(1) t(5)]
  note o = kernel_open [OF t(2,4) _ b(2) arg(3-5), of hs, unfolded kl(2)]
  show ?thesis
  proof (cases "lookup_name (ram s) (fs s) cs")
    case None
    then obtain u where u: "sys_open (kernel_os hs area) ?b t = Some (ERR, u)" "program_ready area pa u" "tty u = tty t" "keeps t u"
      using o b(1) by auto
    have "running area pa hs s u" by (rule running_step [OF rt u(4,2)]) (rule kernel_os_step(3) [OF _ t(4) u(1)])
    from kernel_files.literal_prints [OF this, of "''file not found\<newline>''"] obtain v where
      "ece391_fdputs (kernel_os hs area) 1 (c_string ''file not found\<newline>'') u = Some v" "running area pa hs s v"
      "tty v = tty_write (text_of ''file not found\<newline>'') (tty u)" by (auto simp: text_of_def)
    then show ?thesis using None t u by (simp add: cat_def)
  next
    case (Some i)
    let ?ino = "read32 (ram s) (dentry_addr (fs s) i + 36)"
    note o' = o [unfolded Some Option.bind.bind_lunit kl(3) [OF Some]]
    show ?thesis unfolding Some
    proof (simp only: option.case, intro impI)
      assume c: "open_choice (read32 (ram s) (dentry_addr (fs s) i + 32)) p = Some (fd, File_ops)" and f: "file_ok (ram s) (fs s) ?ino"
      have fd: "2 \<le> fd" "fd < 8" using open_choice_range [OF c] by auto
      obtain u q where u: "sys_open (kernel_os hs area) ?b t = Some (of_nat fd, u)" "program_ready area pa u" "tty u = tty t"
          "keeps t u" "curr_pcb u = Some q" "opened_as fd File_ops cs p q"
        using o' c b(1) by auto
      have ru: "running area pa hs s u" by (rule running_step [OF rt u(4,2)]) (rule kernel_os_step(3) [OF _ t(4) u(1)])
      have "file_rest (of_nat fd) u = node_rest (ram s) (fs s) cs 0"
        using opened_rest [OF t(2) u(4-6) fp fd(2)] kl(4) by simp
      then have rest: "file_rest (of_nat fd) u = Some (program_bytes (ram s) (fs s) ?ino)" using Some f by (simp add: node_rest_def)
      have "(of_nat fd :: u32) \<noteq> ERR" using fd by (intro small_not_error(2)) simp_all
      then show "\<exists>s'. cat (kernel_os hs area) buf s = Some (0, s') \<and> running area pa hs s s' \<and>
          tty s' = tty_write (program_bytes (ram s) (fs s) ?ino) (tty s)"
        using kernel_files.cat_loop_prints [OF ru rest b(1)] t u(1,3) by (auto simp: cat_def)
    qed
  qed
qed

text \<open>C5: The program \<open>cat\<close> on this kernel. With the name of a regular file as its argument it prints exactly the bytes of
  that file on the screen, however long the file is, and exits with 0; with a name that is not in the directory it
  prints \<open>file not found\<close> and exits with 2. This holds whatever the program's array contains at the start, and the
  state is again one in which the program can go on working.\<close>

theorem cat_prints_file:
  fixes s :: "'a kernel_scheme"
  assumes r: "program_ready area pa s" "curr_pcb s = Some p" "length buf = 1024"
    and arg: "holds_string (list_view (arg_buffer p)) cs" "cs \<noteq> []" "length cs < 32"
      "take 5 cs \<noteq> text_of ''stdin''" "take 6 cs \<noteq> text_of ''stdout''"
  shows "case lookup_name (ram s) (fs s) cs of
      None \<Rightarrow> \<exists>s'. cat (kernel_os hs area) buf s = Some (2, s') \<and> program_ready area pa s' \<and>
        tty s' = tty_write (text_of ''file not found\<newline>'') (tty s)
    | Some i \<Rightarrow> open_choice (read32 (ram s) (dentry_addr (fs s) i + 32)) p = Some (fd, File_ops) \<longrightarrow>
        file_ok (ram s) (fs s) (read32 (ram s) (dentry_addr (fs s) i + 36)) \<longrightarrow>
        (\<exists>s'. cat (kernel_os hs area) buf s = Some (0, s') \<and> program_ready area pa s' \<and>
          tty s' = tty_write (program_bytes (ram s) (fs s) (read32 (ram s) (dentry_addr (fs s) i + 36))) (tty s))"
  using cat_run [OF assms, of hs fd] by (auto simp: running_def split: option.splits)

definition demo_cat :: kernel where
  "demo_cat = demo_kernel\<lparr>pcbs := (replicate 6 zero_pcb)[0 := demo_pcb\<lparr>arg_buffer := 0x61 # 0 # replicate 98 0\<rparr>]\<rparr>"

lemma demo_cat_fields:
  "ram demo_cat = demo_ram" "fs demo_cat = demo_files" "mmu demo_cat = mmu demo_shell" "con_inv demo_cat" "con_inv demo_shell"
  "curr_pcb demo_cat = Some (demo_pcb\<lparr>arg_buffer := 0x61 # 0 # replicate 98 0\<rparr>)"
  by (simp_all add: demo_cat_def demo_shell_def demo_kernel_def curr_pcb_def con_inv_def)

text \<open>An image of one inode and one data block at 0x1000.\<close>

definition small_image :: "memory \<Rightarrow> bool" where
  "small_image m \<longleftrightarrow> num_inodes m demo_files = 1 \<and> num_data_blocks m demo_files = 1 \<and> dir_ok m demo_files"

lemma small_image_outside:
  assumes "small_image m" "0x4000 \<le> n" "n < 2 ^ 32"
  shows "of_nat n \<notin> disk_image m demo_files"
proof
  assume "of_nat n \<in> disk_image m demo_files"
  then obtain k where k: "k < 12288" "(of_nat n :: u32) = of_nat (0x1000 + k)"
    using assms(1) by (auto simp: disk_image_def small_image_def demo_files_def)
  have "unat (of_nat n :: u32) = n" "unat (of_nat (0x1000 + k) :: u32) = 0x1000 + k" by (rule unat_offset; use assms k(1) in simp)+
  then have "n = 0x1000 + k" unfolding k(2) by simp
  then show False using assms(2) k(1) by simp
qed

lemma demo_ready:
  assumes "small_image (ram s)" "fs s = demo_files" "mmu s = mmu demo_shell" "con_inv s" "curr_pcb s = Some p" "files_ok p"
  shows "program_ready 0x08048200 0x848200 s"
proof -
  have "maps_range (mmu demo_shell) (0x08000000 + of_nat 0x48200) (task_frame 0 + of_nat 0x48200) 2048"
    unfolding demo_shell_fields by (rule maps_range_task) (simp_all add: paging_ok_steps demo_paging_ok)
  then have m: "maps_range (mmu demo_shell) 0x08048200 0x848200 2048" by (simp add: task_frame_def)
  have p: "0x848200 + of_nat j \<notin> disk_image (ram s) demo_files" if "j < 2048" for j
    using small_image_outside [OF assms(1), of "0x848200 + j"] that by simp
  have v: "vaddr j \<notin> disk_image (ram s) demo_files \<and> vaddr j + 1 \<notin> disk_image (ram s) demo_files" if "j < 2000" for j
    using small_image_outside [OF assms(1), of "0xB8000 + 2 * j"] small_image_outside [OF assms(1), of "0xB8000 + 2 * j + 1"] that
    by (simp add: vaddr_def)
  have o: "off_screen 0x848200 2048" "off_kernel 0x848200 2048" by (rule off_screen_high off_kernel_high; simp)+
  have i: "image_layout (ram s) demo_files" using assms(1) by (simp add: image_layout_def small_image_def) (simp add: demo_files_def)
  show ?thesis unfolding program_ready_def using assms m p v o i by (simp add: small_image_def)
qed

lemma demo_small: "small_image demo_ram"
  by (simp add: small_image_def demo_inode demo_dir_ok)

theorem cat_prints_file_witness:
  "(\<exists>s'. cat (kernel_os [] 0x08048200) (replicate 1024 0) demo_cat = Some (0, s') \<and>
      tty s' = tty_write (program_bytes demo_ram demo_files 0) (tty demo_cat)) \<and>
   (\<exists>s'. cat (kernel_os [] 0x08048200) (replicate 1024 0) demo_shell = Some (2, s') \<and>
      tty s' = tty_write (text_of ''file not found\<newline>'') (tty demo_shell))"
proof -
  let ?p = "demo_pcb\<lparr>arg_buffer := 0x61 # 0 # replicate 98 0\<rparr>"
  have ok: "files_ok ?p" using demo_pcb_ok(1) by (simp add: files_ok_def pcb_shape_def open_fds_def)
  have c: "open_choice (read32 demo_ram (dentry_addr demo_files 0 + 32)) ?p = Some (3, File_ops)"
    using demo_choice by (simp add: open_choice_spec)
  have f: "file_ok demo_ram demo_files 0" by (simp add: file_ok_def demo_inode blocks_valid_def)
  have a: "holds_string (list_view (arg_buffer ?p)) [0x61]" by (intro holds_string_list) simp_all
  have "arg_buffer demo_pcb = 0x78 # 0 # replicate 98 0" by (simp add: demo_pcb_def)
  then have x: "holds_string (list_view (arg_buffer demo_pcb)) [0x78]" by (intro holds_string_list) simp_all
  have n: "take 5 [0x61] \<noteq> text_of ''stdin''" "take 6 [0x61] \<noteq> text_of ''stdout''" by (simp_all add: text_of_def)
  show ?thesis
    using cat_prints_file [OF demo_ready [OF _ demo_cat_fields(2-4,6) ok] demo_cat_fields(6) _ a _ _ n, of "replicate 1024 0" "[]" 3] c f
      cat_prints_file [OF demo_ready [OF _ demo_shell_fields(2) refl demo_cat_fields(5) demo_shell_fields(5) demo_pcb_ok(1)]
        demo_shell_fields(5) _ x _ _ demo_open_name(2,3), of "replicate 1024 0" "[]" 3]
    unfolding demo_cat_fields(1,2) demo_shell_fields(1,2) demo_program(2) demo_no_file by (auto simp: demo_inode demo_small)
qed

section \<open>ls\<close>

text \<open>The names a listing has still to deliver, where every entry has a name.\<close>

definition names_from :: "memory \<Rightarrow> fsys \<Rightarrow> nat \<Rightarrow> u8 list list" where
  "names_from m f i = map (disk_name m f) [i..<dir_count m f]"

definition names_left :: "memory \<Rightarrow> fsys \<Rightarrow> u8 list \<Rightarrow> u8 list list option" where
  "names_left m f cs =
     (if \<exists>i<dir_count m f. disk_name m f i = [] then None
      else if fs_dir_read_flag f = 0
      then (case lookup_name m f cs of None \<Rightarrow> None | Some i \<Rightarrow> if i < dir_count m f then Some (names_from m f i) else None)
      else if fs_dir_read_flag f = 1 \<and> 0 \<le> file_pos_keeper f \<and> file_pos_keeper f < 63
      then Some (names_from m f (nat (file_pos_keeper f) + 1)) else None)"

definition dir_left :: "u32 \<Rightarrow> 'a kernel_scheme \<Rightarrow> u8 list list option" where
  "dir_left fd s =
     (case curr_pcb s of
        None \<Rightarrow> None
      | Some p \<Rightarrow>
          if unat fd < 8 \<and> fop (file_array p ! unat fd) = Some Dir_ops \<and> 0 \<in> set (drop (32 * unat fd) (file_names p))
          then names_left (ram s) (fs s) (fd_name p (unat fd)) else None)"

lemma disk_name_short: "length (disk_name m f i) \<le> 32"
  using length_takeWhile_le [of "\<lambda>c. c \<noteq> 0" "bytes_at m (dentry_addr f i) 32"] by (simp add: disk_name_def bytes_at_def)

lemma same_image_listing:
  assumes "image_layout m f" "same_image f m m'"
  shows "dir_count m' f = dir_count m f" "i < dir_count m f \<Longrightarrow> disk_name m' f i = disk_name m f i" "names_left m' f cs = names_left m f cs"
proof -
  have "read32 m' (fs_bootblk f) = read32 m (fs_bootblk f)" using same_image_read32 [OF assms(2), of 0] by simp
  then show c: "dir_count m' f = dir_count m f" by (simp add: dir_count_def)
  show d: "disk_name m' f i = disk_name m f i" if "i < dir_count m f" for i
    using same_image_dir(2) [OF assms, of i] that by (simp add: dir_count_def)
  have "names_from m' f i = names_from m f i" for i using d by (simp add: names_from_def c)
  then show "names_left m' f cs = names_left m f cs" using c d same_image_dir(3) [OF assms] by (simp add: names_left_def cong: conj_cong split: option.split)
qed

lemma names_from_length [simp]: "length (names_from m f i) = dir_count m f - i"
  by (simp add: names_from_def)

lemma names_from_step: "i < dir_count m f \<Longrightarrow> names_from m f i = disk_name m f i # names_from m f (i + 1)"
  by (simp add: names_from_def upt_conv_Cons)

lemma listing_step:
  assumes n: "names_left m f cs = Some nms" and v: "holds_string v cs" "dir_ok m f"
  shows "case nms of
      [] \<Rightarrow> \<exists>f'. fs_dir_ls_read_helper m v local_dentry f = Some (0, [], f') \<and> same_disk f f'
    | nm # ms \<Rightarrow> \<exists>f'. fs_dir_ls_read_helper m v local_dentry f = Some (of_nat (length nm), nm @ replicate (33 - length nm) 0, f') \<and>
        same_disk f f' \<and> names_left m f' cs = Some ms \<and> 0 < length nm \<and> length nm \<le> 32 \<and>
        fs_dir_read_flag f' = 1 \<and> file_pos_keeper f' = int (dir_count m f - length nms)"
proof -
  have d: "dentry_ok local_dentry" by (simp add: dentry_ok_def local_dentry_def)
  have named: "\<not> (\<exists>i<dir_count m f. disk_name m f i = [])" using n by (auto simp: names_left_def split: if_splits)
  have after: "names_left m f' cs = Some (names_from m f (i + 1))"
    if "same_disk f f'" "fs_dir_read_flag f' = 1" "file_pos_keeper f' = int i" "i < dir_count m f" for f' i
    using that named same_disk_names [OF that(1)] by (simp add: names_left_def names_from_def dir_count_def)
  show ?thesis
  proof (cases "fs_dir_read_flag f = 0")
    case True
    then obtain i where i: "lookup_name m f cs = Some i" "i < dir_count m f" "nms = names_from m f i"
      using n by (auto simp: names_left_def split: if_splits option.splits)
    let ?f = "f\<lparr>fs_dir_read_flag := 1, file_pos_keeper := int i\<rparr>"
    have "fs_dir_ls_read_helper m v local_dentry f = Some (of_nat (length (disk_name m f i)), name_field m f i, ?f)"
      using ls_first [OF True v d] i(1) by simp
    moreover have "names_left m ?f cs = Some (names_from m f (i + 1))" by (rule after) (use i(2) in simp_all)
    ultimately show ?thesis using i(2,3) named disk_name_short [of m f i] by (auto simp: names_from_step name_field_def)
  next
    case False
    then have k: "fs_dir_read_flag f = 1" "0 \<le> file_pos_keeper f" "file_pos_keeper f < 63" "nms = names_from m f (nat (file_pos_keeper f) + 1)"
      using n by (auto simp: names_left_def split: if_splits)
    let ?k = "nat (file_pos_keeper f) + 1" and ?f = "f\<lparr>file_pos_keeper := int (nat (file_pos_keeper f) + 1)\<rparr>"
    note l = ls_next [OF k(1-3) v(2) d, of v]
    show ?thesis
    proof (cases "?k < dir_count m f")
      case True
      have "names_left m ?f cs = Some (names_from m f (?k + 1))" by (rule after) (use k(1) True in simp_all)
      then show ?thesis using l True k(1,4) named disk_name_short [of m f ?k]
        by (simp add: names_from_step name_field_def del: of_nat_add of_nat_Suc)
    next
      case False
      then show ?thesis using l k(4) by (simp add: names_from_def)
    qed
  qed
qed

lemma keeps_listing:
  assumes "program_ready area pa s" "keeps s t" "curr_pcb t = curr_pcb s" "fs t = fs s"
  shows "dir_left fd t = dir_left fd s"
proof -
  have "image_layout (ram s) (fs s)" "same_image (fs s) (ram s) (ram t)" using assms(1,2) by (simp_all add: program_ready_def keeps_def)
  from same_image_listing(3) [OF this] show ?thesis using assms(3,4) by (simp add: dir_left_def split: option.split)
qed

lemma kernel_dir_read:
  fixes s :: "'a kernel_scheme"
  assumes r: "program_ready area pa s" and n: "dir_left fd s = Some nms" and b: "length b = 33"
  shows "\<exists>s' b'. sys_read (kernel_os hs area) fd b 32 s = Some (case nms of [] \<Rightarrow> 0 | nm # _ \<Rightarrow> of_nat (length nm), b', s') \<and>
    program_ready area pa s' \<and> tty s' = tty s \<and> length b' = 33 \<and> keeps s s' \<and> curr_pcb s' = curr_pcb s \<and>
    (\<forall>nm ms. nms = nm # ms \<longrightarrow> take (length nm) b' = nm \<and> dir_left fd s' = Some ms \<and> 0 < length nm \<and> length nm \<le> 32 \<and>
      fs_dir_read_flag (fs s') = 1 \<and> file_pos_keeper (fs s') = int (dir_count (ram s) (fs s) - length nms))"
proof -
  obtain p where p: "curr_pcb s = Some p" "unat fd < 8" "fop (file_array p ! unat fd) = Some Dir_ops"
      "0 \<in> set (drop (32 * unat fd) (file_names p))" "names_left (ram s) (fs s) (fd_name p (unat fd)) = Some nms"
    using n by (auto simp: dir_left_def split: option.splits if_splits)
  have fp: "files_ok p" using r p(1) by (auto simp: program_ready_def)
  have b': "length b \<le> 2048" using b by simp
  let ?t = "area_state pa b s" and ?cs = "fd_name p (unat fd)" and ?m = "write_bytes (ram s) pa b"
  note at = area_keeps [OF r b']
  have a: "image_layout (ram s) (fs s)" "maps_range (mmu s) area pa 2048" "off_screen pa 2048" "con_inv s" "off_kernel pa 2048"
    using r by (simp_all add: program_ready_def)
  have i1: "same_image (fs s) (ram s) ?m" by (rule write_same_image [OF r b'])
  have "names_left ?m (fs s) ?cs = Some nms" using same_image_listing(3) [OF a(1) i1] p(5) by simp
  note st = listing_step [OF this fd_name_string [OF p(4)], of] 
  have "dir_ok ?m (fs s)" using keeps_lookup(1) [OF r at(1)] by simp
  note st = st [OF this]
  obtain k ys f' where h: "fs_dir_ls_read_helper ?m (name_view p (unat fd)) local_dentry (fs s) = Some (k, ys, f')" "same_disk (fs s) f'"
      "length ys \<le> 33" "k = (case nms of [] \<Rightarrow> 0 | nm # _ \<Rightarrow> of_nat (length nm))"
      "\<forall>nm ms. nms = nm # ms \<longrightarrow> ys = nm @ replicate (33 - length nm) 0 \<and> names_left ?m f' ?cs = Some ms \<and> 0 < length nm \<and> length nm \<le> 32 \<and>
        fs_dir_read_flag f' = 1 \<and> file_pos_keeper f' = int (dir_count ?m (fs s) - length nms)"
    using st by (cases nms) (auto split: list.splits)
  let ?u = "?t\<lparr>fs := f', ram := write_bytes ?m pa ys\<rparr>"
  have "node_ok (unat fd) (file_array p ! unat fd)" using fp p(2) by (simp add: files_ok_def)
  moreover have s: "sint fd = int (unat fd)" using fd_sint [OF p(2)] by simp
  have "\<not> sint fd < 0" "\<not> sint fd > 7" unfolding s using p(2) by linarith+
  ultimately have "open_node fd p = Some (file_array p ! unat fd)" using p(2,3) by (auto simp: open_node_def Let_def node_ok_def)
  moreover have "uwrite area ys (?t\<lparr>fs := f'\<rparr>) = Some ?u"
    using uwrite_range [of "?t\<lparr>fs := f'\<rparr>" area pa ys] a(2) h(3) maps_range_le [OF a(2), of "length ys"] off_kernel_le [OF a(5), of "length ys"]
    by simp
  ultimately have rd: "read_call hs fd area 32 ?t = Some (k, ?u)"
    using p(1,3) h(1) by (simp add: read_call_def fs_dir_read_def)
  have i2: "same_image (fs s) ?m (write_bytes ?m pa ys)" using write_same_image [OF area_ready [OF r b'], of ys] h(3) by simp
  have ku: "keeps s ?u"
    using at(1) same_image_trans [OF i1 i2] h(2) a(4) by (simp add: keeps_def input_frame_def con_inv_def)
  have sr: "sys_read (kernel_os hs area) fd b 32 s = Some (k, ys @ drop (length ys) b, resumed ?u)"
    using array_calls(1) [OF r b' _ rd] bytes_at_overwrite [of ys b "ram s" pa] h(3) b by simp
  have y: "tty ?u = tty s"
  proof -
    have "tty ?u = tty (?t\<lparr>ram := write_bytes (ram ?t) pa ys\<rparr>)" by (simp add: tty_def position_def)
    also have "\<dots> = tty ?t" by (rule tty_write_area [OF a(3)]) (use h(3) in simp)
    finally show ?thesis using at(2) by simp
  qed
  have left: "dir_left fd ?u = Some ms" if "nms = nm # ms" for nm ms
  proof -
    have l1: "image_layout ?m f'" using same_image_layout [OF i1] same_disk_names(2) [OF h(2)] a(1) by simp
    have l2: "same_image f' ?m (write_bytes ?m pa ys)" using i2 same_disk_names(10) [OF h(2)] by simp
    have "names_left (write_bytes ?m pa ys) f' ?cs = Some ms" using same_image_listing(3) [OF l1 l2, of ?cs] h(5) that by simp
    then show ?thesis using p by (simp add: dir_left_def)
  qed
  have ready: "program_ready area pa (resumed ?u)" by (rule keeps_ready [OF r _ _ fp]) (use ku p(1) in simp_all)
  have same: "dir_left fd (resumed ?u) = dir_left fd ?u" by (simp add: dir_left_def split: option.split)
  have fin: "take (length nm) (ys @ drop (length ys) b) = nm \<and> dir_left fd (resumed ?u) = Some ms \<and> 0 < length nm \<and> length nm \<le> 32 \<and>
      fs_dir_read_flag (fs (resumed ?u)) = 1 \<and> file_pos_keeper (fs (resumed ?u)) = int (dir_count (ram s) (fs s) - length nms)"
    if "nms = nm # ms" for nm ms
    using h(5) that left [OF that] same_image_listing(1) [OF a(1) i1] unfolding same by simp
  have "length (ys @ drop (length ys) b) = 33" using h(3) b by simp
  then show ?thesis using sr [unfolded h(4)] ready y fin ku p(1)
    by (intro exI [of _ "resumed ?u"] exI [of _ "ys @ drop (length ys) b"] conjI allI impI) simp_all
qed

interpretation kernel_dir: dir_reader "kernel_os (hs :: ('a kernel_scheme \<Rightarrow> 'a kernel_scheme) list) area" "running area pa hs s0" tty dir_left
proof
  fix s s' :: "'a kernel_scheme" and n r fd and b :: "u8 list"
  assume a: "running area pa hs s0 s" "n \<le> length b" "length b \<le> 2048" "sys_write (kernel_os hs area) 1 b (of_nat n) s = Some (r, s')"
  then have p: "program_ready area pa s" by (simp add: running_def)
  then have "keeps s s'" "curr_pcb s' = curr_pcb s" "fs s' = fs s" using kernel_write [OF p a(2,3), of hs] a(4) by auto
  then show "dir_left fd s' = dir_left fd s" by (rule keeps_listing [OF p])
next
  fix s :: "'a kernel_scheme" and fd and b :: "u8 list"
  assume a: "running area pa hs s0 s" "dir_left fd s = Some []" "length b = 33"
  then have r: "program_ready area pa s" by (simp add: running_def)
  obtain p where p: "curr_pcb s = Some p" using r by (auto simp: program_ready_def)
  from kernel_dir_read [OF r a(2,3), of hs] running_step [OF a(1)] kernel_os_step(2) [OF _ p, of hs area fd b 32]
  show "\<exists>s' b'. sys_read (kernel_os hs area) fd b 32 s = Some (0, b', s') \<and> running area pa hs s0 s' \<and> tty s' = tty s"
    unfolding list.case by blast
next
  fix s :: "'a kernel_scheme" and fd nm nms and b :: "u8 list"
  assume a: "running area pa hs s0 s" "dir_left fd s = Some (nm # nms)" "length b = 33"
  then have r: "program_ready area pa s" by (simp add: running_def)
  obtain p where p: "curr_pcb s = Some p" using r by (auto simp: program_ready_def)
  from kernel_dir_read [OF r a(2,3), of hs] running_step [OF a(1)] kernel_os_step(2) [OF _ p, of hs area fd b 32]
  show "\<exists>s' b'. sys_read (kernel_os hs area) fd b 32 s = Some (of_nat (length nm), b', s') \<and>
      running area pa hs s0 s' \<and> tty s' = tty s \<and> length b' = 33 \<and> take (length nm) b' = nm \<and> dir_left fd s' = Some nms \<and>
      0 < length nm \<and> length nm \<le> 32"
    unfolding list.case by blast
qed

lemma directory_opened:
  fixes s :: "'a kernel_scheme"
  assumes r: "program_ready area pa s" "curr_pcb s = Some p"
    and dir: "lookup_name (ram s) (fs s) (text_of ''.'') = Some i" "read32 (ram s) (dentry_addr (fs s) i + 32) = 1" "i < dir_count (ram s) (fs s)"
      "\<forall>j<dir_count (ram s) (fs s). disk_name (ram s) (fs s) j \<noteq> []" "fs_dir_read_flag (fs s) = 0" "free_fd (file_array p) = Some fd"
  shows "\<exists>s' q. sys_open (kernel_os hs area) (c_string ''.'') s = Some (of_nat fd, s') \<and> program_ready area pa s' \<and> tty s' = tty s \<and> keeps s s' \<and>
    curr_pcb s' = Some q \<and> opened_as fd Dir_ops (text_of ''.'') p q \<and> 2 \<le> fd \<and> fd < 8 \<and> dir_left (of_nat fd) s' = Some (names_from (ram s) (fs s) i)"
proof -
  let ?dot = "text_of ''.''"
  have h: "holds_string (list_view (c_string ''.'')) ?dot" by (rule literal_string) (simp add: text_of_def)
  have c: "length (c_string ''.'') \<le> 2048" "length ?dot < 32" "take 5 ?dot \<noteq> text_of ''stdin''" "take 6 ?dot \<noteq> text_of ''stdout''"
    by (simp_all add: c_string_def text_of_def)
  have o: "open_choice (read32 (ram s) (dentry_addr (fs s) i + 32)) p = Some (fd, Dir_ops)"
    using dir(2,6) by (simp add: open_choice_spec)
  obtain t q where t: "sys_open (kernel_os hs area) (c_string ''.'') s = Some (of_nat fd, t)" "program_ready area pa t" "tty t = tty s" "keeps s t"
      "curr_pcb t = Some q" "opened_as fd Dir_ops ?dot p q" "fs_dir_read_flag (fs t) = 0"
    using kernel_open [OF r(1,2) c(1) h c(2-4), of hs] o dir(1,5) by auto
  have fd: "2 \<le> fd" "fd < 8" "unat (of_nat fd :: u32) = fd" using open_choice_range [OF o] fd_sint by auto
  have "files_ok p" using r(1,2) by (auto simp: program_ready_def)
  then have "length (file_array p) = 8" by (simp add: files_ok_def pcb_shape_def)
  then have "fop (file_array q ! fd) = Some Dir_ops" using t(6) fd(2) by (simp add: opened_as_def opened_node_def)
  moreover have "0 \<in> set (drop (32 * fd) (file_names q))" "fd_name q fd = ?dot" using t(6) name_view_fd by (auto simp: opened_as_def)
  moreover have "names_left (ram t) (fs t) ?dot = Some (names_from (ram s) (fs s) i)"
  proof -
    have k: "image_layout (ram s) (fs s)" "same_image (fs s) (ram s) (ram t)" "same_disk (fs s) (fs t)"
      using r(1) t(4) by (simp_all add: program_ready_def keeps_def)
    note d = same_disk_names [OF k(3)] and si = same_image_listing [OF k(1,2)]
    have "names_from (ram t) (fs t) i = names_from (ram s) (fs s) i" using d si by (simp add: names_from_def)
    then show ?thesis using dir t(7) d si keeps_lookup(2) [OF r(1) t(4)] by (simp add: names_left_def)
  qed
  ultimately have "dir_left (of_nat fd) t = Some (names_from (ram s) (fs s) i)" using t(5) fd by (simp add: dir_left_def)
  then show ?thesis using t(1-6) fd by blast
qed

lemma ls_run:
  fixes s :: "'a kernel_scheme"
  assumes r: "program_ready area pa s" "curr_pcb s = Some p" "length buf = 33"
    and dir: "lookup_name (ram s) (fs s) (text_of ''.'') = Some i" "read32 (ram s) (dentry_addr (fs s) i + 32) = 1" "i < dir_count (ram s) (fs s)"
      "\<forall>j<dir_count (ram s) (fs s). disk_name (ram s) (fs s) j \<noteq> []" "fs_dir_read_flag (fs s) = 0" "free_fd (file_array p) = Some fd"
  shows "\<exists>s'. ls (kernel_os hs area) buf s = Some (0, s') \<and> running area pa hs s s' \<and>
    tty s' = tty_write (concat (map (\<lambda>j. disk_name (ram s) (fs s) j @ [NEWLINE]) [i..<dir_count (ram s) (fs s)])) (tty s)"
proof -
  obtain t where t: "sys_open (kernel_os hs area) (c_string ''.'') s = Some (of_nat fd, t)" "program_ready area pa t" "tty t = tty s" "keeps s t"
      "2 \<le> fd" "fd < 8" "dir_left (of_nat fd) t = Some (names_from (ram s) (fs s) i)"
    using directory_opened [OF r(1,2) dir, of hs] by blast
  have "running area pa hs s s" using r(1) since_refl by (simp add: running_def)
  then have "running area pa hs s t" by (rule running_step [OF _ t(4,2)]) (rule kernel_os_step(3) [OF _ r(2) t(1)])
  then obtain u where
    u: "ls_loop (kernel_os hs area) (of_nat fd) buf t = Some (0, u)" "running area pa hs s u"
      "tty u = tty_write (concat (map (\<lambda>nm. nm @ [NEWLINE]) (names_from (ram s) (fs s) i))) (tty t)"
    using kernel_dir.ls_loop_prints [OF _ t(7) r(3)] by blast
  have "(of_nat fd :: u32) \<noteq> ERR" using t(5,6) by (intro small_not_error(2)) simp_all
  then have "ls (kernel_os hs area) buf s = Some (0, u)" using t(1) u(1) by (simp add: ls_def)
  then show ?thesis using u(2,3) t(3) by (simp add: names_from_def comp_def)
qed

text \<open>C8: The program \<open>ls\<close> on this kernel prints the names of the directory from the entry \<open>.\<close> on, one to a line and in
  order, and exits with 0, provided every entry has a name, the entry \<open>.\<close> is a directory and no listing is under
  way.\<close>

theorem ls_prints_directory:
  fixes s :: "'a kernel_scheme"
  assumes r: "program_ready area pa s" "curr_pcb s = Some p" "length buf = 33"
    and dir: "lookup_name (ram s) (fs s) (text_of ''.'') = Some i" "read32 (ram s) (dentry_addr (fs s) i + 32) = 1" "i < dir_count (ram s) (fs s)"
      "\<forall>j<dir_count (ram s) (fs s). disk_name (ram s) (fs s) j \<noteq> []" "fs_dir_read_flag (fs s) = 0" "free_fd (file_array p) = Some fd"
  shows "\<exists>s'. ls (kernel_os hs area) buf s = Some (0, s') \<and> program_ready area pa s' \<and>
    tty s' = tty_write (concat (map (\<lambda>j. disk_name (ram s) (fs s) j @ [NEWLINE]) [i..<dir_count (ram s) (fs s)])) (tty s)"
  using ls_run [OF assms, of hs] by (auto simp: running_def)

text \<open>A directory of two entries, itself and a file.\<close>

definition demo_dir_ram :: memory where
  "demo_dir_ram = demo_ram(0x1000 := 2, 0x1040 := 0x2E, 0x1060 := 1, 0x1080 := 0x61, 0x10A0 := 2)"

lemma one_letter_name:
  assumes "m (dentry_addr f i) \<noteq> 0" "m (dentry_addr f i + 1) = 0"
  shows "disk_name m f i = [m (dentry_addr f i)]"
proof -
  have "bytes_at m a 32 = m a # m (a + 1) # bytes_at m (a + 2) 30" for a
    using bytes_at_Suc [of m a 31] bytes_at_Suc [of m "a + 1" 30] by (simp add: add.assoc)
  then show ?thesis using assms by (simp add: disk_name_def)
qed

lemma demo_dir_small: "small_image demo_dir_ram" "dir_count demo_dir_ram demo_files = 2"
  "read32 demo_dir_ram (dentry_addr demo_files 0 + 32) = 1" "map (disk_name demo_dir_ram demo_files) [0, 1] = [[0x2E], [0x61]]"
proof -
  show "dir_count demo_dir_ram demo_files = 2" "read32 demo_dir_ram (dentry_addr demo_files 0 + 32) = 1" by code_simp+
  have "demo_dir_ram (dentry_addr demo_files 0) = 0x2E" "demo_dir_ram (dentry_addr demo_files 0 + 1) = 0"
    "demo_dir_ram (dentry_addr demo_files 1) = 0x61" "demo_dir_ram (dentry_addr demo_files 1 + 1) = 0" by code_simp+
  then show "map (disk_name demo_dir_ram demo_files) [0, 1] = [[0x2E], [0x61]]" by (simp add: one_letter_name)
  have "num_inodes demo_dir_ram demo_files = 1" "num_data_blocks demo_dir_ram demo_files = 1" by code_simp+
  moreover have "dir_ok demo_dir_ram demo_files"
    by (rule demo_terminated; auto simp: demo_dir_ram_def demo_ram_def split: if_splits)
  ultimately show "small_image demo_dir_ram" by (simp add: small_image_def)
qed

lemma demo_dir_lookup: "lookup_name demo_dir_ram demo_files (text_of ''.'') = Some 0"
proof -
  have "[0..<63] = 0 # [1..<63]" by (simp add: upt_conv_Cons)
  moreover have "disk_name demo_dir_ram demo_files 0 = text_of ''.''" using demo_dir_small(4) by (simp add: text_of_def)
  ultimately show ?thesis by (simp add: lookup_name_def name_matches_def text_of_def)
qed

definition demo_ls :: kernel where
  "demo_ls = demo_cat\<lparr>ram := demo_dir_ram\<rparr>"

theorem ls_prints_directory_witness:
  "\<exists>s'. ls (kernel_os [] 0x08048200) (replicate 33 0) demo_ls = Some (0, s') \<and>
    tty s' = tty_write (text_of ''.\<newline>a\<newline>'') (tty demo_ls)"
proof -
  let ?p = "demo_pcb\<lparr>arg_buffer := 0x61 # 0 # replicate 98 0\<rparr>"
  have ok: "files_ok ?p" using demo_pcb_ok(1) by (simp add: files_ok_def pcb_shape_def open_fds_def)
  have f: "ram demo_ls = demo_dir_ram" "fs demo_ls = demo_files" "mmu demo_ls = mmu demo_shell" "con_inv demo_ls" "curr_pcb demo_ls = Some ?p"
    using demo_cat_fields by (simp_all add: demo_ls_def con_inv_def)
  have "free_fd (file_array demo_pcb) = Some 3"
    using demo_choice by (auto simp: open_choice_spec bind_eq_Some_conv)
  then have fd: "free_fd (file_array ?p) = Some 3" by simp
  have nm: "disk_name demo_dir_ram demo_files 0 = [0x2E]" "disk_name demo_dir_ram demo_files 1 = [0x61]" using demo_dir_small(4) by simp_all
  have ne: "\<forall>j<dir_count demo_dir_ram demo_files. disk_name demo_dir_ram demo_files j \<noteq> []"
    using nm by (auto simp: demo_dir_small(2) less_Suc_eq numeral_2_eq_2)
  have "fs_dir_read_flag demo_files = 0" by (simp add: demo_files_def)
  from ls_prints_directory [OF demo_ready [OF _ f(2-5) ok] f(5), of "replicate 33 0" 0 3 "[]", unfolded f(1,2), OF demo_dir_small(1) _ demo_dir_lookup
      demo_dir_small(3) _ ne this fd]
  obtain s' where s': "ls (kernel_os [] 0x08048200) (replicate 33 0) demo_ls = Some (0, s')"
      "tty s' = tty_write (concat (map (\<lambda>j. disk_name demo_dir_ram demo_files j @ [NEWLINE]) [0..<dir_count demo_dir_ram demo_files])) (tty demo_ls)"
    using demo_dir_small(2) by auto
  have "[0..<2] = [0, 1 :: nat]" by (simp add: upt_rec)
  then show ?thesis using s' nm by (simp add: demo_dir_small(2) text_of_def)
qed

end
