(* ===== verification/User_Tests.thy ===== *)
theory User_Tests
  imports User_Files
begin

text \<open>
  The test program \<open>ece391syserr.c\<close>, which calls the kernel with wrong descriptors, names, addresses and call numbers and reports
  whether every call was refused, over the interface of the system calls; and what it reports when the calls keep
  the laws of the locale \<open>checked_calls\<close>. Local arrays that the tests do not initialise are parameters.
\<close>

section \<open>ece391syserr.c\<close>

abbreviation NEG_FD :: u32 where "NEG_FD \<equiv> -1073741823"
abbreviation BIG_FD :: u32 where "BIG_FD \<equiv> 1073741823"

text \<open>The report on a call that should have failed, and the verdict of a test.\<close>

definition expect_error :: "'s os \<Rightarrow> u32 \<Rightarrow> string \<Rightarrow> u32 \<Rightarrow> 's \<Rightarrow> (u32 \<times> 's) option" where
  "expect_error os r msg fail s =
     (if r \<noteq> ERR then map_option (Pair 2) (ece391_fdputs os 1 (c_string msg) s) else Some (fail, s))"

definition verdict :: "'s os \<Rightarrow> u32 \<Rightarrow> string \<Rightarrow> string \<Rightarrow> 's \<Rightarrow> (u32 \<times> 's) option" where
  "verdict os fail bad good s = map_option (Pair fail) (ece391_fdputs os 1 (c_string (if fail \<noteq> 0 then bad else good)) s)"

definition err_neg_fd :: "'s os \<Rightarrow> u8 list \<Rightarrow> 's \<Rightarrow> (u32 \<times> 's) option" where
  "err_neg_fd os buf s = do {
     (r, buf, s) \<leftarrow> sys_read os NEG_FD buf 31 s;
     (fail, s) \<leftarrow> expect_error os r ''read fail\<newline>'' 0 s;
     (r, s) \<leftarrow> sys_write os NEG_FD buf 31 s;
     (fail, s) \<leftarrow> expect_error os r ''write fail\<newline>'' fail s;
     (r, s) \<leftarrow> sys_close os NEG_FD s;
     (fail, s) \<leftarrow> expect_error os r ''close fail\<newline>'' fail s;
     verdict os fail ''err_neg_fd: FAIL\<newline>'' ''err_neg_fd: PASS\<newline>'' s
   }"

definition err_big_fd :: "'s os \<Rightarrow> u8 list \<Rightarrow> 's \<Rightarrow> (u32 \<times> 's) option" where
  "err_big_fd os buf s = do {
     (r, buf, s) \<leftarrow> sys_read os BIG_FD buf 31 s;
     (fail, s) \<leftarrow> expect_error os r ''read fail\<newline>'' 0 s;
     (r, s) \<leftarrow> sys_write os BIG_FD buf 31 s;
     (fail, s) \<leftarrow> expect_error os r ''write fail\<newline>'' fail s;
     (r, s) \<leftarrow> sys_close os BIG_FD s;
     (fail, s) \<leftarrow> expect_error os r ''close fail\<newline>'' fail s;
     verdict os fail ''err_big_fd: FAIL\<newline>'' ''err_big_fd: PASS\<newline>'' s
   }"

fun open_lots :: "'s os \<Rightarrow> nat \<Rightarrow> nat \<Rightarrow> 's \<Rightarrow> (nat \<times> 's) option" where
  "open_lots os 0 cnt s = Some (cnt, s)"
| "open_lots os (Suc n) cnt s = do {
     (r, s) \<leftarrow> sys_open os (c_string ''.'') s;
     open_lots os n (if r = ERR then cnt + 1 else cnt) s
   }"

fun close_lots :: "'s os \<Rightarrow> nat list \<Rightarrow> 's \<Rightarrow> 's option" where
  "close_lots os [] s = Some s"
| "close_lots os (i # is) s = do { (_, s) \<leftarrow> sys_close os (of_nat i) s; close_lots os is s }"

definition err_open_lots :: "'s os \<Rightarrow> 's \<Rightarrow> (u32 \<times> 's) option" where
  "err_open_lots os s = do {
     (cnt, s) \<leftarrow> open_lots os 7 0 s;
     s \<leftarrow> close_lots os [2..<8] s;
     if cnt = 1 then map_option (Pair 0) (ece391_fdputs os 1 (c_string ''err_open_lots: PASS\<newline>'') s)
     else map_option (Pair 2) (ece391_fdputs os 1 (c_string ''err_open_lots: FAIL\<newline>'') s)
   }"

definition err_open :: "'s os \<Rightarrow> 's \<Rightarrow> (u32 \<times> 's) option" where
  "err_open os s = do {
     (r, s) \<leftarrow> sys_open os (c_string ''helloo'') s;
     (fail, s) \<leftarrow> expect_error os r (CHR 0x27 # ''helloo'' @ CHR 0x27 # '' fail\<newline>'') 0 s;
     (r, s) \<leftarrow> sys_open os (c_string ''shel'') s;
     (fail, s) \<leftarrow> expect_error os r (CHR 0x27 # ''shel'' @ CHR 0x27 # '' fail\<newline>'') fail s;
     (r, s) \<leftarrow> sys_open os (c_string []) s;
     (fail, s) \<leftarrow> expect_error os r ''empty string fail\<newline>'' fail s;
     verdict os fail ''err_open: FAIL\<newline>'' ''err_open: PASS\<newline>'' s
   }"

fun close_unopened :: "'s os \<Rightarrow> nat list \<Rightarrow> u32 \<Rightarrow> 's \<Rightarrow> (u32 \<times> 's) option" where
  "close_unopened os [] fail s = Some (fail, s)"
| "close_unopened os (i # is) fail s = do {
     (r, s) \<leftarrow> sys_close os (of_nat i) s;
     (fail, s) \<leftarrow> expect_error os r ''close unopened or invalid fd fail\<newline>'' fail s;
     close_unopened os is fail s
   }"

fun read_unopened :: "'s os \<Rightarrow> nat list \<Rightarrow> u8 list \<Rightarrow> u32 \<Rightarrow> 's \<Rightarrow> (u32 \<times> u8 list \<times> 's) option" where
  "read_unopened os [] buf fail s = Some (fail, buf, s)"
| "read_unopened os (i # is) buf fail s = do {
     (r, buf, s) \<leftarrow> sys_read os (of_nat i) buf 31 s;
     (fail, s) \<leftarrow> expect_error os r ''read from unopened fd fail\<newline>'' fail s;
     read_unopened os is buf fail s
   }"

fun write_unopened :: "'s os \<Rightarrow> nat list \<Rightarrow> u8 list \<Rightarrow> u32 \<Rightarrow> 's \<Rightarrow> (u32 \<times> 's) option" where
  "write_unopened os [] buf fail s = Some (fail, s)"
| "write_unopened os (i # is) buf fail s = do {
     (r, s) \<leftarrow> sys_write os (of_nat i) buf 31 s;
     (fail, s) \<leftarrow> expect_error os r ''write to unopened fd fail\<newline>'' fail s;
     write_unopened os is buf fail s
   }"

definition err_unopened :: "'s os \<Rightarrow> u8 list \<Rightarrow> 's \<Rightarrow> (u32 \<times> 's) option" where
  "err_unopened os buf s = do {
     (fail, s) \<leftarrow> close_unopened os [0..<8] 0 s;
     (fail, buf, s) \<leftarrow> read_unopened os [2..<8] buf fail s;
     (fail, s) \<leftarrow> write_unopened os [2..<8] buf fail s;
     verdict os fail ''err_unopened: FAIL\<newline>'' ''err_unopened: PASS\<newline>'' s
   }"

definition err_vidmap :: "'s os \<Rightarrow> 's \<Rightarrow> (u32 \<times> 's) option" where
  "err_vidmap os s = do {
     (r, s) \<leftarrow> sys_vidmap os 0 s;
     (fail, s) \<leftarrow> expect_error os r ''Null pointer fail\<newline>'' 0 s;
     (r, s) \<leftarrow> sys_vidmap os 0x400000 s;
     (fail, s) \<leftarrow> expect_error os r ''Kernel pointer fail fail\<newline>'' fail s;
     verdict os fail ''err_vidmap: FAIL\<newline>'' ''err_vidmap: PASS\<newline>'' s
   }"

definition err_stdin_out :: "'s os \<Rightarrow> u8 list \<Rightarrow> 's \<Rightarrow> (u32 \<times> 's) option" where
  "err_stdin_out os buf s = do {
     (r, s) \<leftarrow> sys_write os 0 buf 31 s;
     (fail, s) \<leftarrow> expect_error os r ''write to stdin fail\<newline>'' 0 s;
     (r, buf, s) \<leftarrow> sys_read os 1 buf 31 s;
     (fail, s) \<leftarrow> expect_error os r ''read from stdout fail\<newline>'' fail s;
     verdict os fail ''err_stdin_out: FAIL\<newline>'' ''err_stdin_out: PASS\<newline>'' s
   }"

definition err_syscall_num :: "'s os \<Rightarrow> 's \<Rightarrow> (u32 \<times> 's) option" where
  "err_syscall_num os s = do {
     (r, s) \<leftarrow> sys_number os 1073741823 s;
     (fail, s) \<leftarrow> expect_error os r ''syscall 0 fail\<newline>'' 0 s;
     (r, s) \<leftarrow> sys_number os (-1073741823) s;
     (fail, s) \<leftarrow> expect_error os r ''big num syscall fail\<newline>'' fail s;
     (r, s) \<leftarrow> sys_number os 0 s;
     (fail, s) \<leftarrow> expect_error os r ''neg num syscall fail\<newline>'' fail s;
     verdict os fail ''err_syscall_num: FAIL\<newline>'' ''err_syscall_num: PASS\<newline>'' s
   }"

definition err_all :: "'s os \<Rightarrow> (nat \<Rightarrow> u8 list) \<Rightarrow> 's \<Rightarrow> (u32 \<times> 's) option" where
  "err_all os loc s = do {
     (f1, s) \<leftarrow> err_neg_fd os (loc 1) s;
     (f2, s) \<leftarrow> err_big_fd os (loc 2) s;
     (f3, s) \<leftarrow> err_open_lots os s;
     (f4, s) \<leftarrow> err_open os s;
     (f5, s) \<leftarrow> err_unopened os (loc 5) s;
     (f6, s) \<leftarrow> err_vidmap os s;
     (f7, s) \<leftarrow> err_stdin_out os (loc 7) s;
     (f8, s) \<leftarrow> err_syscall_num os s;
     verdict os (f1 + f2 + f3 + f4 + f5 + f6 + f7 + f8) ''\<newline>Overall Tests: FAIL\<newline>'' ''\<newline>Overall Tests: PASS\<newline>'' s
   }"

definition err_select :: "'s os \<Rightarrow> (nat \<Rightarrow> u8 list) \<Rightarrow> int \<Rightarrow> 's \<Rightarrow> (u32 \<times> 's) option" where
  "err_select os loc select s =
     (if select = 0 then err_all os loc s
      else if select = 1 then err_neg_fd os (loc 1) s
      else if select = 2 then err_big_fd os (loc 2) s
      else if select = 3 then err_open_lots os s
      else if select = 4 then err_open os s
      else if select = 5 then err_unopened os (loc 5) s
      else if select = 6 then err_vidmap os s
      else if select = 7 then err_stdin_out os (loc 7) s
      else if select = 8 then err_syscall_num os s
      else map_option (Pair 0) (ece391_fdputs os 1 (c_string ''Invalid test number. Choose from tests 1-8 or 0'') s))"

definition syserr :: "'s os \<Rightarrow> (nat \<Rightarrow> u8 list) \<Rightarrow> u8 list \<Rightarrow> 's \<Rightarrow> (u32 \<times> 's) option" where
  "syserr os loc buf s = do {
     s \<leftarrow> ece391_fdputs os 1 (c_string ''Choose from tests 1-8. 0 to run all: '') s;
     (cnt, buf, s) \<leftarrow> sys_read os 0 buf 127 s;
     if cnt = ERR then map_option (Pair 2) (ece391_fdputs os 1 (c_string ''Can't read test #\<newline>'') s)
     else do {
       c \<leftarrow> list_view buf 0;
       err_select os loc (uint c - 48) s
     }
   }"

section \<open>Calls that refuse what they should\<close>

text \<open>What the tests expect: reads and writes of descriptors that are not open for them fail, as do calls with other
  numbers, addresses outside the program and names that are absent; a directory can be opened until the table is
  full, and closed again. A refused call leaves no trace.\<close>

locale checked_calls = screen_writer +
  fixes opened :: "'s \<Rightarrow> nat set" and absent :: "'s \<Rightarrow> u8 list \<Rightarrow> bool"
  assumes write_told: "inv s \<Longrightarrow> k \<le> length b \<Longrightarrow> length b \<le> 2048 \<Longrightarrow> sys_write os 1 b (of_nat k) s = Some (r, s') \<Longrightarrow>
      opened s' = opened s \<and> absent s' = absent s"
    and bad_read: "inv s \<Longrightarrow> length b \<le> 2048 \<Longrightarrow> fd = 1 \<or> 2 \<le> unat fd \<and> unat fd \<notin> opened s \<Longrightarrow>
      \<exists>s'. sys_read os fd b n s = Some (ERR, b, s') \<and> inv s' \<and> out s' = out s \<and> opened s' = opened s \<and> absent s' = absent s"
    and bad_write: "inv s \<Longrightarrow> length b \<le> 2048 \<Longrightarrow> fd = 0 \<or> 2 \<le> unat fd \<and> unat fd \<notin> opened s \<Longrightarrow>
      \<exists>s'. sys_write os fd b n s = Some (ERR, s') \<and> inv s' \<and> out s' = out s \<and> opened s' = opened s \<and> absent s' = absent s"
    and bad_close: "inv s \<Longrightarrow> unat fd < 2 \<or> 8 \<le> unat fd \<or> opened s = {} \<Longrightarrow>
      \<exists>s'. sys_close os fd s = Some (ERR, s') \<and> inv s' \<and> out s' = out s \<and> opened s' = opened s \<and> absent s' = absent s"
    and bad_vidmap: "inv s \<Longrightarrow> a < 0x08000000 \<Longrightarrow>
      \<exists>s'. sys_vidmap os a s = Some (ERR, s') \<and> inv s' \<and> out s' = out s \<and> opened s' = opened s \<and> absent s' = absent s"
    and bad_number: "inv s \<Longrightarrow> n > 10 \<or> n < 1 \<Longrightarrow>
      \<exists>s'. sys_number os n s = Some (ERR, s') \<and> inv s' \<and> out s' = out s \<and> opened s' = opened s \<and> absent s' = absent s"
    and bad_open: "inv s \<Longrightarrow> absent s (text_of l) \<Longrightarrow> 0 \<notin> set (text_of l) \<Longrightarrow>
      \<exists>s'. sys_open os (c_string l) s = Some (ERR, s') \<and> inv s' \<and> out s' = out s \<and> opened s' = opened s \<and> absent s' = absent s"
    and opened_fds: "inv s \<Longrightarrow> opened s \<subseteq> {2..<8}"
    and open_dir: "inv s \<Longrightarrow> opened s = {2..<2 + k} \<Longrightarrow> k < 6 \<Longrightarrow>
      \<exists>s'. sys_open os (c_string ''.'') s = Some (of_nat (2 + k), s') \<and> inv s' \<and> out s' = out s \<and> opened s' = {2..<3 + k} \<and> absent s' = absent s"
    and open_full: "inv s \<Longrightarrow> opened s = {2..<8} \<Longrightarrow>
      \<exists>s'. sys_open os (c_string ''.'') s = Some (ERR, s') \<and> inv s' \<and> out s' = out s \<and> opened s' = opened s \<and> absent s' = absent s"
    and close_open: "inv s \<Longrightarrow> i \<in> opened s \<Longrightarrow>
      \<exists>s'. sys_close os (of_nat i) s = Some (0, s') \<and> inv s' \<and> out s' = out s \<and> opened s' = opened s - {i} \<and> absent s' = absent s"
begin

definition told :: "u8 list \<Rightarrow> 's \<Rightarrow> 's \<Rightarrow> bool" where
  "told cs s t \<longleftrightarrow> inv t \<and> out t = tty_write cs (out s) \<and> opened t = opened s \<and> absent t = absent s"

lemma told_trans: "told cs s t \<Longrightarrow> told ds t u \<Longrightarrow> told (cs @ ds) s u"
  by (simp add: told_def tty_write_append)

lemma told_silent: "inv s' \<Longrightarrow> out s' = out s \<Longrightarrow> opened s' = opened s \<Longrightarrow> absent s' = absent s \<Longrightarrow> told [] s s'"
  by (simp add: told_def tty_write_def)

lemma literal_told:
  assumes "inv s" "0 \<notin> set (text_of l)" "length l < 1000"
  shows "\<exists>t. ece391_fdputs os 1 (c_string l) s = Some t \<and> told (text_of l) s t"
proof -
  obtain t where t: "ece391_fdputs os 1 (c_string l) s = Some t" "inv t" "out t = tty_write (text_of l) (out s)"
    using literal_prints [OF assms] by blast
  have "strlen (list_view (c_string l)) = Some (length (text_of l))" by (rule strlen_string [OF literal_string [OF assms(2)]])
  then have "opened t = opened s \<and> absent t = absent s"
    using t(1) write_told [OF assms(1), of "length l" "c_string l"] assms(3)
    by (auto simp: ece391_fdputs_def ece391_strlen_eq text_of_def c_string_def split: bind_splits)
  then show ?thesis using t by (simp add: told_def)
qed

lemma verdict_passes:
  assumes "told [] s t" "0 \<notin> set (text_of good)" "length good < 1000"
  shows "\<exists>u. verdict os 0 bad good t = Some (0, u) \<and> told (text_of good) s u"
proof -
  have "inv t" using assms(1) by (simp add: told_def)
  from literal_told [OF this assms(2,3)] obtain u where "ece391_fdputs os 1 (c_string good) t = Some u" "told (text_of good) t u" by blast
  then show ?thesis using told_trans [OF assms(1)] by (auto simp: verdict_def)
qed

lemma expect_error_met [simp]: "expect_error os ERR msg fail s = Some (fail, s)"
  by (simp add: expect_error_def)

text \<open>A refused call as a silent step.\<close>

lemma told_inv: "told cs s t \<Longrightarrow> inv t" "told [] s t \<Longrightarrow> opened t = opened s" "told [] s t \<Longrightarrow> absent t = absent s"
  by (simp_all add: told_def)

lemma refused:
  assumes "inv s" "length b \<le> 2048"
  shows "fd = 1 \<or> 2 \<le> unat fd \<and> unat fd \<notin> opened s \<Longrightarrow> \<exists>t. sys_read os fd b n s = Some (ERR, b, t) \<and> told [] s t"
    "fd = 0 \<or> 2 \<le> unat fd \<and> unat fd \<notin> opened s \<Longrightarrow> \<exists>t. sys_write os fd b n s = Some (ERR, t) \<and> told [] s t"
    "unat fd < 2 \<or> 8 \<le> unat fd \<or> opened s = {} \<Longrightarrow> \<exists>t. sys_close os fd s = Some (ERR, t) \<and> told [] s t"
    "a < 0x08000000 \<Longrightarrow> \<exists>t. sys_vidmap os a s = Some (ERR, t) \<and> told [] s t"
    "m > 10 \<or> m < 1 \<Longrightarrow> \<exists>t. sys_number os m s = Some (ERR, t) \<and> told [] s t"
    "absent s (text_of l) \<Longrightarrow> 0 \<notin> set (text_of l) \<Longrightarrow> \<exists>t. sys_open os (c_string l) s = Some (ERR, t) \<and> told [] s t"
proof -
  show "fd = 1 \<or> 2 \<le> unat fd \<and> unat fd \<notin> opened s \<Longrightarrow> \<exists>t. sys_read os fd b n s = Some (ERR, b, t) \<and> told [] s t"
    using bad_read [OF assms, of fd n] told_silent by blast
  show "fd = 0 \<or> 2 \<le> unat fd \<and> unat fd \<notin> opened s \<Longrightarrow> \<exists>t. sys_write os fd b n s = Some (ERR, t) \<and> told [] s t"
    using bad_write [OF assms, of fd n] told_silent by blast
  show "unat fd < 2 \<or> 8 \<le> unat fd \<or> opened s = {} \<Longrightarrow> \<exists>t. sys_close os fd s = Some (ERR, t) \<and> told [] s t"
    using bad_close [OF assms(1), of fd] told_silent by blast
  show "a < 0x08000000 \<Longrightarrow> \<exists>t. sys_vidmap os a s = Some (ERR, t) \<and> told [] s t" using bad_vidmap [OF assms(1), of a] told_silent by blast
  show "m > 10 \<or> m < 1 \<Longrightarrow> \<exists>t. sys_number os m s = Some (ERR, t) \<and> told [] s t" using bad_number [OF assms(1), of m] told_silent by blast
  show "absent s (text_of l) \<Longrightarrow> 0 \<notin> set (text_of l) \<Longrightarrow> \<exists>t. sys_open os (c_string l) s = Some (ERR, t) \<and> told [] s t"
    using bad_open [OF assms(1), of l] told_silent by blast
qed

lemma err_fd_passes:
  assumes "inv s" "length b \<le> 2048"
  shows "\<exists>t. err_neg_fd os b s = Some (0, t) \<and> told (text_of ''err_neg_fd: PASS\<newline>'') s t"
    "\<exists>t. err_big_fd os b s = Some (0, t) \<and> told (text_of ''err_big_fd: PASS\<newline>'') s t"
proof -
  have fds: "unat NEG_FD = 3221225473" "unat BIG_FD = 1073741823" by simp_all
  have "\<exists>t. sys_read os fd b 31 s = Some (ERR, b, t) \<and> told [] s t \<and> (\<exists>u. sys_write os fd b 31 t = Some (ERR, u) \<and> told [] s u \<and>
      (\<exists>v. sys_close os fd u = Some (ERR, v) \<and> told [] s v))" if fd: "8 \<le> unat fd" for fd
  proof -
    have o: "unat fd \<notin> opened s'" if "inv s'" for s' using opened_fds [OF that] fd by auto
    obtain t where t: "sys_read os fd b 31 s = Some (ERR, b, t)" "told [] s t" using refused(1) [OF assms, of fd 31] fd o [OF assms(1)] by auto
    note it = told_inv(1) [OF t(2)]
    obtain u where u: "sys_write os fd b 31 t = Some (ERR, u)" "told [] t u" using refused(2) [OF it assms(2), of fd 31] fd o [OF it] by auto
    obtain v where v: "sys_close os fd u = Some (ERR, v)" "told [] u v" using refused(3) [OF told_inv(1) [OF u(2)] assms(2), of fd] fd by auto
    show ?thesis using t u v told_trans [OF t(2) u(2)] told_trans [OF told_trans [OF t(2) u(2)] v(2)] by auto
  qed
  note calls = this
  obtain t u v where "sys_read os NEG_FD b 31 s = Some (ERR, b, t)" "sys_write os NEG_FD b 31 t = Some (ERR, u)"
      "sys_close os NEG_FD u = Some (ERR, v)" "told [] s v" using calls [of NEG_FD] fds by auto
  then show "\<exists>t. err_neg_fd os b s = Some (0, t) \<and> told (text_of ''err_neg_fd: PASS\<newline>'') s t"
    using verdict_passes [of s v "''err_neg_fd: PASS\<newline>''" "''err_neg_fd: FAIL\<newline>''"] by (simp add: err_neg_fd_def text_of_def)
  obtain t u v where "sys_read os BIG_FD b 31 s = Some (ERR, b, t)" "sys_write os BIG_FD b 31 t = Some (ERR, u)"
      "sys_close os BIG_FD u = Some (ERR, v)" "told [] s v" using calls [of BIG_FD] fds by auto
  then show "\<exists>t. err_big_fd os b s = Some (0, t) \<and> told (text_of ''err_big_fd: PASS\<newline>'') s t"
    using verdict_passes [of s v "''err_big_fd: PASS\<newline>''" "''err_big_fd: FAIL\<newline>''"] by (simp add: err_big_fd_def text_of_def)
qed

lemma open_lots_counts:
  assumes "inv s" "opened s = {2..<2 + k}" "k \<le> 6"
  shows "\<exists>t. open_lots os n cnt s = Some (cnt + (n - (6 - k)), t) \<and> inv t \<and> out t = out s \<and> opened t = {2..<2 + min 6 (k + n)} \<and> absent t = absent s"
  using assms
proof (induction n arbitrary: k cnt s)
  case (Suc n)
  show ?case
  proof (cases "k < 6")
    case True
    then obtain t where t: "sys_open os (c_string ''.'') s = Some (of_nat (2 + k), t)" "inv t" "out t = out s" "opened t = {2..<2 + (k + 1)}" "absent t = absent s"
      using open_dir [OF Suc.prems(1,2)] by (auto simp: eval_nat_numeral)
    have "(of_nat (2 + k) :: u32) \<noteq> ERR" by (rule small_not_error(2)) (use True in simp_all)
    moreover obtain u where "open_lots os n cnt t = Some (cnt + (n - (6 - (k + 1))), u)" "inv u" "out u = out t" "opened u = {2..<2 + min 6 (k + 1 + n)}" "absent u = absent t"
      using Suc.IH [OF t(2,4), of cnt] True by auto
    ultimately show ?thesis using t True by (auto simp del: of_nat_add)
  next
    case False
    then have k: "k = 6" using Suc.prems(3) by simp
    then obtain t where t: "sys_open os (c_string ''.'') s = Some (ERR, t)" "inv t" "out t = out s" "opened t = {2..<2 + k}" "absent t = absent s"
      using open_full [OF Suc.prems(1)] Suc.prems(2) by auto
    then show ?thesis using Suc.IH [OF t(2,4), of "cnt + 1"] k by auto
  qed
qed auto

lemma close_lots_empties:
  assumes "inv s" "opened s = set is" "distinct is"
  shows "\<exists>t. close_lots os is s = Some t \<and> inv t \<and> out t = out s \<and> opened t = {} \<and> absent t = absent s"
  using assms
proof (induction "is" arbitrary: s)
  case (Cons i "is")
  then obtain t where t: "sys_close os (of_nat i) s = Some (0, t)" "inv t" "out t = out s" "opened t = opened s - {i}" "absent t = absent s"
    using close_open [OF Cons.prems(1), of i] by auto
  then have "opened t = set is" using Cons.prems(2,3) by auto
  from Cons.IH [OF t(2) this] show ?case using t(1,3,5) Cons.prems(3) by auto
qed auto

lemma err_open_lots_passes:
  assumes "inv s" "opened s = {}"
  shows "\<exists>t. err_open_lots os s = Some (0, t) \<and> told (text_of ''err_open_lots: PASS\<newline>'') s t"
proof -
  obtain t where t: "open_lots os 7 0 s = Some (1, t)" "inv t" "out t = out s" "opened t = {2..<8}" "absent t = absent s"
    using open_lots_counts [OF assms(1), of 0 7 0] assms(2) by auto
  obtain u where u: "close_lots os [2..<8] t = Some u" "inv u" "out u = out t" "opened u = {}" "absent u = absent t"
    using close_lots_empties [OF t(2), of "[2..<8]"] t(4) by (auto simp del: upt_rec_numeral)
  have "told [] s u" using u t(3,5) assms(2) by (intro told_silent) auto
  moreover obtain v where "ece391_fdputs os 1 (c_string ''err_open_lots: PASS\<newline>'') u = Some v" "told (text_of ''err_open_lots: PASS\<newline>'') u v"
    using literal_told [OF u(2), of "''err_open_lots: PASS\<newline>''"] by (auto simp: text_of_def)
  ultimately show ?thesis using t(1) u(1) told_trans [of "[]" s u] by (auto simp: err_open_lots_def simp del: upt_rec_numeral open_lots.simps)
qed

lemma err_open_passes:
  assumes "inv s" "absent s (text_of ''helloo'')" "absent s (text_of ''shel'')" "absent s []"
  shows "\<exists>t. err_open os s = Some (0, t) \<and> told (text_of ''err_open: PASS\<newline>'') s t"
proof -
  note e = refused(6) [of _ "[]"]
  obtain t where t: "sys_open os (c_string ''helloo'') s = Some (ERR, t)" "told [] s t"
    using e [OF assms(1), of "''helloo''"] assms(2) by (auto simp: text_of_def)
  obtain u where u: "sys_open os (c_string ''shel'') t = Some (ERR, u)" "told [] t u"
    using e [OF told_inv(1) [OF t(2)], of "''shel''"] assms(3) told_inv(3) [OF t(2)] by (auto simp: text_of_def)
  note tu = told_trans [OF t(2) u(2), simplified]
  obtain v where v: "sys_open os (c_string []) u = Some (ERR, v)" "told [] u v"
    using e [OF told_inv(1) [OF u(2)], of "[]"] assms(4) told_inv(3) [OF tu] by (auto simp: text_of_def)
  note tv = told_trans [OF tu v(2), simplified]
  show ?thesis using t(1) u(1) v(1) verdict_passes [OF tv, of "''err_open: PASS\<newline>''" "''err_open: FAIL\<newline>''"]
    by (simp add: err_open_def text_of_def)
qed

lemma unopened_loops:
  assumes "inv s" "opened s = {}" "length b \<le> 2048"
  shows "\<exists>t. close_unopened os is fail s = Some (fail, t) \<and> told [] s t"
    "\<forall>i \<in> set is. 2 \<le> i \<and> i < 8 \<Longrightarrow> \<exists>t. read_unopened os is b fail s = Some (fail, b, t) \<and> told [] s t"
    "\<forall>i \<in> set is. 2 \<le> i \<and> i < 8 \<Longrightarrow> \<exists>t. write_unopened os is b fail s = Some (fail, t) \<and> told [] s t"
proof -
  have u: "unat (of_nat i :: u32) = i" if "i < 8" for i using fd_sint [OF that] by simp
  show "\<exists>t. close_unopened os is fail s = Some (fail, t) \<and> told [] s t"
    using assms(1,2)
  proof (induction "is" arbitrary: s)
    case (Cons i "is")
    then obtain t where t: "sys_close os (of_nat i) s = Some (ERR, t)" "told [] s t"
      using refused(3) [OF Cons.prems(1) assms(3), of "of_nat i"] by auto
    then show ?case using Cons.IH [OF told_inv(1) [OF t(2)]] Cons.prems(2) told_inv(2) [OF t(2)] told_trans [OF t(2)] by auto
  qed (simp add: told_silent)
  show "\<exists>t. read_unopened os is b fail s = Some (fail, b, t) \<and> told [] s t" if "\<forall>i \<in> set is. 2 \<le> i \<and> i < 8"
    using assms(1,2) that
  proof (induction "is" arbitrary: s)
    case (Cons i "is")
    then obtain t where t: "sys_read os (of_nat i) b 31 s = Some (ERR, b, t)" "told [] s t"
      using refused(1) [OF Cons.prems(1) assms(3), of "of_nat i" 31] u [of i] by auto
    then show ?case using Cons.IH [OF told_inv(1) [OF t(2)]] Cons.prems(2,3) told_inv(2) [OF t(2)] told_trans [OF t(2)] by auto
  qed (simp add: told_silent)
  show "\<exists>t. write_unopened os is b fail s = Some (fail, t) \<and> told [] s t" if "\<forall>i \<in> set is. 2 \<le> i \<and> i < 8"
    using assms(1,2) that
  proof (induction "is" arbitrary: s)
    case (Cons i "is")
    then obtain t where t: "sys_write os (of_nat i) b 31 s = Some (ERR, t)" "told [] s t"
      using refused(2) [OF Cons.prems(1) assms(3), of "of_nat i" 31] u [of i] by auto
    then show ?case using Cons.IH [OF told_inv(1) [OF t(2)]] Cons.prems(2,3) told_inv(2) [OF t(2)] told_trans [OF t(2)] by auto
  qed (simp add: told_silent)
qed

lemma err_unopened_passes:
  assumes "inv s" "opened s = {}" "length b \<le> 2048"
  shows "\<exists>t. err_unopened os b s = Some (0, t) \<and> told (text_of ''err_unopened: PASS\<newline>'') s t"
proof -
  obtain t where t: "close_unopened os [0..<8] 0 s = Some (0, t)" "told [] s t" using unopened_loops(1) [OF assms] by blast
  have ot: "inv t" "opened t = {}" using told_inv [OF t(2)] assms(2) by simp_all
  obtain u where u: "read_unopened os [2..<8] b 0 t = Some (0, b, u)" "told [] t u" using unopened_loops(2) [OF ot assms(3), of "[2..<8]" 0] by (auto simp del: upt_rec_numeral)
  have ou: "inv u" "opened u = {}" using told_inv [OF u(2)] ot by simp_all
  obtain v where v: "write_unopened os [2..<8] b 0 u = Some (0, v)" "told [] u v" using unopened_loops(3) [OF ou assms(3), of "[2..<8]" 0] by (auto simp del: upt_rec_numeral)
  have "told [] s v" using told_trans [OF told_trans [OF t(2) u(2)] v(2)] by simp
  from verdict_passes [OF this, of "''err_unopened: PASS\<newline>''" "''err_unopened: FAIL\<newline>''"] show ?thesis
    using t(1) u(1) v(1) by (simp add: err_unopened_def text_of_def del: upt_rec_numeral)
qed

lemma err_rest_pass:
  assumes "inv s" "length b \<le> 2048"
  shows "\<exists>t. err_vidmap os s = Some (0, t) \<and> told (text_of ''err_vidmap: PASS\<newline>'') s t"
    "\<exists>t. err_stdin_out os b s = Some (0, t) \<and> told (text_of ''err_stdin_out: PASS\<newline>'') s t"
    "\<exists>t. err_syscall_num os s = Some (0, t) \<and> told (text_of ''err_syscall_num: PASS\<newline>'') s t"
proof -
  note r = refused [OF _ assms(2)]
  obtain t where t: "sys_vidmap os 0 s = Some (ERR, t)" "told [] s t" using r(4) [OF assms(1), of 0] by auto
  obtain u where u: "sys_vidmap os 0x400000 t = Some (ERR, u)" "told [] t u" using r(4) [OF told_inv(1) [OF t(2)], of "0x400000"] by auto
  from verdict_passes [OF told_trans [OF t(2) u(2), simplified], of "''err_vidmap: PASS\<newline>''" "''err_vidmap: FAIL\<newline>''"]
  show "\<exists>t. err_vidmap os s = Some (0, t) \<and> told (text_of ''err_vidmap: PASS\<newline>'') s t"
    using t(1) u(1) by (simp add: err_vidmap_def text_of_def)
  obtain t where t: "sys_write os 0 b 31 s = Some (ERR, t)" "told [] s t" using r(2) [OF assms(1), of 0 31] by auto
  obtain u where u: "sys_read os 1 b 31 t = Some (ERR, b, u)" "told [] t u" using r(1) [OF told_inv(1) [OF t(2)], of 1 31] by auto
  from verdict_passes [OF told_trans [OF t(2) u(2), simplified], of "''err_stdin_out: PASS\<newline>''" "''err_stdin_out: FAIL\<newline>''"]
  show "\<exists>t. err_stdin_out os b s = Some (0, t) \<and> told (text_of ''err_stdin_out: PASS\<newline>'') s t"
    using t(1) u(1) by (simp add: err_stdin_out_def text_of_def)
  have n: "(1073741823 :: u32) > 10" "(-1073741823 :: u32) > 10" by simp_all
  obtain t where t: "sys_number os 1073741823 s = Some (ERR, t)" "told [] s t" using r(5) [OF assms(1), of 1073741823] n by auto
  obtain u where u: "sys_number os (-1073741823) t = Some (ERR, u)" "told [] t u" using r(5) [OF told_inv(1) [OF t(2)], of "-1073741823"] n by auto
  obtain v where v: "sys_number os 0 u = Some (ERR, v)" "told [] u v" using r(5) [OF told_inv(1) [OF u(2)], of 0] by auto
  from verdict_passes [OF told_trans [OF told_trans [OF t(2) u(2)] v(2), simplified], of "''err_syscall_num: PASS\<newline>''" "''err_syscall_num: FAIL\<newline>''"]
  show "\<exists>t. err_syscall_num os s = Some (0, t) \<and> told (text_of ''err_syscall_num: PASS\<newline>'') s t"
    using t(1) u(1) v(1) by (simp add: err_syscall_num_def text_of_def)
qed

end

text \<open>The report of a run in which every test passes.\<close>

definition all_pass :: "u8 list" where
  "all_pass = text_of ''err_neg_fd: PASS\<newline>'' @ text_of ''err_big_fd: PASS\<newline>'' @ text_of ''err_open_lots: PASS\<newline>'' @ text_of ''err_open: PASS\<newline>'' @
     text_of ''err_unopened: PASS\<newline>'' @ text_of ''err_vidmap: PASS\<newline>'' @ text_of ''err_stdin_out: PASS\<newline>'' @ text_of ''err_syscall_num: PASS\<newline>'' @
     text_of ''\<newline>Overall Tests: PASS\<newline>''"

context checked_calls
begin

lemma told_frame: "told cs s t \<Longrightarrow> inv t \<and> opened t = opened s \<and> absent t = absent s"
  by (simp add: told_def)

lemma err_all_passes:
  assumes "inv s" "opened s = {}" "absent s (text_of ''helloo'')" "absent s (text_of ''shel'')" "absent s []" "\<forall>n. length (loc n) \<le> 2048"
  shows "\<exists>t. err_all os loc s = Some (0, t) \<and> told all_pass s t"
proof -
  obtain s1 where 1: "err_neg_fd os (loc 1) s = Some (0, s1)" "told (text_of ''err_neg_fd: PASS\<newline>'') s s1"
    using err_fd_passes(1) [OF assms(1)] assms(6) by blast
  note f1 = told_frame [OF 1(2)]
  obtain s2 where 2: "err_big_fd os (loc 2) s1 = Some (0, s2)" "told (text_of ''err_big_fd: PASS\<newline>'') s1 s2"
    using err_fd_passes(2) [of s1] f1 assms(6) by blast
  note f2 = told_frame [OF 2(2)]
  obtain s3 where 3: "err_open_lots os s2 = Some (0, s3)" "told (text_of ''err_open_lots: PASS\<newline>'') s2 s3"
    using err_open_lots_passes [of s2] f1 f2 assms(2) by auto
  note f3 = told_frame [OF 3(2)]
  obtain s4 where 4: "err_open os s3 = Some (0, s4)" "told (text_of ''err_open: PASS\<newline>'') s3 s4"
    using err_open_passes [of s3] f1 f2 f3 assms(3-5) by auto
  note f4 = told_frame [OF 4(2)]
  obtain s5 where 5: "err_unopened os (loc 5) s4 = Some (0, s5)" "told (text_of ''err_unopened: PASS\<newline>'') s4 s5"
    using err_unopened_passes [of s4 "loc 5"] f1 f2 f3 f4 assms(2,6) by auto
  note f5 = told_frame [OF 5(2)]
  obtain s6 where 6: "err_vidmap os s5 = Some (0, s6)" "told (text_of ''err_vidmap: PASS\<newline>'') s5 s6"
    using err_rest_pass(1) [of s5 "[]"] f5 by auto
  note f6 = told_frame [OF 6(2)]
  obtain s7 where 7: "err_stdin_out os (loc 7) s6 = Some (0, s7)" "told (text_of ''err_stdin_out: PASS\<newline>'') s6 s7"
    using err_rest_pass(2) [of s6 "loc 7"] f6 assms(6) by auto
  note f7 = told_frame [OF 7(2)]
  obtain s8 where 8: "err_syscall_num os s7 = Some (0, s8)" "told (text_of ''err_syscall_num: PASS\<newline>'') s7 s8"
    using err_rest_pass(3) [of s7 "[]"] f7 by auto
  have "inv s8" using told_frame [OF 8(2)] by simp
  then obtain t where t: "ece391_fdputs os 1 (c_string ''\<newline>Overall Tests: PASS\<newline>'') s8 = Some t" "told (text_of ''\<newline>Overall Tests: PASS\<newline>'') s8 t"
    using literal_told [of s8 "''\<newline>Overall Tests: PASS\<newline>''"] by (auto simp: text_of_def)
  have "err_all os loc s = Some (0, t)"
    using 1(1) 2(1) 3(1) 4(1) 5(1) 6(1) 7(1) 8(1) t(1) by (simp add: err_all_def verdict_def)
  moreover note told_trans [OF 1(2) told_trans [OF 2(2) told_trans [OF 3(2) told_trans [OF 4(2) told_trans [OF 5(2) told_trans [OF 6(2)
    told_trans [OF 7(2) told_trans [OF 8(2) t(2)]]]]]]]]
  ultimately show ?thesis unfolding all_pass_def by blast
qed

end

text \<open>A program that is told by a typed line which tests to run.\<close>

locale test_bench = line_reader os inv out typed + checked_calls os inv out opened absent
  for os :: "'s os" and inv out typed opened absent +
  assumes read_told: "inv s \<Longrightarrow> typed s = cs # lns \<Longrightarrow> length cs + 3 \<le> length b \<Longrightarrow> length b \<le> 2048 \<Longrightarrow> length cs < k \<Longrightarrow> k < 2048 \<Longrightarrow>
      sys_read os 0 b (of_nat k) s = Some (r, b', s') \<Longrightarrow> opened s' = opened s \<and> absent s' = absent s"
begin

lemma syserr_passes:
  assumes "inv s" "typed s = (0x30 # cs) # lns" "length cs < 120" "length b = 128"
    and "opened s = {}" "absent s (text_of ''helloo'')" "absent s (text_of ''shel'')" "absent s []" "\<forall>n. length (loc n) \<le> 2048"
  shows "\<exists>t. syserr os loc b s = Some (0, t) \<and> inv t \<and>
    out t = tty_write (text_of ''Choose from tests 1-8. 0 to run all: '' @ 0x30 # cs @ [NEWLINE] @ all_pass) (out s)"
proof -
  let ?q = "''Choose from tests 1-8. 0 to run all: ''" and ?l = "0x30 # cs"
  have q: "0 \<notin> set (text_of ?q)" "length ?q < 1000" by (simp_all add: text_of_def)
  obtain u where u: "ece391_fdputs os 1 (c_string ?q) s = Some u" "said (text_of ?q) s u" using literal_said [OF assms(1) q] by blast
  have tu: "told (text_of ?q) s u" using literal_told [OF assms(1) q] u(1) by auto
  have iu: "inv u" "typed u = ?l # lns" using u(2) assms(2) by (simp_all add: said_def)
  have l: "length ?l + 3 \<le> length b" "length b \<le> 2048" "length ?l < 127" "(127 :: nat) < 2048" using assms(3,4) by simp_all
  obtain v b' where v: "sys_read os 0 b 127 u = Some (of_nat (length ?l + 1), b', v)" "inv v" "out v = tty_write (?l @ [NEWLINE]) (out u)"
      "length b' = 128" "take (length ?l + 1) b' = ?l @ [NEWLINE]"
    using read_line [OF iu l] assms(4) by auto
  have "opened v = opened u \<and> absent v = absent u" using read_told [OF iu l] v(1) by simp
  then obtain t where t: "err_all os loc v = Some (0, t)" "told all_pass v t"
    using err_all_passes [OF v(2), of loc] told_frame [OF tu] assms(5-9) by auto
  have "b' ! 0 = take (length ?l + 1) b' ! 0" by simp
  then have c: "list_view b' 0 = Some 0x30" unfolding v(5) using v(4) by simp
  have "(of_nat (length ?l + 1) :: u32) \<noteq> ERR" by (rule small_not_error(2)) (use l(3) in simp_all)
  then have "syserr os loc b s = Some (0, t)" using u(1) v(1) c t(1) by (simp add: syserr_def err_select_def)
  then show ?thesis using t(2) v(3) u(2) by (simp add: told_def said_def tty_write_def)
qed

end

end
