(* ===== verification/User_Refusals.thy ===== *)
theory User_Refusals
  imports User_Files
begin

text \<open>
  Calls the kernel refuses: what a program sees of reads and writes of descriptors that are not open for them, of names that are
  absent, of commands that are not programs, of bad addresses and numbers. A refused call is a silent step: screen,
  table of open files, disk and keyboard are as before. The table as a set of descriptors: opening adds one, closing
  removes it.
\<close>

section \<open>Silent steps\<close>

definition silent :: "'a kernel_scheme \<Rightarrow> 'a kernel_scheme \<Rightarrow> bool" where
  "silent s t \<longleftrightarrow> keeps s t \<and> tty t = tty s \<and> curr_pcb t = curr_pcb s"

definition used_fds :: "'a kernel_scheme \<Rightarrow> nat set" where
  "used_fds s = (case curr_pcb s of None \<Rightarrow> {} | Some p \<Rightarrow> {fd. 2 \<le> fd \<and> fd < 8 \<and> flags (file_array p ! fd) = 1})"

definition no_file :: "'a kernel_scheme \<Rightarrow> u8 list \<Rightarrow> bool" where
  "no_file s cs \<longleftrightarrow> length cs < 32 \<and> take 5 cs \<noteq> text_of ''stdin'' \<and> take 6 cs \<noteq> text_of ''stdout'' \<and> lookup_name (ram s) (fs s) cs = None"

lemma keeps_no_file: "program_ready area pa s \<Longrightarrow> keeps s t \<Longrightarrow> no_file t = no_file s"
  using keeps_lookup(2) [of area pa s t] by (simp add: no_file_def fun_eq_iff)

lemma silent_ready: "program_ready area pa s \<Longrightarrow> silent s t \<Longrightarrow> program_ready area pa t"
  using keeps_ready [of area pa s t] by (auto simp: silent_def program_ready_def)

lemma silent_keeps: "silent s t \<Longrightarrow> used_fds t = used_fds s" "silent s t \<Longrightarrow> keeps s t" "silent s t \<Longrightarrow> tty t = tty s"
  by (simp_all add: silent_def used_fds_def)

lemma silent_area: "program_ready area pa s \<Longrightarrow> length b \<le> 2048 \<Longrightarrow> silent s (resumed (area_state pa b s))"
  using area_keeps [of area pa s b] by (simp add: silent_def)

lemma keeps_refl: "program_ready area pa s \<Longrightarrow> keeps s s"
  by (simp add: keeps_def input_frame_def program_ready_def same_image_def)

lemma silent_io [simp]: "silent s (resumed t) = silent s t" "silent s (con_io f t) = silent s t"
  by (simp_all add: silent_def)

lemma silent_refl: "program_ready area pa s \<Longrightarrow> silent s s"
  using keeps_refl by (auto simp: silent_def)

lemma silent_memory:
  assumes "program_ready area pa s" "length b \<le> 2048" "same_memory (area_state pa b s) u"
  shows "silent s (resumed u)" "mmu u = mmu s"
proof -
  have c: "con_inv (area_state pa b s)" using assms(1) by (simp add: program_ready_def)
  note k = keeps_memory [OF assms(3) c] and a = area_keeps [OF assms(1,2)]
  show "silent s (resumed u)" using keeps_trans [OF a(1) k(1)] k(2,3) a(2) by (simp add: silent_def)
  show "mmu u = mmu s" using same_memory_fields(3) [OF assms(3)] by simp
qed

section \<open>Descriptors\<close>

lemma curr_pcb_set: "curr_pcb s = Some p \<Longrightarrow> curr_pcb (set_curr_pcb q s) = Some q"
  by (auto simp: curr_pcb_def set_curr_pcb_def split: if_splits)

lemma bad_fd_node:
  assumes "files_ok p" "2 \<le> unat fd" "\<not> (unat fd < 8 \<and> flags (file_array p ! unat fd) = 1)"
  shows "open_node fd p = None"
proof (cases "open_node fd p")
  case (Some f)
  from fd_index [OF this] have "unat fd < 8" "flags (file_array p ! unat fd) \<noteq> 0" by simp_all
  moreover from this(1) have "node_ok (unat fd) (file_array p ! unat fd)" using assms(1) by (simp add: files_ok_def)
  ultimately show ?thesis using assms(3) by (auto simp: node_ok_def)
qed

lemma std_node: "files_ok p \<Longrightarrow> open_node 0 p = Some (file_array p ! 0) \<and> fop (file_array p ! 0) = Some Stdin_ops"
  "files_ok p \<Longrightarrow> open_node 1 p = Some (file_array p ! 1) \<and> fop (file_array p ! 1) = Some Stdout_ops"
proof -
  assume p: "files_ok p"
  then have f: "fop (file_array p ! 0) = Some Stdin_ops" "fop (file_array p ! 1) = Some Stdout_ops" by (simp_all add: files_ok_def)
  moreover have "node_ok 0 (file_array p ! 0)" "node_ok 1 (file_array p ! 1)" using p by (simp_all add: files_ok_def)
  then have "flags (file_array p ! 0) = 1" "flags (file_array p ! 1) = 1" using f by (simp_all add: node_ok_def)
  ultimately show "open_node 0 p = Some (file_array p ! 0) \<and> fop (file_array p ! 0) = Some Stdin_ops"
    "open_node 1 p = Some (file_array p ! 1) \<and> fop (file_array p ! 1) = Some Stdout_ops"
    by (simp_all add: open_node_def Let_def)
qed

lemma used_fds_pcb: "curr_pcb s = Some p \<Longrightarrow> fd \<in> used_fds s \<longleftrightarrow> 2 \<le> fd \<and> fd < 8 \<and> flags (file_array p ! fd) = 1"
  by (simp add: used_fds_def)

lemma refused_read:
  assumes r: "program_ready area pa s" and b: "length b \<le> 2048" and fd: "fd = 1 \<or> 2 \<le> unat fd \<and> unat fd \<notin> used_fds s"
  shows "\<exists>s'. sys_read (kernel_os hs area) fd b n s = Some (ERR, b, s') \<and> silent s s'"
proof -
  let ?t = "area_state pa b s"
  obtain p where p: "curr_pcb s = Some p" "files_ok p" using r by (auto simp: program_ready_def)
  have "read_call hs fd area n ?t = Some (ERR, ?t)"
  proof (cases "unat fd < 2")
    case True
    then have "fd = 1" using fd by auto
    then show ?thesis using std_node(2) [OF p(2)] p(1) by (simp add: read_call_def)
  next
    case False
    then have "open_node fd p = None" using fd used_fds_pcb [OF p(1), of "unat fd"] by (intro bad_fd_node [OF p(2)]) auto
    then show ?thesis using p(1) by (simp add: read_call_def)
  qed
  from array_calls(1) [OF r b _ this] bytes_at_write [of "length b" b "ram s" pa] b
  have "sys_read (kernel_os hs area) fd b n s = Some (ERR, b, resumed ?t)" by simp
  then show ?thesis using silent_area [OF r b] by blast
qed

lemma refused_write:
  assumes r: "program_ready area pa s" and b: "length b \<le> 2048" and fd: "fd = 0 \<or> 2 \<le> unat fd \<and> unat fd \<notin> used_fds s"
  shows "\<exists>s'. sys_write (kernel_os hs area) fd b n s = Some (ERR, s') \<and> silent s s'"
proof -
  let ?t = "area_state pa b s"
  obtain p where p: "curr_pcb s = Some p" "files_ok p" using r by (auto simp: program_ready_def)
  have "write_call fd area n ?t = Some (ERR, ?t)"
  proof (cases "unat fd < 2")
    case True
    then have "fd = 0" using fd by auto
    then show ?thesis using std_node(1) [OF p(2)] p(1) by (simp add: write_call_def)
  next
    case False
    then have "open_node fd p = None" using fd used_fds_pcb [OF p(1), of "unat fd"] by (intro bad_fd_node [OF p(2)]) auto
    then show ?thesis using p(1) by (simp add: write_call_def)
  qed
  from array_calls(2) [OF r b _ this] show ?thesis using silent_area [OF r b] by auto
qed

text \<open>The table of a program that has just been started.\<close>

lemma std_files_ok:
  assumes "pcb_shape p" "file_array p = std_files" "open_file_num p = 2"
  shows "files_ok p" "flags (file_array p ! i) = 1 \<Longrightarrow> 2 \<le> i \<Longrightarrow> i < 8 \<Longrightarrow> False"
proof -
  have n: "i = 0 \<or> i = 1 \<or> i = 2 \<or> i = 3 \<or> i = 4 \<or> i = 5 \<or> i = 6 \<or> i = 7" if "i < 8" for i :: nat using that by linarith
  have l: "file_array p = [\<lparr>fop = Some Stdin_ops, inode = Null_inode, file_pos = 0, flags = 1\<rparr>,
     \<lparr>fop = Some Stdout_ops, inode = Null_inode, file_pos = 0, flags = 1\<rparr>, closed_node, closed_node, closed_node,
     closed_node, closed_node, closed_node]"
    unfolding assms(2) by (simp add: std_files_def numeral_eq_Suc)
  have "node_ok i (file_array p ! i)" if "i < 8" for i
    using n [OF that] unfolding l by (elim disjE) (simp_all add: node_ok_def closed_node_def)
  moreover have "open_fds p = [0, 1]" unfolding open_fds_def l by (simp add: closed_node_def upt_conv_Cons)
  ultimately show "files_ok p" using assms(1,3) by (simp add: files_ok_def l)
  show False if "flags (file_array p ! i) = 1" "2 \<le> i" "i < 8"
    using n [OF that(3)] that(1,2) unfolding l by (elim disjE) (simp_all add: closed_node_def)
qed

text \<open>The counter of the table tells whether only the two terminal descriptors are in use.\<close>

lemma open_fds_std:
  assumes "curr_pcb s = Some p" "files_ok p" "used_fds s = {}"
  shows "open_file_num p = 2"
proof -
  have f: "flags (file_array p ! 0) = 1" "flags (file_array p ! 1) = 1" using assms(2) by (auto simp: files_ok_def node_ok_def)
  have "flags (file_array p ! fd) \<noteq> 1" if "2 \<le> fd" "fd < 8" for fd using used_fds_pcb [OF assms(1), of fd] that assms(3) by auto
  then have "filter (\<lambda>fd. flags (file_array p ! fd) = 1) [2..<8] = []" by (auto simp: filter_empty_conv simp del: upt_rec_numeral)
  moreover have "[0..<8] = 0 # 1 # [2..<8]" by (simp add: upt_conv_Cons)
  ultimately have "open_fds p = [0, 1]" using f unfolding open_fds_def by (simp del: upt_rec_numeral)
  then show ?thesis using assms(2) by (simp add: files_ok_def)
qed

lemma open_fds_more:
  assumes "curr_pcb s = Some p" "files_ok p" "fd \<in> used_fds s"
  shows "2 < open_file_num p"
proof -
  have f: "flags (file_array p ! 0) = 1" "flags (file_array p ! 1) = 1" using assms(2) by (auto simp: files_ok_def node_ok_def)
  have d: "2 \<le> fd" "fd < 8" "flags (file_array p ! fd) = 1" using used_fds_pcb [OF assms(1)] assms(3) by auto
  have "{0, 1, fd} \<subseteq> set (open_fds p)" using f d by (auto simp: open_fds_def)
  then have "card {0, 1, fd} \<le> length (open_fds p)" by (meson List.finite_set card_length card_mono order_trans)
  then show ?thesis using assms(2) d(1) by (simp add: files_ok_def)
qed

lemma refused_close:
  assumes r: "program_ready area pa s" and fd: "unat fd < 2 \<or> 8 \<le> unat fd \<or> used_fds s = {}"
  shows "\<exists>s'. sys_close (kernel_os hs area) fd s = Some (ERR, s') \<and> silent s s'"
proof -
  let ?t = "con_io sti (con_io cli s)"
  obtain p where p: "curr_pcb s = Some p" "files_ok p" using r by (auto simp: program_ready_def)
  have "sint fd < 2 \<or> sint fd > 7 \<or> open_file_num p \<le> 2"
  proof (rule ccontr)
    assume "\<not> (sint fd < 2 \<or> sint fd > 7 \<or> open_file_num p \<le> 2)"
    moreover from this have "int (unat fd) = sint fd" by (intro fd_range) linarith+
    ultimately show False using fd open_fds_std [OF p] by linarith
  qed
  then have "close_call fd ?t = Some (ERR, con_io cli ?t)" using p(1) by (auto simp: close_call_def Let_def)
  from plain_calls(1) [OF this] have "sys_close (kernel_os hs area) fd s = Some (ERR, resumed (con_io cli ?t))" .
  then show ?thesis using silent_refl [OF r] by auto
qed

lemma refused_vidmap:
  assumes "program_ready area pa s" "a < 0x08000000"
  shows "\<exists>s'. sys_vidmap (kernel_os hs area) a s = Some (ERR, s') \<and> silent s s'"
proof -
  let ?t = "con_io sti (con_io cli s)"
  have "vidmap a ?t = Some (ERR, ?t)" using assms(2) by (auto simp: vidmap_def)
  from plain_calls(2) [OF this] have "sys_vidmap (kernel_os hs area) a s = Some (ERR, resumed ?t)" .
  then show ?thesis using silent_refl [OF assms(1)] by auto
qed

lemma refused_number:
  assumes "program_ready area pa s" "n > 10 \<or> n < 1"
  shows "\<exists>s'. sys_number (kernel_os hs area) n s = Some (ERR, s') \<and> silent s s'"
  using plain_calls(3) [OF assms(2), of hs area s] silent_refl [OF assms(1)] by auto

section \<open>Names\<close>

lemma refused_open:
  assumes r: "program_ready area pa s" and cs: "no_file s cs" and b: "length b \<le> 2048" "holds_string (list_view b) cs"
  shows "\<exists>s'. sys_open (kernel_os hs area) b s = Some (ERR, s') \<and> silent s s'"
proof -
  obtain p where p: "curr_pcb s = Some p" using r by (auto simp: program_ready_def)
  from kernel_open [OF r p b, of hs] cs p show ?thesis by (auto simp: no_file_def silent_def)
qed

text \<open>The directory can be opened until the table is full.\<close>

definition dot_listed :: "'a kernel_scheme \<Rightarrow> bool" where
  "dot_listed s \<longleftrightarrow> (\<exists>i. lookup_name (ram s) (fs s) (text_of ''.'') = Some i \<and> read32 (ram s) (dentry_addr (fs s) i + 32) = 1)"

lemma keeps_dot:
  assumes "program_ready area pa s" "keeps s t" "dot_listed s"
  shows "dot_listed t"
  using keeps_lookup(2,3) [OF assms(1,2)] assms(3) by (auto simp: dot_listed_def)

lemma dot_name:
  "holds_string (list_view (c_string ''.'')) (text_of ''.'')" "length (c_string ''.'') \<le> 2048" "length (text_of ''.'') < 32"
  "take 5 (text_of ''.'') \<noteq> text_of ''stdin''" "take 6 (text_of ''.'') \<noteq> text_of ''stdout''"
  by (rule literal_string) (simp_all add: c_string_def text_of_def)

lemma free_fd_next:
  assumes p: "curr_pcb s = Some p" "files_ok p" and u: "used_fds s = {2..<2 + k}" "k < 6"
  shows "free_fd (file_array p) = Some (2 + k)"
proof -
  have f: "flags (file_array p ! i) = (if i < 2 + k then 1 else 0)" if i: "2 \<le> i" "i < 8" for i
  proof -
    have "node_ok i (file_array p ! i)" using p(2) i by (simp add: files_ok_def)
    moreover have "flags (file_array p ! i) = 1 \<longleftrightarrow> i < 2 + k" using used_fds_pcb [OF p(1), of i] i u(1) by auto
    ultimately show ?thesis by (auto simp: node_ok_def)
  qed
  have a: "[2..<8] = [2..<2 + k] @ (2 + k) # [3 + k..<8]"
    using u(2) upt_add_eq_append [of 2 "2 + k" "6 - k"] upt_conv_Cons [of "2 + k" 8] by (simp add: eval_nat_numeral del: upt_rec_numeral)
  have nf: "find (\<lambda>i. flags (file_array p ! i) = 0) [2..<2 + k] = None" using f u(2) by (auto simp: find_None_iff)
  have fa: "find P (xs @ ys) = (case find P xs of None \<Rightarrow> find P ys | Some x \<Rightarrow> Some x)" for P :: "nat \<Rightarrow> bool" and xs ys
    by (induction xs) auto
  have "find (\<lambda>i. flags (file_array p ! i) = 0) [2..<8] = Some (2 + k)" unfolding a fa nf using f [of "2 + k"] u(2) by simp
  moreover have "\<not> (flags (file_array p ! 2) \<noteq> 0 \<and> flags (file_array p ! 7) = 1)" using f [of 7] u(2) by auto
  ultimately show ?thesis by (simp only: free_fd_def if_False)
qed

lemma next_opened:
  fixes s :: "'a kernel_scheme"
  assumes r: "program_ready area pa s" "curr_pcb s = Some p" and u: "used_fds s = {2..<2 + k}" "k < 6"
    and n: "holds_string (list_view b) cs" "length b \<le> 2048" "length cs < 32" "take 5 cs \<noteq> text_of ''stdin''" "take 6 cs \<noteq> text_of ''stdout''"
    and d: "lookup_name (ram s) (fs s) cs = Some i"
      "open_choice (read32 (ram s) (dentry_addr (fs s) i + 32)) p = map_option (\<lambda>fd. (fd, ops)) (free_fd (file_array p))"
  shows "\<exists>s' q. sys_open (kernel_os hs area) b s = Some (of_nat (2 + k), s') \<and> program_ready area pa s' \<and> tty s' = tty s \<and> keeps s s' \<and>
    used_fds s' = {2..<2 + Suc k} \<and> curr_pcb s' = Some q \<and> opened_as (2 + k) ops cs p q"
proof -
  have p: "files_ok p" using r by (auto simp: program_ready_def)
  have "open_choice (read32 (ram s) (dentry_addr (fs s) i + 32)) p = Some (2 + k, ops)" using d(2) free_fd_next [OF r(2) p u] by simp
  with kernel_open [OF r n(2,1,3-5), of hs] d(1) obtain s' q where
    s': "sys_open (kernel_os hs area) b s = Some (of_nat (2 + k), s')" "program_ready area pa s'" "tty s' = tty s" "keeps s s'"
      "curr_pcb s' = Some q" "opened_as (2 + k) ops cs p q" by auto
  have "length (file_array p) = 8" using p by (simp add: files_ok_def pcb_shape_def)
  then have n: "flags (file_array q ! fd) = (if fd = 2 + k then 1 else flags (file_array p ! fd))" if "fd < 8" for fd
    using s'(6) that by (simp add: opened_as_def opened_node_def nth_list_update)
  have "fd \<in> used_fds s' \<longleftrightarrow> fd \<in> {2..<2 + Suc k}" for fd
    using used_fds_pcb [OF s'(5), of fd] used_fds_pcb [OF r(2), of fd] n [of fd] u by (auto split: if_splits)
  then have "used_fds s' = {2..<2 + Suc k}" by blast
  then show ?thesis using s' by blast
qed

lemma dot_opened:
  fixes s :: "'a kernel_scheme"
  assumes r: "program_ready area pa s" and d: "dot_listed s" and u: "used_fds s = {2..<2 + k}" "k < 6"
  shows "\<exists>s'. sys_open (kernel_os hs area) (c_string ''.'') s = Some (of_nat (2 + k), s') \<and> program_ready area pa s' \<and> tty s' = tty s \<and>
    keeps s s' \<and> used_fds s' = {2..<3 + k}"
proof -
  obtain p where p: "curr_pcb s = Some p" using r by (auto simp: program_ready_def)
  obtain i where i: "lookup_name (ram s) (fs s) (text_of ''.'') = Some i" "read32 (ram s) (dentry_addr (fs s) i + 32) = 1"
    using d by (auto simp: dot_listed_def)
  have "open_choice (read32 (ram s) (dentry_addr (fs s) i + 32)) p = map_option (\<lambda>fd. (fd, Dir_ops)) (free_fd (file_array p))"
    unfolding i(2) by (cases "free_fd (file_array p)") (simp_all add: open_choice_spec)
  from next_opened [OF r p u dot_name i(1) this, of hs] show ?thesis by (auto simp: eval_nat_numeral)
qed

lemma dot_refused:
  fixes s :: "'a kernel_scheme"
  assumes r: "program_ready area pa s" and u: "used_fds s = {2..<8}"
  shows "\<exists>s'. sys_open (kernel_os hs area) (c_string ''.'') s = Some (ERR, s') \<and> silent s s'"
proof -
  obtain p where p: "curr_pcb s = Some p" using r by (auto simp: program_ready_def)
  have "flags (file_array p ! 2) = 1" "flags (file_array p ! 7) = 1" using used_fds_pcb [OF p, of 2] used_fds_pcb [OF p, of 7] u by simp_all
  then have "Option.bind (lookup_name (ram s) (fs s) (text_of ''.'')) (\<lambda>i. open_choice (read32 (ram s) (dentry_addr (fs s) i + 32)) p) = None"
    by (simp add: open_choice_spec free_fd_def bind_eq_None_conv split: bind_split)
  with kernel_open [OF r p dot_name(2,1,3-5), of hs] p show ?thesis by (auto simp: silent_def)
qed

lemma descriptor_closed:
  fixes s :: "'a kernel_scheme"
  assumes r: "program_ready area pa s" and i: "i \<in> used_fds s"
  shows "\<exists>s'. sys_close (kernel_os hs area) (of_nat i) s = Some (0, s') \<and> program_ready area pa s' \<and> tty s' = tty s \<and>
    keeps s s' \<and> used_fds s' = used_fds s - {i} \<and> fs s' = fs s \<and>
    (\<forall>p. curr_pcb s = Some p \<longrightarrow> curr_pcb s' = Some (p\<lparr>file_array := (file_array p)[i := closed_node], open_file_num := open_file_num p - 1\<rparr>))"
proof -
  let ?t = "con_io sti (con_io cli s)"
  obtain p where p: "curr_pcb s = Some p" "files_ok p" using r by (auto simp: program_ready_def)
  have d: "2 \<le> i" "i < 8" "flags (file_array p ! i) = 1" using i used_fds_pcb [OF p(1)] by auto
  have u: "sint (of_nat i :: u32) = int i" "unat (of_nat i :: u32) = i" using fd_sint [OF d(2)] by simp_all
  let ?q = "p\<lparr>file_array := (file_array p)[i := closed_node], open_file_num := open_file_num p - 1\<rparr>" and ?v = "con_io cli ?t"
  have "node_ok i (file_array p ! i)" using p(2) d(2) by (simp add: files_ok_def)
  then have "fop (file_array p ! i) \<noteq> None" "fop (file_array p ! i) \<noteq> Some Stdin_ops" "fop (file_array p ! i) \<noteq> Some Stdout_ops"
    using d by (auto simp: node_ok_def)
  then have c: "close_call (of_nat i) ?t = Some (0, set_curr_pcb ?q ?v)"
    using p(1) d u open_fds_more [OF p i] by (auto simp: close_call_def Let_def split: option.splits fop_table.splits)
  let ?u = "resumed (set_curr_pcb ?q ?v)"
  from plain_calls(1) [OF c] have sc: "sys_close (kernel_os hs area) (of_nat i) s = Some (0, ?u)" .
  have q: "curr_pcb ?u = Some ?q" using curr_pcb_set [of ?v p ?q] p(1) by simp
  have "files_ok ?q" using call_step_files [OF close_call_step [OF c]] p q by auto
  moreover have k: "keeps s ?u" using keeps_refl [OF r] by simp
  ultimately have "program_ready area pa ?u" by (intro keeps_ready [OF r _ q])
  moreover have "tty (set_curr_pcb ?q ?v) = tty ?v" by (simp add: tty_def position_def set_curr_pcb_def)
  then have "tty ?u = tty s" by simp
  moreover have "length (file_array p) = 8" using p(2) by (simp add: files_ok_def pcb_shape_def)
  then have "flags (file_array ?q ! fd) = (if fd = i then 0 else flags (file_array p ! fd))" if "fd < 8" for fd
    using that by (simp add: nth_list_update closed_node_def)
  then have "fd \<in> used_fds ?u \<longleftrightarrow> fd \<in> used_fds s - {i}" for fd
    using used_fds_pcb [OF q, of fd] used_fds_pcb [OF p(1), of fd] by (auto split: if_splits)
  then have "used_fds ?u = used_fds s - {i}" by blast
  moreover have "fs ?u = fs s" by (simp add: set_curr_pcb_def)
  ultimately show ?thesis using sc k q p(1) by auto
qed

section \<open>Commands\<close>

text \<open>A command the kernel does not start: its words fit the buffers of \<open>execute\<close> and the first one names no executable.\<close>

definition no_command :: "'a kernel_scheme \<Rightarrow> u8 list \<Rightarrow> bool" where
  "no_command s cs \<longleftrightarrow> runn_task_num s < 6 \<and> length cs < 128 \<and> length (command_word cs) < 20 \<and> length (command_args cs) < 30 \<and>
     lookup_name (ram s) (fs s) (command_word cs) = None"

lemma keeps_no_command: "program_ready area pa s \<Longrightarrow> keeps s t \<Longrightarrow> no_command t = no_command s"
  using keeps_lookup(2) [of area pa s t] by (simp add: no_command_def keeps_def fun_eq_iff)

end
