(* ===== verification/User_Session.thy ===== *)
theory User_Session
  imports User_Tests User_Refusals
begin

text \<open>
  A program that runs on this kernel while somebody types: the state is the state of the kernel and the keys still to be pressed, a list
  of scan codes for every read of the keyboard. A read that waits for the keyboard meets the interrupts of its keys; every
  other call of this theory is not interrupted. The keyboard then delivers the lines typed, and the calls refuse what the
  test program expects them to refuse: the interpretations at the end of the theory give the runs of the
  programs of \<open>User_Input\<close> and \<open>User_Tests\<close> on the kernel.
\<close>

section \<open>The calls of a session\<close>

definition waits_key :: "u32 \<Rightarrow> 'a kernel_scheme \<Rightarrow> bool" where
  "waits_key fd s \<longleftrightarrow>
     (case curr_pcb s of None \<Rightarrow> False | Some p \<Rightarrow> (case open_node fd p of None \<Rightarrow> False | Some f \<Rightarrow> fop f = Some Stdin_ops))"

definition with_keys :: "u8 list list \<Rightarrow> (u32 \<times> 's) option \<Rightarrow> (u32 \<times> 's \<times> u8 list list) option" where
  "with_keys keys = map_option (\<lambda>(r, s). (r, s, keys))"

definition array_with_keys :: "u8 list list \<Rightarrow> (u32 \<times> u8 list \<times> 's) option \<Rightarrow> (u32 \<times> u8 list \<times> 's \<times> u8 list list) option" where
  "array_with_keys keys = map_option (\<lambda>(r, b, s). (r, b, s, keys))"

definition session_os :: "u32 \<Rightarrow> u32 \<Rightarrow> u32 \<Rightarrow> u32 \<Rightarrow> ('a kbd_scheme \<times> u8 list list) os" where
  "session_os shell_at esp ebp area = \<lparr>
     sys_read = \<lambda>fd b n (s, keys).
       if waits_key fd s
       then (case keys of
               [] \<Rightarrow> None
             | codes # keys \<Rightarrow> array_with_keys keys (sys_read (kernel_os (map (key_irq shell_at esp ebp) codes) area) fd b n s))
       else array_with_keys keys (sys_read (kernel_os [] area) fd b n s),
     sys_write = \<lambda>fd b n (s, keys). with_keys keys (sys_write (kernel_os [] area) fd b n s),
     sys_open = \<lambda>b (s, keys). with_keys keys (sys_open (kernel_os [] area) b s),
     sys_getargs = \<lambda>b n (s, keys). array_with_keys keys (sys_getargs (kernel_os [] area) b n s),
     sys_close = \<lambda>fd (s, keys). with_keys keys (sys_close (kernel_os [] area) fd s),
     sys_execute = \<lambda>b (s, keys). with_keys keys (sys_execute (kernel_os [] area) b s),
     sys_vidmap = \<lambda>a (s, keys). with_keys keys (sys_vidmap (kernel_os [] area) a s),
     sys_number = \<lambda>n (s, keys). with_keys keys (sys_number (kernel_os [] area) n s)\<rparr>"

section \<open>Keys and lines\<close>

definition typing_ready :: "'a kbd_scheme \<Rightarrow> bool" where
  "typing_ready s \<longleftrightarrow> kbd_ok s \<and> line s = [] \<and> plain_keys s \<and> cross_enter_flag s = 0 \<and> length (ter_read_buffer s) = 128 \<and> ter_read_buf_size s < 256"

text \<open>Keys of characters followed by the enter key, and the line they type.\<close>

definition keys_ok :: "'a kbd_scheme \<Rightarrow> u8 list \<Rightarrow> bool" where
  "keys_ok s ks \<longleftrightarrow> ks \<noteq> [] \<and> last ks = 0x1C \<and> length ks < 128 \<and> (\<forall>c \<in> set (butlast ks). key_char c s \<noteq> None)"

definition typed_line :: "'a kbd_scheme \<Rightarrow> u8 list \<Rightarrow> u8 list" where
  "typed_line s ks = map (\<lambda>c. the (key_char c s)) (butlast ks)"

lemma keys_typed:
  assumes "keys_ok s ks"
  shows "ks = butlast ks @ [0x1C]" "map (\<lambda>c. key_char c s) (butlast ks) = map Some (typed_line s ks)" "length (typed_line s ks) < 127"
    "\<forall>c \<in> set (typed_line s ks). 0x20 \<le> c \<and> c \<le> 0x7E"
proof -
  show "ks = butlast ks @ [0x1C]" using assms by (metis append_butlast_last_id keys_ok_def)
  show k: "map (\<lambda>c. key_char c s) (butlast ks) = map Some (typed_line s ks)" using assms by (auto simp: keys_ok_def typed_line_def)
  show "length (typed_line s ks) < 127" using assms by (cases ks) (auto simp: keys_ok_def typed_line_def)
  show "\<forall>c \<in> set (typed_line s ks). 0x20 \<le> c \<and> c \<le> 0x7E"
    using assms by (auto simp: keys_ok_def typed_line_def key_char_def Let_def split: if_splits)
qed

text \<open>The part of the state behind the record of the kernel decides what the keys mean.\<close>

lemma more_keys:
  fixes s t :: "'a kbd_scheme"
  assumes "kernel.more t = kernel.more s"
  shows "key_char c t = key_char c s" "plain_keys t = plain_keys s" "keys_ok t = keys_ok s" "typed_line t = typed_line s"
proof -
  let ?t = "s\<lparr>hw := hw t, ram := ram t, screen_x := screen_x t, screen_y := screen_y t, enter_tracker := enter_tracker t,
      keyboard_buffer := keyboard_buffer t, kb_buffer_position := kb_buffer_position t, enter_flag := enter_flag t,
      first_scroll_indicator := first_scroll_indicator t, mmu := mmu t, ter_read_buffer := ter_read_buffer t,
      ter_read_buf_size := ter_read_buf_size t, ter_read_indicator := ter_read_indicator t, cross_enter_flag := cross_enter_flag t,
      fs := fs t, runn_task_num := runn_task_num t, curr_task_pos := curr_task_pos t, task_bitmap := task_bitmap t, pcbs := pcbs t,
      tss_ss0 := tss_ss0 t, tss_esp0 := tss_esp0 t\<rparr>"
  have t: "t = ?t" using assms by (intro kernel.equality) simp_all
  have "shift_flag ?t = shift_flag s" "cap_flag ?t = cap_flag s" "control_flag ?t = control_flag s" "alt_flag ?t = alt_flag s" by simp_all
  then have f: "shift_flag t = shift_flag s" "cap_flag t = cap_flag s" "control_flag t = control_flag s" "alt_flag t = alt_flag s"
    unfolding t [symmetric] .
  show k: "key_char c t = key_char c s" "plain_keys t = plain_keys s" for c using f by (simp_all add: key_char_def ascii_def plain_keys_def)
  show "keys_ok t = keys_ok s" "typed_line t = typed_line s" by (simp_all add: keys_ok_def typed_line_def fun_eq_iff k)
qed

lemma keeps_typing:
  fixes s t :: "'a kbd_scheme"
  assumes "keeps s t" "typing_ready s"
  shows "typing_ready t" "keys_ok t = keys_ok s" "typed_line t = typed_line s"
proof -
  have m: "kernel.more t = kernel.more s" using assms(1) by (simp add: keeps_def input_frame_def)
  show "keys_ok t = keys_ok s" "typed_line t = typed_line s" using more_keys(3,4) [OF m] .
  have "enter_flag s \<noteq> -1" using assms(2) by (simp add: typing_ready_def kbd_ok_def)
  then have "keyboard_buffer t = keyboard_buffer s" "kb_buffer_position t = kb_buffer_position s" "enter_flag t = enter_flag s"
      "cross_enter_flag t = cross_enter_flag s" "ter_read_buffer t = ter_read_buffer s" "ter_read_buf_size t = ter_read_buf_size s"
    using assms(1) by (simp_all add: keeps_def input_frame_def)
  then show "typing_ready t" using assms more_keys(2) [OF m] by (simp add: typing_ready_def kbd_ok_def line_def keeps_def)
qed

section \<open>Reading a line\<close>

text \<open>What a read of the keyboard leaves alone: all a call keeps, but for the buffers of the terminal and of the keyboard.\<close>

definition keeps_disk :: "'a kernel_scheme \<Rightarrow> 'a kernel_scheme \<Rightarrow> bool" where
  "keeps_disk s t \<longleftrightarrow> con_inv t \<and> mmu t = mmu s \<and> fs t = fs s \<and> same_image (fs s) (ram s) (ram t) \<and> same_procs s t \<and>
     kernel.more t = kernel.more s"

lemma keeps_disk_resumed [simp]: "keeps_disk s (resumed t) = keeps_disk s t" "typing_ready (resumed u) = typing_ready u"
  by (simp_all add: keeps_disk_def typing_ready_def plain_keys_def resumed_def con_inv_def con_io_def kbd_ok_def line_def same_procs_def)

lemma keeps_disk_ready:
  assumes "program_ready area pa s" "keeps_disk s t"
  shows "program_ready area pa t" "dot_listed s \<Longrightarrow> dot_listed t" "no_command t = no_command s" "no_file t = no_file s" "used_fds t = used_fds s"
proof -
  let ?t = "t\<lparr>keyboard_buffer := keyboard_buffer s, kb_buffer_position := kb_buffer_position s, enter_flag := enter_flag s,
    ter_read_buffer := ter_read_buffer s, ter_read_buf_size := ter_read_buf_size s, ter_read_indicator := ter_read_indicator s,
    cross_enter_flag := cross_enter_flag s\<rparr>"
  obtain p where p: "curr_pcb s = Some p" "files_ok p" using assms(1) by (auto simp: program_ready_def)
  have sp: "same_procs s t" using assms(2) by (simp add: keeps_disk_def)
  have c: "curr_pcb t = curr_pcb s" by (rule same_procs_curr [OF sp])
  have "curr_pcb ?t = curr_pcb t" by (simp add: curr_pcb_def)
  note c = c this
  have "con_inv s" using assms(1) by (simp add: program_ready_def)
  then have k: "keeps s ?t" using assms(2) sp by (simp add: keeps_disk_def keeps_def input_frame_def con_inv_def same_procs_def)
  have "program_ready area pa ?t" using keeps_ready [OF assms(1) k] c p by simp
  then show "program_ready area pa t" using assms(2) c by (simp add: program_ready_def keeps_disk_def)
  show "dot_listed s \<Longrightarrow> dot_listed t" using keeps_dot [OF assms(1) k] by (simp add: dot_listed_def)
  show "no_command t = no_command s" using keeps_no_command [OF assms(1) k] by (simp add: no_command_def fun_eq_iff)
  show "no_file t = no_file s" using keeps_no_file [OF assms(1) k] by (simp add: no_file_def fun_eq_iff)
  show "used_fds t = used_fds s" using c(1) by (simp add: used_fds_def)
qed

lemma take_bytes_at: "k \<le> n \<Longrightarrow> take k (bytes_at m a n) = bytes_at m a k"
  by (simp add: bytes_at_def take_map)

lemma line_same_image:
  assumes r: "program_ready area pa s" and b: "length b \<le> 2048" "length l + 2 \<le> 2048"
    and m: "same_outside_video (write_bytes (ram s) pa b) m"
  shows "same_image (fs s) (ram s) ((write_bytes m pa l)(pa + of_nat (length l) + 1 := x))"
  unfolding same_image_def
proof
  fix a assume a: "a \<in> disk_image (ram s) (fs s)"
  have o: "a \<noteq> pa + of_nat i" if "i < 2048" for i using r a that by (auto simp: program_ready_def)
  have v: "\<not> (\<exists>i<2000. a = vaddr i \<or> a = vaddr i + 1)" using r a by (auto simp: program_ready_def)
  have "write_bytes m pa l a = m a" by (rule write_bytes_outside) (use o b(2) in auto)
  moreover have "m a = write_bytes (ram s) pa b a" using m v by (auto simp: same_outside_video_def)
  moreover have "write_bytes (ram s) pa b a = ram s a" by (rule write_bytes_outside) (use o b(1) in auto)
  moreover have "a \<noteq> pa + of_nat (length l) + 1" using o [of "length l + 1"] b(2) by (simp add: ac_simps)
  ultimately show "((write_bytes m pa l)(pa + of_nat (length l) + 1 := x)) a = ram s a" by simp
qed

lemma kernel_read_line:
  fixes s :: "'a kbd_scheme"
  assumes r: "program_ready area pa s" and t: "typing_ready s" and ks: "keys_ok s ks"
    and b: "length (typed_line s ks) + 3 \<le> length b" "length b \<le> 2048" and n: "length (typed_line s ks) < n" "n < 2048"
  defines "cs \<equiv> typed_line s ks"
  shows "\<exists>s' b'. sys_read (kernel_os (map (key_irq shell_at esp ebp) ks) area) 0 b (of_nat n) s = Some (of_nat (length cs + 1), b', s') \<and>
    keeps_disk s s' \<and> typing_ready s' \<and> tty s' = tty_write (cs @ [NEWLINE]) (tty s) \<and> length b' = length b \<and>
    take (length cs + 1) b' = cs @ [NEWLINE]"
proof -
  let ?t = "area_state pa b s" and ?hs = "map (key_irq shell_at esp ebp) ks" and ?l = "cs @ [NEWLINE]"
  obtain p where p: "curr_pcb s = Some p" "files_ok p" using r by (auto simp: program_ready_def)
  note at = area_keeps [OF r b(2)] and kt = keeps_typing [OF area_keeps(1) [OF r b(2)] t]
  have ty: "kbd_ok ?t" "line ?t = []" "plain_keys ?t" "cross_enter_flag ?t = 0" "length (ter_read_buffer ?t) = 128" "ter_read_buf_size ?t < 256"
    using kt(1) by (simp_all add: typing_ready_def)
  have "keys_ok ?t ks" using ks kt(2) by simp
  note ke = keys_typed [OF this, unfolded kt(3), folded cs_def]
  have m: "sint (of_nat n :: u32) > int (length cs)"
    using n by (simp add: cs_def sint_uint uint_nat unat_offset signed_take_bit_int_eq_self)
  have a: "maps_range (mmu ?t) area pa (length cs + 3)" "off_screen pa (length cs + 3)"
    using r ke(3) by (auto simp: program_ready_def off_screen_def intro: maps_range_le)
  from typed_line_read [OF ty ke(2,3) m a(1), of shell_at esp ebp 0] a(2) obtain u m' where
    u: "terminal_read ?hs 0 area (of_nat n) ?t = Some (of_nat (length cs + 1), u)"
      "ram u = (write_bytes m' pa ?l)(pa + of_nat (length cs + 1) + 1 := 0)" "same_outside_video (ram ?t) m'" "kbd_ok u" "line u = []"
      "tty u = tty_write ?l (tty ?t)"
      "con.more u = con.more (?t\<lparr>ter_read_indicator := 1, ter_read_buffer := handed cs, ter_read_buf_size := of_nat (length cs + 1),
        cross_enter_flag := 0, ter_read_indicator := 0\<rparr>)"
    using ke(1) by metis
  note f = more_tasks [OF u(7), simplified]
  have "maps_range (mmu u) area pa 2048" "off_kernel pa 2048" using r f(7) by (simp_all add: program_ready_def)
  then have sp: "spares_kernel u area (min (nat (sint (of_nat n :: u32))) 128 + 2)"
    using spares_range [of u area pa "min (nat (sint (of_nat n :: u32))) 128 + 2"] by (simp add: maps_range_le off_kernel_le)
  have "read_call ?hs 0 area (of_nat n) ?t = Some (of_nat (length cs + 1), u)"
    using std_node(1) [OF p(2)] p(1) u(1) sp by (simp add: read_call_def terminal_read_call_def)
  from array_calls(1) [OF r b(2) _ this] f(7)
  have sr: "sys_read (kernel_os ?hs area) 0 b (of_nat n) s = Some (of_nat (length cs + 1), bytes_at (ram u) pa (length b), resumed u)" by simp
  have "ram u = (write_bytes m' pa ?l)(pa + of_nat (length ?l) + 1 := 0)" using u(2) by simp
  moreover have "same_image (fs s) (ram s) ((write_bytes m' pa ?l)(pa + of_nat (length ?l) + 1 := 0))"
    by (rule line_same_image [OF r b(2)]) (use u(3) ke(3) in simp_all)
  ultimately have img: "same_image (fs s) (ram s) (ram u)" by simp
  have "same_procs s u" using f by (simp add: same_procs_def area_state_def)
  moreover have "kernel.more ?t = kernel.more s" using at(1) by (simp add: keeps_def input_frame_def)
  moreover have "con_inv u" using u(4) by (simp add: kbd_ok_def)
  ultimately have kd: "keeps_disk s u" using img f at(1) by (simp add: keeps_disk_def keeps_def)
  have "plain_keys u = plain_keys ?t" using more_keys(2) [of u ?t] f by simp
  moreover have "length (handed cs) = 128" using ke(3) by (simp add: handed_def)
  moreover have "(of_nat (length cs + 1) :: u32) < 256" using ke(3) unat_offset [of "length cs + 1"] by (simp add: word_less_nat_alt)
  ultimately have ty': "typing_ready u" using u(4,5) f ty(3) by (simp add: typing_ready_def)
  have "take (length cs + 1) (bytes_at (ram u) pa (length b)) = bytes_at (ram u) pa (length cs + 1)"
    by (rule take_bytes_at) (use b(1) in \<open>simp add: cs_def\<close>)
  moreover have "bytes_at (ram u) pa (length cs + 1) = ?l" unfolding u(2) using write_read_back [of ?l m' pa 0] ke(3) by simp
  ultimately show ?thesis using sr kd ty' u(6) at(2) by (intro exI [of _ "resumed u"] exI [of _ "bytes_at (ram u) pa (length b)"]) simp
qed

section \<open>The laws of a session\<close>

text \<open>A session at rest: the program and the keyboard are ready and the keys to come type lines. \<open>dot\<close> says whether the
  directory has its own entry, \<open>unknown\<close> are commands the kernel does not know.\<close>

fun session_ready :: "u32 \<Rightarrow> u32 \<Rightarrow> bool \<Rightarrow> u8 list set \<Rightarrow> 'a kbd_scheme \<times> u8 list list \<Rightarrow> bool" where
  "session_ready area pa dot unknown (s, keys) \<longleftrightarrow> program_ready area pa s \<and> typing_ready s \<and> (\<forall>ks \<in> set keys. keys_ok s ks) \<and>
     (dot \<longrightarrow> dot_listed s) \<and> (\<forall>l \<in> unknown. no_command s l)"

fun session_out :: "'a kbd_scheme \<times> u8 list list \<Rightarrow> tty" where
  "session_out (s, keys) = tty s"

fun session_typed :: "'a kbd_scheme \<times> u8 list list \<Rightarrow> u8 list list" where
  "session_typed (s, keys) = map (typed_line s) keys"

fun session_fds :: "'a kbd_scheme \<times> u8 list list \<Rightarrow> nat set" where
  "session_fds (s, keys) = used_fds s"

fun session_absent :: "'a kbd_scheme \<times> u8 list list \<Rightarrow> u8 list \<Rightarrow> bool" where
  "session_absent (s, keys) = no_file s"

lemma session_keeps:
  assumes "session_ready area pa dot unknown (s, keys)" "keeps s t" "program_ready area pa t"
  shows "session_ready area pa dot unknown (t, keys)" "session_typed (t, keys) = session_typed (s, keys)"
    "session_absent (t, keys) = session_absent (s, keys)"
proof -
  have r: "program_ready area pa s" "typing_ready s" using assms(1) by simp_all
  note k = keeps_typing [OF assms(2) r(2)]
  show "session_ready area pa dot unknown (t, keys)"
    using assms k keeps_dot [OF r(1) assms(2)] keeps_no_command [OF r(1) assms(2)] by simp
  show "session_typed (t, keys) = session_typed (s, keys)" "session_absent (t, keys) = session_absent (s, keys)"
    using k(3) keeps_no_file [OF r(1) assms(2)] by simp_all
qed

text \<open>A step of the kernel that shows nothing is one of the session.\<close>

definition unseen :: "u32 \<Rightarrow> u32 \<Rightarrow> bool \<Rightarrow> u8 list set \<Rightarrow> 'a kbd_scheme \<times> u8 list list \<Rightarrow> 'a kbd_scheme \<times> u8 list list \<Rightarrow> bool" where
  "unseen area pa dot unknown s t \<longleftrightarrow> session_ready area pa dot unknown t \<and> session_out t = session_out s \<and> session_typed t = session_typed s \<and>
     session_fds t = session_fds s \<and> session_absent t = session_absent s"

lemma session_silent: "session_ready area pa dot unknown (s, keys) \<Longrightarrow> silent s t \<Longrightarrow> unseen area pa dot unknown (s, keys) (t, keys)"
  using session_keeps [of area pa dot unknown s keys t] silent_ready [of area pa s t] silent_keeps [of s t] by (simp add: unseen_def)

lemma session_write:
  assumes "session_ready area pa dot unknown s" "n \<le> length b" "length b \<le> 2048"
  shows "\<exists>s'. sys_write (session_os sh esp ebp area) 1 b (of_nat n) s = Some (of_nat n + 1, s') \<and> session_ready area pa dot unknown s' \<and>
    session_out s' = tty_write (take n b) (session_out s) \<and> session_typed s' = session_typed s \<and> session_fds s' = session_fds s \<and>
    session_absent s' = session_absent s \<and> keeps (fst s) (fst s') \<and> call_step (fst s) (fst s')"
proof -
  obtain k keys where s: "s = (k, keys)" by force
  then have r: "program_ready area pa k" using assms(1) by simp
  from kernel_write [OF this assms(2,3), of "[]"] obtain k' where
    k': "sys_write (kernel_os [] area) 1 b (of_nat n) k = Some (of_nat n + 1, k')" "program_ready area pa k'" "tty k' = tty_write (take n b) (tty k)"
      "keeps k k'" "curr_pcb k' = curr_pcb k" by blast
  note ks = session_keeps [OF assms(1) [unfolded s] k'(4,2)]
  have "session_fds (k', keys) = session_fds (k, keys)" using k'(5) by (simp add: used_fds_def)
  moreover obtain p where "curr_pcb k = Some p" using r by (auto simp: program_ready_def)
  then have "call_step k k'" using kernel_os_step(1) [OF _ _ k'(1)] by (simp add: quiet_def)
  ultimately show ?thesis using k'(1,3,4) ks unfolding s by (intro exI [of _ "(k', keys)"]) (simp add: session_os_def with_keys_def)
qed

lemma session_read_line:
  assumes r: "session_ready area pa dot unknown s" and l: "session_typed s = cs # lns" and b: "length cs + 3 \<le> length b" "length b \<le> 2048"
    and n: "length cs < n" "n < 2048"
  shows "\<exists>s' b'. sys_read (session_os sh esp ebp area) 0 b (of_nat n) s = Some (of_nat (length cs + 1), b', s') \<and>
    session_ready area pa dot unknown s' \<and> session_out s' = tty_write (cs @ [NEWLINE]) (session_out s) \<and> session_typed s' = lns \<and>
    length b' = length b \<and> take (length cs + 1) b' = cs @ [NEWLINE] \<and> session_fds s' = session_fds s \<and> session_absent s' = session_absent s \<and>
    keeps_disk (fst s) (fst s')"
proof -
  obtain k ks keys where s: "s = (k, ks # keys)" "cs = typed_line k ks" "lns = map (typed_line k) keys" using l by (cases s) auto
  then have h: "program_ready area pa k" "typing_ready k" "keys_ok k ks" using r by simp_all
  from kernel_read_line [OF h, of b n sh esp ebp, folded s(2), OF b n] obtain k' b' where
    k': "sys_read (kernel_os (map (key_irq sh esp ebp) ks) area) 0 b (of_nat n) k = Some (of_nat (length cs + 1), b', k')" "keeps_disk k k'"
      "typing_ready k'" "tty k' = tty_write (cs @ [NEWLINE]) (tty k)" "length b' = length b" "take (length cs + 1) b' = cs @ [NEWLINE]" by blast
  obtain p where p: "curr_pcb k = Some p" "files_ok p" using h(1) by (auto simp: program_ready_def)
  have w: "waits_key 0 k" using std_node(1) [OF p(2)] p(1) by (simp add: waits_key_def)
  have "kernel.more k' = kernel.more k" using k'(2) by (simp add: keeps_disk_def)
  note m = more_keys(3,4) [OF this] and kd = keeps_disk_ready [OF h(1) k'(2)]
  have "session_ready area pa dot unknown (k', keys)" using r s(1) kd(1-3) k'(3) m(1) by simp
  moreover have "session_typed (k', keys) = lns" "session_fds (k', keys) = session_fds s" "session_absent (k', keys) = session_absent s"
    using m(2) kd(4,5) s(1,3) by simp_all
  ultimately show ?thesis using k'(1,2,4-6) w s(1)
    by (intro exI [of _ "(k', keys)"] exI [of _ b']) (simp add: session_os_def array_with_keys_def)
qed

interpretation typed_session: line_reader "session_os sh esp ebp area" "session_ready area pa dot unknown" session_out session_typed
proof
  fix s :: "'a kbd_scheme \<times> u8 list list" and n and b :: "u8 list"
  assume a: "session_ready area pa dot unknown s" "n \<le> length b" "length b \<le> 2048"
  from session_write [OF this] show "\<exists>s'. sys_write (session_os sh esp ebp area) 1 b (of_nat n) s = Some (of_nat n + 1, s') \<and>
      session_ready area pa dot unknown s' \<and> session_out s' = tty_write (take n b) (session_out s)" by blast
  fix r s' assume "sys_write (session_os sh esp ebp area) 1 b (of_nat n) s = Some (r, s')"
  with session_write [OF a, of sh esp ebp] show "session_typed s' = session_typed s" by auto
next
  fix s :: "'a kbd_scheme \<times> u8 list list" and cs
  assume a: "session_ready area pa dot unknown s" "cs \<in> set (session_typed s)"
  then obtain k :: "'a kbd_scheme" and ks where "keys_ok k ks" "cs = typed_line k ks" by (cases s) auto
  then have "length cs < 127" "\<forall>c \<in> set cs. 0x20 \<le> c \<and> c \<le> 0x7E" using keys_typed(3,4) by simp_all
  moreover from this(2) have "0 \<notin> set cs" "NEWLINE \<notin> set cs" by force+
  ultimately show "length cs < 127 \<and> 0 \<notin> set cs \<and> NEWLINE \<notin> set cs" by simp
next
  fix s :: "'a kbd_scheme \<times> u8 list list" and cs lns n and b :: "u8 list"
  assume "session_ready area pa dot unknown s" "session_typed s = cs # lns" "length cs + 3 \<le> length b" "length b \<le> 2048" "length cs < n" "n < 2048"
  from session_read_line [OF this] show "\<exists>s' b'. sys_read (session_os sh esp ebp area) 0 b (of_nat n) s = Some (of_nat (length cs + 1), b', s') \<and>
      session_ready area pa dot unknown s' \<and> session_out s' = tty_write (cs @ [NEWLINE]) (session_out s) \<and> session_typed s' = lns \<and>
      length b' = length b \<and> take (length cs + 1) b' = cs @ [NEWLINE]" by blast
qed

section \<open>Refused calls in a session\<close>

lemma session_refuses:
  assumes r: "session_ready area pa dot unknown s" and b: "length b \<le> 2048"
  shows "fd = 1 \<or> 2 \<le> unat fd \<and> unat fd \<notin> session_fds s \<Longrightarrow> \<exists>t. sys_read (session_os sh esp ebp area) fd b n s = Some (ERR, b, t) \<and> unseen area pa dot unknown s t"
    "fd = 0 \<or> 2 \<le> unat fd \<and> unat fd \<notin> session_fds s \<Longrightarrow> \<exists>t. sys_write (session_os sh esp ebp area) fd b n s = Some (ERR, t) \<and> unseen area pa dot unknown s t"
    "unat fd < 2 \<or> 8 \<le> unat fd \<or> session_fds s = {} \<Longrightarrow> \<exists>t. sys_close (session_os sh esp ebp area) fd s = Some (ERR, t) \<and> unseen area pa dot unknown s t"
    "a < 0x08000000 \<Longrightarrow> \<exists>t. sys_vidmap (session_os sh esp ebp area) a s = Some (ERR, t) \<and> unseen area pa dot unknown s t"
    "m > 10 \<or> m < 1 \<Longrightarrow> \<exists>t. sys_number (session_os sh esp ebp area) m s = Some (ERR, t) \<and> unseen area pa dot unknown s t"
    "session_absent s cs \<Longrightarrow> holds_string (list_view b) cs \<Longrightarrow> \<exists>t. sys_open (session_os sh esp ebp area) b s = Some (ERR, t) \<and> unseen area pa dot unknown s t"
    "session_fds s = {2..<8} \<Longrightarrow> \<exists>t. sys_open (session_os sh esp ebp area) (c_string ''.'') s = Some (ERR, t) \<and> unseen area pa dot unknown s t"
proof -
  obtain k keys where s: "s = (k, keys)" by force
  then have k: "program_ready area pa k" using r by simp
  obtain p where p: "curr_pcb k = Some p" "files_ok p" using k by (auto simp: program_ready_def)
  have u: "unseen area pa dot unknown s (t, keys)" if "silent k t" for t using session_silent [OF r [unfolded s] that] s by simp
  show "\<exists>t. sys_read (session_os sh esp ebp area) fd b n s = Some (ERR, b, t) \<and> unseen area pa dot unknown s t"
    if fd: "fd = 1 \<or> 2 \<le> unat fd \<and> unat fd \<notin> session_fds s"
  proof -
    have "\<not> waits_key fd k"
    proof (cases "unat fd < 2")
      case True
      then have "fd = 1" using fd by auto
      then show ?thesis using std_node(2) [OF p(2)] p(1) by (simp add: waits_key_def)
    next
      case False
      then have "open_node fd p = None" using fd s used_fds_pcb [OF p(1), of "unat fd"] by (intro bad_fd_node [OF p(2)]) auto
      then show ?thesis using p(1) by (simp add: waits_key_def)
    qed
    then show ?thesis using refused_read [OF k b, of fd "[]" n] fd u s by (fastforce simp: session_os_def array_with_keys_def)
  qed
  show "\<exists>t. sys_write (session_os sh esp ebp area) fd b n s = Some (ERR, t) \<and> unseen area pa dot unknown s t"
    if "fd = 0 \<or> 2 \<le> unat fd \<and> unat fd \<notin> session_fds s"
    using refused_write [OF k b, of fd "[]" n] that u s by (fastforce simp: session_os_def with_keys_def)
  show "\<exists>t. sys_close (session_os sh esp ebp area) fd s = Some (ERR, t) \<and> unseen area pa dot unknown s t"
    if "unat fd < 2 \<or> 8 \<le> unat fd \<or> session_fds s = {}"
    using refused_close [OF k, of fd "[]"] that u s by (fastforce simp: session_os_def with_keys_def)
  show "\<exists>t. sys_vidmap (session_os sh esp ebp area) a s = Some (ERR, t) \<and> unseen area pa dot unknown s t" if "a < 0x08000000"
    using refused_vidmap [OF k that, of "[]"] u s by (fastforce simp: session_os_def with_keys_def)
  show "\<exists>t. sys_number (session_os sh esp ebp area) m s = Some (ERR, t) \<and> unseen area pa dot unknown s t" if "m > 10 \<or> m < 1"
    using refused_number [OF k that, of "[]"] u s by (fastforce simp: session_os_def with_keys_def)
  show "\<exists>t. sys_open (session_os sh esp ebp area) b s = Some (ERR, t) \<and> unseen area pa dot unknown s t"
    if "session_absent s cs" "holds_string (list_view b) cs"
    using refused_open [OF k _ b that(2), of "[]"] that(1) u s by (fastforce simp: session_os_def with_keys_def)
  show "\<exists>t. sys_open (session_os sh esp ebp area) (c_string ''.'') s = Some (ERR, t) \<and> unseen area pa dot unknown s t" if "session_fds s = {2..<8}"
    using dot_refused [OF k, of "[]"] that u s by (fastforce simp: session_os_def with_keys_def)
qed

text \<open>The table of open files as the programs see it.\<close>

lemma session_directory:
  fixes s :: "'a kbd_scheme \<times> u8 list list"
  assumes r: "session_ready area pa True unknown s"
  shows "session_fds s \<subseteq> {2..<8}"
    "session_fds s = {2..<2 + k} \<Longrightarrow> k < 6 \<Longrightarrow> \<exists>t. sys_open (session_os sh esp ebp area) (c_string ''.'') s = Some (of_nat (2 + k), t) \<and>
      session_ready area pa True unknown t \<and> session_out t = session_out s \<and> session_fds t = {2..<3 + k} \<and> session_absent t = session_absent s"
    "i \<in> session_fds s \<Longrightarrow> \<exists>t. sys_close (session_os sh esp ebp area) (of_nat i) s = Some (0, t) \<and>
      session_ready area pa True unknown t \<and> session_out t = session_out s \<and> session_fds t = session_fds s - {i} \<and> session_absent t = session_absent s"
proof -
  obtain m keys where s: "s = (m, keys)" by force
  then have d: "program_ready area pa m" "dot_listed m" using r by simp_all
  note ks = session_keeps [OF r [unfolded s]]
  show "session_fds s \<subseteq> {2..<8}" unfolding s by (auto simp: used_fds_def split: option.splits)
  show "\<exists>t. sys_open (session_os sh esp ebp area) (c_string ''.'') s = Some (of_nat (2 + k), t) \<and>
      session_ready area pa True unknown t \<and> session_out t = session_out s \<and> session_fds t = {2..<3 + k} \<and> session_absent t = session_absent s"
    if k: "session_fds s = {2..<2 + k}" "k < 6"
  proof -
    have "used_fds m = {2..<2 + k}" using k(1) s by simp
    from dot_opened [OF d this k(2), of "[]"] obtain t where
      t: "sys_open (kernel_os [] area) (c_string ''.'') m = Some (of_nat (2 + k), t)" "program_ready area pa t" "tty t = tty m" "keeps m t"
        "used_fds t = {2..<3 + k}" by blast
    then show ?thesis using ks [OF t(4,2)] unfolding s by (intro exI [of _ "(t, keys)"]) (simp add: session_os_def with_keys_def)
  qed
  show "\<exists>t. sys_close (session_os sh esp ebp area) (of_nat i) s = Some (0, t) \<and>
      session_ready area pa True unknown t \<and> session_out t = session_out s \<and> session_fds t = session_fds s - {i} \<and> session_absent t = session_absent s"
    if i: "i \<in> session_fds s"
  proof -
    have "i \<in> used_fds m" using i s by simp
    from descriptor_closed [OF d(1) this, of "[]"] obtain t where
      t: "sys_close (kernel_os [] area) (of_nat i) m = Some (0, t)" "program_ready area pa t" "tty t = tty m" "keeps m t"
        "used_fds t = used_fds m - {i}" by blast
    then show ?thesis using ks [OF t(4,2)] unfolding s by (intro exI [of _ "(t, keys)"]) (simp add: session_os_def with_keys_def)
  qed
qed

interpretation checked_session: checked_calls "session_os sh esp ebp area" "session_ready area pa True unknown" session_out session_fds session_absent
proof
  fix s s' :: "'a kbd_scheme \<times> u8 list list" and k r and b :: "u8 list"
  assume a: "session_ready area pa True unknown s" "k \<le> length b" "length b \<le> 2048" "sys_write (session_os sh esp ebp area) 1 b (of_nat k) s = Some (r, s')"
  then show "session_fds s' = session_fds s \<and> session_absent s' = session_absent s" using session_write [OF a(1-3), of sh esp ebp] by auto
next
  fix s :: "'a kbd_scheme \<times> u8 list list" and b :: "u8 list" and fd n
  assume a: "session_ready area pa True unknown s" "length b \<le> 2048"
  note rf = session_refuses [OF this, unfolded unseen_def]
  show "\<exists>s'. sys_read (session_os sh esp ebp area) fd b n s = Some (ERR, b, s') \<and> session_ready area pa True unknown s' \<and>
      session_out s' = session_out s \<and> session_fds s' = session_fds s \<and> session_absent s' = session_absent s"
    if "fd = 1 \<or> 2 \<le> unat fd \<and> unat fd \<notin> session_fds s" using rf(1) [OF that, of sh esp ebp n] by blast
  show "\<exists>s'. sys_write (session_os sh esp ebp area) fd b n s = Some (ERR, s') \<and> session_ready area pa True unknown s' \<and>
      session_out s' = session_out s \<and> session_fds s' = session_fds s \<and> session_absent s' = session_absent s"
    if "fd = 0 \<or> 2 \<le> unat fd \<and> unat fd \<notin> session_fds s" using rf(2) [OF that, of sh esp ebp n] by blast
next
  fix s :: "'a kbd_scheme \<times> u8 list list" and fd a n l k i
  assume a: "session_ready area pa True unknown s"
  have "length ([] :: u8 list) \<le> 2048" by simp
  note rf = session_refuses [OF a this, unfolded unseen_def] and dr = session_directory [OF a]
  show "\<exists>s'. sys_close (session_os sh esp ebp area) fd s = Some (ERR, s') \<and> session_ready area pa True unknown s' \<and>
      session_out s' = session_out s \<and> session_fds s' = session_fds s \<and> session_absent s' = session_absent s"
    if "unat fd < 2 \<or> 8 \<le> unat fd \<or> session_fds s = {}" using rf(3) [OF that, of sh esp ebp] by blast
  show "\<exists>s'. sys_vidmap (session_os sh esp ebp area) a s = Some (ERR, s') \<and> session_ready area pa True unknown s' \<and>
      session_out s' = session_out s \<and> session_fds s' = session_fds s \<and> session_absent s' = session_absent s"
    if "a < 0x08000000" using rf(4) [OF that, of sh esp ebp] by blast
  show "\<exists>s'. sys_number (session_os sh esp ebp area) n s = Some (ERR, s') \<and> session_ready area pa True unknown s' \<and>
      session_out s' = session_out s \<and> session_fds s' = session_fds s \<and> session_absent s' = session_absent s"
    if "n > 10 \<or> n < 1" using rf(5) [OF that, of sh esp ebp] by blast
  show "session_fds s \<subseteq> {2..<8}" by (rule dr(1))
  show "\<exists>s'. sys_open (session_os sh esp ebp area) (c_string ''.'') s = Some (of_nat (2 + k), s') \<and> session_ready area pa True unknown s' \<and>
      session_out s' = session_out s \<and> session_fds s' = {2..<3 + k} \<and> session_absent s' = session_absent s"
    if "session_fds s = {2..<2 + k}" "k < 6" by (rule dr(2) [OF that])
  show "\<exists>s'. sys_open (session_os sh esp ebp area) (c_string ''.'') s = Some (ERR, s') \<and> session_ready area pa True unknown s' \<and>
      session_out s' = session_out s \<and> session_fds s' = session_fds s \<and> session_absent s' = session_absent s"
    if "session_fds s = {2..<8}" using rf(7) [OF that, of sh esp ebp] by blast
  show "\<exists>s'. sys_close (session_os sh esp ebp area) (of_nat i) s = Some (0, s') \<and> session_ready area pa True unknown s' \<and>
      session_out s' = session_out s \<and> session_fds s' = session_fds s - {i} \<and> session_absent s' = session_absent s"
    if "i \<in> session_fds s" by (rule dr(3) [OF that])
next
  fix s :: "'a kbd_scheme \<times> u8 list list" and l
  assume a: "session_ready area pa True unknown s" "session_absent s (text_of l)" "0 \<notin> set (text_of l)"
  have "length (text_of l) < 32" using a(2) by (cases s) (simp add: no_file_def)
  then have "length (c_string l) \<le> 2048" by (simp add: c_string_def text_of_def)
  from session_refuses(6) [OF a(1) this a(2) literal_string [OF a(3)], of sh esp ebp, unfolded unseen_def]
  show "\<exists>s'. sys_open (session_os sh esp ebp area) (c_string l) s = Some (ERR, s') \<and> session_ready area pa True unknown s' \<and>
      session_out s' = session_out s \<and> session_fds s' = session_fds s \<and> session_absent s' = session_absent s" by blast
qed

interpretation tested_session: test_bench "session_os sh esp ebp area" "session_ready area pa True unknown" session_out session_typed session_fds session_absent
proof
  fix s s' :: "'a kbd_scheme \<times> u8 list list" and cs lns k r and b b' :: "u8 list"
  assume a: "session_ready area pa True unknown s" "session_typed s = cs # lns" "length cs + 3 \<le> length b" "length b \<le> 2048" "length cs < k" "k < 2048"
    "sys_read (session_os sh esp ebp area) 0 b (of_nat k) s = Some (r, b', s')"
  then show "session_fds s' = session_fds s \<and> session_absent s' = session_absent s" using session_read_line [OF a(1-6), of sh esp ebp] by auto
qed

end
