(* ===== verification/User_Runs.thy ===== *)
theory User_Runs
  imports User_Session
begin

text \<open>
  Runs of the interactive programs on the kernel: the keys somebody presses, the calls of the program and what the screen
  shows at the end.
\<close>

section \<open>A small session\<close>

definition idle_pcb :: pcb where
  "idle_pcb = zero_pcb\<lparr>file_array := std_files, open_file_num := 2\<rparr>"

definition demo_session :: kbd where
  "demo_session = demo_kbd\<lparr>ram := demo_dir_ram, fs := demo_files, pcbs := (replicate 6 zero_pcb)[0 := idle_pcb]\<rparr>"

lemma idle_pcb_ok: "files_ok idle_pcb" "flags (file_array idle_pcb ! i) = 1 \<Longrightarrow> 2 \<le> i \<Longrightarrow> i < 8 \<Longrightarrow> False"
proof -
  have "pcb_shape idle_pcb" "file_array idle_pcb = std_files" "open_file_num idle_pcb = 2"
    by (simp_all add: pcb_shape_def idle_pcb_def zero_pcb_def std_files_def)
  from std_files_ok [OF this] show "files_ok idle_pcb" "flags (file_array idle_pcb ! i) = 1 \<Longrightarrow> 2 \<le> i \<Longrightarrow> i < 8 \<Longrightarrow> False" by blast+
qed

lemma demo_session_fields:
  "ram demo_session = demo_dir_ram" "fs demo_session = demo_files" "mmu demo_session = mmu demo_shell" "con_inv demo_session"
  "curr_pcb demo_session = Some idle_pcb" "typing_ready demo_session" "cap_flag demo_session = 0" "shift_flag demo_session = 0"
  "runn_task_num demo_session = 1"
  by (simp_all add: demo_session_def demo_kbd_def demo_terminals_def demo_kernel_def demo_shell_fields kernel.defs terminals.defs kbd.defs
      con_inv_def kbd_ok_def line_def plain_keys_def typing_ready_def curr_pcb_def)

lemma demo_first_byte: "i < 63 \<Longrightarrow> demo_dir_ram (dentry_addr demo_files i) \<in> {0x2E, 0x61, 0}"
proof -
  assume "i < 63"
  then have "unat (dentry_addr demo_files i) = 0x1040 + 64 * i"
    using unat_offset [of "0x1040 + 64 * i"] by (simp add: dentry_addr_def demo_files_def)
  moreover have "unat (x :: u32) = 0x1040 + 64 * i \<Longrightarrow> demo_dir_ram x \<in> {0x2E, 0x61, 0}" for x
    using \<open>i < 63\<close> by (auto simp: demo_dir_ram_def demo_ram_def; presburger)
  ultimately show ?thesis by blast
qed

lemma demo_absent:
  assumes "c \<notin> {0x2E, 0x61, 0}"
  shows "lookup_name demo_dir_ram demo_files (c # cs) = None"
proof -
  have "\<not> name_matches (c # cs) (disk_name demo_dir_ram demo_files i)" if "i < 63" for i
  proof -
    have "bytes_at demo_dir_ram (dentry_addr demo_files i) 32 =
        demo_dir_ram (dentry_addr demo_files i) # bytes_at demo_dir_ram (dentry_addr demo_files i + 1) 31"
      by (simp add: numeral_eq_Suc bytes_at_Suc)
    then show ?thesis using demo_first_byte [OF that] assms by (auto simp: name_matches_def disk_name_def)
  qed
  then show ?thesis by (auto simp: lookup_name_def find_None_iff)
qed

lemma demo_session_ready:
  assumes "\<forall>ks \<in> set keys. keys_ok demo_session ks" "\<forall>l \<in> unknown. no_command demo_session l"
  shows "session_ready 0x08048200 0x848200 True unknown (demo_session, keys)"
proof -
  note f = demo_session_fields
  have "program_ready 0x08048200 0x848200 demo_session" by (rule demo_ready [OF _ f(2-5) idle_pcb_ok(1)]) (simp add: f(1) demo_dir_small)
  moreover have "dot_listed demo_session" using demo_dir_lookup demo_dir_small(3) by (simp add: dot_listed_def f)
  ultimately show ?thesis using assms f(6) by simp
qed

text \<open>The keys of a word of lower case letters and digits.\<close>

lemma demo_key:
  assumes "ascii_array ! unat code = c" "code < 54" "0x20 \<le> c" "c \<le> 0x7E"
  shows "key_char code demo_session = Some c"
  using assms demo_session_fields(7,8) by (auto simp: key_char_def ascii_def Let_def)

lemma demo_keys:
  "map (\<lambda>c. key_char c demo_session) [0x12, 0x2D, 0x17, 0x14, 0x0B] = map Some [0x65, 0x78, 0x69, 0x74, 0x30]"
proof -
  have "ascii_array ! 18 = 0x65" "ascii_array ! 45 = 0x78" "ascii_array ! 23 = 0x69" "ascii_array ! 20 = 0x74" "ascii_array ! 11 = 0x30"
    by code_simp+
  then show ?thesis by (simp add: demo_key)
qed

lemma demo_lines:
  "keys_ok demo_session [0x12, 0x2D, 0x17, 0x14, 0x1C]" "typed_line demo_session [0x12, 0x2D, 0x17, 0x14, 0x1C] = text_of ''exit''"
  "keys_ok demo_session [0x2D, 0x1C]" "typed_line demo_session [0x2D, 0x1C] = text_of ''x''"
  "keys_ok demo_session [0x0B, 0x1C]" "typed_line demo_session [0x0B, 0x1C] = text_of ''0''"
  using demo_keys by (simp_all add: keys_ok_def typed_line_def text_of_def)

section \<open>Questions and answers\<close>

text \<open>C34: The program \<open>hello\<close> on this kernel asks for a name, waits for a line to be typed, greets by the line that was typed and
  exits with 0; the lines typed after it are left for the next program.\<close>

theorem hello_greets_user:
  fixes s :: "'a kbd_scheme"
  assumes "session_ready area pa dot unknown (s, ks # keys)" "length buf = 1024"
  shows "\<exists>t. hello (session_os shell_at esp ebp area) buf (s, ks # keys) = Some (0, t) \<and> session_ready area pa dot unknown t \<and>
    session_typed t = map (typed_line s) keys \<and>
    session_out t = tty_write (text_of ''Hi, what's your name? '' @ typed_line s ks @ [NEWLINE] @ text_of ''Hello, '' @ typed_line s ks @ [NEWLINE]) (tty s)"
  using typed_session.hello_greets [OF assms(1) _ assms(2), of "typed_line s ks" "map (typed_line s) keys" shell_at esp ebp] by simp

theorem hello_greets_user_witness:
  "\<exists>t. hello (session_os 0 0 0 0x08048200) (replicate 1024 0) (demo_session, [[0x2D, 0x1C]]) = Some (0, t) \<and> session_typed t = [] \<and>
    session_out t = tty_write (text_of ''Hi, what's your name? x\<newline>Hello, x\<newline>'') (tty demo_session)"
proof -
  have r: "session_ready 0x08048200 0x848200 True {} (demo_session, [0x2D, 0x1C] # [])"
    by (intro demo_session_ready) (simp_all add: demo_lines)
  from hello_greets_user [OF r, of "replicate 1024 0" 0 0 0] show ?thesis by (auto simp: demo_lines text_of_def)
qed

text \<open>C35: The program \<open>counter\<close> never counts on this kernel: a line is read with its newline, so no choice is a single
  character, and whatever is typed is answered by \<open>Wrong Choice!\<close> and result 0.\<close>

theorem counter_never_counts:
  fixes s :: "'a kbd_scheme"
  assumes "session_ready area pa dot unknown (s, ks # keys)" "length buf = 1024"
  shows "\<exists>t. counter (session_os shell_at esp ebp area) buf (s, ks # keys) = Some (0, t) \<and> session_ready area pa dot unknown t \<and>
    session_out t = tty_write (text_of ''Enter the Test Number: (0): 100, (1): 10000, (2): 100000\<newline>'' @ typed_line s ks @ [NEWLINE] @
      text_of ''Wrong Choice!\<newline>'') (tty s)"
  using typed_session.counter_refuses [OF assms(1) _ assms(2), of "typed_line s ks" "map (typed_line s) keys" shell_at esp ebp] by auto

theorem counter_never_counts_witness:
  "\<exists>t. counter (session_os 0 0 0 0x08048200) (replicate 1024 0) (demo_session, [[0x0B, 0x1C]]) = Some (0, t) \<and>
    session_out t = tty_write (text_of ''Enter the Test Number: (0): 100, (1): 10000, (2): 100000\<newline>0\<newline>Wrong Choice!\<newline>'') (tty demo_session)"
proof -
  have r: "session_ready 0x08048200 0x848200 True {} (demo_session, [0x0B, 0x1C] # [])"
    by (intro demo_session_ready) (simp_all add: demo_lines)
  from counter_never_counts [OF r, of "replicate 1024 0" 0 0 0] show ?thesis by (auto simp: demo_lines text_of_def)
qed

section \<open>The test of the error cases\<close>

text \<open>C7: The test program \<open>syserr\<close>, told to run all its tests, passes every one on this kernel: reads, writes and closes of negative, too
  big and unopened descriptors fail, the directory can be opened six times and no more, absent names and the empty name cannot
  be opened, \<open>vidmap\<close> refuses addresses outside the program, the terminals cannot be used the wrong way round, and unknown
  call numbers are refused; the program reports this and returns 0. The program starts with no open file, and the
  directory has its own entry and neither of the names the tests take for absent.\<close>

theorem syserr_passes_tests:
  fixes s :: "'a kbd_scheme"
  assumes "session_ready area pa True {} (s, ks # keys)" "typed_line s ks = 0x30 # cs" "length cs < 120" "length buf = 128"
    and "used_fds s = {}" "no_file s (text_of ''helloo'')" "no_file s (text_of ''shel'')" "\<forall>n. length (loc n) \<le> 2048"
  shows "\<exists>t. syserr (session_os shell_at esp ebp area) loc buf (s, ks # keys) = Some (0, t) \<and> session_ready area pa True {} t \<and>
    session_out t = tty_write (text_of ''Choose from tests 1-8. 0 to run all: '' @ 0x30 # cs @ [NEWLINE] @ all_pass) (tty s)"
proof -
  have "session_typed (s, ks # keys) = (0x30 # cs) # map (typed_line s) keys" "session_fds (s, ks # keys) = {}"
    "session_absent (s, ks # keys) (text_of ''helloo'')" "session_absent (s, ks # keys) (text_of ''shel'')" "session_absent (s, ks # keys) []"
    using assms(2,5-7) by (simp_all add: no_file_def lookup_name_def text_of_def)
  from tested_session.syserr_passes [OF assms(1) this(1) assms(3,4) this(2-5) assms(8), of shell_at esp ebp] show ?thesis by simp
qed

theorem syserr_passes_tests_witness:
  "\<exists>t. syserr (session_os 0 0 0 0x08048200) (\<lambda>_. replicate 32 0) (replicate 128 0) (demo_session, [[0x0B, 0x1C]]) = Some (0, t) \<and>
    session_out t = tty_write (text_of ''Choose from tests 1-8. 0 to run all: 0\<newline>'' @ all_pass) (tty demo_session)"
proof -
  have r: "session_ready 0x08048200 0x848200 True {} (demo_session, [0x0B, 0x1C] # [])"
    by (intro demo_session_ready) (simp_all add: demo_lines)
  have l: "typed_line demo_session [0x0B, 0x1C] = 0x30 # []" by (simp add: demo_lines text_of_def)
  have u: "used_fds demo_session = {}" using idle_pcb_ok(2) by (auto simp: used_fds_def demo_session_fields)
  have "no_file demo_session (text_of ''helloo'')" "no_file demo_session (text_of ''shel'')"
    by (simp_all add: no_file_def demo_session_fields text_of_def demo_absent)
  from syserr_passes_tests [OF r l _ _ u this, of "replicate 128 0" "\<lambda>_. replicate 32 0" 0 0 0] show ?thesis
    by (auto simp: text_of_def)
qed

end
