(* ===== verification/User_Commands.thy ===== *)
theory User_Commands
  imports User_Runs
begin

text \<open>
  A command from its start to its end: the shell calls \<open>execute\<close>, the kernel loads the program into a page of its own and
  enters it, the program runs over the system calls, its result goes to \<open>halt\<close>, and \<open>execute\<close> returns in the
  shell. The machine code of a program is a parameter of the model: what the code at an entry point does. The laws
  say that the shell finds everything as it was but for what the program printed.
\<close>

section \<open>The way through execute and halt\<close>

definition run_command ::
    "u32 \<Rightarrow> u32 \<Rightarrow> (u32 \<Rightarrow> 'a kernel_scheme \<Rightarrow> (u32 \<times> 'a kernel_scheme) option) \<Rightarrow> u32 \<Rightarrow> u8 list \<Rightarrow> 'a kernel_scheme \<Rightarrow>
       (u32 \<times> 'a kernel_scheme) option" where
  "run_command esp ebp main area b s = do {
     s \<leftarrow> vwrite area b s;
     (t, s) \<leftarrow> syscall [] esp ebp 2 area 0 0 s;
     case t of
       Return r \<Rightarrow> Some (r, s)
     | User_mode entry _ \<Rightarrow> do {
         (status, s) \<leftarrow> main entry s;
         (t, s) \<leftarrow> syscall [] 0 0 1 status 0 0 s;
         case t of
           Resume e f v \<Rightarrow> if e = esp \<and> f = ebp then Some (v, con_io sti (con_io cli s)) else None
         | _ \<Rightarrow> None
       }
     | _ \<Rightarrow> None
   }"

text \<open>What starting and ending a process leave alone: the console and what belongs to the keyboard and the terminals.\<close>

definition same_console :: "'a kernel_scheme \<Rightarrow> 'a kernel_scheme \<Rightarrow> bool" where
  "same_console s t \<longleftrightarrow> screen_x t = screen_x s \<and> screen_y t = screen_y s \<and> enter_tracker t = enter_tracker s \<and>
     keyboard_buffer t = keyboard_buffer s \<and> kb_buffer_position t = kb_buffer_position s \<and> enter_flag t = enter_flag s \<and>
     ter_read_buffer t = ter_read_buffer s \<and> ter_read_buf_size t = ter_read_buf_size s \<and> ter_read_indicator t = ter_read_indicator s \<and>
     cross_enter_flag t = cross_enter_flag s \<and> kernel.more t = kernel.more s"

lemma same_console_frame:
  assumes "same_console s t"
  shows "con_inv t = con_inv s" "input_frame s t" "chars (ram t) = chars (ram s) \<Longrightarrow> tty t = tty s"
  using assms by (simp_all add: same_console_def con_inv_def input_frame_def tty_def position_def)

lemma execute_console: "execute esp ebp c s = Some (User_mode a u, s') \<Longrightarrow> same_console s s'"
proof -
  assume "execute esp ebp c s = Some (User_mode a u, s')"
  from execute_success [OF this] obtain bytes t p fs' where
    t: "vwrite LOADADDR bytes (map_task (claim_slot ((con_io cli s)\<lparr>fs := fs'\<rparr>))) = Some t"
      "s' = (set_curr_pcb p t)\<lparr>tss_ss0 := KERNEL_DS, tss_esp0 := kernel_stack (curr_task_pos t), runn_task_num := runn_task_num t + 1\<rparr>" by blast
  obtain r where "t = (map_task (claim_slot ((con_io cli s)\<lparr>fs := fs'\<rparr>)))\<lparr>ram := r\<rparr>" using vwrite_ram [OF t(1)] by blast
  then show ?thesis unfolding t(2)
    by (simp add: same_console_def map_task_def claim_slot_def con_io_def set_curr_pcb_def split: option.split)
qed

lemma execute_disk:
  assumes "execute esp ebp c s = Some (User_mode a u, s')" "holds_string (vview s c) l" "length l < 128"
    "length (command_word l) < 20" "length (command_args l) < 30" "dir_ok (ram s) (fs s)"
  shows "same_disk (fs s) (fs s')"
proof -
  have view: "vview (con_io cli s) c = vview s c" by (intro ext) (simp add: vview_def vload_def)
  obtain first args where p: "parse_command (vview s c) = Some (first, args)" "holds_string (list_view first) (command_word l)"
    using parse_command_words [OF assms(2-5)] by blast
  from execute_success [OF assms(1)] obtain ret d fs' bytes t q where
    e: "read_dentry_by_name (ram s) (list_view first) (Some local_dentry) (fs s) = Some (ret, Some d, fs')"
      "vwrite LOADADDR bytes (map_task (claim_slot ((con_io cli s)\<lparr>fs := fs'\<rparr>))) = Some t"
      "s' = (set_curr_pcb q t)\<lparr>tss_ss0 := KERNEL_DS, tss_esp0 := kernel_stack (curr_task_pos t), runn_task_num := runn_task_num t + 1\<rparr>"
    using view p(1) by auto
  have "dentry_ok local_dentry" by (simp add: dentry_ok_def local_dentry_def)
  from read_dentry_by_name_lookup [OF p(2) assms(6) this] e(1) have "same_disk (fs s) fs'" by (auto split: option.splits)
  then show ?thesis using vwrite_kernel(1) [OF e(2)] e(3) by simp
qed

lemma halt_console:
  assumes "halt status s = Some (Resume e b v, s')"
  shows "same_console s s'" "ram s' = ram s" "fs s' = fs s"
  using assms
  by (auto simp: halt_def restart_shell_def Let_def same_console_def map_task_def con_io_def split: bind_splits if_splits prod.splits)

section \<open>Pages\<close>

lemma set_task_page_again: "enable_paging (set_task_page a (enable_paging (set_task_page b p))) = enable_paging (set_task_page a p)"
  by (simp add: set_task_page_def enable_paging_def or_entry_def Let_def or.assoc)

lemma frame_address:
  assumes "k < 6" "j < 0x400000"
  shows "unat (task_frame k + of_nat j) = 0x800000 + 0x400000 * k + j"
proof -
  have "task_frame k + of_nat j = of_nat (0x800000 + 0x400000 * k + j)" by (simp add: task_frame_def)
  then show ?thesis using unat_offset [of "0x800000 + 0x400000 * k + j"] assms by simp
qed

lemma screen_address: "j < 2000 \<Longrightarrow> unat (vaddr j) < 0x800000 \<and> unat (vaddr j + 1) < 0x800000"
proof -
  assume j: "j < 2000"
  have "vaddr j = of_nat (0xB8000 + 2 * j)" "vaddr j + 1 = of_nat (0xB8000 + 2 * j + 1)" by (simp_all add: vaddr_def)
  then show ?thesis using unat_offset [of "0xB8000 + 2 * j"] unat_offset [of "0xB8000 + 2 * j + 1"] j by simp
qed

lemma frame_off_screen:
  assumes "k < 6" "off + n \<le> 0x400000"
  shows "off_screen (task_frame k + of_nat off) n"
  unfolding off_screen_def
proof (intro allI impI)
  fix i j :: nat assume "i < n" "j < 2000"
  then have "unat (task_frame k + of_nat off + of_nat i) \<ge> 0x800000"
    using frame_address [OF assms(1), of "off + i"] assms(2) by (simp add: add.assoc)
  with screen_address [OF \<open>j < 2000\<close>]
  show "task_frame k + of_nat off + of_nat i \<noteq> vaddr j \<and> task_frame k + of_nat off + of_nat i \<noteq> vaddr j + 1" by auto
qed

text \<open>The file system image lies below the frames of the tasks.\<close>

definition disk_low :: "'a kernel_scheme \<Rightarrow> bool" where
  "disk_low s \<longleftrightarrow> (\<forall>a \<in> disk_image (ram s) (fs s). unat a < 0x800000)"

lemma frame_off_disk:
  assumes "disk_low s" "k < 6" "j < 0x400000"
  shows "task_frame k + of_nat j \<notin> disk_image (ram s) (fs s)"
  using assms frame_address [OF assms(2,3)] by (auto simp: disk_low_def)

lemma load_same_image:
  assumes "disk_low s" "k < 6" "0x48000 + length xs \<le> 0x400000"
  shows "same_image (fs s) (ram s) (write_bytes (ram s) (task_frame k + 0x48000) xs)"
    "chars (write_bytes (ram s) (task_frame k + 0x48000) xs) = chars (ram s)"
proof -
  show "same_image (fs s) (ram s) (write_bytes (ram s) (task_frame k + 0x48000) xs)"
    unfolding same_image_def
  proof
    fix x assume x: "x \<in> disk_image (ram s) (fs s)"
    show "write_bytes (ram s) (task_frame k + 0x48000) xs x = ram s x"
    proof (rule write_bytes_outside)
      fix i assume "i < length xs"
      then show "x \<noteq> task_frame k + 0x48000 + of_nat i" using x frame_off_disk [OF assms(1,2), of "0x48000 + i"] assms(3) by (auto simp: add.assoc)
    qed
  qed
  have "write_bytes (ram s) (task_frame k + 0x48000) xs (vaddr j) = ram s (vaddr j)" if "j < 2000" for j
  proof (rule write_bytes_outside)
    fix i assume "i < length xs"
    then have "unat (task_frame k + of_nat (0x48000 + i)) \<ge> 0x800000" using frame_address [OF assms(2), of "0x48000 + i"] assms(3) by simp
    then show "vaddr j \<noteq> task_frame k + 0x48000 + of_nat i" using screen_address [OF that] by (auto simp: add.assoc)
  qed
  then show "chars (write_bytes (ram s) (task_frame k + 0x48000) xs) = chars (ram s)" by (simp add: chars_def)
qed

lemma read_written:
  assumes "length xs \<le> 0x400000"
  shows "bytes_at (write_bytes m a xs) a (length xs) = xs"
proof (rule nth_equalityI)
  fix i assume "i < length (bytes_at (write_bytes m a xs) a (length xs))"
  then have i: "i < length xs" by simp
  then have "unat (of_nat i :: u32) = i" using assms by (intro unat_offset) simp
  then show "bytes_at (write_bytes m a xs) a (length xs) ! i = xs ! i" using i assms by (simp add: bytes_at_def write_bytes_apply)
qed simp

lemma same_image_program:
  assumes "image_layout m f" "same_image f m m'" "program_ok m f ino"
  shows "program_ok m' f ino" "program_bytes m' f ino = program_bytes m f ino"
proof -
  have i: "ino < num_inodes m f" "unat (inode_length m f ino) < 0x400000 - 0x48000 + 1"
      "blocks_valid m f ino 0 (max 30 (unat (inode_length m f ino)))" "28 \<le> unat (inode_length m f ino)"
    using assms(3) by (simp_all add: program_ok_def)
  have len: "inode_length m' f ino = inode_length m f ino" by (rule same_image_inode [OF assms(1,2) i(1)])
  have d: "(0 + max 30 (unat (inode_length m f ino))) div 4096 < 1023" using i(2) by (simp add: div_less_iff_less_mult)
  have b: "file_byte m' f ino k = file_byte m f ino k" if "k \<le> max 30 (unat (inode_length m f ino))" for k
  proof (rule same_image_byte [OF assms(1,2) i(1)])
    have "k div 4096 \<le> max 30 (unat (inode_length m f ino)) div 4096" using that by (rule div_le_mono)
    then show "k div 4096 < 1023" "data_block m f ino (of_nat (k div 4096)) < num_data_blocks m f"
      using d i(3) by (simp_all add: blocks_valid_def)
  qed
  show "program_bytes m' f ino = program_bytes m f ino" using b len by (simp add: program_bytes_def)
  have four: "map (file_byte m' f ino) [0..<4] = map (file_byte m f ino) [0..<4]" using b i(4) by (intro map_cong) simp_all
  show "program_ok m' f ino"
    unfolding program_ok_def four using assms(3) len same_image_counts [OF assms(2)] same_image_blocks [OF assms(1,2) i(1) d]
    by (simp add: program_ok_def)
qed

section \<open>The shell and its child\<close>

text \<open>The shell runs, is the caller of \<open>execute\<close>, there is room for one more process, and the page of the shell is the one that is
  mapped.\<close>

definition shell_tasks :: "u32 \<Rightarrow> 'a kernel_scheme \<Rightarrow> bool" where
  "shell_tasks esp s \<longleftrightarrow> tasks_ok s \<and> runn_task_num s \<noteq> 0 \<and> runn_task_num s < 6 \<and> task_bitmap s ! 0 \<noteq> 0 \<and>
     pcb_index (esp AND PROCESSMASK) = Some (unat (curr_task_pos s)) \<and> task_bitmap s ! unat (curr_task_pos s) \<noteq> 0 \<and>
     process_id (pcbs s ! unat (curr_task_pos s)) = uint (curr_task_pos s) \<and> (\<forall>p \<in> set (pcbs s). pcb_shape p) \<and>
     paging_ok (mmu s) \<and> mmu s = enable_paging (set_task_page (curr_task_pos s) (mmu s)) \<and> disk_low s"

text \<open>A program that was just started with a command: its code is at its place and it can work, no file is open, and the disk and
  the screen are the ones the shell saw.\<close>

definition started :: "u8 list \<Rightarrow> u32 \<Rightarrow> u32 \<Rightarrow> 'a kernel_scheme \<Rightarrow> u8 list \<Rightarrow> 'a kernel_scheme \<Rightarrow> pcb \<Rightarrow> bool" where
  "started code area pa s l t p \<longleftrightarrow> vread LOADADDR (length code) t = Some code \<and> program_ready area pa t \<and> curr_pcb t = Some p \<and> file_array p = std_files \<and>
     holds_string (list_view (arg_buffer p)) (command_args l) \<and> same_disk (fs s) (fs t) \<and> same_image (fs s) (ram s) (ram t) \<and> tty t = tty s"

lemma ready_intro:
  assumes "program_ready area pa s" "same_disk (fs s) (fs t)" "same_image (fs s) (ram s) (ram t)" "con_inv t" "area' \<noteq> 0"
    and "maps_range (mmu t) area' pa' 2048" "off_screen pa' 2048" "off_kernel pa' 2048" "curr_pcb t = Some q" "files_ok q"
    and "\<And>j. j < 2048 \<Longrightarrow> pa' + of_nat j \<notin> disk_image (ram s) (fs s)"
  shows "program_ready area' pa' t"
proof -
  have l: "image_layout (ram s) (fs s)" "dir_ok (ram s) (fs s)" using assms(1) by (simp_all add: program_ready_def)
  note n = same_disk_names(1-3) [OF assms(2)] same_image_layout [OF assms(3)] same_image_dir(1) [OF l(1) assms(3)] same_image_image [OF assms(3)]
  show ?thesis using assms(1,4-11) n by (simp add: program_ready_def)
qed

definition valid_command :: "u8 list \<Rightarrow> bool" where
  "valid_command l \<longleftrightarrow> length l < 128 \<and> length (command_word l) < 20 \<and> length (command_args l) < 30"

lemma command_starts:
  fixes s :: "'a kernel_scheme"
  assumes r: "program_ready area pa s" and sh: "shell_tasks esp s" and b: "length b \<le> 2048" "holds_string (list_view b) l" "valid_command l"
    and prog: "lookup_name (ram s) (fs s) (command_word l) = Some i" "ino = read32 (ram s) (dentry_addr (fs s) i + 36)" "program_ok (ram s) (fs s) ino"
    and off: "off + 2048 \<le> 0x400000"
  shows "\<exists>t k p. execute esp ebp area (area_state pa b s) = Some (User_mode (entry_point (program_bytes (ram s) (fs s) ino)) USER_ESP, t) \<and>
    k < 6 \<and> started (program_bytes (ram s) (fs s) ino) (0x08000000 + of_nat off) (task_frame k + of_nat off) s l t p \<and> same_console (area_state pa b s) t \<and>
    mmu t = enable_paging (set_task_page (of_nat k) (mmu s))"
proof -
  let ?a = "area_state pa b s" and ?bytes = "program_bytes (ram s) (fs s) ino"
  note at = area_keeps [OF r b(1)] and ar = area_ready [OF r b(1)] and kl = keeps_lookup [OF r area_keeps(1) [OF r b(1)]]
  have l: "image_layout (ram s) (fs s)" "area \<noteq> 0" using r by (simp_all add: program_ready_def)
  have si: "same_image (fs s) (ram s) (ram ?a)" using at(1) by (simp add: keeps_def)
  have e1: "tasks_ok ?a" "runn_task_num ?a < 6" "\<forall>p \<in> set (pcbs ?a). pcb_shape p" "paging_ok (mmu ?a)" "parent_known esp ?a"
    using sh by (simp_all add: shell_tasks_def area_state_def tasks_ok_def parent_known_def)
  have cmd: "length l < 128" "length (command_word l) < 20" "length (command_args l) < 30" using b(3) by (simp_all add: valid_command_def)
  have e2: "fs_inodes (fs ?a) = fs_bootblk (fs ?a) + 0x1000" using l(1) by (simp add: image_layout_def)
  have e3: "lookup_name (ram ?a) (fs ?a) (command_word l) = Some i" using kl(2) prog(1) by simp
  have e4: "read32 (ram ?a) (dentry_addr (fs ?a) i + 36) = ino"
    using same_image_dir(4) [OF l(1) si lookup_name_below [OF prog(1)]] prog(2) by simp
  note sp = same_image_program [OF l(1) si prog(3)]
  have e5: "program_ok (ram ?a) (fs ?a) (read32 (ram ?a) (dentry_addr (fs ?a) i + 36))" unfolding e4 using sp(1) by simp
  from execute_loads [OF e1(1-4) l(2) kernel_string [OF r b(1,2)] cmd kl(1) e2 e3 e5 e1(5), of ebp] obtain t k p where
    t: "execute esp ebp area ?a = Some (User_mode (entry_point ?bytes) USER_ESP, t)" "k < 6" "curr_task_pos t = of_nat k"
      "ram t = write_bytes (ram ?a) (task_frame k + 0x48000) ?bytes" "curr_pcb t = Some p" "pcb_shape p" "file_array p = std_files"
      "open_file_num p = 2" "holds_string (list_view (arg_buffer p)) (command_args l)"
    unfolding e4 using sp(2) by auto
  have mmu: "mmu t = enable_paging (set_task_page (of_nat k) (mmu s))" using execute_bookkeeping [OF t(1)] t(3) by auto
  have con: "same_console ?a t" by (rule execute_console [OF t(1)])
  have disk: "same_disk (fs s) (fs t)" using execute_disk [OF t(1) kernel_string [OF r b(1,2)] cmd kl(1)] by simp
  have low: "disk_low s" using sh by (simp add: shell_tasks_def)
  then have low': "disk_low ?a" using same_image_image [OF si] by (simp add: disk_low_def)
  have len: "0x48000 + length ?bytes \<le> 0x400000" using prog(3) by (simp add: program_ok_def program_bytes_def)
  note load = load_same_image [OF low' t(2) len]
  have img: "same_image (fs s) (ram s) (ram t)" unfolding t(4) using same_image_trans [OF si] load(1) by simp
  have "program_ready (0x08000000 + of_nat off) (task_frame k + of_nat off) t"
  proof (rule ready_intro [OF r disk img])
    show "con_inv t" using same_console_frame(1) [OF con] r by (simp add: program_ready_def)
    have "unat (0x08000000 + of_nat off :: u32) = 0x08000000 + off" using unat_offset [of "0x08000000 + off"] off by simp
    then show "(0x08000000 + of_nat off :: u32) \<noteq> 0" by auto
    show "maps_range (mmu t) (0x08000000 + of_nat off) (task_frame k + of_nat off) 2048"
      unfolding mmu maps_range_enable by (rule maps_range_task [OF _ t(2) off]) (use sh in \<open>simp add: shell_tasks_def\<close>)
    show "off_screen (task_frame k + of_nat off) 2048" by (rule frame_off_screen [OF t(2) off])
    show "off_kernel (task_frame k + of_nat off) 2048" by (rule off_kernel_task [OF t(2) off])
    show "curr_pcb t = Some p" "files_ok p" using t(5) std_files_ok(1) [OF t(6-8)] by simp_all
    show "task_frame k + of_nat off + of_nat j \<notin> disk_image (ram s) (fs s)" if "j < 2048" for j
      using frame_off_disk [OF low t(2), of "off + j"] that off by (simp add: add.assoc)
  qed
  moreover have "vread LOADADDR (length ?bytes) t = Some ?bytes"
  proof -
    have "maps_range (mmu t) (0x08000000 + of_nat 0x48000) (task_frame k + of_nat 0x48000) (length ?bytes)"
      unfolding mmu maps_range_enable by (rule maps_range_task [OF _ t(2) len]) (use sh in \<open>simp add: shell_tasks_def\<close>)
    moreover have "(0x08000000 + of_nat 0x48000 :: u32) = LOADADDR" by simp
    ultimately have "maps_range (mmu t) LOADADDR (task_frame k + 0x48000) (length ?bytes)" by (simp only: of_nat_numeral)
    from vread_range [OF this] show ?thesis unfolding t(4) using read_written [of ?bytes] len by simp
  qed
  moreover have "tty t = tty s" using same_console_frame(3) [OF con] load(2) t(4) at(2) by simp
  ultimately have "started (program_bytes (ram s) (fs s) ino) (0x08000000 + of_nat off) (task_frame k + of_nat off) s l t p"
    using t(5,7,9) disk img by (simp add: started_def)
  then show ?thesis using t(1,2) con mmu by blast
qed

text \<open>The status with which the parent of a program goes on.\<close>

lemma call_step_io [simp]: "call_step s (con_io f t) = call_step s t"
  by (simp add: call_step_def)

lemma input_frame_trans: "input_frame s t \<Longrightarrow> input_frame t u \<Longrightarrow> input_frame s u"
  by (auto simp: input_frame_def)

lemma call_step_pcbs: "call_step s t \<Longrightarrow> length (pcbs t) = length (pcbs s) \<and> (\<forall>i. i \<noteq> unat (curr_task_pos s) \<longrightarrow> pcbs t ! i = pcbs s ! i)"
  by (auto simp: call_step_def)

lemma shell_tasks_frame:
  assumes "shell_tasks esp s" "keeps s t" "pcbs t = (pcbs s)[k := zero_pcb]" "task_bitmap s ! k = 0"
  shows "shell_tasks esp t" "curr_pcb t = curr_pcb s"
proof -
  have ne: "k \<noteq> unat (curr_task_pos s)" using assms(1,4) by (auto simp: shell_tasks_def)
  have k: "mmu t = mmu s" "curr_task_pos t = curr_task_pos s" "runn_task_num t = runn_task_num s" "task_bitmap t = task_bitmap s"
      "same_disk (fs s) (fs t)" "same_image (fs s) (ram s) (ram t)"
    using assms(2) by (simp_all add: keeps_def)
  show "curr_pcb t = curr_pcb s" using k(2) assms(3) ne by (simp add: curr_pcb_def)
  have "pcb_shape zero_pcb" by (simp add: pcb_shape_def zero_pcb_def)
  then have "\<forall>p \<in> set (pcbs t). pcb_shape p" using assms(1,3) set_update_subset_insert [of "pcbs s" k zero_pcb] by (auto simp: shell_tasks_def)
  moreover have "disk_low t" using assms(1) same_disk_names(1) [OF k(5)] same_image_image [OF k(6)] by (simp add: shell_tasks_def disk_low_def)
  ultimately show "shell_tasks esp t" using assms(1,3) k ne by (simp add: shell_tasks_def tasks_ok_def)
qed

lemma command_returns:
  fixes s :: "'a kernel_scheme"
  assumes r: "program_ready area pa s" and sh: "shell_tasks esp s" and b: "length b \<le> 2048" "holds_string (list_view b) l" "valid_command l"
    and prog: "lookup_name (ram s) (fs s) (command_word l) = Some i" "ino = read32 (ram s) (dentry_addr (fs s) i + 36)" "program_ok (ram s) (fs s) ino"
    and off: "off + 2048 \<le> 0x400000"
    and run: "\<And>t p cpa. started (program_bytes (ram s) (fs s) ino) (0x08000000 + of_nat off) cpa s l t p \<Longrightarrow>
      \<exists>u. main (entry_point (program_bytes (ram s) (fs s) ino)) t = Some (v, u) \<and> running (0x08000000 + of_nat off) cpa [] t u \<and>
        tty u = tty_write shown (tty t)"
  shows "\<exists>s'. run_command esp ebp main area b s = Some (expand_status (ucast v), s') \<and> program_ready area pa s' \<and> keeps s s' \<and>
    curr_pcb s' = curr_pcb s \<and> shell_tasks esp s' \<and> tty s' = tty_write shown (tty s)"
proof -
  let ?a = "area_state pa b s" and ?e = "entry_point (program_bytes (ram s) (fs s) ino)"
  from command_starts [OF assms(1-9), of ebp] obtain t k p where
    t: "execute esp ebp area ?a = Some (User_mode ?e USER_ESP, t)" "started (program_bytes (ram s) (fs s) ino) (0x08000000 + of_nat off) (task_frame k + of_nat off) s l t p"
      "same_console ?a t" "mmu t = enable_paging (set_task_page (of_nat k) (mmu s))" by blast
  from run [OF t(2)] obtain u where
    u: "main ?e t = Some (v, u)" "running (0x08000000 + of_nat off) (task_frame k + of_nat off) [] t u" "tty u = tty_write shown (tty t)" by blast
  have ku: "keeps t u" "call_step t u" using u(2) by (simp_all add: running_def since_def quiet_def)
  let ?u = "con_io sti (con_io cli u)"
  have sa: "tasks_ok ?a" "runn_task_num ?a \<noteq> 0" "task_bitmap ?a ! 0 \<noteq> 0" "pcb_index (esp AND PROCESSMASK) = Some (unat (curr_task_pos ?a))"
      "task_bitmap ?a ! unat (curr_task_pos ?a) \<noteq> 0" "process_id (pcbs ?a ! unat (curr_task_pos ?a)) = uint (curr_task_pos ?a)"
    using sh by (simp_all add: shell_tasks_def area_state_def tasks_ok_def)
  from process_halts [OF sa t(1), of ?u "ucast v"] ku(2) obtain w j where
    w: "halt (ucast v) ?u = Some (Resume esp ebp (expand_status (ucast v)), w)" "task_bitmap ?a ! j = 0" "pcbs w = (pcbs ?a)[j := zero_pcb]"
      "curr_task_pos w = curr_task_pos ?a" "runn_task_num w = runn_task_num ?a" "task_bitmap w = task_bitmap ?a"
      "mmu w = enable_paging (set_task_page (curr_task_pos ?a) (mmu ?u))" by auto
  note hc = halt_console [OF w(1)]
  have "vwrite area b s = Some (s\<lparr>ram := write_bytes (ram s) pa b\<rparr>)"
    using r b(1) by (intro vwrite_range) (auto simp: program_ready_def intro: maps_range_le)
  then have rc: "run_command esp ebp main area b s = Some (expand_status (ucast v), resumed w)"
    using t(1) u(1) w(1) by (simp add: run_command_def syscall_def Let_def area_state_def resumed_def)
  have a: "pcbs ?a = pcbs s" "task_bitmap ?a = task_bitmap s" "curr_task_pos ?a = curr_task_pos s" "runn_task_num ?a = runn_task_num s"
    by (simp_all add: area_state_def)
  have st: "same_disk (fs s) (fs t)" "same_image (fs s) (ram s) (ram t)" "tty t = tty s" using t(2) by (simp_all add: started_def)
  have mmu: "mmu w = mmu s"
  proof -
    have "mmu w = enable_paging (set_task_page (curr_task_pos s) (mmu s))"
      using w(7) a(3) ku(1) t(4) by (simp add: keeps_def set_task_page_again)
    then show ?thesis using sh by (simp add: shell_tasks_def)
  qed
  have cu: "con_inv u" "input_frame t u" using ku(1) by (simp_all add: keeps_def)
  have "input_frame s ?a" using area_keeps(1) [OF r b(1)] by (simp add: keeps_def)
  from input_frame_trans [OF this same_console_frame(2) [OF t(3)]] have "input_frame s u" using input_frame_trans cu(2) by blast
  then have "input_frame s ?u" by (simp add: input_frame_def con_io_def)
  then have fr: "input_frame s w" using input_frame_trans same_console_frame(2) [OF hc(1)] by blast
  have "same_image (fs t) (ram t) (ram u)" "same_disk (fs t) (fs u)" using ku(1) by (simp_all add: keeps_def)
  then have im: "same_image (fs s) (ram s) (ram w)" "same_disk (fs s) (fs w)"
    using same_image_trans [OF st(2)] same_disk_names(10) [OF st(1)] same_disk_trans [OF st(1)] hc(2,3) by simp_all
  have "con_inv w" using same_console_frame(1) [OF hc(1)] cu(1) by (simp add: con_inv_def)
  then have k: "keeps s w" using mmu im fr w(4-6) a by (simp add: keeps_def)
  have "pcbs w = (pcbs s)[j := zero_pcb]" "task_bitmap s ! j = 0" using w(2,3) a by simp_all
  note sf = shell_tasks_frame [OF sh k this]
  obtain q where q: "curr_pcb s = Some q" "files_ok q" using r by (auto simp: program_ready_def)
  have "program_ready area pa w" by (rule keeps_ready [OF r k _ q(2)]) (use sf(2) q(1) in simp)
  moreover have "tty w = tty_write shown (tty s)" using same_console_frame(3) [OF hc(1)] hc(2) u(3) st(3) by simp
  moreover have "shell_tasks esp (resumed w) = shell_tasks esp w" "program_ready area pa (resumed w) = program_ready area pa w"
    by (simp_all add: shell_tasks_def tasks_ok_def disk_low_def resumed_def program_ready_def con_inv_def)
  ultimately show ?thesis using rc k sf by (intro exI [of _ "resumed w"]) simp
qed

section \<open>Disks\<close>

text \<open>Two states with the same file system.\<close>

definition disk_as :: "'a kernel_scheme \<Rightarrow> 'a kernel_scheme \<Rightarrow> bool" where
  "disk_as s t \<longleftrightarrow> image_layout (ram s) (fs s) \<and> same_disk (fs s) (fs t) \<and> same_image (fs s) (ram s) (ram t)"

lemma disk_as_lookup:
  assumes "disk_as s t"
  shows "lookup_name (ram t) (fs t) = lookup_name (ram s) (fs s)"
    "lookup_name (ram s) (fs s) cs = Some i \<Longrightarrow> read32 (ram t) (dentry_addr (fs t) i + 32) = read32 (ram s) (dentry_addr (fs s) i + 32)"
    "lookup_name (ram s) (fs s) cs = Some i \<Longrightarrow> read32 (ram t) (dentry_addr (fs t) i + 36) = read32 (ram s) (dentry_addr (fs s) i + 36)"
    "file_ok (ram t) (fs t) ino = file_ok (ram s) (fs s) ino"
    "file_ok (ram s) (fs s) ino \<Longrightarrow> program_bytes (ram t) (fs t) ino = program_bytes (ram s) (fs s) ino"
    "program_ok (ram s) (fs s) ino \<Longrightarrow> program_ok (ram t) (fs t) ino \<and> program_bytes (ram t) (fs t) ino = program_bytes (ram s) (fs s) ino"
proof -
  have d: "image_layout (ram s) (fs s)" "same_disk (fs s) (fs t)" "same_image (fs s) (ram s) (ram t)" using assms by (simp_all add: disk_as_def)
  note n = same_disk_names [OF d(2)] and v = same_disk_view [OF d(2)] and si = same_image_dir [OF d(1,3)] and sf = same_image_file [OF d(1,3)]
  show "lookup_name (ram t) (fs t) = lookup_name (ram s) (fs s)" using n(5) si(3) by (simp add: fun_eq_iff)
  show "read32 (ram t) (dentry_addr (fs t) i + 32) = read32 (ram s) (dentry_addr (fs s) i + 32)"
    "read32 (ram t) (dentry_addr (fs t) i + 36) = read32 (ram s) (dentry_addr (fs s) i + 36)" if "lookup_name (ram s) (fs s) cs = Some i"
    using v(1) same_image_type [OF d(1,3) lookup_name_below [OF that]] si(4) [OF lookup_name_below [OF that]] by simp_all
  show "file_ok (ram t) (fs t) ino = file_ok (ram s) (fs s) ino" using n(6) sf(1) by simp
  show "program_bytes (ram t) (fs t) ino = program_bytes (ram s) (fs s) ino" if "file_ok (ram s) (fs s) ino" using n(7) sf(2) [OF that] by simp
  show "program_ok (ram t) (fs t) ino \<and> program_bytes (ram t) (fs t) ino = program_bytes (ram s) (fs s) ino" if "program_ok (ram s) (fs s) ino"
  proof -
    have "program_ok m (fs t) ino = program_ok m (fs s) ino" for m
      using d(2) by (auto simp: program_ok_def blocks_valid_def v file_byte_def same_disk_def data_block_def inode_ptr_def inode_length_def
          num_inodes_def num_data_blocks_def)
    then show ?thesis using n(7) same_image_program [OF d(1,3) that] by simp
  qed
qed

section \<open>The command cat\<close>

text \<open>A regular file that can be named as an argument, and its bytes.\<close>

definition printable_file :: "'a kernel_scheme \<Rightarrow> u8 list \<Rightarrow> u8 list \<Rightarrow> bool" where
  "printable_file s cs xs \<longleftrightarrow> cs \<noteq> [] \<and> take 5 cs \<noteq> text_of ''stdin'' \<and> take 6 cs \<noteq> text_of ''stdout'' \<and>
     (\<exists>i. lookup_name (ram s) (fs s) cs = Some i \<and> read32 (ram s) (dentry_addr (fs s) i + 32) = 2 \<and>
        file_ok (ram s) (fs s) (read32 (ram s) (dentry_addr (fs s) i + 36)) \<and>
        xs = program_bytes (ram s) (fs s) (read32 (ram s) (dentry_addr (fs s) i + 36)))"

text \<open>The machine code of an executable does what \<open>cat\<close> does, with its array at the offset \<open>off\<close> of its page.\<close>

definition code_of_cat :: "(u32 \<Rightarrow> 'a kernel_scheme \<Rightarrow> (u32 \<times> 'a kernel_scheme) option) \<Rightarrow> nat \<Rightarrow> u8 list \<Rightarrow> u8 list \<Rightarrow> bool" where
  "code_of_cat main off loc code \<longleftrightarrow>
     (\<forall>t. vread LOADADDR (length code) t = Some code \<longrightarrow> main (entry_point code) t = cat (kernel_os [] (0x08000000 + of_nat off)) loc t)"

definition cat_installed :: "(u32 \<Rightarrow> 'a kernel_scheme \<Rightarrow> (u32 \<times> 'a kernel_scheme) option) \<Rightarrow> nat \<Rightarrow> u8 list \<Rightarrow> 'a kernel_scheme \<Rightarrow> bool" where
  "cat_installed main off loc s \<longleftrightarrow> off + 2048 \<le> 0x400000 \<and> length loc = 1024 \<and>
     (\<exists>i. lookup_name (ram s) (fs s) (text_of ''cat'') = Some i \<and> program_ok (ram s) (fs s) (read32 (ram s) (dentry_addr (fs s) i + 36)) \<and>
        code_of_cat main off loc (program_bytes (ram s) (fs s) (read32 (ram s) (dentry_addr (fs s) i + 36))))"

lemma disk_as_cat:
  assumes "disk_as s t"
  shows "printable_file s cs xs \<Longrightarrow> printable_file t cs xs" "cat_installed main off loc s \<Longrightarrow> cat_installed main off loc t"
proof -
  note d = disk_as_lookup [OF assms]
  assume "printable_file s cs xs"
  then obtain i where "cs \<noteq> []" "take 5 cs \<noteq> text_of ''stdin''" "take 6 cs \<noteq> text_of ''stdout''" "lookup_name (ram s) (fs s) cs = Some i"
      "read32 (ram s) (dentry_addr (fs s) i + 32) = 2" "file_ok (ram s) (fs s) (read32 (ram s) (dentry_addr (fs s) i + 36))"
      "xs = program_bytes (ram s) (fs s) (read32 (ram s) (dentry_addr (fs s) i + 36))"
    by (auto simp: printable_file_def)
  then show "printable_file t cs xs" unfolding printable_file_def using d(1) d(2,3) [of cs i] d(4,5) by simp
next
  note d = disk_as_lookup [OF assms]
  assume "cat_installed main off loc s"
  then obtain i where "off + 2048 \<le> 0x400000" "length loc = 1024" "lookup_name (ram s) (fs s) (text_of ''cat'') = Some i"
      "program_ok (ram s) (fs s) (read32 (ram s) (dentry_addr (fs s) i + 36))"
      "code_of_cat main off loc (program_bytes (ram s) (fs s) (read32 (ram s) (dentry_addr (fs s) i + 36)))"
    by (auto simp: cat_installed_def)
  then show "cat_installed main off loc t" unfolding cat_installed_def using d(1) d(3) [of "text_of ''cat''" i] d(6) by simp
qed

lemma cat_command:
  fixes s :: "'a kernel_scheme"
  assumes r: "program_ready area pa s" and sh: "shell_tasks esp s" and b: "length b \<le> 2048" "holds_string (list_view b) l" "valid_command l"
    and cat: "command_word l = text_of ''cat''" "cat_installed main off loc s" "printable_file s (command_args l) xs"
  shows "\<exists>s'. run_command esp ebp main area b s = Some (0, s') \<and> program_ready area pa s' \<and> keeps s s' \<and>
    curr_pcb s' = curr_pcb s \<and> shell_tasks esp s' \<and> tty s' = tty_write xs (tty s)"
proof -
  let ?carea = "0x08000000 + of_nat off :: u32" and ?cs = "command_args l"
  obtain i where i: "off + 2048 \<le> 0x400000" "length loc = 1024" "lookup_name (ram s) (fs s) (command_word l) = Some i"
      "program_ok (ram s) (fs s) (read32 (ram s) (dentry_addr (fs s) i + 36))"
      "code_of_cat main off loc (program_bytes (ram s) (fs s) (read32 (ram s) (dentry_addr (fs s) i + 36)))"
    using cat(1,2) by (auto simp: cat_installed_def)
  let ?code = "program_bytes (ram s) (fs s) (read32 (ram s) (dentry_addr (fs s) i + 36))"
  have run: "\<exists>u. main (entry_point ?code) t = Some (0, u) \<and> running ?carea cpa [] t u \<and> tty u = tty_write xs (tty t)"
    if st: "started ?code ?carea cpa s l t p" for t p cpa
  proof -
    have s: "vread LOADADDR (length ?code) t = Some ?code" "program_ready ?carea cpa t" "curr_pcb t = Some p" "file_array p = std_files"
        "holds_string (list_view (arg_buffer p)) ?cs" "same_disk (fs s) (fs t)" "same_image (fs s) (ram s) (ram t)"
      using st by (simp_all add: started_def)
    then have "disk_as s t" using r by (simp add: disk_as_def program_ready_def)
    from disk_as_cat(1) [OF this cat(3)] obtain j where
      j: "?cs \<noteq> []" "take 5 ?cs \<noteq> text_of ''stdin''" "take 6 ?cs \<noteq> text_of ''stdout''" "lookup_name (ram t) (fs t) ?cs = Some j"
        "read32 (ram t) (dentry_addr (fs t) j + 32) = 2" "file_ok (ram t) (fs t) (read32 (ram t) (dentry_addr (fs t) j + 36))"
        "xs = program_bytes (ram t) (fs t) (read32 (ram t) (dentry_addr (fs t) j + 36))"
      by (auto simp: printable_file_def)
    have "free_fd std_files = Some 2" by (simp add: free_fd_def std_files_def closed_node_def upt_conv_Cons numeral_eq_Suc)
    then have o: "open_choice (read32 (ram t) (dentry_addr (fs t) j + 32)) p = Some (2, File_ops)" using s(4) j(5) by (simp add: open_choice_spec)
    have "length ?cs < 32" using b(3) by (simp add: valid_command_def)
    from cat_run [OF s(2,3) i(2) s(5) j(1) this j(2,3), of "[]" 2] j(4,6,7) o obtain u where
      "cat (kernel_os [] ?carea) loc t = Some (0, u)" "running ?carea cpa [] t u" "tty u = tty_write xs (tty t)" by auto
    then show ?thesis using i(5) s(1) by (simp add: code_of_cat_def)
  qed
  have "expand_status (ucast (0 :: u32)) = 0" by (simp add: expand_status_def)
  moreover have "\<exists>s'. run_command esp ebp main area b s = Some (expand_status (ucast (0 :: u32)), s') \<and> program_ready area pa s' \<and> keeps s s' \<and>
      curr_pcb s' = curr_pcb s \<and> shell_tasks esp s' \<and> tty s' = tty_write xs (tty s)"
    by (rule command_returns [OF r sh b i(3) refl i(4,1)]) (rule run)
  ultimately show ?thesis by simp
qed

section \<open>Commands that are not known\<close>

lemma unknown_command:
  fixes s :: "'a kernel_scheme"
  assumes r: "program_ready area pa s" and sh: "shell_tasks esp s" and b: "length b \<le> 2048" "holds_string (list_view b) l" "no_command s l"
  shows "\<exists>s'. run_command esp ebp main area b s = Some (ERR, s') \<and> silent s s' \<and> shell_tasks esp s'"
proof -
  let ?a = "area_state pa b s"
  note kl = keeps_lookup [OF r area_keeps(1) [OF r b(1)]]
  have n: "no_command ?a l" using keeps_no_command [OF r area_keeps(1) [OF r b(1)]] b(3) by simp
  have "area \<noteq> 0" using r by (simp add: program_ready_def)
  moreover have "runn_task_num ?a < 6" "length l < 128" "length (command_word l) < 20" "length (command_args l) < 30"
    "lookup_name (ram ?a) (fs ?a) (command_word l) = None" using n by (simp_all add: no_command_def)
  ultimately obtain u where u: "execute esp ebp area ?a = Some (Return ERR, u)" "same_memory ?a u"
    using execute_refuses_file [OF _ _ kernel_string [OF r b(1,2)] _ _ _ kl(1), of esp ebp] by blast
  note m = silent_memory [OF r b(1) u(2)]
  have "vwrite area b s = Some (s\<lparr>ram := write_bytes (ram s) pa b\<rparr>)"
    using r b(1) by (intro vwrite_range) (auto simp: program_ready_def intro: maps_range_le)
  then have "run_command esp ebp main area b s = Some (ERR, resumed u)"
    using u(1) by (simp add: run_command_def syscall_def Let_def area_state_def resumed_def)
  moreover have "same_procs s (resumed u)" using same_memory_fields(1) [OF u(2)] by (simp add: same_procs_def area_state_def resumed_def)
  then have "shell_tasks esp (resumed u)"
    using sh silent_keeps(2) [OF m(1)] same_disk_names(1) [of "fs s" "fs (resumed u)"] same_image_image [of "fs s" "ram s" "ram (resumed u)"]
    by (simp add: shell_tasks_def keeps_def same_procs_def tasks_ok_def disk_low_def)
  ultimately show ?thesis using m(1) by blast
qed

section \<open>The shell with its commands\<close>

definition shell_os ::
    "u32 \<Rightarrow> u32 \<Rightarrow> u32 \<Rightarrow> (u32 \<Rightarrow> 'a kbd_scheme \<Rightarrow> (u32 \<times> 'a kbd_scheme) option) \<Rightarrow> u32 \<Rightarrow> ('a kbd_scheme \<times> u8 list list) os" where
  "shell_os shell_at esp ebp main area =
     (session_os shell_at esp ebp area)\<lparr>sys_execute := \<lambda>b (s, keys). with_keys keys (run_command esp ebp main area b s)\<rparr>"

text \<open>A shell at rest that can start \<open>cat\<close>; \<open>files\<close> are files it can print, by their names.\<close>

fun shell_ready ::
    "u32 \<Rightarrow> u32 \<Rightarrow> u32 \<Rightarrow> (u32 \<Rightarrow> 'a kbd_scheme \<Rightarrow> (u32 \<times> 'a kbd_scheme) option) \<Rightarrow> nat \<Rightarrow> u8 list \<Rightarrow> (u8 list \<Rightarrow> u8 list option) \<Rightarrow>
       u8 list set \<Rightarrow> 'a kbd_scheme \<times> u8 list list \<Rightarrow> bool" where
  "shell_ready area pa esp main off loc files unknown (s, keys) \<longleftrightarrow> session_ready area pa False unknown (s, keys) \<and> shell_tasks esp s \<and>
     cat_installed main off loc s \<and> (\<forall>cs xs. files cs = Some xs \<longrightarrow> printable_file s cs xs)"

definition shell_answer :: "(u8 list \<Rightarrow> u8 list option) \<Rightarrow> u8 list set \<Rightarrow> u8 list \<Rightarrow> (u8 list \<times> u32) option" where
  "shell_answer files unknown l =
     (if valid_command l \<and> command_word l = text_of ''cat'' \<and> files (command_args l) \<noteq> None
      then Some (the (files (command_args l)), 0) else if l \<in> unknown then Some ([], ERR) else None)"

lemma shell_tasks_call:
  assumes "shell_tasks esp s" "call_step s t" "curr_pcb s = Some p" "files_ok p" "mmu t = mmu s" "disk_as s t"
  shows "shell_tasks esp t"
proof -
  obtain p' where p': "curr_task_pos t = curr_task_pos s" "runn_task_num t = runn_task_num s" "task_bitmap t = task_bitmap s"
      "pcbs t = (pcbs s)[unat (curr_task_pos s) := p']" "ancestry p' = ancestry p" "files_ok p'"
    using assms(2-4) by (auto simp: call_step_def)
  have l: "unat (curr_task_pos s) < length (pcbs s)" "p = pcbs s ! unat (curr_task_pos s)" using assms(3) by (auto simp: curr_pcb_def split: if_splits)
  have "process_id (pcbs t ! unat (curr_task_pos t)) = process_id (pcbs s ! unat (curr_task_pos s))"
    using p'(1,4,5) l by (simp add: ancestry_def)
  moreover have "\<forall>q \<in> set (pcbs t). pcb_shape q"
    using assms(1) p'(4,6) set_update_subset_insert [of "pcbs s" "unat (curr_task_pos s)" p'] by (auto simp: shell_tasks_def files_ok_def)
  moreover have "disk_low t"
    using assms(1,6) same_disk_names(1) [of "fs s" "fs t"] same_image_image [of "fs s" "ram s" "ram t"]
    by (simp add: shell_tasks_def disk_low_def disk_as_def)
  ultimately show ?thesis using assms(1,5) p'(1-4) by (simp add: shell_tasks_def tasks_ok_def)
qed

lemma shell_ready_step:
  assumes "shell_ready area pa esp main off loc files unknown (s, keys)" "session_ready area pa False unknown (t, keys')" "disk_as s t"
    and "shell_tasks esp t"
  shows "shell_ready area pa esp main off loc files unknown (t, keys')"
  using assms disk_as_cat [OF assms(3)] by auto

lemma keeps_disk_as: "program_ready area pa s \<Longrightarrow> keeps s t \<Longrightarrow> disk_as s t" "program_ready area pa s \<Longrightarrow> keeps_disk s u \<Longrightarrow> disk_as s u"
  by (simp_all add: disk_as_def keeps_def keeps_disk_def program_ready_def)

lemma shell_os_calls [simp]:
  "sys_write (shell_os sh esp ebp main area) = sys_write (session_os sh esp ebp area)"
  "sys_read (shell_os sh esp ebp main area) = sys_read (session_os sh esp ebp area)"
  "sys_execute (shell_os sh esp ebp main area) b (s, keys) = with_keys keys (run_command esp ebp main area b s)"
  by (simp_all add: shell_os_def)

lemma shell_write:
  assumes r: "shell_ready area pa esp main off loc files unknown s" and b: "n \<le> length b" "length b \<le> 2048"
  shows "\<exists>s'. sys_write (shell_os sh esp ebp main area) 1 b (of_nat n) s = Some (of_nat n + 1, s') \<and>
    shell_ready area pa esp main off loc files unknown s' \<and> session_out s' = tty_write (take n b) (session_out s) \<and> session_typed s' = session_typed s"
proof -
  obtain k keys where s: "s = (k, keys)" by force
  have h: "session_ready area pa False unknown s" "program_ready area pa k" "shell_tasks esp k" using r s by simp_all
  from session_write [OF h(1) b, of sh esp ebp] obtain s' where
    s': "sys_write (session_os sh esp ebp area) 1 b (of_nat n) s = Some (of_nat n + 1, s')" "session_ready area pa False unknown s'"
      "session_out s' = tty_write (take n b) (session_out s)" "session_typed s' = session_typed s" "keeps (fst s) (fst s')" "call_step (fst s) (fst s')"
    by blast
  obtain k' keys' where k': "s' = (k', keys')" by force
  have d: "keeps k k'" "call_step k k'" using s'(5,6) s k' by simp_all
  obtain p where p: "curr_pcb k = Some p" "files_ok p" using h(2) by (auto simp: program_ready_def)
  note da = keeps_disk_as(1) [OF h(2) d(1)]
  have "mmu k' = mmu k" using d(1) by (simp add: keeps_def)
  from shell_tasks_call [OF h(3) d(2) p this da] have "shell_ready area pa esp main off loc files unknown s'"
    using shell_ready_step [OF _ _ da] r s'(2) s k' by blast
  then show ?thesis using s' by auto
qed

lemma shell_reads:
  assumes r: "shell_ready area pa esp main off loc files unknown s" and l: "session_typed s = cs # lns"
    and b: "length cs + 3 \<le> length b" "length b \<le> 2048" "length cs < n" "n < 2048"
  shows "\<exists>s' b'. sys_read (shell_os sh esp ebp main area) 0 b (of_nat n) s = Some (of_nat (length cs + 1), b', s') \<and>
    shell_ready area pa esp main off loc files unknown s' \<and> session_out s' = tty_write (cs @ [NEWLINE]) (session_out s) \<and> session_typed s' = lns \<and>
    length b' = length b \<and> take (length cs + 1) b' = cs @ [NEWLINE]"
proof -
  obtain k keys where s: "s = (k, keys)" by force
  have h: "session_ready area pa False unknown s" "program_ready area pa k" "shell_tasks esp k" using r s by simp_all
  from session_read_line [OF h(1) l b, of sh esp ebp] obtain s' b' where
    s': "sys_read (session_os sh esp ebp area) 0 b (of_nat n) s = Some (of_nat (length cs + 1), b', s')" "session_ready area pa False unknown s'"
      "session_out s' = tty_write (cs @ [NEWLINE]) (session_out s)" "session_typed s' = lns" "length b' = length b"
      "take (length cs + 1) b' = cs @ [NEWLINE]" "keeps_disk (fst s) (fst s')" by blast
  obtain k' keys' where k': "s' = (k', keys')" by force
  have d: "keeps_disk k k'" using s'(7) s k' by simp
  obtain p where p: "curr_pcb k = Some p" "files_ok p" using h(2) by (auto simp: program_ready_def)
  note da = keeps_disk_as(2) [OF h(2) d]
  have "mmu k' = mmu k" "call_step k k'" using d call_step_procs [of k k' p] p(1) by (simp_all add: keeps_disk_def)
  from shell_tasks_call [OF h(3) this(2) p this(1) da] have "shell_ready area pa esp main off loc files unknown s'"
    using shell_ready_step [OF _ _ da] r s'(2) s k' by blast
  then show ?thesis using s' by auto
qed

lemma shell_executes:
  assumes r: "shell_ready area pa esp main off loc files unknown s" and b: "holds_string (list_view b) l" "length b = 1024"
    and a: "shell_answer files unknown l = Some (shown, v)"
  shows "\<exists>s'. sys_execute (shell_os sh esp ebp main area) b s = Some (v, s') \<and> shell_ready area pa esp main off loc files unknown s' \<and>
    session_out s' = tty_write shown (session_out s) \<and> session_typed s' = session_typed s"
proof -
  obtain k keys where s: "s = (k, keys)" by force
  have h: "session_ready area pa False unknown (k, keys)" "program_ready area pa k" "shell_tasks esp k" "length b \<le> 2048" "cat_installed main off loc k"
    using r s b(2) by simp_all
  have fin: ?thesis if k': "run_command esp ebp main area b k = Some (v, k')" "program_ready area pa k'" "keeps k k'" "shell_tasks esp k'"
      "tty k' = tty_write shown (tty k)" for k'
  proof -
    note sk = session_keeps(1,2) [OF h(1) k'(3,2)]
    have "shell_ready area pa esp main off loc files unknown (k', keys)"
      by (rule shell_ready_step [OF r [unfolded s] sk(1) keeps_disk_as(1) [OF h(2) k'(3)] k'(4)])
    then show ?thesis using k'(1,5) sk(2) s by (intro exI [of _ "(k', keys)"]) (simp add: with_keys_def)
  qed
  show ?thesis
  proof (cases "valid_command l \<and> command_word l = text_of ''cat'' \<and> files (command_args l) \<noteq> None")
    case True
    then have c: "valid_command l" "command_word l = text_of ''cat''" "files (command_args l) = Some shown" "v = 0" using a by (auto simp: shell_answer_def)
    then have "printable_file k (command_args l) shown" using r s by simp
    from cat_command [OF h(2-4) b(1) c(1,2) h(5) this, of ebp] c(4) show ?thesis using fin by blast
  next
    case False
    then have "l \<in> unknown" "shown = []" "v = ERR" using a by (auto simp: shell_answer_def split: if_splits)
    moreover from this(1) have "no_command k l" using h(1) by simp
    from unknown_command [OF h(2-4) b(1) this, of ebp main] obtain k' where
      "run_command esp ebp main area b k = Some (ERR, k')" "silent k k'" "shell_tasks esp k'" by blast
    ultimately show ?thesis using fin [of k'] silent_ready [OF h(2)] silent_keeps(2,3) [of k k'] by (simp add: tty_write_def)
  qed
qed

interpretation busy_shell: command_line "shell_os sh esp ebp main area" "shell_ready area pa esp main off loc files unknown" session_out session_typed
    "shell_answer files unknown"
proof
  fix s :: "'a kbd_scheme \<times> u8 list list" and n and b :: "u8 list"
  assume a: "shell_ready area pa esp main off loc files unknown s" "n \<le> length b" "length b \<le> 2048"
  from shell_write [OF this] show "\<exists>s'. sys_write (shell_os sh esp ebp main area) 1 b (of_nat n) s = Some (of_nat n + 1, s') \<and>
      shell_ready area pa esp main off loc files unknown s' \<and> session_out s' = tty_write (take n b) (session_out s)" by blast
  fix r s' assume "sys_write (shell_os sh esp ebp main area) 1 b (of_nat n) s = Some (r, s')"
  with shell_write [OF a, of sh ebp] show "session_typed s' = session_typed s" by auto
next
  fix s :: "'a kbd_scheme \<times> u8 list list" and cs
  assume "shell_ready area pa esp main off loc files unknown s" "cs \<in> set (session_typed s)"
  then show "length cs < 127 \<and> 0 \<notin> set cs \<and> NEWLINE \<notin> set cs" using typed_session.typed_text [of area pa False unknown s cs] by (cases s) simp
next
  fix s :: "'a kbd_scheme \<times> u8 list list" and cs lns n and b :: "u8 list"
  assume "shell_ready area pa esp main off loc files unknown s" "session_typed s = cs # lns" "length cs + 3 \<le> length b" "length b \<le> 2048" "length cs < n" "n < 2048"
  from shell_reads [OF this] show "\<exists>s' b'. sys_read (shell_os sh esp ebp main area) 0 b (of_nat n) s = Some (of_nat (length cs + 1), b', s') \<and>
      shell_ready area pa esp main off loc files unknown s' \<and> session_out s' = tty_write (cs @ [NEWLINE]) (session_out s) \<and> session_typed s' = lns \<and>
      length b' = length b \<and> take (length cs + 1) b' = cs @ [NEWLINE]" by blast
next
  fix s :: "'a kbd_scheme \<times> u8 list list" and cs shown r and b :: "u8 list"
  assume "shell_ready area pa esp main off loc files unknown s" "holds_string (list_view b) cs" "length b = 1024" "shell_answer files unknown cs = Some (shown, r)"
  from shell_executes [OF this] show "\<exists>s'. sys_execute (shell_os sh esp ebp main area) b s = Some (r, s') \<and>
      shell_ready area pa esp main off loc files unknown s' \<and> session_out s' = tty_write shown (session_out s) \<and> session_typed s' = session_typed s" by blast
qed

text \<open>C6: Commands typed at the shell run to their end and the shell goes on. Of a session in which the lines typed are commands
  \<open>cat\<close> with the name of a regular file, lines the kernel knows no program for, empty lines, and at last \<open>exit\<close>, the screen shows the
  greeting and for every line the prompt and the line, after \<open>cat\<close> exactly the bytes of the file, after an unknown
  command \<open>no such command\<close>; the shell ends with 0, all keys are read, and its process and its page are in order
  again. The executable \<open>cat\<close> is on the disk and its machine code, a parameter, does what its source does.\<close>

theorem shell_runs_commands:
  fixes s :: "'a kbd_scheme"
  assumes s: "session_ready area pa False unknown (s, keys)" "shell_tasks esp s" "cat_installed main off loc s" "length buf = 1024"
    and typed: "map (typed_line s) keys = cmds @ [text_of ''exit'']"
    and cmds: "\<forall>l \<in> set cmds. l = [] \<or> (l \<in> unknown \<and> l \<noteq> text_of ''exit'') \<or>
        (valid_command l \<and> command_word l = text_of ''cat'' \<and> (\<exists>xs. files (command_args l) = Some xs))"
      "\<forall>cs xs. files cs = Some xs \<longrightarrow> printable_file s cs xs"
  shows "\<exists>t ks. shell (shell_os shell_at esp ebp main area) buf (s, keys) = Some (0, t, ks) \<and> ks = [] \<and> program_ready area pa t \<and>
    shell_tasks esp t \<and>
    tty t = tty_write (text_of ''Starting 391 Shell\<newline>'' @
      concat (map (\<lambda>l. text_of ''391OS> '' @ l @ [NEWLINE] @
        (if l = [] then [] else if command_word l = text_of ''cat'' then the (files (command_args l)) else text_of ''no such command\<newline>'')) cmds) @
      text_of ''391OS> exit\<newline>'') (tty s)"
proof -
  let ?inv = "shell_ready area pa esp main off loc files unknown" and ?ans = "shell_answer files unknown"
  have r: "?inv (s, keys)" using s cmds(2) by simp
  have cat: "lookup_name (ram s) (fs s) (text_of ''cat'') \<noteq> None" using s(3) by (auto simp: cat_installed_def)
  have no: "command_word l \<noteq> text_of ''cat''" if "l \<in> unknown" for l using s(1) that cat by (auto simp: no_command_def)
  have ne: "l \<noteq> text_of ''exit''" if "l \<in> set cmds" for l
  proof -
    have "command_word (text_of ''exit'') \<noteq> text_of ''cat''" "text_of ''exit'' \<noteq> []" by (simp_all add: command_word_def text_of_def)
    then show ?thesis using cmds(1) that by blast
  qed
  have "dialogue ?ans l = text_of ''391OS> '' @ l @ [NEWLINE] @
      (if l = [] then [] else if command_word l = text_of ''cat'' then the (files (command_args l)) else text_of ''no such command\<newline>'')" if "l \<in> set cmds" for l
    using cmds(1) that no ne by (auto simp: dialogue_def shell_answer_def status_text_def)
  then have d: "map (dialogue ?ans) cmds = map (\<lambda>l. text_of ''391OS> '' @ l @ [NEWLINE] @
      (if l = [] then [] else if command_word l = text_of ''cat'' then the (files (command_args l)) else text_of ''no such command\<newline>'')) cmds" by simp
  have "\<forall>l \<in> set cmds. l = [] \<or> (l \<noteq> text_of ''exit'' \<and> ?ans l \<noteq> None)" using cmds(1) ne by (auto simp: shell_answer_def)
  from busy_shell.shell_dialogue [OF r _ s(4) this, of shell_at ebp] typed obtain t where
    t: "shell (shell_os shell_at esp ebp main area) buf (s, keys) = Some (0, t)" "?inv t" "session_typed t = []"
      "session_out t = tty_write (text_of ''Starting 391 Shell\<newline>'' @ concat (map (dialogue ?ans) cmds) @ text_of ''391OS> exit\<newline>'') (tty s)" by auto
  obtain u ks where "t = (u, ks)" by force
  then show ?thesis using t d by (intro exI [of _ u] exI [of _ ks]) auto
qed

section \<open>A small disk with a command\<close>

text \<open>The executable of the small system under the name \<open>cat\<close>, too; the code parameter runs the source.\<close>

definition demo_bin_ram :: memory where
  "demo_bin_ram = demo_dir_ram(0x1000 := 3, 0x10C0 := 0x63, 0x10C1 := 0x61, 0x10C2 := 0x74, 0x10E0 := 2)"

definition demo_main :: "u32 \<Rightarrow> kbd \<Rightarrow> (u32 \<times> kbd) option" where
  "demo_main entry t = cat (kernel_os [] 0x08048200) (replicate 1024 0) t"

definition demo_console :: kbd where
  "demo_console = demo_session\<lparr>ram := demo_bin_ram, mmu := enable_paging (set_task_page 0 (init_paging demo_paging))\<rparr>"

lemma demo_bin_names:
  "disk_name demo_bin_ram demo_files 0 = [0x2E]" "disk_name demo_bin_ram demo_files 1 = [0x61]" "disk_name demo_bin_ram demo_files 2 = text_of ''cat''"
proof -
  have "demo_bin_ram (dentry_addr demo_files 0) = 0x2E" "demo_bin_ram (dentry_addr demo_files 0 + 1) = 0"
    "demo_bin_ram (dentry_addr demo_files 1) = 0x61" "demo_bin_ram (dentry_addr demo_files 1 + 1) = 0" by code_simp+
  then show "disk_name demo_bin_ram demo_files 0 = [0x2E]" "disk_name demo_bin_ram demo_files 1 = [0x61]" by (simp_all add: one_letter_name)
  have "bytes_at demo_bin_ram a 32 = demo_bin_ram a # demo_bin_ram (a + 1) # demo_bin_ram (a + 2) # demo_bin_ram (a + 3) # bytes_at demo_bin_ram (a + 4) 28" for a
    using bytes_at_Suc [of demo_bin_ram a 31] bytes_at_Suc [of demo_bin_ram "a + 1" 30] bytes_at_Suc [of demo_bin_ram "a + 2" 29]
      bytes_at_Suc [of demo_bin_ram "a + 3" 28] by (simp add: add.assoc)
  moreover have "demo_bin_ram (dentry_addr demo_files 2) = 0x63" "demo_bin_ram (dentry_addr demo_files 2 + 1) = 0x61"
    "demo_bin_ram (dentry_addr demo_files 2 + 2) = 0x74" "demo_bin_ram (dentry_addr demo_files 2 + 3) = 0" by code_simp+
  ultimately show "disk_name demo_bin_ram demo_files 2 = text_of ''cat''" by (simp add: disk_name_def text_of_def)
qed

lemma demo_bin_lookup: "lookup_name demo_bin_ram demo_files (text_of ''cat'') = Some 2" "lookup_name demo_bin_ram demo_files [0x61] = Some 1"
proof -
  have u: "[0..<63] = 0 # 1 # 2 # [3..<63]" by (simp add: upt_conv_Cons)
  show "lookup_name demo_bin_ram demo_files (text_of ''cat'') = Some 2" "lookup_name demo_bin_ram demo_files [0x61] = Some 1"
    unfolding lookup_name_def u using demo_bin_names by (simp_all add: name_matches_def text_of_def)
qed

lemma demo_bin_inode:
  "small_image demo_bin_ram" "read32 demo_bin_ram (dentry_addr demo_files 2 + 36) = 0" "read32 demo_bin_ram (dentry_addr demo_files 1 + 36) = 0"
  "read32 demo_bin_ram (dentry_addr demo_files 1 + 32) = 2" "program_ok demo_bin_ram demo_files 0" "file_ok demo_bin_ram demo_files 0"
proof -
  have n: "num_inodes demo_bin_ram demo_files = 1" "num_data_blocks demo_bin_ram demo_files = 1" "inode_length demo_bin_ram demo_files 0 = 28"
    "data_block demo_bin_ram demo_files 0 0 = 0" by code_simp+
  have "dir_ok demo_bin_ram demo_files"
    by (rule demo_terminated; auto simp: demo_bin_ram_def demo_dir_ram_def demo_ram_def split: if_splits)
  then show "small_image demo_bin_ram" using n by (simp add: small_image_def)
  show "read32 demo_bin_ram (dentry_addr demo_files 2 + 36) = 0" "read32 demo_bin_ram (dentry_addr demo_files 1 + 36) = 0"
    "read32 demo_bin_ram (dentry_addr demo_files 1 + 32) = 2" by code_simp+
  have "file_byte demo_bin_ram demo_files 0 k = demo_bin_ram (0x3000 + of_nat k)" if "k < 28" for k
    using that n by (simp add: file_byte_def) (simp add: demo_files_def)
  then have "map (file_byte demo_bin_ram demo_files 0) [0..<4] = [demo_bin_ram 0x3000, demo_bin_ram 0x3001, demo_bin_ram 0x3002, demo_bin_ram 0x3003]"
    by (simp add: upt_conv_Cons numeral_eq_Suc)
  then show "program_ok demo_bin_ram demo_files 0"
    by (simp add: program_ok_def blocks_valid_def n) (simp add: demo_bin_ram_def demo_dir_ram_def demo_ram_def)
  show "file_ok demo_bin_ram demo_files 0" by (simp add: file_ok_def n blocks_valid_def)
qed

lemma demo_console_fields:
  "ram demo_console = demo_bin_ram" "fs demo_console = demo_files" "con_inv demo_console" "curr_pcb demo_console = Some idle_pcb"
  "typing_ready demo_console" "cap_flag demo_console = 0" "shift_flag demo_console = 0" "runn_task_num demo_console = 1" "curr_task_pos demo_console = 0"
  "task_bitmap demo_console = [1, 0, 0, 0, 0, 0]" "pcbs demo_console = (replicate 6 zero_pcb)[0 := idle_pcb]"
  "mmu demo_console = enable_paging (set_task_page 0 (init_paging demo_paging))"
proof -
  note f = demo_session_fields
  have "con_inv (s\<lparr>ram := m, mmu := p\<rparr>) = con_inv s" "curr_pcb (s\<lparr>ram := m, mmu := p\<rparr>) = curr_pcb s"
    "typing_ready (s\<lparr>ram := m, mmu := p\<rparr>) = typing_ready s" for s :: kbd and m p
    by (simp_all add: con_inv_def curr_pcb_def typing_ready_def kbd_ok_def line_def plain_keys_def)
  then show "con_inv demo_console" "curr_pcb demo_console = Some idle_pcb" "typing_ready demo_console"
    using f by (simp_all add: demo_console_def)
  show "ram demo_console = demo_bin_ram" "fs demo_console = demo_files" "cap_flag demo_console = 0" "shift_flag demo_console = 0"
    "runn_task_num demo_console = 1" "mmu demo_console = enable_paging (set_task_page 0 (init_paging demo_paging))"
    using f by (simp_all add: demo_console_def)
  show "curr_task_pos demo_console = 0" "task_bitmap demo_console = [1, 0, 0, 0, 0, 0]" "pcbs demo_console = (replicate 6 zero_pcb)[0 := idle_pcb]"
    by (simp_all add: demo_console_def demo_session_def demo_kbd_def demo_terminals_def demo_kernel_def kernel.defs terminals.defs kbd.defs)
qed

lemma demo_console_ready: "program_ready 0x08048200 0x848200 demo_console" "shell_tasks 0x7FFFF0 demo_console"
proof -
  note f = demo_console_fields
  let ?s = "demo_console\<lparr>mmu := mmu demo_shell\<rparr>"
  have "program_ready 0x08048200 0x848200 ?s"
    by (rule demo_ready [OF _ _ _ _ _ idle_pcb_ok(1)]) (use f in \<open>simp_all add: demo_bin_inode con_inv_def curr_pcb_def\<close>)
  then show r: "program_ready 0x08048200 0x848200 demo_console"
    using f idle_pcb_ok(1) by (simp add: program_ready_def con_inv_def demo_shell_fields)
  have "pcb_shape zero_pcb" "pcb_shape idle_pcb" by (simp_all add: pcb_shape_def zero_pcb_def idle_pcb_def std_files_def)
  then have "\<forall>p \<in> set (pcbs demo_console). pcb_shape p" by (simp add: f numeral_eq_Suc)
  moreover have "paging_ok (mmu demo_console)" unfolding f by (intro paging_ok_steps demo_paging_ok)
  moreover have "disk_low demo_console"
  proof (unfold disk_low_def f, rule ballI)
    fix a assume "a \<in> disk_image demo_bin_ram demo_files"
    then have "\<not> 0x4000 \<le> unat a" using small_image_outside [OF demo_bin_inode(1), of "unat a"] unsigned_less [of a] by auto
    then show "unat a < 0x800000" by simp
  qed
  moreover have "pcb_index (0x7FFFF0 AND PROCESSMASK) = Some 0" by code_simp
  moreover have "tasks_ok demo_console" using demo_tasks_ok(1) f by (simp add: tasks_ok_def demo_kernel_fields)
  moreover have "process_id idle_pcb = 0" by (simp add: idle_pcb_def zero_pcb_def)
  ultimately show "shell_tasks 0x7FFFF0 demo_console" by (simp add: shell_tasks_def f set_task_page_again)
qed

lemma demo_console_keys:
  "keys_ok demo_console [0x2E, 0x1E, 0x14, 0x39, 0x1E, 0x1C]" "typed_line demo_console [0x2E, 0x1E, 0x14, 0x39, 0x1E, 0x1C] = text_of ''cat a''"
  "keys_ok demo_console [0x12, 0x2D, 0x17, 0x14, 0x1C]" "typed_line demo_console [0x12, 0x2D, 0x17, 0x14, 0x1C] = text_of ''exit''"
proof -
  have "ascii_array ! 46 = 0x63" "ascii_array ! 30 = 0x61" "ascii_array ! 20 = 0x74" "ascii_array ! 18 = 0x65" "ascii_array ! 45 = 0x78" "ascii_array ! 23 = 0x69"
    by code_simp+
  then have "map (\<lambda>c. key_char c demo_console) [0x2E, 0x1E, 0x14, 0x39, 0x12, 0x2D, 0x17] = map Some [0x63, 0x61, 0x74, 0x20, 0x65, 0x78, 0x69]"
    by (simp add: key_char_def ascii_def demo_console_fields)
  then show "keys_ok demo_console [0x2E, 0x1E, 0x14, 0x39, 0x1E, 0x1C]" "typed_line demo_console [0x2E, 0x1E, 0x14, 0x39, 0x1E, 0x1C] = text_of ''cat a''"
    "keys_ok demo_console [0x12, 0x2D, 0x17, 0x14, 0x1C]" "typed_line demo_console [0x12, 0x2D, 0x17, 0x14, 0x1C] = text_of ''exit''"
    by (simp_all add: keys_ok_def typed_line_def text_of_def)
qed

theorem shell_runs_commands_witness:
  "\<exists>t. shell (shell_os 0 0x7FFFF0 0x7FFFF8 demo_main 0x08048200) (replicate 1024 0)
      (demo_console, [[0x2E, 0x1E, 0x14, 0x39, 0x1E, 0x1C], [0x12, 0x2D, 0x17, 0x14, 0x1C]]) = Some (0, t, []) \<and>
    tty t = tty_write (text_of ''Starting 391 Shell\<newline>391OS> cat a\<newline>'' @ program_bytes demo_bin_ram demo_files 0 @ text_of ''391OS> exit\<newline>'')
      (tty demo_console)"
proof -
  let ?keys = "[[0x2E, 0x1E, 0x14, 0x39, 0x1E, 0x1C], [0x12, 0x2D, 0x17, 0x14, 0x1C]]" and ?l = "text_of ''cat a''"
  let ?files = "[[0x61] \<mapsto> program_bytes demo_bin_ram demo_files 0]"
  note f = demo_console_fields and k = demo_console_keys
  have r: "session_ready 0x08048200 0x848200 False {} (demo_console, ?keys)" using demo_console_ready(1) f(5) k by simp
  have "code_of_cat demo_main 0x48200 (replicate 1024 0) code" for code by (simp add: code_of_cat_def demo_main_def)
  then have c: "cat_installed demo_main 0x48200 (replicate 1024 0) demo_console"
    using demo_bin_lookup(1) demo_bin_inode by (simp add: cat_installed_def f)
  have m: "map (typed_line demo_console) ?keys = [?l] @ [text_of ''exit'']" using k by simp
  have w: "command_word ?l = text_of ''cat''" "command_args ?l = [0x61]" "valid_command ?l"
    by (simp_all add: command_word_def command_args_def text_of_def valid_command_def)
  have p: "\<forall>cs xs. ?files cs = Some xs \<longrightarrow> printable_file demo_console cs xs"
    using demo_bin_lookup(2) demo_bin_inode by (auto simp: printable_file_def f text_of_def)
  have "\<forall>l \<in> set [?l]. l = [] \<or> (l \<in> {} \<and> l \<noteq> text_of ''exit'') \<or>
      (valid_command l \<and> command_word l = text_of ''cat'' \<and> (\<exists>xs. ?files (command_args l) = Some xs))" using w by simp
  from shell_runs_commands [OF r demo_console_ready(2) c _ m this p, of "replicate 1024 0" 0 "0x7FFFF8"] show ?thesis
    using w by (auto simp: text_of_def)
qed

end
