(* ===== verification/Fish.thy ===== *)
theory Fish
  imports Prelude
begin

text \<open>
  The blinking characters of the program \<open>fish\<close>: the linked list of \<open>blink.S\<close> in the array \<open>blink_array\<close> of \<open>fish.c\<close>, with the
  allocation \<open>mp1_malloc\<close> and \<open>mp1_free\<close>. A pointer into the array is its index, the null pointer \<open>None\<close>. The
  list is a refinement of a plain list of blinking characters.
\<close>

section \<open>blink.h and the state of blink.S\<close>

record blink =
  location :: u16
  on_char :: u8
  off_char :: u8
  on_length :: u16
  off_length :: u16
  countdown :: u16
  status :: u16
  next_blink :: "nat option"

record fish =
  blink_array :: "blink list"
  mp1_list_head :: "nat option"
  video :: "u32 \<Rightarrow> u8"

definition zero_blink :: blink where
  "zero_blink = \<lparr>location = 0, on_char = 0, off_char = 0, on_length = 0, off_length = 0, countdown = 0, status = 0, next_blink = None\<rparr>"

section \<open>fish.c: the memory of the list\<close>

definition mp1_malloc :: "fish \<Rightarrow> nat option" where
  "mp1_malloc f = find (\<lambda>i. location (blink_array f ! i) = 0) [0..<80 * 25]"

definition mp1_free :: "nat \<Rightarrow> fish \<Rightarrow> fish" where
  "mp1_free i f = f\<lparr>blink_array := (blink_array f)[i := zero_blink]\<rparr>"

section \<open>blink.S\<close>

definition mp1_poke :: "u8 \<Rightarrow> u32 \<Rightarrow> fish \<Rightarrow> fish" where
  "mp1_poke cl eax f = f\<lparr>video := (video f)(eax := cl)\<rparr>"

definition cell_offset :: "blink \<Rightarrow> u32" where
  "cell_offset b = push_bit 1 (ucast (location b))"

text \<open>One element of the list in \<open>mp1_rtc_tasklet\<close>; the comparison with 0 is signed.\<close>

definition tasklet_step :: "nat \<Rightarrow> fish \<Rightarrow> fish" where
  "tasklet_step i f = (let b = blink_array f ! i; b = b\<lparr>countdown := countdown b - 1\<rparr> in
     if sint (countdown b) > 0 then f\<lparr>blink_array := (blink_array f)[i := b]\<rparr>
     else let (f, dx) = (if bit (status b) 0 then (mp1_poke (off_char b) (cell_offset b) f, off_length b)
                         else (mp1_poke (on_char b) (cell_offset b) f, on_length b))
          in f\<lparr>blink_array := (blink_array f)[i := b\<lparr>countdown := dx, status := status b XOR 1\<rparr>]\<rparr>)"

partial_function (option) tasklet_loop :: "nat option \<Rightarrow> fish \<Rightarrow> fish option" where
  "tasklet_loop ebx f =
     (case ebx of
        None \<Rightarrow> Some f
      | Some i \<Rightarrow> if i < length (blink_array f) then let f = tasklet_step i f in tasklet_loop (next_blink (blink_array f ! i)) f else None)"

definition mp1_rtc_tasklet :: "fish \<Rightarrow> fish option" where
  "mp1_rtc_tasklet f = tasklet_loop (mp1_list_head f) f"

definition mp1_ioctl_add :: "blink \<Rightarrow> fish \<Rightarrow> u32 \<times> fish" where
  "mp1_ioctl_add b f =
     (if location b \<ge> 80 * 25 then (ERR, f)
      else let b = b\<lparr>status := 1, countdown := on_length b\<rparr> in
        (case mp1_malloc f of
           None \<Rightarrow> (ERR, f)
         | Some i \<Rightarrow> let f = f\<lparr>blink_array := (blink_array f)[i := b\<lparr>next_blink := mp1_list_head f\<rparr>], mp1_list_head := Some i\<rparr>
                     in (0, mp1_poke (on_char b) (cell_offset b) f)))"

partial_function (option) find_loop :: "u16 \<Rightarrow> nat option \<Rightarrow> fish \<Rightarrow> nat option option" where
  "find_loop ax ebx f =
     (case ebx of
        None \<Rightarrow> Some None
      | Some i \<Rightarrow> if i < length (blink_array f) then if location (blink_array f ! i) = ax then Some (Some i)
                    else find_loop ax (next_blink (blink_array f ! i)) f
                  else None)"

definition mp1_find_helper :: "u16 \<Rightarrow> fish \<Rightarrow> nat option option" where
  "mp1_find_helper ax f = find_loop ax (mp1_list_head f) f"

text \<open>A place that holds a pointer to an element: the head of the list (\<open>None\<close>) or the field of an element.\<close>

definition pointer_at :: "nat option \<Rightarrow> fish \<Rightarrow> nat option" where
  "pointer_at edx f = (case edx of None \<Rightarrow> mp1_list_head f | Some k \<Rightarrow> next_blink (blink_array f ! k))"

definition set_pointer :: "nat option \<Rightarrow> nat option \<Rightarrow> fish \<Rightarrow> fish" where
  "set_pointer edx p f =
     (case edx of
        None \<Rightarrow> f\<lparr>mp1_list_head := p\<rparr>
      | Some k \<Rightarrow> f\<lparr>blink_array := (blink_array f)[k := (blink_array f ! k)\<lparr>next_blink := p\<rparr>]\<rparr>)"

partial_function (option) remove_find_prev :: "nat \<Rightarrow> nat option \<Rightarrow> fish \<Rightarrow> nat option option" where
  "remove_find_prev eax edx f =
     (if pointer_at edx f = Some eax then Some edx
      else case pointer_at edx f of
        None \<Rightarrow> None
      | Some k \<Rightarrow> if k < length (blink_array f) then remove_find_prev eax (Some k) f else None)"

definition mp1_ioctl_remove :: "u32 \<Rightarrow> fish \<Rightarrow> (u32 \<times> fish) option" where
  "mp1_ioctl_remove arg f = do {
     r \<leftarrow> mp1_find_helper (ucast arg) f;
     case r of
       None \<Rightarrow> Some (ERR, f)
     | Some i \<Rightarrow> do {
         edx \<leftarrow> remove_find_prev i None f;
         Some (0, mp1_free i (set_pointer edx (next_blink (blink_array f ! i)) f))
       }
   }"

text \<open>\<open>cmovl\<close> after \<open>testb $0x1\<close> never moves, since the sign of the result is clear: the character shown is the one for off.\<close>

definition mp1_ioctl_sync :: "u32 \<Rightarrow> fish \<Rightarrow> (u32 \<times> fish) option" where
  "mp1_ioctl_sync arg f = do {
     esi \<leftarrow> mp1_find_helper (ucast (drop_bit 16 arg)) f;
     case esi of
       None \<Rightarrow> Some (ERR, f)
     | Some i \<Rightarrow> do {
         edi \<leftarrow> mp1_find_helper (ucast (arg AND 0xFFFF)) f;
         case edi of
           None \<Rightarrow> Some (ERR, f)
         | Some j \<Rightarrow>
             let a = blink_array f ! i;
               b = (blink_array f ! j)\<lparr>on_length := on_length a, off_length := off_length a, countdown := countdown a, status := status a\<rparr>;
               f = f\<lparr>blink_array := (blink_array f)[j := b]\<rparr>
             in Some (0, mp1_poke (off_char b) (cell_offset b) f)
       }
   }"

definition mp1_ioctl_find :: "u16 \<Rightarrow> fish \<Rightarrow> (u32 \<times> blink option) option" where
  "mp1_ioctl_find ax f = do {
     r \<leftarrow> mp1_find_helper ax f;
     Some (case r of None \<Rightarrow> (ERR, None) | Some i \<Rightarrow> (0, Some (blink_array f ! i)))
   }"

section \<open>The list in the array\<close>

primrec chain :: "blink list \<Rightarrow> nat option \<Rightarrow> nat list \<Rightarrow> bool" where
  "chain arr h [] \<longleftrightarrow> h = None"
| "chain arr h (i # is) \<longleftrightarrow> h = Some i \<and> i < length arr \<and> chain arr (next_blink (arr ! i)) is"

lemma chain_outside: "i \<notin> set is \<Longrightarrow> chain (arr[i := b]) h is = chain arr h is"
  by (induction "is" arbitrary: h) auto

lemma chain_same_next:
  assumes "next_blink b = next_blink (arr ! i)"
  shows "chain (arr[i := b]) h is = chain arr h is"
proof -
  have "next_blink (arr[i := b] ! k) = next_blink (arr ! k)" if "k < length arr" for k
    using assms that by (cases "k = i") simp_all
  then show ?thesis by (induction "is" arbitrary: h) auto
qed

lemma chain_range: "chain arr h is \<Longrightarrow> set is \<subseteq> {..<length arr}"
  by (induction "is" arbitrary: h) auto

lemma chain_unlink:
  assumes "chain arr h (us @ k # i # ys)" "distinct (us @ k # i # ys)"
  shows "chain (arr[k := (arr ! k)\<lparr>next_blink := next_blink (arr ! i)\<rparr>]) h (us @ k # ys)"
  using assms
proof (induction us arbitrary: h)
  case Nil
  then show ?case by (simp add: chain_outside)
qed auto

text \<open>What keeps the list and the free elements apart: exactly the elements of the list have a location other than 0.\<close>

definition list_ok :: "fish \<Rightarrow> nat list \<Rightarrow> bool" where
  "list_ok f is \<longleftrightarrow> length (blink_array f) = 2000 \<and> chain (blink_array f) (mp1_list_head f) is \<and> distinct is \<and>
     (\<forall>i<2000. location (blink_array f ! i) \<noteq> 0 \<longleftrightarrow> i \<in> set is)"

definition plain :: "blink \<Rightarrow> blink" where
  "plain b = b\<lparr>next_blink := None\<rparr>"

definition shows_blinks :: "fish \<Rightarrow> blink list \<times> (u32 \<Rightarrow> u8) \<Rightarrow> bool" where
  "shows_blinks f a \<longleftrightarrow> (\<exists>is. list_ok f is \<and> fst a = map (\<lambda>i. plain (blink_array f ! i)) is \<and> snd a = video f)"

lemma list_ok_range: "list_ok f is \<Longrightarrow> i \<in> set is \<Longrightarrow> i < 2000"
  using chain_range [of "blink_array f" "mp1_list_head f" "is"] by (auto simp: list_ok_def)

lemma plain_fields [simp]: "location (plain b) = location b" "on_char (plain b) = on_char b" "off_char (plain b) = off_char b"
  "on_length (plain b) = on_length b" "off_length (plain b) = off_length b" "countdown (plain b) = countdown b" "status (plain b) = status b"
  "cell_offset (plain b) = cell_offset b" "next_blink (plain b) = None"
  by (simp_all add: plain_def cell_offset_def)

section \<open>Operations on plain lists\<close>

definition tick :: "blink \<Rightarrow> blink" where
  "tick b = (if sint (countdown b - 1) > 0 then b\<lparr>countdown := countdown b - 1\<rparr>
     else b\<lparr>countdown := (if bit (status b) 0 then off_length b else on_length b), status := status b XOR 1\<rparr>)"

definition tick_video :: "blink \<Rightarrow> (u32 \<Rightarrow> u8) \<Rightarrow> u32 \<Rightarrow> u8" where
  "tick_video b v = (if sint (countdown b - 1) > 0 then v else v(cell_offset b := if bit (status b) 0 then off_char b else on_char b))"

definition synced :: "blink \<Rightarrow> blink \<Rightarrow> blink" where
  "synced a b = b\<lparr>on_length := on_length a, off_length := off_length a, countdown := countdown a, status := status a\<rparr>"

datatype blink_op = Add blink | Remove u32 | Sync u32 | Tick

fun run_op :: "blink_op \<Rightarrow> fish \<Rightarrow> (u32 \<times> fish) option" where
  "run_op (Add b) f = Some (mp1_ioctl_add b f)"
| "run_op (Remove arg) f = mp1_ioctl_remove arg f"
| "run_op (Sync arg) f = mp1_ioctl_sync arg f"
| "run_op Tick f = map_option (Pair 0) (mp1_rtc_tasklet f)"

primrec change_first :: "('a \<Rightarrow> bool) \<Rightarrow> ('a \<Rightarrow> 'a list) \<Rightarrow> 'a list \<Rightarrow> 'a list" where
  "change_first P g [] = []"
| "change_first P g (x # xs) = (if P x then g x @ xs else x # change_first P g xs)"

fun plain_op :: "blink_op \<Rightarrow> blink list \<times> (u32 \<Rightarrow> u8) \<Rightarrow> u32 \<times> blink list \<times> (u32 \<Rightarrow> u8)" where
  "plain_op (Add b) (bs, v) =
     (if location b \<ge> 2000 \<or> length bs = 2000 then (ERR, bs, v)
      else (0, plain (b\<lparr>status := 1, countdown := on_length b\<rparr>) # bs, v(cell_offset b := on_char b)))"
| "plain_op (Remove arg) (bs, v) =
     (if find (\<lambda>b. location b = ucast arg) bs = None then (ERR, bs, v) else (0, change_first (\<lambda>b. location b = ucast arg) (\<lambda>_. []) bs, v))"
| "plain_op (Sync arg) (bs, v) =
     (case (find (\<lambda>b. location b = ucast (drop_bit 16 arg)) bs, find (\<lambda>b. location b = ucast (arg AND 0xFFFF)) bs) of
        (Some a, Some b) \<Rightarrow> (0, change_first (\<lambda>b. location b = ucast (arg AND 0xFFFF)) (\<lambda>b. [synced a b]) bs, v(cell_offset b := off_char b))
      | _ \<Rightarrow> (ERR, bs, v))"
| "plain_op Tick (bs, v) = (0, map tick bs, fold tick_video bs v)"

section \<open>The refinement\<close>

lemma tasklet_step_eq:
  "tasklet_step i f = f\<lparr>blink_array := (blink_array f)[i := tick (blink_array f ! i)], video := tick_video (blink_array f ! i) (video f)\<rparr>"
  by (simp add: tasklet_step_def tick_def tick_video_def mp1_poke_def cell_offset_def Let_def)

lemma tick_fields [simp]: "location (tick b) = location b" "next_blink (tick b) = next_blink b" "tick (plain b) = plain (tick b)"
  "tick_video (plain b) = tick_video b"
  by (simp_all add: tick_def tick_video_def plain_def cell_offset_def fun_eq_iff)

lemma tasklet_loop_fold: "chain (blink_array f) h is \<Longrightarrow> tasklet_loop h f = Some (fold tasklet_step is f)"
proof (induction "is" arbitrary: h f)
  case Nil
  then show ?case by (subst tasklet_loop.simps) simp
next
  case (Cons i "is")
  let ?f = "tasklet_step i f"
  have "next_blink (blink_array ?f ! i) = next_blink (blink_array f ! i)" using Cons.prems by (simp add: tasklet_step_eq)
  moreover have "chain (blink_array ?f) (next_blink (blink_array f ! i)) is" using Cons.prems by (simp add: tasklet_step_eq chain_same_next)
  ultimately show ?case using Cons by (subst tasklet_loop.simps) (simp add: Let_def)
qed

lemma fold_tasklet:
  assumes "distinct is" "set is \<subseteq> {..<length (blink_array f)}"
  shows "fold tasklet_step is f = f\<lparr>blink_array := fold (\<lambda>i a. a[i := tick (a ! i)]) is (blink_array f),
      video := fold tick_video (map (\<lambda>i. blink_array f ! i) is) (video f)\<rparr>"
    "k < length (blink_array f) \<Longrightarrow> fold (\<lambda>i a. a[i := tick (a ! i)]) is (blink_array f) ! k = (if k \<in> set is then tick (blink_array f ! k) else blink_array f ! k)"
    "length (fold (\<lambda>i a. a[i := tick (a ! i)]) is (blink_array f)) = length (blink_array f)"
  using assms
proof (induction "is" arbitrary: f)
  case (Cons i "is")
  {
    case 1
    have "map ((!) ((blink_array f)[i := tick (blink_array f ! i)])) is = map ((!) (blink_array f)) is" using 1 by (intro map_cong refl nth_list_update_neq) auto
    then show ?case using Cons.IH(1) [of "tasklet_step i f"] 1 by (simp add: tasklet_step_eq cong: map_cong)
  next
    case 2
    then show ?case using Cons.IH(2) [of "tasklet_step i f"] by (auto simp: tasklet_step_eq nth_list_update)
  next
    case 3
    then show ?case using Cons.IH(3) [of "tasklet_step i f"] by (simp add: tasklet_step_eq)
  }
qed simp_all

lemma tick_refines:
  assumes "list_ok f is"
  shows "\<exists>f'. mp1_rtc_tasklet f = Some f' \<and> list_ok f' is \<and> video f' = fold tick_video (map (\<lambda>i. plain (blink_array f ! i)) is) (video f) \<and>
    map (\<lambda>i. plain (blink_array f' ! i)) is = map tick (map (\<lambda>i. plain (blink_array f ! i)) is)"
proof -
  have f: "length (blink_array f) = 2000" "chain (blink_array f) (mp1_list_head f) is" "distinct is" "set is \<subseteq> {..<length (blink_array f)}"
      "\<forall>i<2000. location (blink_array f ! i) \<noteq> 0 \<longleftrightarrow> i \<in> set is"
    using assms list_ok_range [OF assms] by (auto simp: list_ok_def)
  let ?a = "fold (\<lambda>i a. a[i := tick (a ! i)]) is (blink_array f)" and ?f = "fold tasklet_step is f"
  note ft = fold_tasklet [OF f(3,4)]
  have n: "next_blink (?a ! k) = next_blink (blink_array f ! k)" "location (?a ! k) = location (blink_array f ! k)" if "k < 2000" for k
    using ft(2) that f(1) by simp_all
  have ch: "chain ?a h js = chain (blink_array f) h js" if "set js \<subseteq> {..<2000}" for h js
    using that n(1) f(1) ft(3) by (induction js arbitrary: h) auto
  have "list_ok ?f is" using f ch n(2) ft(1,3) by (simp add: list_ok_def)
  moreover have "mp1_rtc_tasklet f = Some ?f" using tasklet_loop_fold [OF f(2)] by (simp add: mp1_rtc_tasklet_def)
  moreover have "video ?f = fold tick_video (map (\<lambda>i. plain (blink_array f ! i)) is) (video f)"
    using ft(1) by (simp add: fold_map comp_def)
  moreover have "map (\<lambda>i. plain (blink_array ?f ! i)) is = map tick (map (\<lambda>i. plain (blink_array f ! i)) is)"
    using ft(1,2) f(4) by auto
  ultimately show ?thesis by blast
qed

lemma malloc_free:
  assumes "list_ok f is"
  shows "if length is = 2000 then mp1_malloc f = None else \<exists>i. mp1_malloc f = Some i \<and> i < 2000 \<and> i \<notin> set is"
proof -
  have ok: "distinct is" "\<And>i. i < 2000 \<Longrightarrow> location (blink_array f ! i) = 0 \<longleftrightarrow> i \<notin> set is" "set is \<subseteq> {..<2000}"
    using assms list_ok_range by (auto simp: list_ok_def)
  have card: "card (set is) = length is" using ok(1) by (rule distinct_card)
  show ?thesis
  proof (cases "length is = 2000")
    case True
    then have "set is = {..<2000}" using ok(3) card by (intro card_subset_eq) simp_all
    then show ?thesis using ok(2) True by (simp add: mp1_malloc_def find_None_iff)
  next
    case False
    then have "\<not> {..<2000} \<subseteq> set is" using ok(3) card by (metis card_lessThan subset_antisym)
    then have "mp1_malloc f \<noteq> None" using ok(2) by (auto simp: mp1_malloc_def find_None_iff)
    then obtain i where i: "mp1_malloc f = Some i" by blast
    then have "i < 2000" "location (blink_array f ! i) = 0" by (auto simp: mp1_malloc_def find_Some_iff)
    then show ?thesis using i ok(2) False by simp
  qed
qed

lemma add_refines:
  assumes "list_ok f is" "location b \<noteq> 0" "location b < 2000" "length is \<noteq> 2000"
  shows "\<exists>i f'. mp1_ioctl_add b f = (0, f') \<and> list_ok f' (i # is) \<and> video f' = (video f)(cell_offset b := on_char b) \<and>
    map (\<lambda>i. plain (blink_array f' ! i)) (i # is) = plain (b\<lparr>status := 1, countdown := on_length b\<rparr>) # map (\<lambda>i. plain (blink_array f ! i)) is"
proof -
  obtain i where i: "mp1_malloc f = Some i" "i < 2000" "i \<notin> set is" using malloc_free [OF assms(1)] assms(4) by auto
  let ?b = "b\<lparr>status := 1, countdown := on_length b, next_blink := mp1_list_head f\<rparr>"
  let ?f = "f\<lparr>blink_array := (blink_array f)[i := ?b], mp1_list_head := Some i, video := (video f)(cell_offset b := on_char b)\<rparr>"
  have l: "length (blink_array f) = 2000" using assms(1) by (simp add: list_ok_def)
  have "mp1_ioctl_add b f = (0, ?f)" using assms(3) i(1) by (auto simp: mp1_ioctl_add_def Let_def mp1_poke_def cell_offset_def not_le)
  moreover have "list_ok ?f (i # is)" using assms(1,2) i(2,3) l by (auto simp: list_ok_def chain_outside nth_list_update)
  moreover have "map (\<lambda>k. plain (blink_array ?f ! k)) (i # is) = plain (b\<lparr>status := 1, countdown := on_length b\<rparr>) # map (\<lambda>i. plain (blink_array f ! i)) is"
    using i(2,3) l by (auto simp: plain_def nth_list_update)
  ultimately show ?thesis by (intro exI [of _ i] exI [of _ ?f]) simp
qed

lemma find_loop_find: "chain (blink_array f) h is \<Longrightarrow> find_loop ax h f = Some (find (\<lambda>i. location (blink_array f ! i) = ax) is)"
proof (induction "is" arbitrary: h)
  case Nil
  then show ?case by (subst find_loop.simps) simp
next
  case (Cons i "is")
  then show ?case by (subst find_loop.simps) simp
qed

lemma helper_find: "list_ok f is \<Longrightarrow> mp1_find_helper ax f = Some (find (\<lambda>i. location (blink_array f ! i) = ax) is)"
  unfolding mp1_find_helper_def by (rule find_loop_find) (simp add: list_ok_def)

lemma find_map_plain: "find (\<lambda>b. location b = ax) (map (\<lambda>i. plain (blink_array f ! i)) is) =
    map_option (\<lambda>i. plain (blink_array f ! i)) (find (\<lambda>i. location (blink_array f ! i) = ax) is)"
  by (induction "is") auto

lemma find_prev_last:
  assumes "chain (blink_array f) (pointer_at edx f) (xs @ i # ys)" "i \<notin> set xs"
  shows "remove_find_prev i edx f = Some (if xs = [] then edx else Some (last xs))"
  using assms
proof (induction xs arbitrary: edx)
  case Nil
  then show ?case by (subst remove_find_prev.simps) simp
next
  case (Cons k xs)
  then have "remove_find_prev i (Some k) f = Some (if xs = [] then Some k else Some (last xs))" by (intro Cons.IH) (simp_all add: pointer_at_def)
  then show ?case using Cons.prems by (subst remove_find_prev.simps) auto
qed

lemma find_split: "find P xs = Some x \<Longrightarrow> \<exists>us vs. xs = us @ x # vs \<and> P x \<and> (\<forall>u\<in>set us. \<not> P u)"
proof -
  assume "find P xs = Some x"
  then obtain i where i: "i < length xs" "P x" "x = xs ! i" "\<forall>j<i. \<not> P (xs ! j)" by (auto simp: find_Some_iff)
  have "xs = take i xs @ x # drop (Suc i) xs" unfolding i(3) by (rule id_take_nth_drop [OF i(1)])
  moreover have "\<forall>u\<in>set (take i xs). \<not> P u" using i(1,4) by (auto simp: in_set_conv_nth)
  ultimately show ?thesis using i(2) by blast
qed

lemma change_first_split: "\<forall>u\<in>set us. \<not> P u \<Longrightarrow> P x \<Longrightarrow> change_first P g (us @ x # vs) = us @ g x @ vs"
  by (induction us) auto

lemma plain_next [simp]: "plain (b\<lparr>next_blink := p\<rparr>) = plain b"
  by (simp add: plain_def)

lemma plain_relinked: "plain (arr[k := (arr ! k)\<lparr>next_blink := p\<rparr>] ! j) = plain (arr ! j)"
  by (cases "j = k"; cases "k < length arr") (simp_all add: list_update_beyond)

lemma remove_refines:
  assumes ok: "list_ok f is" and i: "is = xs @ i # ys"
  defines "edx \<equiv> if xs = [] then None else Some (last xs)"
  defines "f' \<equiv> mp1_free i (set_pointer edx (next_blink (blink_array f ! i)) f)"
  shows "list_ok f' (xs @ ys)" "map (\<lambda>i. plain (blink_array f' ! i)) (xs @ ys) = map (\<lambda>i. plain (blink_array f ! i)) (xs @ ys)" "video f' = video f"
proof -
  have l: "length (blink_array f) = 2000" "chain (blink_array f) (mp1_list_head f) (xs @ i # ys)" "distinct (xs @ i # ys)"
      "\<forall>k<2000. location (blink_array f ! k) \<noteq> 0 \<longleftrightarrow> k \<in> set (xs @ i # ys)" "i < 2000"
    using ok list_ok_range [OF ok] unfolding i by (auto simp: list_ok_def)
  have nth: "length (blink_array f') = 2000 \<and> (\<forall>k<2000. k \<noteq> i \<longrightarrow> plain (blink_array f' ! k) = plain (blink_array f ! k)) \<and> blink_array f' ! i = zero_blink"
    using l(1,5) by (auto simp: f'_def mp1_free_def set_pointer_def plain_relinked split: option.split)
  have loc: "location (blink_array f' ! k) = (if k = i then 0 else location (blink_array f ! k))" if "k < 2000" for k
  proof (cases "k = i")
    case False
    then have "plain (blink_array f' ! k) = plain (blink_array f ! k)" using nth that by blast
    from arg_cong [OF this, of location] show ?thesis using False by simp
  qed (use nth in \<open>simp add: zero_blink_def\<close>)
  have "chain (blink_array f') (mp1_list_head f') (xs @ ys)"
  proof (cases xs rule: rev_cases)
    case Nil
    then show ?thesis using l(2,3) by (simp add: f'_def edx_def mp1_free_def set_pointer_def chain_outside)
  next
    case (snoc us k)
    have "i \<notin> set (us @ k # ys)" using l(3) snoc by auto
    moreover have "chain ((blink_array f)[k := (blink_array f ! k)\<lparr>next_blink := next_blink (blink_array f ! i)\<rparr>]) (mp1_list_head f) (us @ k # ys)"
      by (rule chain_unlink) (use l(2,3) snoc in simp_all)
    ultimately show ?thesis using snoc by (simp add: f'_def edx_def mp1_free_def set_pointer_def chain_outside)
  qed
  then show "list_ok f' (xs @ ys)" using nth loc l(3,4) by (auto simp: list_ok_def)
  have "\<forall>k\<in>set (xs @ ys). k < 2000 \<and> k \<noteq> i" using list_ok_range [OF ok] l(3) unfolding i by auto
  then show "map (\<lambda>i. plain (blink_array f' ! i)) (xs @ ys) = map (\<lambda>i. plain (blink_array f ! i)) (xs @ ys)"
    using nth by (intro map_cong) auto
  show "video f' = video f" by (simp add: f'_def mp1_free_def set_pointer_def split: option.split)
qed

lemma sync_refines:
  assumes ok: "list_ok f is" and j: "is = xs @ j # ys" and b: "next_blink b = next_blink (blink_array f ! j)" "location b = location (blink_array f ! j)"
  shows "list_ok (f\<lparr>blink_array := (blink_array f)[j := b], video := v\<rparr>) is"
    "map (\<lambda>i. plain ((blink_array f)[j := b] ! i)) is = map (\<lambda>i. plain (blink_array f ! i)) xs @ plain b # map (\<lambda>i. plain (blink_array f ! i)) ys"
proof -
  have l: "length (blink_array f) = 2000" "distinct is" "j < 2000" using ok list_ok_range [OF ok] j by (auto simp: list_ok_def)
  show "list_ok (f\<lparr>blink_array := (blink_array f)[j := b], video := v\<rparr>) is"
    using ok b l(1,3) by (auto simp: list_ok_def chain_same_next nth_list_update)
  have "(blink_array f)[j := b] ! k = blink_array f ! k" if "k \<in> set xs \<union> set ys" for k
    using l(2) that unfolding j by (intro nth_list_update_neq) auto
  then show "map (\<lambda>i. plain ((blink_array f)[j := b] ! i)) is = map (\<lambda>i. plain (blink_array f ! i)) xs @ plain b # map (\<lambda>i. plain (blink_array f ! i)) ys"
    unfolding j using l(1,3) by simp
qed

text \<open>A blink at location 0 is not told from a free element.\<close>

fun op_ok :: "blink_op \<Rightarrow> bool" where
  "op_ok (Add b) = (location b \<noteq> 0)"
| "op_ok _ = True"

lemma op_refines:
  assumes "shows_blinks f a" "op_ok x"
  shows "\<exists>r f' a'. run_op x f = Some (r, f') \<and> plain_op x a = (r, a') \<and> shows_blinks f' a'"
proof -
  obtain "is" where ok: "list_ok f is" and a: "a = (map (\<lambda>i. plain (blink_array f ! i)) is, video f)"
    using assms(1) by (cases a) (auto simp: shows_blinks_def)
  let ?bs = "map (\<lambda>i. plain (blink_array f ! i))"
  show ?thesis
  proof (cases x)
    case (Add b)
    show ?thesis
    proof (cases "location b \<ge> 2000 \<or> length is = 2000")
      case True
      then have "mp1_ioctl_add b f = (ERR, f)" using malloc_free [OF ok] by (auto simp: mp1_ioctl_add_def Let_def)
      then show ?thesis using Add True a assms(1) by auto
    next
      case False
      then show ?thesis using add_refines [OF ok, of b] assms(2) Add a by (fastforce simp: shows_blinks_def not_le)
    qed
  next
    case (Remove arg)
    show ?thesis
    proof (cases "find (\<lambda>i. location (blink_array f ! i) = ucast arg) is")
      case None
      then show ?thesis using Remove a assms(1) helper_find [OF ok] by (simp add: mp1_ioctl_remove_def find_map_plain)
    next
      case (Some i)
      then obtain xs ys where i: "is = xs @ i # ys" "location (blink_array f ! i) = ucast arg" "\<forall>u\<in>set xs. location (blink_array f ! u) \<noteq> ucast arg"
        using find_split by fast
      have d: "i \<notin> set xs" "chain (blink_array f) (mp1_list_head f) (xs @ i # ys)" using ok i(1) by (auto simp: list_ok_def)
      note r = remove_refines [OF ok i(1)] and p = find_prev_last [of f None xs i ys]
      have "change_first (\<lambda>b. location b = ucast arg) (\<lambda>_. []) (?bs is) = ?bs (xs @ ys)"
        unfolding i(1) using i(2,3) by (subst map_append, subst list.map, subst change_first_split) auto
      then show ?thesis using Remove a Some helper_find [OF ok] p d r by (auto simp: mp1_ioctl_remove_def find_map_plain pointer_at_def shows_blinks_def)
    qed
  next
    case (Sync arg)
    let ?s = "ucast (drop_bit 16 arg) :: u16" and ?d = "ucast (arg AND 0xFFFF) :: u16"
    show ?thesis
    proof (cases "find (\<lambda>i. location (blink_array f ! i) = ?s) is = None \<or> find (\<lambda>i. location (blink_array f ! i) = ?d) is = None")
      case True
      then have "mp1_ioctl_sync arg f = Some (ERR, f)" using helper_find [OF ok] by (auto simp: mp1_ioctl_sync_def split: option.split)
      moreover have "plain_op (Sync arg) a = (ERR, a)" using True a by (auto simp: find_map_plain split: option.split)
      ultimately show ?thesis using Sync assms(1) by simp
    next
      case False
      then obtain i j where ij: "find (\<lambda>i. location (blink_array f ! i) = ?s) is = Some i" "find (\<lambda>i. location (blink_array f ! i) = ?d) is = Some j" by auto
      then obtain xs ys where j: "is = xs @ j # ys" "location (blink_array f ! j) = ?d" "\<forall>u\<in>set xs. location (blink_array f ! u) \<noteq> ?d"
        using find_split by fast
      let ?b = "synced (blink_array f ! i) (blink_array f ! j)"
      have b: "next_blink ?b = next_blink (blink_array f ! j)" "location ?b = location (blink_array f ! j)" "off_char ?b = off_char (blink_array f ! j)"
          "cell_offset ?b = cell_offset (blink_array f ! j)" "plain ?b = synced (plain (blink_array f ! i)) (plain (blink_array f ! j))"
        by (simp_all add: synced_def cell_offset_def plain_def)
      let ?v = "(video f)(cell_offset (blink_array f ! j) := off_char (blink_array f ! j))"
      let ?f = "f\<lparr>blink_array := (blink_array f)[j := ?b], video := ?v\<rparr>"
      have "mp1_ioctl_sync arg f = Some (0, ?f)"
        using helper_find [OF ok] ij b(3,4) by (simp add: mp1_ioctl_sync_def mp1_poke_def Let_def synced_def [symmetric])
      moreover note r = sync_refines(1) [OF ok j(1) b(1,2), of ?v] sync_refines(2) [OF ok j(1) b(1,2)]
      have "change_first (\<lambda>b. location b = ?d) (\<lambda>b. [synced (plain (blink_array f ! i)) b]) (?bs is) = map (\<lambda>i. plain (blink_array ?f ! i)) is"
        using r(2) unfolding b(5) by (simp add: j(1)) (subst change_first_split, use j(2,3) in auto)
      then have "plain_op (Sync arg) a = (0, map (\<lambda>i. plain (blink_array ?f ! i)) is, ?v)" using a ij by (simp add: find_map_plain)
      ultimately show ?thesis using Sync r(1) by (auto simp: shows_blinks_def)
    qed
  next
    case Tick
    obtain f' where "mp1_rtc_tasklet f = Some f'" "list_ok f' is" "video f' = fold tick_video (?bs is) (video f)"
        "map (\<lambda>i. plain (blink_array f' ! i)) is = map tick (?bs is)"
      using tick_refines [OF ok] by blast
    then show ?thesis using Tick a unfolding shows_blinks_def by (intro exI [of _ 0] exI [of _ f'] exI) (auto simp del: map_map intro!: exI [of _ "is"])
  qed
qed

section \<open>Sequences of operations\<close>

primrec run_ops :: "blink_op list \<Rightarrow> fish \<Rightarrow> (u32 list \<times> fish) option" where
  "run_ops [] f = Some ([], f)"
| "run_ops (x # xs) f = do { (r, f) \<leftarrow> run_op x f; (rs, f) \<leftarrow> run_ops xs f; Some (r # rs, f) }"

primrec plain_ops :: "blink_op list \<Rightarrow> blink list \<times> (u32 \<Rightarrow> u8) \<Rightarrow> u32 list \<times> blink list \<times> (u32 \<Rightarrow> u8)" where
  "plain_ops [] a = ([], a)"
| "plain_ops (x # xs) a = (let (r, a) = plain_op x a; (rs, a) = plain_ops xs a in (r # rs, a))"

text \<open>The list of \<open>blink.S\<close> before its first use, with the array cleared by \<open>main\<close>.\<close>

definition no_blinks :: "(u32 \<Rightarrow> u8) \<Rightarrow> fish" where
  "no_blinks v = \<lparr>blink_array = replicate 2000 zero_blink, mp1_list_head = None, video = v\<rparr>"

lemma no_blinks_shown: "shows_blinks (no_blinks v) ([], v)"
  by (simp add: shows_blinks_def list_ok_def no_blinks_def zero_blink_def exI [of _ "[]"])

lemma ops_refine:
  assumes "shows_blinks f a" "list_all op_ok xs"
  shows "\<exists>rs f' a'. run_ops xs f = Some (rs, f') \<and> plain_ops xs a = (rs, a') \<and> shows_blinks f' a'"
  using assms
proof (induction xs arbitrary: f a)
  case (Cons x xs)
  have ok: "op_ok x" "list_all op_ok xs" using Cons.prems(2) by simp_all
  obtain r f1 a1 where 1: "run_op x f = Some (r, f1)" "plain_op x a = (r, a1)" "shows_blinks f1 a1" using op_refines [OF Cons.prems(1) ok(1)] by blast
  obtain rs f2 a2 where "run_ops xs f1 = Some (rs, f2)" "plain_ops xs a1 = (rs, a2)" "shows_blinks f2 a2" using Cons.IH [OF 1(3) ok(2)] by blast
  then show ?case using 1 by simp
qed simp

text \<open>C11: The linked list of blinking characters refines a plain list: whatever sequence of additions, removals, synchronisations and
  clock ticks is made, every operation ends with the same result as on the plain list, the list of the program
  holds the same characters in the same order, and the same bytes are on the screen. In particular no tick
  runs in a circle and no element is lost or used twice. Additions at location 0 are excluded: such an element counts as free, and a second one
  makes the list a circle.\<close>

theorem blink_list_refines:
  assumes "list_all op_ok xs"
  shows "\<exists>rs f a. run_ops xs (no_blinks v) = Some (rs, f) \<and> plain_ops xs ([], v) = (rs, a) \<and> shows_blinks f a"
  by (rule ops_refine [OF no_blinks_shown assms])

theorem blink_list_refines_witness:
  "\<exists>f a. run_ops [Add (zero_blink\<lparr>location := 45, on_char := 0x49\<rparr>), Tick, Remove 45, Remove 45] (no_blinks (\<lambda>_. 0)) = Some ([0, 0, 0, ERR], f) \<and>
    shows_blinks f ([], a)"
proof -
  let ?xs = "[Add (zero_blink\<lparr>location := 45, on_char := 0x49\<rparr>), Tick, Remove 45, Remove 45]"
  have "list_all op_ok ?xs" by simp
  moreover have "\<exists>a. plain_ops ?xs ([], \<lambda>_. 0) = ([0, 0, 0, ERR], [], a)" by (simp add: Let_def)
  ultimately show ?thesis using blink_list_refines [of ?xs "\<lambda>_. 0"] by auto
qed

text \<open>Two additions at location 0: the second one is stored over the first, which becomes its own successor, and a tick never ends.\<close>

lemma circle_never_ends:
  assumes "blink_array f \<noteq> []" "next_blink (blink_array f ! 0) = Some 0"
  shows "tasklet_loop (Some 0) f = None"
proof (rule ccontr)
  assume "tasklet_loop (Some 0) f \<noteq> None"
  then obtain r where "tasklet_loop (Some 0) f = Some r" by blast
  moreover have "\<not> (h = Some 0 \<and> blink_array f \<noteq> [] \<and> next_blink (blink_array f ! 0) = Some 0)" if "tasklet_loop h f = Some r" for h f
    using that
  proof (rule tasklet_loop.raw_induct [rotated])
    fix loop :: "nat option \<Rightarrow> fish \<Rightarrow> fish option" and h f r
    assume ih: "\<And>h f r. loop h f = Some r \<Longrightarrow> \<not> (h = Some 0 \<and> blink_array f \<noteq> [] \<and> next_blink (blink_array f ! 0) = Some 0)"
      and r: "(case h of None \<Rightarrow> Some f | Some i \<Rightarrow> if i < length (blink_array f) then let f = tasklet_step i f in loop (next_blink (blink_array f ! i)) f else None) = Some r"
    show "\<not> (h = Some 0 \<and> blink_array f \<noteq> [] \<and> next_blink (blink_array f ! 0) = Some 0)"
    proof
      assume h: "h = Some 0 \<and> blink_array f \<noteq> [] \<and> next_blink (blink_array f ! 0) = Some 0"
      let ?f = "tasklet_step 0 f"
      have n: "next_blink (blink_array ?f ! 0) = Some 0" "blink_array ?f \<noteq> []" using h by (auto simp: tasklet_step_eq)
      then have "loop (Some 0) ?f = Some r" using r h by (simp add: Let_def)
      from ih [OF this] n show False by simp
    qed
  qed
  ultimately show False using assms by blast
qed

lemma zero_location_never_ends:
  "Option.bind (run_ops [Add zero_blink, Add zero_blink] (no_blinks v)) (\<lambda>(_, f). mp1_rtc_tasklet f) = None"
proof -
  have u: "[0..<80 * 25] = 0 # [Suc 0..<80 * 25]" by (rule upt_conv_Cons) simp
  have m: "mp1_malloc f = Some 0" if "location (blink_array f ! 0) = 0" for f using that unfolding mp1_malloc_def u by simp
  have add: "\<exists>f'. mp1_ioctl_add zero_blink f = (0, f') \<and> mp1_list_head f' = Some 0 \<and> blink_array f' \<noteq> [] \<and> location (blink_array f' ! 0) = 0 \<and>
      next_blink (blink_array f' ! 0) = mp1_list_head f" if "blink_array f \<noteq> []" "location (blink_array f ! 0) = 0" for f
    using that by (simp add: mp1_ioctl_add_def m mp1_poke_def Let_def zero_blink_def)
  have n: "blink_array (no_blinks v) = replicate 2000 zero_blink" by (simp add: no_blinks_def)
  have "blink_array (no_blinks v) \<noteq> []" "location (blink_array (no_blinks v) ! 0) = 0" unfolding n by (simp_all add: zero_blink_def)
  from add [OF this] obtain f where f: "mp1_ioctl_add zero_blink (no_blinks v) = (0, f)" "mp1_list_head f = Some 0" "blink_array f \<noteq> []"
      "location (blink_array f ! 0) = 0" by blast
  from add [OF f(3,4)] f(2) obtain g where "mp1_ioctl_add zero_blink f = (0, g)" "mp1_list_head g = Some 0" "blink_array g \<noteq> []"
      "next_blink (blink_array g ! 0) = Some 0" by auto
  then show ?thesis using f(1) circle_never_ends [of g] by (simp add: mp1_rtc_tasklet_def)
qed

end
