(* ===== verification/Fish_Memory.thy ===== *)
theory Fish_Memory
  imports Fish
begin

text \<open>
  The memory behind the list of blinking characters: the fields of an element at the offsets of \<open>blink.S\<close>, the byte loops of
  \<open>fish.c\<close> that clear and copy elements, and that the operations on the array of records are what they do to its bytes.
\<close>

definition ece391_memset :: "u32 \<Rightarrow> u8 \<Rightarrow> nat \<Rightarrow> memory \<Rightarrow> memory" where
  "ece391_memset mem c n m = for_to n (\<lambda>i m. m(mem + of_nat i := c)) m"

definition ece391_memcpy :: "u32 \<Rightarrow> u32 \<Rightarrow> nat \<Rightarrow> memory \<Rightarrow> memory" where
  "ece391_memcpy dest src n m = for_to n (\<lambda>i m. m(dest + of_nat i := m (src + of_nat i))) m"

definition read16 :: "memory \<Rightarrow> u32 \<Rightarrow> u16" where
  "read16 m a = ucast (m a) OR push_bit 8 (ucast (m (a + 1)))"

text \<open>The element at an address; a pointer to an element of the array is the number of the element.\<close>

definition blink_at :: "u32 \<Rightarrow> memory \<Rightarrow> u32 \<Rightarrow> blink" where
  "blink_at base m a = \<lparr>location = read16 m a, on_char = m (a + 2), off_char = m (a + 3), on_length = read16 m (a + 4), off_length = read16 m (a + 6),
     countdown = read16 m (a + 8), status = read16 m (a + 10),
     next_blink = (let p = read32 m (a + 12) in if p = 0 then None else Some (unat (p - base) div 16))\<rparr>"

definition array_at :: "u32 \<Rightarrow> memory \<Rightarrow> blink list" where
  "array_at base m = map (\<lambda>i. blink_at base m (base + of_nat (16 * i))) [0..<80 * 25]"

section \<open>The loops\<close>

lemma memset_bytes: "ece391_memset a c n m x = (if \<exists>k<n. x = a + of_nat k then c else m x)"
  unfolding ece391_memset_def by (induction n) (auto simp: for_to_Suc less_Suc_eq)

lemma memcpy_bytes:
  assumes "\<forall>i<n. \<forall>j<n. d + of_nat i \<noteq> s + of_nat j" "n < 2 ^ 32"
  shows "ece391_memcpy d s n m x = (if \<exists>k<n. x = d + of_nat k then m (s + (x - d)) else m x)"
  using assms unfolding ece391_memcpy_def
proof (induction n arbitrary: x)
  case (Suc n)
  let ?m = "for_to n (\<lambda>i m. m(d + of_nat i := m (s + of_nat i))) m"
  have ih: "?m y = (if \<exists>k<n. y = d + of_nat k then m (s + (y - d)) else m y)" for y by (rule Suc.IH) (use Suc.prems in auto)
  have "\<not> (\<exists>k<n. s + of_nat n = d + (of_nat k :: u32))" using Suc.prems(1) by (metis less_SucI lessI)
  then have "?m (s + of_nat n) = m (s + of_nat n)" unfolding ih by (simp only: if_False)
  then show ?case unfolding for_to_Suc using ih [of x] by (auto simp: less_Suc_eq)
qed simp

lemma blink_bytes:
  assumes "\<forall>k<16. m (a + of_nat k) = m' (a' + of_nat k)"
  shows "blink_at base m a = blink_at base m' a'"
proof -
  have e: "m (a + of_nat k) = m' (a' + of_nat k)" if "k < 16" for k using assms that by blast
  have "m a = m' a'" using e [of 0] by simp
  then show ?thesis using e [of 1] e [of 2] e [of 3] e [of 4] e [of 5] e [of 6] e [of 7] e [of 8] e [of 9] e [of 10] e [of 11] e [of 12] e [of 13] e [of 14] e [of 15]
    by (simp add: blink_at_def read16_def read32_def add.assoc)
qed

lemma zero_blink_at: "\<forall>k<16. m (a + of_nat k) = 0 \<Longrightarrow> blink_at base m a = zero_blink"
proof -
  assume "\<forall>k<16. m (a + of_nat k) = 0"
  then have "blink_at base m a = blink_at base (\<lambda>_. 0) a" by (intro blink_bytes) simp
  then show ?thesis by (simp add: blink_at_def read16_def read32_def zero_blink_def)
qed

section \<open>Elements of the array\<close>

lemma element_bytes:
  assumes "i < 2000" "j < 2000" "k < 16" "l < 16"
  shows "(base + of_nat (16 * i) + of_nat k = base + of_nat (16 * j) + (of_nat l :: u32)) \<longleftrightarrow> i = j \<and> k = l"
proof -
  have "(base + of_nat (16 * i + k) = base + (of_nat (16 * j + l) :: u32)) \<longleftrightarrow> 16 * i + k = 16 * j + l"
    using assms by (intro offset_eq_iff) simp_all
  moreover have "16 * i + k = 16 * j + l \<longleftrightarrow> i = j \<and> k = l" using assms(3,4) by presburger
  ultimately show ?thesis by (simp only: add.assoc of_nat_add)
qed

lemma array_at_update:
  assumes i: "i < 2000"
    and e: "\<forall>k<16. m' (base + of_nat (16 * i) + of_nat k) = m'' (a + of_nat k)"
    and o: "\<And>x. (\<And>k. k < 16 \<Longrightarrow> x \<noteq> base + of_nat (16 * i) + of_nat k) \<Longrightarrow> m' x = m x"
  shows "array_at base m' = (array_at base m)[i := blink_at base m'' a]"
proof (rule nth_equalityI)
  fix j assume "j < length (array_at base m')"
  then have j: "j < 2000" by (simp add: array_at_def)
  have n: "array_at base m ! j = blink_at base m (base + of_nat (16 * j))" for m using j by (simp add: array_at_def)
  show "array_at base m' ! j = (array_at base m)[i := blink_at base m'' a] ! j"
  proof (cases "j = i")
    case True
    then show ?thesis using blink_bytes [OF e] i by (simp only: n) (simp add: array_at_def)
  next
    case False
    have "blink_at base m' (base + of_nat (16 * j)) = blink_at base m (base + of_nat (16 * j))"
      by (rule blink_bytes) (use o element_bytes [OF j i] False in blast)
    then show ?thesis using False by (simp only: n nth_list_update_neq)
  qed
qed (simp add: array_at_def)

lemma fish_memory_clears:
  assumes "i < 2000"
  shows "array_at base (ece391_memset base 0 (16 * (80 * 25)) m) = replicate 2000 zero_blink"
    "array_at base (ece391_memset (base + of_nat (16 * i)) 0 16 m) = (array_at base m)[i := zero_blink]"
proof -
  have "blink_at base (ece391_memset base 0 (16 * (80 * 25)) m) (base + of_nat (16 * j)) = zero_blink" if "j < 2000" for j
  proof (rule zero_blink_at, intro allI impI)
    fix k :: nat assume "k < 16"
    then have "16 * j + k < 16 * (80 * 25) \<and> base + of_nat (16 * j) + of_nat k = base + of_nat (16 * j + k)" using that by (simp add: add.assoc)
    then show "ece391_memset base 0 (16 * (80 * 25)) m (base + of_nat (16 * j) + of_nat k) = 0" unfolding memset_bytes by metis
  qed
  then show "array_at base (ece391_memset base 0 (16 * (80 * 25)) m) = replicate 2000 zero_blink"
    by (intro nth_equalityI) (simp_all add: array_at_def del: of_nat_mult)
  have z: "blink_at base (\<lambda>_. 0) 0 = zero_blink" by (rule zero_blink_at) simp
  show "array_at base (ece391_memset (base + of_nat (16 * i)) 0 16 m) = (array_at base m)[i := zero_blink]"
    unfolding z [symmetric] by (rule array_at_update [OF assms]) (auto simp: memset_bytes simp del: of_nat_mult)
qed

text \<open>The copy of an element from outside the array, as an addition makes it from the stack.\<close>

lemma fish_memory_copies:
  assumes "i < 2000" "\<forall>j<16. \<forall>k<16. base + of_nat (16 * i) + of_nat j \<noteq> src + of_nat k"
  shows "array_at base (ece391_memcpy (base + of_nat (16 * i)) src 16 m) = (array_at base m)[i := blink_at base m src]"
proof -
  have c: "ece391_memcpy (base + of_nat (16 * i)) src 16 m x =
      (if \<exists>k<16. x = base + of_nat (16 * i) + of_nat k then m (src + (x - (base + of_nat (16 * i)))) else m x)" for x
    by (rule memcpy_bytes [OF assms(2)]) simp
  show ?thesis
  proof (rule array_at_update [OF assms(1)])
    show "\<forall>k<16. ece391_memcpy (base + of_nat (16 * i)) src 16 m (base + of_nat (16 * i) + of_nat k) = m (src + of_nat k)"
      unfolding c by (auto simp del: of_nat_mult)
  qed (auto simp: c simp del: of_nat_mult)
qed

end
