(* ===== verification/User_Clock.thy ===== *)
theory User_Clock
  imports User_Refusals Sche
begin

text \<open>
  The program \<open>pingpong\<close> (\<open>ece391pingpong.c\<close>), which moves a character between two walls at the pace of the clock, and its
  run on the kernel with the interrupts of timer and clock.
\<close>

section \<open>ece391pingpong.c\<close>

definition blank :: "nat list \<Rightarrow> u8 list \<Rightarrow> u8 list" where
  "blank is buf = fold (\<lambda>i b. b[i := 0x20]) is buf"

definition pingpong_init :: "u8 list \<Rightarrow> u8 list" where
  "pingpong_init buf = (blank [0..<81] buf)[80 := 0, 79 := NEWLINE, 78 := 0x7C, 1 := 0x7C]"

definition pingpong_frame :: "'s os \<Rightarrow> u32 \<Rightarrow> u8 \<Rightarrow> nat \<Rightarrow> u8 list \<times> u8 list \<times> 's \<Rightarrow> (u8 list \<times> u8 list \<times> 's) option" where
  "pingpong_frame os rtc_fd curchar j = (\<lambda>(buf, garbage, s). do {
     let buf = (blank [2..<78] buf)[j := curchar];
     s \<leftarrow> ece391_fdputs os 1 buf s;
     (_, garbage, s) \<leftarrow> sys_read os rtc_fd garbage 4 s;
     Some (buf, garbage, s)
   })"

primrec pingpong_pass :: "'s os \<Rightarrow> u32 \<Rightarrow> u8 \<Rightarrow> nat list \<Rightarrow> u8 list \<times> u8 list \<times> 's \<Rightarrow> (u8 list \<times> u8 list \<times> 's) option" where
  "pingpong_pass os rtc_fd curchar [] w = Some w"
| "pingpong_pass os rtc_fd curchar (j # js) w = Option.bind (pingpong_frame os rtc_fd curchar j w) (pingpong_pass os rtc_fd curchar js)"

definition pingpong_next :: "u8 \<Rightarrow> u8" where
  "pingpong_next curchar = (if curchar = 0x5A then 0x41 else curchar + 1)"

text \<open>The outer loop never ends; the model runs it for a number of rounds.\<close>

primrec pingpong_rounds :: "'s os \<Rightarrow> u32 \<Rightarrow> nat \<Rightarrow> u8 \<Rightarrow> u8 list \<times> u8 list \<times> 's \<Rightarrow> (u8 list \<times> u8 list \<times> 's) option" where
  "pingpong_rounds os rtc_fd 0 curchar w = Some w"
| "pingpong_rounds os rtc_fd (Suc n) curchar w = do {
     w \<leftarrow> pingpong_pass os rtc_fd curchar [2..<78] w;
     w \<leftarrow> pingpong_pass os rtc_fd curchar (rev [2..<78]) w;
     pingpong_rounds os rtc_fd n (pingpong_next curchar) w
   }"

definition pingpong :: "'s os \<Rightarrow> nat \<Rightarrow> u8 list \<Rightarrow> u8 list \<Rightarrow> 's \<Rightarrow> 's option" where
  "pingpong os n buf garbage s = do {
     let buf = pingpong_init buf;
     (rtc_fd, s) \<leftarrow> sys_open os (c_string ''rtc'') s;
     (_, s) \<leftarrow> sys_write os rtc_fd [32, 0, 0, 0] 4 s;
     (_, _, s) \<leftarrow> pingpong_rounds os rtc_fd n 0x41 (buf, garbage, s);
     Some s
   }"

section \<open>What is shown\<close>

text \<open>A frame with the character at a distance from the left wall.\<close>

definition frame :: "u8 \<Rightarrow> nat \<Rightarrow> u8 list" where
  "frame c j = [0x20, 0x7C] @ replicate j 0x20 @ c # replicate (75 - j) 0x20 @ [0x7C, NEWLINE]"

text \<open>The frames of one letter, from the left wall to the right one and back.\<close>

definition bounce :: "u8 \<Rightarrow> u8 list list" where
  "bounce c = map (frame c) ([0..<76] @ rev [0..<76])"

definition letter :: "nat \<Rightarrow> u8" where
  "letter k = of_nat (0x41 + k mod 26)"

definition frames :: "nat \<Rightarrow> u8 list list" where
  "frames n = concat (map (\<lambda>k. bounce (letter k)) [0..<n])"

lemma blank_nth: "blank is buf ! k = (if k \<in> set is \<and> k < length buf then 0x20 else buf ! k)" "length (blank is buf) = length buf"
proof -
  have "length (fold (\<lambda>i b. b[i := 0x20]) is buf) = length buf \<and>
      fold (\<lambda>i b. b[i := 0x20]) is buf ! k = (if k \<in> set is \<and> k < length buf then 0x20 else buf ! k)"
  proof (induction "is" arbitrary: buf)
    case (Cons i "is")
    then show ?case by (cases "i < length buf") (auto simp: nth_list_update list_update_beyond)
  qed simp
  then show "blank is buf ! k = (if k \<in> set is \<and> k < length buf then 0x20 else buf ! k)" "length (blank is buf) = length buf"
    by (simp_all add: blank_def)
qed

text \<open>The walls, which no frame changes.\<close>

definition walled :: "u8 list \<Rightarrow> bool" where
  "walled buf \<longleftrightarrow> length buf = 81 \<and> buf ! 0 = 0x20 \<and> buf ! 1 = 0x7C \<and> buf ! 78 = 0x7C \<and> buf ! 79 = NEWLINE \<and> buf ! 80 = 0"

lemma init_walled: "length buf = 81 \<Longrightarrow> walled (pingpong_init buf)"
  by (simp add: walled_def pingpong_init_def blank_nth)

lemma frame_nth:
  assumes "j < 76" "k < 80"
  shows "frame c j ! k = (if k = 1 \<or> k = 78 then 0x7C else if k = 79 then NEWLINE else if k = j + 2 then c else 0x20)"
proof -
  let ?a = "[0x20, 0x7C] @ replicate j 0x20 :: u8 list" and ?b = "replicate (75 - j) 0x20 @ [0x7C, NEWLINE] :: u8 list"
  have nth: "(xs @ c # ys) ! k = (if k < length xs then xs ! k else if k = length xs then c else ys ! (k - (length xs + 1)))" for xs ys
    by (auto simp: nth_append nth_Cons')
  have "frame c j = ?a @ c # ?b" "length ?a = j + 2" by (simp_all add: frame_def)
  moreover have "?a ! k = (if k = 1 then 0x7C else 0x20)" if "k < j + 2"
    using that by (cases k; cases "k - 1") auto
  moreover have "?b ! (k - (j + 2 + 1)) = (if k = 78 then 0x7C else if k = 79 then NEWLINE else 0x20)" if "j + 2 < k"
  proof -
    consider "k < 78" | "k = 78" | "k = 79" using assms(2) by linarith
    then show ?thesis using that assms(1) by cases (auto simp: nth_append nth_Cons')
  qed
  ultimately show ?thesis using assms(1) by (simp only: nth) auto
qed

lemma drawn_frame:
  assumes "walled buf" "2 \<le> j" "j < 78"
  shows "walled ((blank [2..<78] buf)[j := c])" "(blank [2..<78] buf)[j := c] = frame c (j - 2) @ [0]"
proof -
  let ?b = "blank [2..<78] buf"
  have w: "length buf = 81" "buf ! 0 = 0x20" "buf ! 1 = 0x7C" "buf ! 78 = 0x7C" "buf ! 79 = NEWLINE" "buf ! 80 = 0" using assms(1) by (simp_all add: walled_def)
  have l: "length ?b = 81" using w(1) by (simp add: blank_nth(2) del: upt_rec_numeral)
  have b: "?b ! k = (if 2 \<le> k \<and> k < 78 then 0x20 else buf ! k)" for k
    using w(1) by (simp add: blank_nth(1) del: upt_rec_numeral)
  have n: "?b[j := c] ! k = (if k = j then c else ?b ! k)" for k using l assms(3) by (simp add: nth_list_update)
  show "walled (?b[j := c])" unfolding walled_def n using l b w assms(2,3) by (simp del: upt_rec_numeral)
  show "?b[j := c] = frame c (j - 2) @ [0]"
  proof (rule nth_equalityI)
    have f: "length (frame c (j - 2)) = 80" using assms by (simp add: frame_def)
    then show "length (?b[j := c]) = length (frame c (j - 2) @ [0])" using l by simp
    fix k assume "k < length (?b[j := c])"
    then have "k < 81" using l by simp
    then consider "k = 0" | "k = 1" | "2 \<le> k" "k < 78" | "k = 78" | "k = 79" | "k = 80" by linarith
    then have "?b[j := c] ! k = (if k < 80 then frame c (j - 2) ! k else 0)"
      unfolding n b by cases (use assms(2,3) w in \<open>auto simp: frame_nth\<close>)
    then show "?b[j := c] ! k = (frame c (j - 2) @ [0]) ! k" using \<open>k < 81\<close> f by (simp add: nth_append)
  qed
qed

lemma letter_number: "unat (letter k) = 0x41 + k mod 26"
proof -
  have "unat (of_nat n :: u8) = n" if "n < 256" for n using that by (simp add: unat_of_nat)
  moreover have "k mod 26 < 26" by simp
  then have "0x41 + k mod 26 < 256" by linarith
  ultimately show ?thesis unfolding letter_def by blast
qed

lemma letter_positive: "0 < letter k"
  by (simp add: word_less_nat_alt letter_number)

lemma next_letter: "pingpong_next (letter k) = letter (k + 1)"
proof -
  have "letter k = 0x5A \<longleftrightarrow> k mod 26 = 25" using letter_number [of k] by (auto simp: word_unat_eq_iff)
  then show ?thesis by (auto simp: pingpong_next_def letter_def mod_Suc)
qed

lemma distances: "map (\<lambda>j. j - 2) [2..<78] = [0..<76 :: nat]"
proof -
  have "[2..<78] = map (\<lambda>j. j + 2) [0..<76 :: nat]" using map_add_upt [of 2 76] by (simp del: upt_rec_numeral)
  then show ?thesis by (simp del: upt_rec_numeral add: comp_def)
qed

section \<open>What is seen at the clock\<close>

text \<open>The system calls with a record of the clock: every read of an open clock notes what can be observed at the moment of the call, so
  that the record tells how often and when a program waits. No program can see the record.\<close>

definition logged :: "(u32 \<Rightarrow> 's \<Rightarrow> bool) \<Rightarrow> ('s \<Rightarrow> 'l) \<Rightarrow> 's os \<Rightarrow> ('s \<times> 'l list) os" where
  "logged clk obs os = \<lparr>
     sys_read = \<lambda>fd b n (s, l). map_option (\<lambda>(r, b, s'). (r, b, s', if clk fd s then l @ [obs s] else l)) (sys_read os fd b n s),
     sys_write = \<lambda>fd b n (s, l). map_option (\<lambda>(r, s). (r, s, l)) (sys_write os fd b n s),
     sys_open = \<lambda>b (s, l). map_option (\<lambda>(r, s). (r, s, l)) (sys_open os b s),
     sys_getargs = \<lambda>b n (s, l). map_option (\<lambda>(r, b, s). (r, b, s, l)) (sys_getargs os b n s),
     sys_close = \<lambda>fd (s, l). map_option (\<lambda>(r, s). (r, s, l)) (sys_close os fd s),
     sys_execute = \<lambda>b (s, l). map_option (\<lambda>(r, s). (r, s, l)) (sys_execute os b s),
     sys_vidmap = \<lambda>a (s, l). map_option (\<lambda>(r, s). (r, s, l)) (sys_vidmap os a s),
     sys_number = \<lambda>n (s, l). map_option (\<lambda>(r, s). (r, s, l)) (sys_number os n s)\<rparr>"

lemma logged_calls [simp]:
  "sys_read (logged clk obs os) fd b n (s, l) = map_option (\<lambda>(r, b, s'). (r, b, s', if clk fd s then l @ [obs s] else l)) (sys_read os fd b n s)"
  "sys_write (logged clk obs os) fd b n (s, l) = map_option (\<lambda>(r, s). (r, s, l)) (sys_write os fd b n s)"
  "sys_open (logged clk obs os) b (s, l) = map_option (\<lambda>(r, s). (r, s, l)) (sys_open os b s)"
  "sys_close (logged clk obs os) fd (s, l) = map_option (\<lambda>(r, s). (r, s, l)) (sys_close os fd s)"
  "sys_vidmap (logged clk obs os) a (s, l) = map_option (\<lambda>(r, s). (r, s, l)) (sys_vidmap os a s)"
  by (simp_all add: logged_def)

text \<open>The screens after each of several texts, one after the other.\<close>

primrec shown_after :: "u8 list list \<Rightarrow> tty \<Rightarrow> tty list" where
  "shown_after [] y = []"
| "shown_after (x # xs) y = tty_write x y # shown_after xs (tty_write x y)"

lemma shown_after_append: "shown_after (xs @ zs) y = shown_after xs y @ shown_after zs (tty_write (concat xs) y)"
  by (induction xs arbitrary: y) (simp_all add: tty_write_def)

section \<open>The run of the program\<close>

text \<open>What the program relies on: a clock that takes a rate of 32 and whose reads return, with the screens seen at these reads.\<close>

locale clock_user = screen_writer +
  fixes clk :: "u32 \<Rightarrow> 'a \<Rightarrow> bool" and seen :: "'a \<Rightarrow> tty list"
  assumes write_clk: "inv s \<Longrightarrow> n \<le> length b \<Longrightarrow> length b \<le> 2048 \<Longrightarrow> sys_write os 1 b (of_nat n) s = Some (r, s') \<Longrightarrow>
      clk fd s' = clk fd s \<and> seen s' = seen s"
    and rate_law: "inv s \<Longrightarrow> clk fd s \<Longrightarrow>
      \<exists>r s'. sys_write os fd [32, 0, 0, 0] 4 s = Some (r, s') \<and> inv s' \<and> out s' = out s \<and> clk fd s' \<and> seen s' = seen s"
    and tick_law: "inv s \<Longrightarrow> clk fd s \<Longrightarrow> length g = 4 \<Longrightarrow>
      \<exists>r g' s'. sys_read os fd g 4 s = Some (r, g', s') \<and> length g' = 4 \<and> inv s' \<and> out s' = out s \<and> clk fd s' \<and> seen s' = seen s @ [out s]"
begin

lemma frame_shown:
  assumes "inv s" "clk fd s" "walled buf" "length g = 4" "2 \<le> j" "j < 78" "0 < c"
  shows "\<exists>buf' g' s'. pingpong_frame os fd c j (buf, g, s) = Some (buf', g', s') \<and> inv s' \<and> clk fd s' \<and> walled buf' \<and> length g' = 4 \<and>
    out s' = tty_write (frame c (j - 2)) (out s) \<and> seen s' = seen s @ [tty_write (frame c (j - 2)) (out s)]"
proof -
  let ?b = "(blank [2..<78] buf)[j := c]"
  note d = drawn_frame [OF assms(3,5,6), of c]
  have z: "0 \<notin> set (frame c (j - 2))" using assms(7) by (auto simp: frame_def)
  have h: "holds_string (list_view ?b) (frame c (j - 2))" unfolding d(2) by (intro holds_string_list) (use z in simp_all)
  have l: "length ?b = 81" using d(1) by (simp add: walled_def)
  obtain t where t: "ece391_fdputs os 1 ?b s = Some t" "inv t" "out t = tty_write (frame c (j - 2)) (out s)"
    using fdputs_prints [OF assms(1) h] l by auto
  then obtain r where "sys_write os 1 ?b (of_nat (length (frame c (j - 2)))) s = Some (r, t)"
    using strlen_string [OF h] by (auto simp: ece391_fdputs_def ece391_strlen_eq split: bind_splits)
  moreover have "length (frame c (j - 2)) \<le> length ?b" unfolding d(2) by simp
  moreover have "length ?b \<le> 2048" unfolding l by simp
  ultimately have "clk fd t" "seen t = seen s" using write_clk [OF assms(1)] assms(2) by blast+
  from tick_law [OF t(2) this(1) assms(4)] this(2) t d(1) show ?thesis by (auto simp: pingpong_frame_def Let_def)
qed

lemma pass_shown:
  assumes "inv s" "clk fd s" "walled buf" "length g = 4" "\<forall>j\<in>set js. 2 \<le> j \<and> j < 78" "0 < c"
  defines "frs \<equiv> map (\<lambda>j. frame c (j - 2)) js"
  shows "\<exists>buf' g' s'. pingpong_pass os fd c js (buf, g, s) = Some (buf', g', s') \<and> inv s' \<and> clk fd s' \<and> walled buf' \<and> length g' = 4 \<and>
    out s' = tty_write (concat frs) (out s) \<and> seen s' = seen s @ shown_after frs (out s)"
  using assms(1-5) unfolding frs_def
proof (induction js arbitrary: s buf g)
  case (Cons j js)
  obtain b' g' t where t: "pingpong_frame os fd c j (buf, g, s) = Some (b', g', t)" "inv t" "clk fd t" "walled b'" "length g' = 4"
      "out t = tty_write (frame c (j - 2)) (out s)" "seen t = seen s @ [tty_write (frame c (j - 2)) (out s)]"
    using frame_shown [OF Cons.prems(1-4), of j c] Cons.prems(5) assms(6) by auto
  from Cons.IH [OF t(2-5)] Cons.prems(5) t show ?case by (fastforce simp: tty_write_def)
qed (simp add: tty_write_def)

lemma rounds_shown:
  assumes "inv s" "clk fd s" "walled buf" "length g = 4"
  defines "frs \<equiv> \<lambda>k n. concat (map (\<lambda>i. bounce (letter i)) [k..<k + n])"
  shows "\<exists>buf' g' s'. pingpong_rounds os fd n (letter k) (buf, g, s) = Some (buf', g', s') \<and> inv s' \<and>
    out s' = tty_write (concat (frs k n)) (out s) \<and> seen s' = seen s @ shown_after (frs k n) (out s)"
  using assms(1-4)
proof (induction n arbitrary: k s buf g)
  case (Suc n)
  have c: "0 < letter k" by (rule letter_positive)
  have r: "\<forall>j\<in>set [2..<78]. 2 \<le> j \<and> j < 78" "\<forall>j\<in>set (rev [2..<78]). 2 \<le> j \<and> j < 78" by (simp_all del: upt_rec_numeral)
  let ?f = "map (\<lambda>j. frame (letter k) (j - 2))"
  obtain b1 g1 t where t: "pingpong_pass os fd (letter k) [2..<78] (buf, g, s) = Some (b1, g1, t)" "inv t" "clk fd t" "walled b1" "length g1 = 4"
      "out t = tty_write (concat (?f [2..<78])) (out s)" "seen t = seen s @ shown_after (?f [2..<78]) (out s)"
    using pass_shown [OF Suc.prems r(1) c] by blast
  obtain b2 g2 u where u: "pingpong_pass os fd (letter k) (rev [2..<78]) (b1, g1, t) = Some (b2, g2, u)" "inv u" "clk fd u" "walled b2" "length g2 = 4"
      "out u = tty_write (concat (?f (rev [2..<78]))) (out t)" "seen u = seen t @ shown_after (?f (rev [2..<78])) (out t)"
    using pass_shown [OF t(2-5) r(2) c] by blast
  have b: "bounce (letter k) = ?f [2..<78] @ ?f (rev [2..<78])" unfolding bounce_def distances [symmetric] by (simp add: rev_map comp_def del: upt_rec_numeral)
  have "out u = tty_write (concat (bounce (letter k))) (out s)" "seen u = seen s @ shown_after (bounce (letter k)) (out s)"
    using t(6,7) u(6,7) unfolding b by (simp_all add: tty_write_def shown_after_append del: upt_rec_numeral)
  moreover obtain b3 g3 v where "pingpong_rounds os fd n (letter (k + 1)) (b2, g2, u) = Some (b3, g3, v)" "inv v"
      "out v = tty_write (concat (frs (k + 1) n)) (out u)" "seen v = seen u @ shown_after (frs (k + 1) n) (out u)"
    using Suc.IH [OF u(2-5)] by blast
  moreover have "[k..<k + Suc n] = k # [k + 1..<k + 1 + n]" by (simp add: upt_conv_Cons)
  then have "frs k (Suc n) = bounce (letter k) @ frs (k + 1) n" unfolding frs_def by (simp only: list.map concat.simps)
  ultimately show ?case using t(1) u(1) by (simp add: next_letter tty_write_def shown_after_append del: upt_rec_numeral)
qed (simp add: tty_write_def frs_def)

end

section \<open>The clock of the kernel\<close>

definition clock_open :: "u32 \<Rightarrow> 'a kernel_scheme \<Rightarrow> bool" where
  "clock_open fd s \<longleftrightarrow> (\<exists>p. curr_pcb s = Some p \<and> unat fd < 8 \<and> fop (file_array p ! unat fd) = Some Rtc_ops)"

text \<open>The interrupts during a call: some of the timer and then one of the clock.\<close>

definition ticks :: "nat \<Rightarrow> ('a kernel_scheme \<Rightarrow> 'a kernel_scheme) list" where
  "ticks n = replicate n idt_pit_irq_handler @ [hw_update idt_rtc_irq_handler]"

lemma hw_frame: "keeps s (t\<lparr>hw := h\<rparr>) = keeps s t" "tty (t\<lparr>hw := h\<rparr>) = tty t" "curr_pcb (t\<lparr>hw := h\<rparr>) = curr_pcb t"
  by (simp_all add: keeps_def input_frame_def con_inv_def tty_def position_def curr_pcb_def)

lemma clock_node:
  assumes "files_ok p" "unat fd < 8" "fop (file_array p ! unat fd) = Some Rtc_ops"
  shows "open_node fd p = Some (file_array p ! unat fd)"
proof -
  have "node_ok (unat fd) (file_array p ! unat fd)" using assms(1,2) by (simp add: files_ok_def)
  moreover have s: "sint fd = int (unat fd)" using fd_sint [OF assms(2)] by simp
  have "\<not> sint fd < 0" "\<not> sint fd > 7" unfolding s using assms(2) by linarith+
  ultimately show ?thesis using assms(3) by (auto simp: open_node_def Let_def node_ok_def)
qed

lemma area_vload:
  assumes "program_ready area pa s" "length b \<le> 2048" "i < length b"
  shows "vload (area_state pa b s) (area + of_nat i) = Some (b ! i)"
proof -
  have "unat (of_nat i :: u32) = i" using assms(2,3) by (intro unat_offset) simp
  then show ?thesis using assms by (simp add: vload_def maps_range_def write_bytes_apply program_ready_def)
qed

lemma kernel_tick:
  fixes s :: "'a kernel_scheme"
  assumes r: "program_ready area pa s" and c: "clock_open fd s" and g: "length g = 4"
  shows "\<exists>s'. sys_read (kernel_os (ticks n) area) fd g 4 s = Some (0, g, s') \<and> program_ready area pa s' \<and> keeps s s' \<and> tty s' = tty s \<and>
    curr_pcb s' = curr_pcb s"
proof -
  obtain p where p: "curr_pcb s = Some p" "unat fd < 8" "fop (file_array p ! unat fd) = Some Rtc_ops" using c by (auto simp: clock_open_def)
  have fp: "files_ok p" using r p(1) by (auto simp: program_ready_def)
  have g': "length g \<le> 2048" using g by simp
  let ?t = "s\<lparr>ram := write_bytes (ram s) pa g\<rparr>"
  have "curr_pcb ?t = Some p" using p(1) by simp
  from clock_read_run [OF this clock_node [OF fp p(2,3)] p(3), of n 0 0 area 4 "[]"] obtain h where
    h: "syscall (ticks n) 0 0 3 fd area 4 ?t = Some (Return 0, ?t\<lparr>hw := h\<rparr>)" unfolding ticks_def by blast
  let ?v = "?t\<lparr>hw := h\<rparr>"
  have "kernel_call (ticks n) area 3 fd area 4 g s = Some (0, bytes_at (ram ?v) pa (length g), ?v)"
    by (rule kernel_call_returns [OF r g' h]) simp
  then have "sys_read (kernel_os (ticks n) area) fd g 4 s = Some (0, g, ?v)"
    using bytes_at_write [OF order_refl g'] by (simp add: kernel_os_def)
  moreover have k: "keeps s ?v" "tty ?v = tty s"
    using area_keeps [OF r g'] by (simp_all add: area_state_def hw_frame)
  moreover have "curr_pcb ?v = curr_pcb s" unfolding hw_frame by simp
  moreover from this have "program_ready area pa ?v" using keeps_ready [OF r k(1) _ fp] p(1) by simp
  ultimately show ?thesis by blast
qed

lemma kernel_rate:
  fixes s :: "'a kernel_scheme"
  assumes r: "program_ready area pa s" and c: "clock_open fd s"
  shows "\<exists>s'. sys_write (kernel_os hs area) fd [32, 0, 0, 0] 4 s = Some (4, s') \<and> program_ready area pa s' \<and> keeps s s' \<and> tty s' = tty s \<and>
    curr_pcb s' = curr_pcb s"
proof -
  obtain p where p: "curr_pcb s = Some p" "unat fd < 8" "fop (file_array p ! unat fd) = Some Rtc_ops" using c by (auto simp: clock_open_def)
  have fp: "files_ok p" using r p(1) by (auto simp: program_ready_def)
  let ?b = "[32, 0, 0, 0] :: u8 list"
  have b: "length ?b \<le> 2048" by simp
  let ?t = "area_state pa ?b s"
  have a: "area \<noteq> 0" "maps_range (mmu s) area pa 2048" using r by (simp_all add: program_ready_def)
  have v: "vload ?t (area + of_nat i) = Some (?b ! i)" if "i < 4" for i by (rule area_vload [OF r b]) (use that in simp)
  have m: "vmem ?t area = 32" "vmem ?t (area + 1) = 0" "vmem ?t (area + 2) = 0" "vmem ?t (area + 3) = 0"
    using v [of 0] v [of 1] v [of 2] v [of 3] by (simp_all add: vmem_def)
  have "read32 (vmem ?t) area = 2 ^ 5" unfolding read32_def m by simp
  then have "\<exists>k. 1 \<le> k \<and> k \<le> (10 :: nat) \<and> read32 (vmem ?t) area = 2 ^ k" by (intro exI [of _ 5]) simp
  with rtc_write_programs_rate [OF a(1), of "vmem ?t" "hw ?t"] obtain h where
    h: "rtc_write (vmem ?t) area (hw ?t) = Some (4, h)" by (auto split: if_splits)
  have "\<forall>i\<in>set [0..<4]. vload ?t (area + of_nat i) \<noteq> None" using v by (auto simp del: upt_rec_numeral)
  then have "rtc_write_call area ?t = Some (4, ?t\<lparr>hw := h\<rparr>)" using h unfolding rtc_write_call_def by (simp del: upt_rec_numeral)
  then have w: "write_call fd area 4 ?t = Some (4, ?t\<lparr>hw := h\<rparr>)" using p(1,3) clock_node [OF fp p(2,3)] by (simp add: write_call_def)
  let ?u = "resumed (?t\<lparr>hw := h\<rparr>)"
  have "sys_write (kernel_os hs area) fd ?b 4 s = Some (4, ?u)" by (rule array_calls(2) [OF r b _ w]) simp
  moreover have k: "keeps s ?u" "tty ?u = tty s" using area_keeps [OF r b] by (simp_all add: hw_frame)
  moreover have "curr_pcb ?u = curr_pcb s" by (simp add: hw_frame)
  moreover from this have "program_ready area pa ?u" using keeps_ready [OF r k(1) _ fp] p(1) by simp
  ultimately show ?thesis by blast
qed

text \<open>The system calls of the kernel with the screens at the reads of the clock.\<close>

definition clocked_os :: "nat \<Rightarrow> u32 \<Rightarrow> ('a kernel_scheme \<times> tty list) os" where
  "clocked_os n area = logged clock_open tty (kernel_os (ticks n) area)"

interpretation kernel_clock: clock_user "clocked_os n area" "\<lambda>w. program_ready area pa (fst w)" "\<lambda>w. tty (fst w)" "\<lambda>fd w. clock_open fd (fst w)" snd
proof (rule clock_user.intro, unfold_locales)
  fix w :: "'a kernel_scheme \<times> tty list" and k and b :: "u8 list"
  assume "program_ready area pa (fst w)" "k \<le> length b" "length b \<le> 2048"
  from kernel_write [OF this, of "ticks n"] show "\<exists>w'. sys_write (clocked_os n area) 1 b (of_nat k) w = Some (of_nat k + 1, w') \<and>
      program_ready area pa (fst w') \<and> tty (fst w') = tty_write (take k b) (tty (fst w))" by (cases w) (auto simp: clocked_os_def)
next
  fix w w' :: "'a kernel_scheme \<times> tty list" and k r fd and b :: "u8 list"
  assume a: "program_ready area pa (fst w)" "k \<le> length b" "length b \<le> 2048" "sys_write (clocked_os n area) 1 b (of_nat k) w = Some (r, w')"
  then have "curr_pcb (fst w') = curr_pcb (fst w) \<and> snd w' = snd w" using kernel_write [OF a(1-3), of "ticks n"] by (cases w) (auto simp: clocked_os_def)
  then show "clock_open fd (fst w') = clock_open fd (fst w) \<and> snd w' = snd w" by (simp add: clock_open_def)
next
  fix w :: "'a kernel_scheme \<times> tty list" and fd
  assume a: "program_ready area pa (fst w)" "clock_open fd (fst w)"
  from kernel_rate [OF this, of "ticks n"] obtain t where
    "sys_write (kernel_os (ticks n) area) fd [32, 0, 0, 0] 4 (fst w) = Some (4, t)" "program_ready area pa t" "tty t = tty (fst w)" "curr_pcb t = curr_pcb (fst w)"
    by blast
  then show "\<exists>r w'. sys_write (clocked_os n area) fd [32, 0, 0, 0] 4 w = Some (r, w') \<and> program_ready area pa (fst w') \<and> tty (fst w') = tty (fst w) \<and>
      clock_open fd (fst w') \<and> snd w' = snd w" using a(2) by (cases w) (auto simp: clocked_os_def clock_open_def)
next
  fix w :: "'a kernel_scheme \<times> tty list" and fd and g :: "u8 list"
  assume a: "program_ready area pa (fst w)" "clock_open fd (fst w)" "length g = 4"
  from kernel_tick [OF this, of n] obtain t where
    "sys_read (kernel_os (ticks n) area) fd g 4 (fst w) = Some (0, g, t)" "program_ready area pa t" "tty t = tty (fst w)" "curr_pcb t = curr_pcb (fst w)" by blast
  then show "\<exists>r g' w'. sys_read (clocked_os n area) fd g 4 w = Some (r, g', w') \<and> length g' = 4 \<and> program_ready area pa (fst w') \<and>
      tty (fst w') = tty (fst w) \<and> clock_open fd (fst w') \<and> snd w' = snd w @ [tty (fst w)]"
    using a(2,3) by (cases w) (auto simp: clocked_os_def clock_open_def)
qed

section \<open>pingpong on this kernel\<close>

lemma rtc_name:
  "holds_string (list_view (c_string ''rtc'')) (text_of ''rtc'')" "length (c_string ''rtc'') \<le> 2048" "length (text_of ''rtc'') < 32"
  "take 5 (text_of ''rtc'') \<noteq> text_of ''stdin''" "take 6 (text_of ''rtc'') \<noteq> text_of ''stdout''"
  by (rule literal_string) (simp_all add: c_string_def text_of_def)

lemma clock_opened:
  fixes s :: "'a kernel_scheme"
  assumes r: "program_ready area pa s" "curr_pcb s = Some p"
    and d: "lookup_name (ram s) (fs s) (text_of ''rtc'') = Some i" "read32 (ram s) (dentry_addr (fs s) i + 32) = 0" "free_fd (file_array p) = Some fd"
  shows "\<exists>s'. sys_open (kernel_os hs area) (c_string ''rtc'') s = Some (of_nat fd, s') \<and> program_ready area pa s' \<and> tty s' = tty s \<and> keeps s s' \<and>
    clock_open (of_nat fd) s'"
proof -
  have o: "open_choice (read32 (ram s) (dentry_addr (fs s) i + 32)) p = Some (fd, Rtc_ops)" using d(2,3) by (simp add: open_choice_spec)
  obtain t q where t: "sys_open (kernel_os hs area) (c_string ''rtc'') s = Some (of_nat fd, t)" "program_ready area pa t" "tty t = tty s" "keeps s t"
      "curr_pcb t = Some q" "opened_as fd Rtc_ops (text_of ''rtc'') p q"
    using kernel_open [OF r rtc_name(2,1,3-5), of hs] o d(1) by auto
  have fd: "fd < 8" "unat (of_nat fd :: u32) = fd" using open_choice_range [OF o] fd_sint by auto
  have "files_ok p" using r by (auto simp: program_ready_def)
  then have "length (file_array p) = 8" by (simp add: files_ok_def pcb_shape_def)
  then have "fop (file_array q ! fd) = Some Rtc_ops" using t(6) fd(1) by (simp add: opened_as_def opened_node_def)
  then have "clock_open (of_nat fd) t" using t(5) fd by (simp add: clock_open_def)
  then show ?thesis using t(1-4) by blast
qed

text \<open>C12: The program \<open>pingpong\<close> on this kernel: whatever number of rounds it makes, no call fails and it is still running, and exactly the
  frames of these rounds have been shown, one line for each place of the character on its way from the left wall to the right one
  and back, with the letters from A to Z over and over. After every frame it waits for the clock exactly once: the screens at its reads of the clock are,
  in order, the screens after each single frame, so that no frame is skipped and no two are shown between two waits. Any number of
  timer interrupts may arrive during a wait before the clock does. It holds wherever the file \<open>rtc\<close> can be opened.\<close>

theorem pingpong_bounces:
  fixes s :: "'a kernel_scheme"
  assumes r: "program_ready area pa s" "curr_pcb s = Some p" "length buf = 81" "length garbage = 4"
    and d: "lookup_name (ram s) (fs s) (text_of ''rtc'') = Some i" "read32 (ram s) (dentry_addr (fs s) i + 32) = 0" "free_fd (file_array p) = Some fd"
  shows "\<exists>s' screens. pingpong (clocked_os k area) n buf garbage (s, []) = Some (s', screens) \<and> program_ready area pa s' \<and>
    tty s' = tty_write (concat (frames n)) (tty s) \<and> screens = shown_after (frames n) (tty s)"
proof -
  let ?os = "clocked_os k area :: ('a kernel_scheme \<times> tty list) os"
  obtain t where t: "sys_open (kernel_os (ticks k) area) (c_string ''rtc'') s = Some (of_nat fd, t)" "program_ready area pa t" "tty t = tty s" "clock_open (of_nat fd) t"
    using clock_opened [OF r(1,2) d] by blast
  have o: "sys_open ?os (c_string ''rtc'') (s, []) = Some (of_nat fd, t, [])" using t(1) by (simp add: clocked_os_def)
  from kernel_clock.rate_law [of area pa "(t, [])" "of_nat fd" k] t(2,4) obtain x u where
    u: "sys_write ?os (of_nat fd) [32, 0, 0, 0] 4 (t, []) = Some (x, u, [])" "program_ready area pa u" "tty u = tty t" "clock_open (of_nat fd) u" by auto
  have a: "(0x41 :: u8) = letter 0" by (simp add: letter_def)
  from kernel_clock.rounds_shown [of area pa "(u, [])" "of_nat fd" "pingpong_init buf" garbage k n 0] init_walled [OF r(3)] r(4) u(2,4) obtain b g v l where
    "pingpong_rounds ?os (of_nat fd) n (letter 0) (pingpong_init buf, garbage, u, []) = Some (b, g, v, l)" "program_ready area pa v"
    "tty v = tty_write (concat (frames n)) (tty u)" "l = shown_after (frames n) (tty u)" by (auto simp: frames_def)
  then show ?thesis using t(3) o u(1,3) unfolding pingpong_def a by auto
qed

definition demo_clock_ram :: memory where
  "demo_clock_ram = demo_dir_ram(0x1080 := 0x72, 0x1081 := 0x74, 0x1082 := 0x63, 0x10A0 := 0)"

definition demo_pingpong :: kernel where
  "demo_pingpong = demo_cat\<lparr>ram := demo_clock_ram\<rparr>"

lemma demo_clock_small: "small_image demo_clock_ram" "read32 demo_clock_ram (dentry_addr demo_files 1 + 32) = 0"
  "lookup_name demo_clock_ram demo_files (text_of ''rtc'') = Some 1"
proof -
  show "read32 demo_clock_ram (dentry_addr demo_files 1 + 32) = 0" by code_simp
  have "num_inodes demo_clock_ram demo_files = 1" "num_data_blocks demo_clock_ram demo_files = 1" by code_simp+
  moreover have "dir_ok demo_clock_ram demo_files"
    by (rule demo_terminated; auto simp: demo_clock_ram_def demo_dir_ram_def demo_ram_def split: if_splits)
  ultimately show "small_image demo_clock_ram" by (simp add: small_image_def)
  have "disk_name demo_clock_ram demo_files 0 = text_of ''.''" "disk_name demo_clock_ram demo_files 1 = text_of ''rtc''" by code_simp+
  moreover have "[0..<63] = 0 # 1 # [2..<63]" by (simp add: upt_conv_Cons)
  ultimately show "lookup_name demo_clock_ram demo_files (text_of ''rtc'') = Some 1"
    by (simp add: lookup_name_def name_matches_def text_of_def)
qed

theorem pingpong_bounces_witness:
  "\<exists>s' screens. pingpong (clocked_os 3 0x08048200) 2 (replicate 81 0) (replicate 4 0) (demo_pingpong, []) = Some (s', screens) \<and>
    tty s' = tty_write (concat (bounce 0x41 @ bounce 0x42)) (tty demo_pingpong) \<and> screens = shown_after (bounce 0x41 @ bounce 0x42) (tty demo_pingpong)"
proof -
  let ?p = "demo_pcb\<lparr>arg_buffer := 0x61 # 0 # replicate 98 0\<rparr>"
  have ok: "files_ok ?p" using demo_pcb_ok(1) by (simp add: files_ok_def pcb_shape_def open_fds_def)
  have f: "ram demo_pingpong = demo_clock_ram" "fs demo_pingpong = demo_files" "mmu demo_pingpong = mmu demo_shell" "con_inv demo_pingpong"
      "curr_pcb demo_pingpong = Some ?p"
    using demo_cat_fields by (simp_all add: demo_pingpong_def con_inv_def)
  have "free_fd (file_array demo_pcb) = Some 3" using demo_choice by (auto simp: open_choice_spec bind_eq_Some_conv)
  then have fd: "free_fd (file_array ?p) = Some 3" by simp
  have "letter 0 = 0x41" "letter 1 = 0x42" "[0..<2] = [0, 1 :: nat]" by (simp_all add: letter_def upt_rec)
  then have fr: "frames 2 = bounce 0x41 @ bounce 0x42" by (simp add: frames_def)
  show ?thesis
    using pingpong_bounces [OF demo_ready [OF _ f(2-5) ok] f(5) _ _ _ _ fd, of "replicate 81 0" "replicate 4 0" 1 3 2] demo_clock_small
    by (auto simp: f(1,2) fr)
qed

end
