(* ===== verification/User_Grep.thy ===== *)
theory User_Grep
  imports User_Refusals "HOL-Library.Sublist"
begin

text \<open>
  The program \<open>grep\<close> (\<open>ece391grep.c\<close>), which searches the files of the directory for lines that contain a text, and the search of one
  file against a specification on the lines of the file.
\<close>

section \<open>ece391grep.c\<close>

function line_end_of :: "u8 list \<Rightarrow> nat \<Rightarrow> nat \<Rightarrow> nat option" where
  "line_end_of data lst e =
     (if e < lst then Option.bind (list_view data e) (\<lambda>c. if c \<noteq> NEWLINE then line_end_of data lst (e + 1) else Some e) else Some e)"
  by pat_completeness auto
termination
  by (relation "measure (\<lambda>(data, lst, e). lst - e)") auto

declare line_end_of.simps [simp del]

text \<open>\<open>ece391_strcpy\<close> to the start of the array it copies from.\<close>

partial_function (option) strcpy_down :: "u8 list \<Rightarrow> nat \<Rightarrow> nat \<Rightarrow> u8 list option" where
  "strcpy_down data from i = do {
     c \<leftarrow> list_view data (from + i);
     data \<leftarrow> store data i c;
     if 0 \<noteq> c then strcpy_down data from (i + 1) else Some data
   }"

text \<open>The characters of the text are signed where they are compared with the bytes of the file.\<close>

definition grep_match :: "u8 list \<Rightarrow> u32 \<Rightarrow> u8 list \<Rightarrow> nat \<Rightarrow> bool option" where
  "grep_match pat s_len data check = do {
     p \<leftarrow> list_view pat 0;
     c \<leftarrow> list_view data check;
     if sint p = uint c then map_option (\<lambda>r. r = 0) (ece391_strncmp (\<lambda>i. list_view data (check + i)) (list_view pat) s_len) else Some False
   }"

function grep_search :: "'s os \<Rightarrow> u8 list \<Rightarrow> u32 \<Rightarrow> u8 list \<Rightarrow> u8 list \<Rightarrow> nat \<Rightarrow> nat \<Rightarrow> nat \<Rightarrow> 's \<Rightarrow> 's option" where
  "grep_search os pat s_len fname data line_start line_end check s =
     (if check < line_end then do {
        m \<leftarrow> grep_match pat s_len data check;
        if m then do {
          s \<leftarrow> ece391_fdputs os 1 fname s;
          s \<leftarrow> ece391_fdputs os 1 (c_string '':'') s;
          s \<leftarrow> ece391_fdputs os 1 (drop line_start data) s;
          ece391_fdputs os 1 (c_string ''\<newline>'') s
        }
        else grep_search os pat s_len fname data line_start line_end (check + 1) s
      }
      else Some s)"
  by pat_completeness auto
termination
  by (relation "measure (\<lambda>(os, pat, s_len, fname, data, line_start, line_end, check, s). line_end - check)") auto

declare grep_search.simps [simp del]

partial_function (option) grep_lines ::
    "'s os \<Rightarrow> u8 list \<Rightarrow> u32 \<Rightarrow> u8 list \<Rightarrow> u32 \<Rightarrow> nat \<Rightarrow> nat \<Rightarrow> u8 list \<Rightarrow> 's \<Rightarrow> (u8 list \<times> nat \<times> 's) option" where
  "grep_lines os pat s_len fname cnt lst line_start data s = do {
     line_end \<leftarrow> line_end_of data lst line_start;
     c \<leftarrow> list_view data line_end;
     data \<leftarrow> store data line_end 0;
     if c \<noteq> NEWLINE \<and> cnt \<noteq> 0 \<and> line_start \<noteq> 0 then do {
       data \<leftarrow> strcpy_down data line_start 0;
       Some (data, lst - line_start, s)
     }
     else do {
       s \<leftarrow> grep_search os pat s_len fname data line_start line_end line_start s;
       if line_end + 1 \<ge> lst then Some (data, 0, s)
       else grep_lines os pat s_len fname cnt lst (line_end + 1) data s
     }
   }"

partial_function (option) grep_loop :: "'s os \<Rightarrow> u32 \<Rightarrow> u8 list \<Rightarrow> u32 \<Rightarrow> u8 list \<Rightarrow> u8 list \<Rightarrow> nat \<Rightarrow> 's \<Rightarrow> (u32 \<times> 's) option" where
  "grep_loop os fd pat s_len fname data lst s = do {
     (cnt, tail, s) \<leftarrow> sys_read os fd (drop lst data) (of_nat (1024 - lst)) s;
     if cnt = ERR then map_option (Pair ERR) (ece391_fdputs os 1 (c_string ''file read failed\<newline>'') s)
     else do {
       (data, lst, s) \<leftarrow> grep_lines os pat s_len fname cnt (lst + unat cnt) 0 (take lst data @ tail) s;
       if cnt = 0 then do {
         (r, s) \<leftarrow> sys_close os fd s;
         if r = ERR then map_option (Pair ERR) (ece391_fdputs os 1 (c_string ''file close failed\<newline>'') s) else Some (0, s)
       }
       else grep_loop os fd pat s_len fname data lst s
     }
   }"

definition do_one_file :: "'s os \<Rightarrow> u8 list \<Rightarrow> u8 list \<Rightarrow> u8 list \<Rightarrow> 's \<Rightarrow> (u32 \<times> 's) option" where
  "do_one_file os pat fname data s = do {
     s_len \<leftarrow> ece391_strlen (list_view pat);
     (fd, s) \<leftarrow> sys_open os fname s;
     if fd = ERR then map_option (Pair ERR) (ece391_fdputs os 1 (c_string ''file open failed\<newline>'') s)
     else grep_loop os fd pat (of_nat s_len) fname data 0 s
   }"

text \<open>What the array of \<open>do_one_file\<close> holds when it is entered is a parameter.\<close>

partial_function (option) grep_files :: "'s os \<Rightarrow> ('s \<Rightarrow> u8 list) \<Rightarrow> u32 \<Rightarrow> u8 list \<Rightarrow> u8 list \<Rightarrow> 's \<Rightarrow> (u32 \<times> 's) option" where
  "grep_files os loc fd search buf s = do {
     (cnt, buf, s) \<leftarrow> sys_read os fd buf 32 s;
     if cnt = 0 then Some (0, s)
     else if cnt = ERR then map_option (Pair 3) (ece391_fdputs os 1 (c_string ''directory entry read failed\<newline>'') s)
     else do {
       c \<leftarrow> list_view buf 0;
       if c = 0x2E then grep_files os loc fd search buf s
       else do {
         buf \<leftarrow> store buf (unat cnt) 0;
         (r, s) \<leftarrow> do_one_file os search buf (loc s) s;
         if r \<noteq> 0 then Some (3, s) else grep_files os loc fd search buf s
       }
     }
   }"

definition grep :: "'s os \<Rightarrow> ('s \<Rightarrow> u8 list) \<Rightarrow> u8 list \<Rightarrow> u8 list \<Rightarrow> 's \<Rightarrow> (u32 \<times> 's) option" where
  "grep os loc buf search s = do {
     (r, search, s) \<leftarrow> sys_getargs os search 1024 s;
     if r \<noteq> 0 then map_option (Pair 3) (ece391_fdputs os 1 (c_string ''could not read argument\<newline>'') s)
     else do {
       (fd, s) \<leftarrow> sys_open os (c_string ''.'') s;
       if fd = ERR then map_option (Pair 2) (ece391_fdputs os 1 (c_string ''directory open failed\<newline>'') s)
       else grep_files os loc fd search buf s
     }
   }"

section \<open>Lines\<close>

primrec lines_of :: "u8 list \<Rightarrow> u8 list list" where
  "lines_of [] = [[]]"
| "lines_of (c # cs) = (if c = NEWLINE then [] # lines_of cs else (c # hd (lines_of cs)) # tl (lines_of cs))"

lemma lines_of_nonempty [simp]: "lines_of xs \<noteq> []"
  by (cases xs) simp_all

lemma lines_of_line: "NEWLINE \<notin> set l \<Longrightarrow> lines_of l = [l]" "NEWLINE \<notin> set l \<Longrightarrow> lines_of (l @ NEWLINE # r) = l # lines_of r"
  by (induction l) auto

text \<open>What a search shows of one line and of a text.\<close>

definition shown_line :: "u8 list \<Rightarrow> u8 list \<Rightarrow> u8 list \<Rightarrow> u8 list" where
  "shown_line pat name l = (if sublist pat l then name @ 0x3A # l @ [NEWLINE] else [])"

definition matches :: "u8 list \<Rightarrow> u8 list \<Rightarrow> u8 list \<Rightarrow> u8 list" where
  "matches pat name xs = concat (map (shown_line pat name) (lines_of xs))"

lemma matches_line: "NEWLINE \<notin> set l \<Longrightarrow> matches pat name l = shown_line pat name l"
  "NEWLINE \<notin> set l \<Longrightarrow> matches pat name (l @ NEWLINE # r) = shown_line pat name l @ matches pat name r"
  by (simp_all add: matches_def lines_of_line)

text \<open>Lines that fit into the array of the program.\<close>

definition short_lines :: "u8 list \<Rightarrow> bool" where
  "short_lines xs \<longleftrightarrow> (\<forall>l\<in>set (lines_of xs). length l < 1024)"

lemma short_lines_simps: "short_lines []" "NEWLINE \<notin> set l \<Longrightarrow> short_lines (l @ NEWLINE # r) \<longleftrightarrow> length l < 1024 \<and> short_lines r"
  by (simp_all add: short_lines_def lines_of_line)

lemma short_lines_first:
  assumes "NEWLINE \<notin> set l" "short_lines (l @ r)"
  shows "length l < 1024"
proof -
  have "hd (lines_of (l @ r)) = l @ hd (lines_of r)" using assms(1) by (induction l) auto
  moreover have "length (hd (lines_of (l @ r))) < 1024" using assms(2) by (simp add: short_lines_def)
  ultimately show ?thesis by simp
qed

lemma first_line:
  obtains "NEWLINE \<notin> set xs" | l r where "xs = l @ NEWLINE # r" "NEWLINE \<notin> set l"
  using split_list_first [of NEWLINE xs] by blast

lemma line_end_of_line:
  assumes "NEWLINE \<notin> set l" "n \<le> lst" "lst \<le> length data" "drop a data = l @ r" "n = a + length l"
    and "n = lst \<or> (\<exists>r'. r = NEWLINE # r')"
  shows "line_end_of data lst a = Some n"
  using assms
proof (induction l arbitrary: a)
  case Nil
  have "data ! a = NEWLINE" if "a < lst" using Nil.prems that by (metis append_Nil nth_via_drop less_irrefl add_0_right list.size(3))
  then show ?case using Nil.prems by (subst line_end_of.simps) auto
next
  case (Cons c l)
  have d: "data ! a = c" using Cons.prems(4) by (simp add: nth_via_drop)
  have t: "drop (a + 1) data = l @ r" using Cons.prems(4) by (metis Suc_eq_plus1 drop_Suc tl_drop list.sel(3) append_Cons)
  have "line_end_of data lst (a + 1) = Some n" using Cons.prems t by (intro Cons.IH) auto
  then show ?case using Cons.prems d by (subst line_end_of.simps) simp
qed

lemma strcpy_down_string:
  assumes d: "drop from data = l @ 0 # r" "0 \<notin> set l" "0 < from" and i: "i \<le> length l"
  shows "strcpy_down (take i l @ drop i data) from i = Some (l @ 0 # drop (length l + 1) data)"
  using i
proof (induction rule: inc_induct)
  case base
  let ?d = "take (length l) l @ drop (length l) data"
  have len: "from + length l < length data" using arg_cong [OF d(1), of length] by simp
  moreover have "data ! (from + length l) = 0" using d(1) len by (metis add_leD1 less_imp_le_nat nth_append_length nth_drop)
  ultimately have "list_view ?d (from + length l) = Some 0" using d(3) by (simp add: nth_append add.commute)
  moreover have "store ?d (length l) 0 = Some (l @ 0 # drop (length l + 1) data)"
    using len d(3) by (simp add: store_def list_update_append Cons_nth_drop_Suc [symmetric])
  ultimately show ?case by (subst strcpy_down.simps) simp
next
  case (step i)
  let ?d = "take i l @ drop i data"
  have len: "from + length l < length data" using arg_cong [OF d(1), of length] by simp
  have "data ! (from + i) = l ! i" using d(1) len step.hyps by (metis add_leD1 less_imp_le_nat nth_append nth_drop)
  then have "list_view ?d (from + i) = Some (l ! i)" using len step.hyps by (simp add: nth_append add.commute)
  moreover have "store ?d i (l ! i) = Some (take (Suc i) l @ drop (Suc i) data)"
    using len step.hyps by (simp add: store_def list_update_append take_Suc_conv_app_nth Cons_nth_drop_Suc [symmetric])
  moreover have "l ! i \<noteq> 0" using d(2) step.hyps by (metis nth_mem)
  ultimately show ?case using step.IH by (subst strcpy_down.simps) simp
qed

lemma strncmp_begins:
  assumes "pat \<noteq> []" "0 \<notin> set pat" "\<forall>j<length pat. s2 (i + j) = Some (pat ! j)" "\<forall>j\<le>length l. s1 (i + j) = Some ((l @ [0]) ! j)"
  shows "\<exists>r. ece391_strncmp_from s1 s2 i (length pat) = Some r \<and> (r = 0 \<longleftrightarrow> prefix pat l)"
  using assms
proof (induction pat arbitrary: i l)
  case (Cons p pat)
  have p: "s2 i = Some p" "p \<noteq> 0" using Cons.prems(2,3) by auto
  show ?case
  proof (cases l)
    case Nil
    then show ?thesis using Cons.prems(4) p by (simp add: unsigned_eq_0_iff)
  next
    case c: (Cons c cs)
    have s1: "s1 i = Some c" using Cons.prems(4) c by force
    have n: "\<forall>j<length pat. s2 (i + 1 + j) = Some (pat ! j)" "\<forall>j\<le>length cs. s1 (i + 1 + j) = Some ((cs @ [0]) ! j)"
      using Cons.prems(3,4) c by force+
    show ?thesis
    proof (cases "pat = []")
      case False
      then show ?thesis using Cons.IH [OF _ _ n] Cons.prems(2) p s1 c by (auto simp: word_uint_eq_iff)
    qed (use p s1 c in \<open>auto simp: word_uint_eq_iff\<close>)
  qed
qed simp

lemma plain_char: "(p :: u8) < 0x80 \<Longrightarrow> sint p = uint p"
proof -
  assume "p < 0x80"
  then have "uint p < 2 ^ 7" by (simp add: word_less_def)
  moreover have "- (2 ^ 7) \<le> uint p" by (rule order_trans [of _ 0]) simp_all
  ultimately have "signed_take_bit 7 (uint p) = uint p" by (intro signed_take_bit_int_eq_self)
  then show ?thesis by (simp add: sint_uint)
qed

lemma guard_kept: "data ! 1024 \<noteq> NEWLINE \<Longrightarrow> data[i := 0] ! 1024 \<noteq> NEWLINE"
  by (cases "i = 1024"; cases "i < length data") (auto simp: list_update_beyond)

text \<open>The text searched for: at least one character, the first one of the ASCII range.\<close>

definition search_text :: "u8 list \<Rightarrow> u8 list \<Rightarrow> bool" where
  "search_text b pat \<longleftrightarrow> holds_string (list_view b) pat \<and> pat \<noteq> [] \<and> hd pat < 0x80 \<and> length pat < 1024"

lemma grep_match_prefix:
  assumes "search_text b pat" "drop check data = l @ 0 # r" "l \<noteq> []"
  shows "grep_match b (of_nat (length pat)) data check = Some (prefix pat l)"
proof -
  have len: "check + length l < length data" using arg_cong [OF assms(2), of length] by simp
  have v: "list_view data (check + j) = Some ((l @ [0]) ! j)" if "j \<le> length l" for j
  proof -
    have "data ! (check + j) = (l @ 0 # r) ! j" using assms(2) len by (metis add_leD1 less_imp_le_nat nth_drop)
    then show ?thesis using that len by (auto simp: nth_append)
  qed
  have p: "pat \<noteq> []" "0 \<notin> set pat" "hd pat < 0x80" "length pat < 1024" "\<forall>j<length pat. list_view b j = Some (pat ! j)"
    using assms(1) by (auto simp: search_text_def holds_string_def)
  have u: "unat (of_nat (length pat) :: u32) = length pat" by (rule unat_offset) (use p(4) in simp)
  then have z: "(of_nat (length pat) :: u32) \<noteq> 0" using p(1) by (metis length_0_conv unat_0)
  obtain r' where r': "ece391_strncmp (\<lambda>i. list_view data (check + i)) (list_view b) (of_nat (length pat)) = Some r'" "r' = 0 \<longleftrightarrow> prefix pat l"
    using strncmp_begins [OF p(1,2), of "list_view b" 0 l "\<lambda>i. list_view data (check + i)"] p(5) v z u by (auto simp: ece391_strncmp_def)
  have "list_view b 0 = Some (hd pat)" using p(1,5) by (simp add: hd_conv_nth)
  moreover have "list_view data check = Some (hd l)" using v [of 0] assms(3) by (simp add: hd_conv_nth nth_append)
  moreover have "sint (hd pat) = uint (hd l) \<longleftrightarrow> hd pat = hd l" using plain_char [OF p(3)] by (simp add: word_uint_eq_iff)
  moreover have "hd pat = hd l" if "prefix pat l" using that p(1) by (auto simp: prefix_def)
  ultimately show ?thesis using r' by (auto simp: grep_match_def)
qed


section \<open>The search of one file\<close>

text \<open>What the search relies on: files are read as by \<open>cat\<close>, and a file can be closed. \<open>closed\<close> holds after the close.\<close>

locale file_searcher = file_reader +
  fixes closed :: "'a \<Rightarrow> bool"
  assumes close_law: "inv s \<Longrightarrow> rest fd s = Some xs \<Longrightarrow> \<exists>s'. sys_close os fd s = Some (0, s') \<and> closed s' \<and> out s' = out s"
begin

lemma fdputs_keeps:
  assumes "inv s" "holds_string (list_view b) cs" "length b \<le> 2048"
  shows "\<exists>s'. ece391_fdputs os 1 b s = Some s' \<and> inv s' \<and> out s' = tty_write cs (out s) \<and> (\<forall>fd. rest fd s' = rest fd s)"
proof -
  have len: "strlen (list_view b) = Some (length cs)" by (rule strlen_string [OF assms(2)])
  have l: "length cs \<le> length b" using assms(2) by (auto simp: holds_string_def list_view_def split: if_splits)
  from fdputs_prints [OF assms] obtain s' where s': "ece391_fdputs os 1 b s = Some s'" "inv s'" "out s' = tty_write cs (out s)" by blast
  then obtain r where "sys_write os 1 b (of_nat (length cs)) s = Some (r, s')"
    using len by (auto simp: ece391_fdputs_def ece391_strlen_eq split: bind_splits)
  then show ?thesis using s' write_keeps [OF assms(1) l assms(3)] by blast
qed

lemma literal_keeps:
  assumes "inv s" "0 \<notin> set (text_of l)" "length l < 1000"
  shows "\<exists>s'. ece391_fdputs os 1 (c_string l) s = Some s' \<and> inv s' \<and> out s' = tty_write (text_of l) (out s) \<and> (\<forall>fd. rest fd s' = rest fd s)"
  using fdputs_keeps [OF assms(1) literal_string [OF assms(2)]] assms(3) by (simp add: c_string_def)

lemma line_shown:
  assumes "inv s" "holds_string (list_view fname) nm" "length fname \<le> 2048" "holds_string (list_view b) l" "length b \<le> 2048"
  shows "\<exists>s'. do {
      s \<leftarrow> ece391_fdputs os 1 fname s;
      s \<leftarrow> ece391_fdputs os 1 (c_string '':'') s;
      s \<leftarrow> ece391_fdputs os 1 b s;
      ece391_fdputs os 1 (c_string ''\<newline>'') s
    } = Some s' \<and> inv s' \<and> out s' = tty_write (nm @ 0x3A # l @ [NEWLINE]) (out s) \<and> (\<forall>fd. rest fd s' = rest fd s)"
proof -
  obtain t where t: "ece391_fdputs os 1 fname s = Some t" "inv t" "out t = tty_write nm (out s)" "\<forall>fd. rest fd t = rest fd s"
    using fdputs_keeps [OF assms(1-3)] by blast
  obtain u where u: "ece391_fdputs os 1 (c_string '':'') t = Some u" "inv u" "out u = tty_write [0x3A] (out t)" "\<forall>fd. rest fd u = rest fd t"
    using literal_keeps [OF t(2), of "'':''"] by (auto simp: text_of_def)
  obtain v where v: "ece391_fdputs os 1 b u = Some v" "inv v" "out v = tty_write l (out u)" "\<forall>fd. rest fd v = rest fd u"
    using fdputs_keeps [OF u(2) assms(4,5)] by blast
  obtain w where w: "ece391_fdputs os 1 (c_string ''\<newline>'') v = Some w" "inv w" "out w = tty_write [NEWLINE] (out v)" "\<forall>fd. rest fd w = rest fd v"
    using literal_keeps [OF v(2), of "''\<newline>''"] by (auto simp: text_of_def)
  show ?thesis using t u v w by (simp add: tty_write_def)
qed

lemma grep_search_shows:
  assumes s: "inv s" "search_text b pat" "holds_string (list_view fname) nm" "length fname \<le> 2048" "length data \<le> 2048"
    and d: "drop line_start data = u @ v @ 0 # r" "0 \<notin> set u" "0 \<notin> set v" "line_end = line_start + length (u @ v)"
  shows "\<exists>s'. grep_search os b (of_nat (length pat)) fname data line_start line_end (line_start + length u) s = Some s' \<and> inv s' \<and>
    out s' = tty_write (if sublist pat v then nm @ 0x3A # (u @ v) @ [NEWLINE] else []) (out s) \<and> (\<forall>fd. rest fd s' = rest fd s)"
  using d
proof (induction v arbitrary: u)
  case Nil
  have "pat \<noteq> []" using s(2) by (simp add: search_text_def)
  then show ?case using Nil s(1) by (subst grep_search.simps) (simp add: tty_write_def)
next
  case (Cons c v)
  let ?check = "line_start + length u"
  have "drop ?check data = (c # v) @ 0 # r" using Cons.prems(1) by (metis add.commute append_eq_conv_conj drop_drop)
  then have m: "grep_match b (of_nat (length pat)) data ?check = Some (prefix pat (c # v))" by (intro grep_match_prefix [OF s(2)]) auto
  have c: "?check < line_end" using Cons.prems(4) by simp
  show ?case
  proof (cases "prefix pat (c # v)")
    case True
    then have "sublist pat (c # v)" by (simp add: sublist_Cons_right)
    moreover have "holds_string (list_view (drop line_start data)) (u @ c # v)"
      unfolding Cons.prems(1) using Cons.prems(2,3) holds_string_list [of "u @ c # v" "(u @ c # v) @ 0 # r"] by simp
    ultimately show ?thesis using line_shown [OF s(1,3,4), of "drop line_start data" "u @ c # v"] s(5) c m True
      by (subst grep_search.simps) simp
  next
    case False
    then have "sublist pat (c # v) = sublist pat v" by (simp add: sublist_Cons_right)
    moreover have "grep_search os b (of_nat (length pat)) fname data line_start line_end ?check s =
        grep_search os b (of_nat (length pat)) fname data line_start line_end (line_start + length (u @ [c])) s"
      using c m False by (subst grep_search.simps) simp
    ultimately show ?thesis using Cons.IH [of "u @ [c]"] Cons.prems by (cases "sublist pat v") simp_all
  qed
qed

lemma grep_lines_step:
  assumes s: "inv s" "search_text b pat" "holds_string (list_view fname) nm" "length fname \<le> 2048"
    and d: "length data = 1025" "lst \<le> 1024" "drop a data = l @ c # r" "NEWLINE \<notin> set l" "0 \<notin> set l" "a + length l \<le> lst"
    and e: "a + length l = lst \<or> c = NEWLINE" "c = NEWLINE \<or> cnt = 0 \<or> a = 0"
  shows "\<exists>s'. grep_lines os b (of_nat (length pat)) fname cnt lst a data s =
      (if a + length l + 1 \<ge> lst then Some (data[a + length l := 0], 0, s')
       else grep_lines os b (of_nat (length pat)) fname cnt lst (a + length l + 1) (data[a + length l := 0]) s') \<and> inv s' \<and>
    out s' = tty_write (shown_line pat nm l) (out s) \<and> (\<forall>fd. rest fd s' = rest fd s)"
proof -
  let ?e = "a + length l" and ?d = "data[a + length l := 0]"
  have le: "line_end_of data lst a = Some ?e" using d e(1) by (intro line_end_of_line [where r = "c # r"]) auto
  have len: "?e < length data" using d(1,2,6) by simp
  have "data ! ?e = c" using d(3) len by (metis add_leD1 less_imp_le_nat nth_append_length nth_drop)
  then have v: "list_view data ?e = Some c" using len by simp
  have "drop a ?d = l @ [] @ 0 # r" using len d(3) by (simp add: drop_update_swap list_update_append)
  then have dr: "drop a ?d = [] @ l @ 0 # r" by simp
  obtain s' where s': "grep_search os b (of_nat (length pat)) fname ?d a ?e (a + length []) s = Some s'" "inv s'"
      "out s' = tty_write (if sublist pat l then nm @ 0x3A # ([] @ l) @ [NEWLINE] else []) (out s)" "\<forall>fd. rest fd s' = rest fd s"
    using grep_search_shows [OF s _ dr _ d(5)] d(1) by auto
  show ?thesis using le v len e(2) s' by (subst grep_lines.simps) (auto simp: shown_line_def)
qed

lemma grep_lines_hold:
  assumes "length data = 1025" "drop a data = l @ c # r" "NEWLINE \<notin> set l" "0 \<notin> set l" "c \<noteq> NEWLINE" "cnt \<noteq> 0" "a \<noteq> 0" "lst = a + length l"
  shows "grep_lines os b n fname cnt lst a data s = Some (l @ 0 # drop (length l + 1) (data[a + length l := 0]), length l, s)"
proof -
  let ?d = "data[a + length l := 0]"
  have len: "lst < length data" using arg_cong [OF assms(2), of length] assms(8) by simp
  have le: "line_end_of data lst a = Some (a + length l)" using assms len by (intro line_end_of_line [where r = "c # r"]) auto
  have "data ! (a + length l) = c" using assms(2,8) len by (metis add_leD1 less_imp_le_nat nth_append_length nth_drop)
  moreover have "drop a ?d = l @ 0 # r" using len assms(2,8) by (simp add: drop_update_swap list_update_append)
  then have "strcpy_down ?d a 0 = Some (l @ 0 # drop (length l + 1) ?d)" using strcpy_down_string [of a ?d l r 0] assms(4,7) by simp
  ultimately show ?thesis using le len assms(5-8) by (subst grep_lines.simps) simp
qed

lemma grep_lines_shows:
  assumes s: "search_text b pat" "holds_string (list_view fname) nm" "length fname \<le> 2048" "lst \<le> 1024"
    and d: "inv s" "length data = 1025" "data ! 1024 \<noteq> NEWLINE" "drop a data = ys @ post" "lst = a + length ys" "0 \<notin> set ys"
      "ys \<noteq> [] \<or> a = 0"
    and z: "lst = 1024 \<or> zs = []" "cnt = 0 \<longrightarrow> zs = []" "short_lines (ys @ zs)"
  shows "\<exists>q d s'. grep_lines os b (of_nat (length pat)) fname cnt lst a data s = Some (d, length q, s') \<and> inv s' \<and>
    (\<forall>fd. rest fd s' = rest fd s) \<and> length d = 1025 \<and> d ! 1024 \<noteq> NEWLINE \<and> take (length q) d = q \<and> length q < 1024 \<and> 0 \<notin> set q \<and>
    (cnt = 0 \<longrightarrow> q = []) \<and> short_lines (q @ zs) \<and> tty_write (matches pat nm (q @ zs)) (out s') = tty_write (matches pat nm (ys @ zs)) (out s)"
  using d z(3)
proof (induction "length ys" arbitrary: ys a data s rule: less_induct)
  case less
  note p = less.prems
  have pat: "shown_line pat nm [] = []" using s(1) by (simp add: search_text_def shown_line_def)
  consider (whole) "NEWLINE \<notin> set ys" | (split) l r where "ys = l @ NEWLINE # r" "NEWLINE \<notin> set l" by (rule first_line)
  then show ?case
  proof cases
    case whole
    have "post \<noteq> []" using arg_cong [OF p(4), of length] p(2,5) s(4) by auto
    then obtain c r where post: "post = c # r" by (cases post) auto
    have c: "data ! lst = c" using p(2,4,5) s(4) post by (metis add_leD1 less_imp_le_nat nth_append_length nth_drop order_le_less_trans lessI eval_nat_numeral)
    have short: "length ys < 1024" by (rule short_lines_first [OF whole p(8)])
    show ?thesis
    proof (cases "c = NEWLINE \<or> cnt = 0 \<or> a = 0")
      case True
      have zs: "zs = []" using True z(1,2) c p(3,5) short by auto
      obtain t where t: "grep_lines os b (of_nat (length pat)) fname cnt lst a data s = Some (data[lst := 0], 0, t)" "inv t"
          "out t = tty_write (shown_line pat nm ys) (out s)" "\<forall>fd. rest fd t = rest fd s"
        using grep_lines_step [OF p(1) s(1-3) p(2) s(4) p(4) [unfolded post] whole p(6) _ _ True] p(5) by auto
      moreover have "data[lst := 0] ! 1024 \<noteq> NEWLINE" by (rule guard_kept [OF p(3)])
      moreover have "tty_write (matches pat nm []) (out t) = tty_write (matches pat nm ys) (out s)"
        using t(3) pat matches_line(1) [OF whole] matches_line(1) [of "[]"] by (simp add: tty_write_def)
      ultimately show ?thesis using zs p(2) short_lines_simps(1)
        by (intro exI [of _ "[]"] exI [of _ "data[lst := 0]"] exI [of _ t]) simp
    next
      case False
      let ?d = "ys @ 0 # drop (length ys + 1) (data[a + length ys := 0])"
      have "data[a + length ys := 0] ! 1024 \<noteq> NEWLINE" by (rule guard_kept [OF p(3)])
      then have "?d ! 1024 \<noteq> NEWLINE" using p(2) short by (auto simp: nth_append nth_Cons')
      moreover have "grep_lines os b (of_nat (length pat)) fname cnt lst a data s = Some (?d, length ys, s)"
        by (rule grep_lines_hold [OF p(2) p(4) [unfolded post] whole p(6)]) (use False p(5) in auto)
      ultimately show ?thesis using p short False by (intro exI [of _ ys] exI [of _ ?d] exI [of _ s]) auto
    qed
  next
    case split
    let ?e = "a + length l" and ?d = "data[a + length l := 0]"
    have l: "0 \<notin> set l" "drop a data = l @ NEWLINE # r @ post" "?e + 1 + length r = lst" using split p(4-6) by simp_all
    obtain t where t: "grep_lines os b (of_nat (length pat)) fname cnt lst a data s =
        (if ?e + 1 \<ge> lst then Some (?d, 0, t) else grep_lines os b (of_nat (length pat)) fname cnt lst (?e + 1) ?d t)" "inv t"
        "out t = tty_write (shown_line pat nm l) (out s)" "\<forall>fd. rest fd t = rest fd s"
      using grep_lines_step [OF p(1) s(1-3) p(2) s(4) l(2) split(2) l(1)] l(3) by auto
    have d: "length ?d = 1025" "?d ! 1024 \<noteq> NEWLINE" "drop (?e + 1) ?d = r @ post"
    proof -
      show "length ?d = 1025" "?d ! 1024 \<noteq> NEWLINE" using p(2) guard_kept [OF p(3)] by simp_all
      have "drop (?e + 1) data = drop (length l + 1) (drop a data)" by (simp add: add.commute)
      then show "drop (?e + 1) ?d = r @ post" using l(2) by simp
    qed
    have sh: "short_lines (r @ zs)" using p(8) short_lines_simps(2) [OF split(2)] unfolding split(1) by simp
    have m: "tty_write (matches pat nm (r @ zs)) (out t) = tty_write (matches pat nm (ys @ zs)) (out s)"
      using t(3) matches_line(2) [OF split(2)] by (simp add: split(1) tty_write_def)
    show ?thesis
    proof (cases "r = []")
      case True
      then show ?thesis using t d(1,2) l(3) sh m z(2) by (auto intro!: exI [of _ "[]"])
    next
      case False
      have "length r < length ys" "0 \<notin> set r" using split(1) p(6) by simp_all
      from less.hyps [OF this(1) t(2) d(1,2,3) _ this(2) _ sh] l(3) False obtain q d' s' where
        "grep_lines os b (of_nat (length pat)) fname cnt lst (?e + 1) ?d t = Some (d', length q, s')" "inv s'" "\<forall>fd. rest fd s' = rest fd t"
        "length d' = 1025" "d' ! 1024 \<noteq> NEWLINE" "take (length q) d' = q" "length q < 1024" "0 \<notin> set q" "cnt = 0 \<longrightarrow> q = []" "short_lines (q @ zs)"
        "tty_write (matches pat nm (q @ zs)) (out s') = tty_write (matches pat nm (r @ zs)) (out t)" by auto
      moreover have "\<not> ?e + 1 \<ge> lst" using l(3) False by (cases r) auto
      ultimately show ?thesis using t(1,4) m by (intro exI [of _ q] exI [of _ d'] exI [of _ s']) simp
    qed
  qed
qed

lemma grep_loop_shows:
  assumes s: "search_text b pat" "holds_string (list_view fname) nm" "length fname \<le> 2048"
    and d: "inv s" "rest fd s = Some zs" "length data = 1025" "data ! 1024 \<noteq> NEWLINE" "take (length q) data = q" "length q < 1024" "0 \<notin> set (q @ zs)"
      "short_lines (q @ zs)"
  shows "\<exists>s'. grep_loop os fd b (of_nat (length pat)) fname data (length q) s = Some (0, s') \<and> closed s' \<and>
    out s' = tty_write (matches pat nm (q @ zs)) (out s)"
  using d
proof (induction "length zs" arbitrary: zs q data s rule: less_induct)
  case less
  note p = less.prems
  let ?n = "1024 - length q"
  let ?k = "min ?n (length zs)"
  let ?b = "take ?k zs @ drop ?k (drop (length q) data)" and ?ys = "q @ take ?k zs" and ?zs = "drop ?k zs"
  have len: "?n \<le> length (drop (length q) data)" "length (drop (length q) data) \<le> 2048" "?n \<le> 1024" using p(3) by simp_all
  obtain t where t: "sys_read os fd (drop (length q) data) (of_nat ?n) s = Some (of_nat ?k, ?b, t)" "inv t" "out t = out s" "rest fd t = Some ?zs"
    using read_law [OF p(1,2) len refl] by blast
  have u: "unat (of_nat ?k :: u32) = ?k" by (rule unat_offset) simp
  have e: "(of_nat ?k :: u32) \<noteq> ERR" using small_not_error(2) [of ?k] by (cases "?k = 0") simp_all
  have k0: "(of_nat ?k :: u32) = 0 \<longleftrightarrow> zs = []"
  proof -
    have "(of_nat ?k :: u32) \<noteq> 0" if "0 < ?k" by (rule small_not_error(1) [OF that]) simp
    then show ?thesis using p(6) by (cases "zs = []") simp_all
  qed
  let ?data = "take (length q) data @ ?b"
  have l: "length q + ?k \<le> 1024" "length ?data = 1025" using p(3,6) by auto
  have nth: "?data ! 1024 \<noteq> NEWLINE" using l p(3,4) by (simp add: nth_append min_def)
  have dr: "drop 0 ?data = ?ys @ drop ?k (drop (length q) data)" using p(5) by simp
  have zs: "?ys @ ?zs = q @ zs" by simp
  have last: "length q + ?k = 1024 \<or> ?zs = []" "(of_nat ?k :: u32) = 0 \<longrightarrow> ?zs = []" "short_lines (?ys @ ?zs)" "?ys \<noteq> [] \<or> (0::nat) = 0"
    using p(6,8) k0 unfolding zs by (auto simp: min_def)
  have ys: "length q + ?k = 0 + length ?ys" "0 \<notin> set ?ys" using p(7) by (auto dest: in_set_takeD)
  obtain q' d' u where g: "grep_lines os b (of_nat (length pat)) fname (of_nat ?k) (length q + ?k) 0 ?data t = Some (d', length q', u)"
      "inv u" "\<forall>fd. rest fd u = rest fd t" "length d' = 1025" "d' ! 1024 \<noteq> NEWLINE" "take (length q') d' = q'" "length q' < 1024" "0 \<notin> set q'"
      "of_nat ?k = (0 :: u32) \<longrightarrow> q' = []" "short_lines (q' @ ?zs)"
      "tty_write (matches pat nm (q' @ ?zs)) (out u) = tty_write (matches pat nm (q @ zs)) (out t)"
    using grep_lines_shows [OF s l(1) t(2) l(2) nth dr ys last(4,1-3)] unfolding zs by blast
  have step: "grep_loop os fd b (of_nat (length pat)) fname data (length q) s =
      (if zs = [] then Option.bind (sys_close os fd u) (\<lambda>(r, s). if r = ERR then map_option (Pair ERR) (ece391_fdputs os 1 (c_string ''file close failed\<newline>'') s) else Some (0, s))
       else grep_loop os fd b (of_nat (length pat)) fname d' (length q') u)"
    using t(1) e u g(1) k0 by (subst grep_loop.simps) simp
  show ?case
  proof (cases "zs = []")
    case True
    obtain v where v: "sys_close os fd u = Some (0, v)" "closed v" "out v = out u" using close_law [OF g(2), of fd ?zs] g(3) t(4) by auto
    have q: "q' = []" using g(9) k0 True by simp
    have "matches pat nm [] = []" using s(1) matches_line(1) [of "[]"] by (simp add: search_text_def shown_line_def)
    then have "out u = tty_write (matches pat nm (q @ zs)) (out s)" using g(11) t(3) q True by (simp add: tty_write_def)
    then show ?thesis using step v True by simp
  next
    case False
    have "length ?zs < length zs" using False p(6) by (cases zs) simp_all
    moreover have "rest fd u = Some ?zs" "0 \<notin> set (q' @ ?zs)" using g(3,8) t(4) p(7) by (auto dest: in_set_dropD)
    ultimately show ?thesis using less.hyps [of ?zs u d' q'] g step False t(3) by auto
  qed
qed

lemma do_one_file_shows:
  assumes s: "search_text b pat" "holds_string (list_view fname) nm" "length fname \<le> 2048"
    and d: "length data = 1025" "data ! 1024 \<noteq> NEWLINE" "0 \<notin> set xs" "short_lines xs"
    and o: "sys_open os fname s = Some (fd, t)" "fd \<noteq> ERR" "inv t" "rest fd t = Some xs" "out t = out s"
  shows "\<exists>s'. do_one_file os b fname data s = Some (0, s') \<and> closed s' \<and> out s' = tty_write (matches pat nm xs) (out s)"
proof -
  have "ece391_strlen (list_view b) = Some (length pat)" using s(1) strlen_string by (simp add: search_text_def ece391_strlen_eq)
  then show ?thesis using grep_loop_shows [OF s o(3,4) d(1,2), of "[]"] d(3,4) o(1,2,5) by (simp add: do_one_file_def)
qed

end

end
