(* ===== verification/Fish_Frames.thy ===== *)
theory Fish_Frames
  imports Fish_Memory User_Clock User_Grep
begin

text \<open>
  The program \<open>fish\<close> (\<open>fish.c\<close>): \<open>add_frames\<close> reads the two pictures of the animation side by side and adds a blinking character
  for every place that is not blank in both, and \<open>main\<close> lets the list blink at the pace of the clock. The program draws through the page
  that \<open>vidmap\<close> gives it: the screen is not a variable of the program but memory of the machine, which it reaches through an interface
  for loads and stores.
\<close>

section \<open>The screen behind a pointer\<close>

text \<open>The offsets \<open>mp1_poke\<close> is called with: the characters of the 2000 places, one in two bytes.\<close>

definition video_cell :: "u32 \<Rightarrow> bool" where
  "video_cell k \<longleftrightarrow> k < 4000 \<and> \<not> bit k 0"

text \<open>A load of a pointer from memory, the characters of the screen at an address, and a store of them.\<close>

record 's window =
  load_pointer :: "u32 \<Rightarrow> 's \<Rightarrow> u32 option"
  look :: "u32 \<Rightarrow> 's \<Rightarrow> (u32 \<Rightarrow> u8) option"
  draw :: "u32 \<Rightarrow> (u32 \<Rightarrow> u8) \<Rightarrow> 's \<Rightarrow> 's option"

text \<open>A call into \<open>blink.S\<close>, by \<open>mp1_ioctl\<close> or as \<open>mp1_rtc_tasklet\<close>, on the screen at \<open>vmem_base_addr\<close>.\<close>

definition mp1_call :: "'s window \<Rightarrow> u32 \<Rightarrow> blink_op \<Rightarrow> fish \<Rightarrow> 's \<Rightarrow> (u32 \<times> fish \<times> 's) option" where
  "mp1_call win vmem_base_addr x f s = do {
     v \<leftarrow> look win vmem_base_addr s;
     (r, f) \<leftarrow> run_op x (f\<lparr>video := v\<rparr>);
     s \<leftarrow> draw win vmem_base_addr (video f) s;
     Some (r, f, s)
   }"

section \<open>fish.c: reading the frames\<close>

definition next_char :: "'s os \<Rightarrow> u32 \<Rightarrow> u8 \<Rightarrow> bool \<Rightarrow> 's \<Rightarrow> (u8 \<times> bool \<times> 's) option" where
  "next_char os fd c eof s =
     (if c \<noteq> NEWLINE then do {
        (num_bytes, b, s) \<leftarrow> sys_read os fd [c] 1 s;
        c \<leftarrow> list_view b 0;
        Some (if num_bytes = 0 then (NEWLINE, True, s) else (c, eof, s))
      }
      else Some (c, eof, s))"

text \<open>The structure on the stack: \<open>add_frames\<close> sets three of its fields anew for every character.\<close>

definition set_cell :: "blink \<Rightarrow> u16 \<times> u8 \<times> u8 \<Rightarrow> blink" where
  "set_cell b = (\<lambda>(l, on, off). b\<lparr>on_char := on, off_char := off, location := l\<rparr>)"

definition visible :: "u8 \<Rightarrow> bool" where
  "visible c \<longleftrightarrow> c \<noteq> 0x20 \<and> c \<noteq> NEWLINE"

definition shown_char :: "u8 \<Rightarrow> u8" where
  "shown_char c = (if c = NEWLINE then 0x20 else c)"

partial_function (option) frame_row ::
    "'s os \<Rightarrow> 's window \<Rightarrow> u32 \<Rightarrow> u32 \<Rightarrow> u32 \<Rightarrow> nat \<Rightarrow> nat \<Rightarrow> u8 \<times> bool \<times> u8 \<times> bool \<Rightarrow> blink \<Rightarrow> fish \<Rightarrow> 's \<Rightarrow> (bool \<times> bool \<times> blink \<times> fish \<times> 's) option" where
  "frame_row os win base fd0 fd1 row col w b f s = (case w of (c0, eof0, c1, eof1) \<Rightarrow> do {
     (c0, eof0, s) \<leftarrow> next_char os fd0 c0 eof0 s;
     (c1, eof1, s) \<leftarrow> next_char os fd1 c1 eof1 s;
     if c0 = NEWLINE \<and> c1 = NEWLINE then Some (eof0, eof1, b, f, s)
     else do {
       (b, f, s) \<leftarrow> (if visible c0 \<or> visible c1
          then let b = set_cell b (of_nat (row * 80 + col + 40), shown_char c0, shown_char c1)
               in do { (_, f, s) \<leftarrow> mp1_call win base (Add b) f s; Some (b, f, s) }
          else Some (b, f, s));
       frame_row os win base fd0 fd1 row (col + 1) (c0, eof0, c1, eof1) b f s
     }
   })"

definition row_end :: "'s os \<Rightarrow> u32 \<Rightarrow> bool \<Rightarrow> 's \<Rightarrow> (u8 \<times> 's) option" where
  "row_end os fd eof s = (if eof then do { (_, s) \<leftarrow> sys_close os fd s; Some (NEWLINE, s) } else Some (0x30, s))"

partial_function (option) frame_rows ::
    "'s os \<Rightarrow> 's window \<Rightarrow> u32 \<Rightarrow> u32 \<Rightarrow> u32 \<Rightarrow> nat \<Rightarrow> u8 \<times> bool \<times> u8 \<times> bool \<Rightarrow> blink \<Rightarrow> fish \<Rightarrow> 's \<Rightarrow> (fish \<times> 's) option" where
  "frame_rows os win base fd0 fd1 row w b f s = (case w of (c0, eof0, c1, eof1) \<Rightarrow>
     if \<not> eof0 \<or> \<not> eof1 then do {
       (eof0, eof1, b, f, s) \<leftarrow> frame_row os win base fd0 fd1 row 0 w b f s;
       (c0, s) \<leftarrow> row_end os fd0 eof0 s;
       (c1, s) \<leftarrow> row_end os fd1 eof1 s;
       frame_rows os win base fd0 fd1 (row + 1) (c0, eof0, c1, eof1) b f s
     }
     else Some (f, s))"

text \<open>The result says whether the program was halted because a file could not be opened.\<close>

definition add_frames :: "'s os \<Rightarrow> 's window \<Rightarrow> u32 \<Rightarrow> u8 list \<Rightarrow> u8 list \<Rightarrow> blink \<Rightarrow> fish \<Rightarrow> 's \<Rightarrow> (bool \<times> fish \<times> 's) option" where
  "add_frames os win base f0 f1 b f s = do {
     let b = b\<lparr>on_length := 15, off_length := 15\<rparr>;
     (fd0, s) \<leftarrow> sys_open os f0 s;
     if sint fd0 < 0 then Some (True, f, s)
     else do {
       (fd1, s) \<leftarrow> sys_open os f1 s;
       if sint fd1 < 0 then Some (True, f, s)
       else map_option (Pair False) (frame_rows os win base fd0 fd1 0 (0x30, False, 0x30, False) b f s)
     }
   }"

section \<open>fish.c: main\<close>

text \<open>\<open>None\<close> stands for the null pointer; the pointer itself is what \<open>vidmap\<close> has stored in the variable \<open>vmem_base_addr\<close>, whose address
  is \<open>va\<close>.\<close>

definition mp1_set_video_mode :: "'s os \<Rightarrow> 's window \<Rightarrow> u32 \<Rightarrow> 's \<Rightarrow> (u32 option \<times> 's) option" where
  "mp1_set_video_mode os win va s = do {
     (r, s) \<leftarrow> sys_vidmap os va s;
     if r = ERR then Some (None, s)
     else do {
       base \<leftarrow> load_pointer win va s;
       Some (if base = 0 then None else Some base, s)
     }
   }"

primrec blink_for :: "'s os \<Rightarrow> 's window \<Rightarrow> u32 \<Rightarrow> u32 \<Rightarrow> nat \<Rightarrow> u8 list \<times> fish \<times> 's \<Rightarrow> (u8 list \<times> fish \<times> 's) option" where
  "blink_for os win base rtc_fd 0 w = Some w"
| "blink_for os win base rtc_fd (Suc n) w = (case w of (garbage, f, s) \<Rightarrow> do {
     (_, garbage, s) \<leftarrow> sys_read os rtc_fd garbage 4 s;
     (_, f, s) \<leftarrow> mp1_call win base Tick f s;
     blink_for os win base rtc_fd n (garbage, f, s)
   })"

definition fish_main :: "'s os \<Rightarrow> 's window \<Rightarrow> u32 \<Rightarrow> u8 list \<Rightarrow> blink \<Rightarrow> blink \<Rightarrow> 's \<Rightarrow> (u32 \<times> fish \<times> 's) option" where
  "fish_main os win va garbage b b' s = do {
     let f = no_blinks (\<lambda>_. 0);
     (p, s) \<leftarrow> mp1_set_video_mode os win va s;
     case p of
       None \<Rightarrow> Some (ERR, f, s)
     | Some base \<Rightarrow> do {
       (rtc_fd, s) \<leftarrow> sys_open os (c_string ''rtc'') s;
       (halted, f, s) \<leftarrow> add_frames os win base (c_string ''frame0.txt'') (c_string ''frame1.txt'') b' f s;
       if halted then Some (ERR, f, s)
       else do {
         (_, s) \<leftarrow> sys_write os rtc_fd [32, 0, 0, 0] 4 s;
         (garbage, f, s) \<leftarrow> blink_for os win base rtc_fd 200 (garbage, f, s);
         let b = b\<lparr>on_char := 0x49, off_char := 0x4D, on_length := 7, off_length := 6, location := 6 * 80 + 60\<rparr>;
         (_, f, s) \<leftarrow> mp1_call win base (Add b) f s;
         (garbage, f, s) \<leftarrow> blink_for os win base rtc_fd 200 (garbage, f, s);
         (_, f, s) \<leftarrow> mp1_call win base (Sync (push_bit 16 40 OR (6 * 80 + 60))) f s;
         (garbage, f, s) \<leftarrow> blink_for os win base rtc_fd 200 (garbage, f, s);
         (_, f, s) \<leftarrow> mp1_call win base (Remove 200) f s;
         (garbage, f, s) \<leftarrow> blink_for os win base rtc_fd (80 * 25) (garbage, f, s);
         (_, s) \<leftarrow> sys_close os rtc_fd s;
         Some (0, f, s)
       }
     }
   }"

section \<open>The places of a frame\<close>

definition first_or_blank :: "u8 list \<Rightarrow> u8" where
  "first_or_blank l = (case l of [] \<Rightarrow> 0x20 | c # _ \<Rightarrow> c)"

function cells :: "nat \<Rightarrow> u8 list \<Rightarrow> u8 list \<Rightarrow> (u16 \<times> u8 \<times> u8) list" where
  "cells k l0 l1 =
     (if l0 = [] \<and> l1 = [] then []
      else (if first_or_blank l0 \<noteq> 0x20 \<or> first_or_blank l1 \<noteq> 0x20 then [(of_nat k, first_or_blank l0, first_or_blank l1)] else []) @
        cells (k + 1) (tl l0) (tl l1))"
  by pat_completeness auto
termination
  by (relation "measure (\<lambda>(k, l0, l1). length l0 + length l1)") (auto simp: neq_Nil_conv)

declare cells.simps [simp del]

fun frame_cells :: "nat \<Rightarrow> u8 list list \<Rightarrow> u8 list list \<Rightarrow> (u16 \<times> u8 \<times> u8) list" where
  "frame_cells row (l0 # ls0) (l1 # ls1) = cells (row * 80 + 40) l0 l1 @ frame_cells (row + 1) ls0 ls1"
| "frame_cells row _ _ = []"

section \<open>The rows of two files\<close>

lemma lines_of_rows:
  "hd (lines_of xs) = takeWhile (\<lambda>c. c \<noteq> NEWLINE) xs"
  "NEWLINE \<in> set xs \<Longrightarrow> lines_of (drop (length (takeWhile (\<lambda>c. c \<noteq> NEWLINE) xs) + 1) xs) = tl (lines_of xs)"
  "tl (lines_of xs) = [] \<longleftrightarrow> NEWLINE \<notin> set xs"
  by (induction xs) auto

text \<open>What a row has still to take from a file, and what it leaves for the next row; a row that has met the end of its line takes nothing.\<close>

definition row_left :: "u8 \<Rightarrow> u8 list \<Rightarrow> u8 list" where
  "row_left c xs = (if c = NEWLINE then [] else takeWhile (\<lambda>c. c \<noteq> NEWLINE) xs)"

definition row_rest :: "u8 \<Rightarrow> u8 list \<Rightarrow> u8 list" where
  "row_rest c xs = (if c = NEWLINE then xs else drop (length (takeWhile (\<lambda>c. c \<noteq> NEWLINE) xs) + 1) xs)"

definition row_eof :: "u8 \<Rightarrow> u8 list \<Rightarrow> bool" where
  "row_eof c xs \<longleftrightarrow> c \<noteq> NEWLINE \<and> NEWLINE \<notin> set xs"

definition row_char :: "u8 \<Rightarrow> u8 list \<Rightarrow> u8" where
  "row_char c xs = (if row_left c xs = [] then NEWLINE else hd (row_left c xs))"

lemma row_char_step:
  defines "ys \<equiv> \<lambda>c xs. if c = NEWLINE then xs else tl xs"
  shows "row_left (row_char c xs) (ys c xs) = tl (row_left c xs)" "row_rest (row_char c xs) (ys c xs) = row_rest c xs"
    "(c \<noteq> NEWLINE \<and> xs = []) \<or> row_eof (row_char c xs) (ys c xs) \<longleftrightarrow> row_eof c xs"
    "shown_char (row_char c xs) = first_or_blank (row_left c xs)" "visible (row_char c xs) \<longleftrightarrow> first_or_blank (row_left c xs) \<noteq> 0x20"
    "row_char c xs = NEWLINE \<longleftrightarrow> row_left c xs = []"
  by (cases xs; auto simp: row_left_def row_rest_def row_eof_def row_char_def ys_def shown_char_def visible_def first_or_blank_def)+

section \<open>The list and the screen\<close>

definition plain_state :: "blink_op list \<Rightarrow> blink list \<times> (u32 \<Rightarrow> u8) \<Rightarrow> blink list \<times> (u32 \<Rightarrow> u8)" where
  "plain_state xs a = snd (plain_ops xs a)"

lemma plain_state_simps: "plain_state [] a = a" "plain_state (x # xs) a = plain_state xs (snd (plain_op x a))"
  "plain_state (xs @ ys) a = plain_state ys (plain_state xs a)"
proof -
  show c: "plain_state [] a = a" "plain_state (x # xs) a = plain_state xs (snd (plain_op x a))" for x xs a
    by (simp_all add: plain_state_def split_beta Let_def)
  show "plain_state (xs @ ys) a = plain_state ys (plain_state xs a)" by (induction xs arbitrary: a) (simp_all add: c)
qed

text \<open>The screens a sequence of operations has at its ticks, each just before the tick.\<close>

primrec tick_screens :: "blink_op list \<Rightarrow> blink list \<times> (u32 \<Rightarrow> u8) \<Rightarrow> (u32 \<Rightarrow> u8) list" where
  "tick_screens [] a = []"
| "tick_screens (x # xs) a = (if x = Tick then [snd a] else []) @ tick_screens xs (snd (plain_op x a))"

lemma tick_screens_append: "tick_screens (xs @ ys) a = tick_screens xs a @ tick_screens ys (plain_state xs a)"
  by (induction xs arbitrary: a) (simp_all add: plain_state_simps)

definition cell_adds :: "blink \<Rightarrow> (u16 \<times> u8 \<times> u8) list \<Rightarrow> blink_op list" where
  "cell_adds b xs = map (\<lambda>x. Add (set_cell b x)) xs"

lemma cell_adds_simps [simp]: "cell_adds b [] = []" "cell_adds b (x # xs) = Add (set_cell b x) # cell_adds b xs"
  "cell_adds b (xs @ ys) = cell_adds b xs @ cell_adds b ys" "tick_screens (cell_adds b xs) a = []"
proof -
  show "tick_screens (cell_adds b xs) a = []" by (induction xs arbitrary: a) (simp_all add: cell_adds_def)
qed (simp_all add: cell_adds_def)

text \<open>The list of the program and the screen are those of a plain list, in which no location lies beyond the screen.\<close>

definition drawn :: "fish \<Rightarrow> (u32 \<Rightarrow> u8) \<Rightarrow> blink list \<times> (u32 \<Rightarrow> u8) \<Rightarrow> bool" where
  "drawn f v a \<longleftrightarrow> shows_blinks (f\<lparr>video := v\<rparr>) a \<and> (\<forall>b\<in>set (fst a). location b < 2000)"

lemma drawn_screen: "drawn f v a \<Longrightarrow> snd a = v"
  by (auto simp: drawn_def shows_blinks_def)

lemma blink_cell: "location b < 2000 \<Longrightarrow> video_cell (cell_offset b)"
proof -
  assume "location b < 2000"
  then have "unat (location b) < 2000" by (simp add: word_less_nat_alt)
  moreover have "unat (cell_offset b) = 2 * unat (location b)"
  proof -
    have "unat (location b) < 2 ^ 16" using unsigned_less [of "location b"] by simp
    then have u: "unat (ucast (location b) :: u32) = unat (location b)" by (simp add: unsigned_ucast_eq take_bit_eq_mod)
    have "unat (ucast (location b) * 2 :: u32) = unat (location b) * 2"
      using \<open>unat (location b) < 2 ^ 16\<close> u by (subst unat_mult_lem [THEN iffD1]) simp_all
    then show ?thesis by (simp add: cell_offset_def push_bit_eq_mult)
  qed
  moreover have "\<not> bit (cell_offset b) 0" unfolding cell_offset_def by (subst bit_push_bit_iff) simp
  ultimately show ?thesis by (simp add: video_cell_def word_less_nat_alt)
qed

lemma change_first_all: "\<forall>x\<in>set xs. Q x \<Longrightarrow> (\<And>x. Q x \<Longrightarrow> \<forall>y\<in>set (g x). Q y) \<Longrightarrow> \<forall>x\<in>set (change_first P g xs). Q x"
  by (induction xs) auto

lemma tick_cells:
  assumes "\<forall>b\<in>set bs. location b < 2000" "\<not> video_cell k"
  shows "fold tick_video bs v k = v k"
  using assms(1)
proof (induction bs arbitrary: v)
  case (Cons b bs)
  then have "tick_video b v k = v k" using blink_cell [of b] assms(2) by (auto simp: tick_video_def)
  then show ?case using Cons by simp
qed simp

lemma plain_op_cells:
  assumes "\<forall>b\<in>set (fst a). location b < 2000" "\<not> video_cell k"
  shows "\<forall>b\<in>set (fst (snd (plain_op x a))). location b < 2000" "snd (snd (plain_op x a)) k = snd a k"
proof -
  obtain bs v where a: "a = (bs, v)" by fastforce
  have bs: "\<forall>b\<in>set bs. location b < 2000" using assms(1) a by simp
  have c: "k \<noteq> cell_offset b" if "location b < 2000" for b using blink_cell [OF that] assms(2) by blast
  have f: "location b < 2000" if "find P bs = Some b" for P b using bs that by (auto simp: find_Some_iff)
  have g: "\<forall>b\<in>set (change_first P g bs). location b < 2000" if "\<And>b. location b < 2000 \<Longrightarrow> \<forall>c\<in>set (g b). location c < 2000" for P g
    using bs that by (rule change_first_all)
  show "\<forall>b\<in>set (fst (snd (plain_op x a))). location b < 2000"
  proof (cases x)
    case (Add b)
    then show ?thesis using bs a by (auto simp: not_le)
  next
    case (Remove arg)
    then show ?thesis using bs a g [of "\<lambda>_. []"] by simp
  next
    case (Sync arg)
    have "\<forall>b\<in>set (change_first P (\<lambda>b. [synced y b]) bs). location b < 2000" for P y by (rule g) (simp add: synced_def)
    then show ?thesis using Sync bs a by (simp split: option.split)
  next
    case Tick
    then show ?thesis using bs a by simp
  qed
  show "snd (snd (plain_op x a)) k = snd a k"
    using c f tick_cells [OF bs assms(2)] unfolding a by (cases x) (auto simp: not_le split: option.split)
qed

lemma op_drawn:
  assumes "drawn f v a" "op_ok x"
  shows "\<exists>r f'. run_op x (f\<lparr>video := v\<rparr>) = Some (r, f') \<and> video f' = snd (plain_state [x] a) \<and> drawn f' (video f') (plain_state [x] a)"
proof -
  obtain r f' a' where "run_op x (f\<lparr>video := v\<rparr>) = Some (r, f')" "plain_op x a = (r, a')" "shows_blinks f' a'"
    using op_refines [OF _ assms(2)] assms(1) unfolding drawn_def by blast
  moreover have "\<not> video_cell 1" by (simp add: video_cell_def)
  then have "\<forall>b\<in>set (fst (snd (plain_op x a))). location b < 2000" using assms(1) by (intro plain_op_cells(1)) (auto simp: drawn_def)
  moreover have "video f' = snd a'" "f'\<lparr>video := video f'\<rparr> = f'" using calculation(3) by (auto simp: shows_blinks_def)
  ultimately show ?thesis by (auto simp: drawn_def plain_state_simps)
qed

text \<open>What drawing relies on: the characters of the screen can be seen and stored.\<close>

locale window_user =
  fixes win :: "'s window" and base :: u32 and inv :: "'s \<Rightarrow> bool" and scr :: "'s \<Rightarrow> u32 \<Rightarrow> u8"
  assumes look_law: "inv s \<Longrightarrow> look win base s = Some (scr s)"
    and scr_cells: "inv s \<Longrightarrow> \<not> video_cell k \<Longrightarrow> scr s k = 0"
    and draw_law: "inv s \<Longrightarrow> \<forall>k. \<not> video_cell k \<longrightarrow> v k = 0 \<Longrightarrow> \<exists>s'. draw win base v s = Some s' \<and> inv s' \<and> scr s' = v"
begin

lemma call_runs:
  assumes "inv s" "drawn f (scr s) a" "op_ok x"
  shows "\<exists>r f' s' v. mp1_call win base x f s = Some (r, f', s') \<and> draw win base v s = Some s' \<and> inv s' \<and> drawn f' (scr s') (plain_state [x] a)"
proof -
  obtain r f' where f: "run_op x (f\<lparr>video := scr s\<rparr>) = Some (r, f')" "video f' = snd (plain_state [x] a)" "drawn f' (video f') (plain_state [x] a)"
    using op_drawn [OF assms(2,3)] by blast
  have "video f' k = 0" if "\<not> video_cell k" for k
    using plain_op_cells(2) [OF _ that, of a x] assms(2) scr_cells [OF assms(1) that] drawn_screen [OF assms(2)]
    by (simp add: f(2) drawn_def plain_state_simps)
  then obtain s' where s: "draw win base (video f') s = Some s'" "inv s'" "scr s' = video f'" using draw_law [OF assms(1)] by blast
  then have "mp1_call win base x f s = Some (r, f', s')" using look_law [OF assms(1)] f(1) by (simp add: mp1_call_def)
  then show ?thesis using f(3) s by auto
qed

end

text \<open>What the program relies on besides: a read of one byte delivers the next byte of its file, reading or closing one file
  leaves the other ones and the screen alone, and drawing leaves the files alone; the clock can be read, and each read notes what the screen shows.\<close>

locale fish_user = window_user +
  fixes os :: "'a os" and rest :: "u32 \<Rightarrow> 'a \<Rightarrow> u8 list option" and rtc_fd :: u32 and seen :: "'a \<Rightarrow> 'l list" and shown :: "(u32 \<Rightarrow> u8) \<Rightarrow> 'l"
  assumes draw_keeps: "inv s \<Longrightarrow> draw win base v s = Some s' \<Longrightarrow> rest fd s' = rest fd s \<and> seen s' = seen s"
    and byte_law: "inv s \<Longrightarrow> rest fd s = Some xs \<Longrightarrow>
      \<exists>s'. sys_read os fd [c] 1 s = Some (if xs = [] then 0 else 1, [if xs = [] then c else hd xs], s') \<and> inv s' \<and> scr s' = scr s \<and> seen s' = seen s \<and>
        rest fd s' = Some (tl xs) \<and> (\<forall>fd'. fd' \<noteq> fd \<longrightarrow> rest fd' s' = rest fd' s)"
    and shut_law: "inv s \<Longrightarrow> rest fd s = Some xs \<Longrightarrow>
      \<exists>r s'. sys_close os fd s = Some (r, s') \<and> inv s' \<and> scr s' = scr s \<and> seen s' = seen s \<and> (\<forall>fd'. fd' \<noteq> fd \<longrightarrow> rest fd' s' = rest fd' s)"
    and tick_law: "inv s \<Longrightarrow> length g = 4 \<Longrightarrow>
      \<exists>r g' s'. sys_read os rtc_fd g 4 s = Some (r, g', s') \<and> length g' = 4 \<and> inv s' \<and> scr s' = scr s \<and> seen s' = seen s @ [shown (scr s)]"
begin

lemma next_char_read:
  assumes "inv s" "rest fd s = Some xs"
  shows "\<exists>s'. next_char os fd c e s = Some (row_char c xs, e \<or> (c \<noteq> NEWLINE \<and> xs = []), s') \<and> inv s' \<and> scr s' = scr s \<and> seen s' = seen s \<and>
    rest fd s' = Some (if c = NEWLINE then xs else tl xs) \<and> (\<forall>fd'. fd' \<noteq> fd \<longrightarrow> rest fd' s' = rest fd' s)"
proof (cases "c = NEWLINE")
  case True
  then show ?thesis using assms by (simp add: next_char_def row_char_def row_left_def)
next
  case False
  then show ?thesis using byte_law [OF assms, of c] by (cases xs) (auto simp: next_char_def row_char_def row_left_def)
qed

lemma frame_row_read:
  assumes "inv s" "rest fd0 s = Some xs0" "rest fd1 s = Some xs1" "fd0 \<noteq> fd1" "drawn f (scr s) a"
    "\<forall>x\<in>set (cells (row * 80 + col + 40) (row_left c0 xs0) (row_left c1 xs1)). fst x \<noteq> 0"
  shows "\<exists>b' f' s'. frame_row os win base fd0 fd1 row col (c0, e0, c1, e1) b f s = Some (e0 \<or> row_eof c0 xs0, e1 \<or> row_eof c1 xs1, b', f', s') \<and>
    inv s' \<and> seen s' = seen s \<and> rest fd0 s' = Some (row_rest c0 xs0) \<and> rest fd1 s' = Some (row_rest c1 xs1) \<and> set_cell b' = set_cell b \<and>
    drawn f' (scr s') (plain_state (cell_adds b (cells (row * 80 + col + 40) (row_left c0 xs0) (row_left c1 xs1))) a)"
  using assms(1-3,5,6)
proof (induction "length (row_left c0 xs0) + length (row_left c1 xs1)" arbitrary: s xs0 xs1 col c0 e0 c1 e1 b f a rule: less_induct)
  case less
  let ?y0 = "if c0 = NEWLINE then xs0 else tl xs0" and ?y1 = "if c1 = NEWLINE then xs1 else tl xs1"
  let ?c0 = "row_char c0 xs0" and ?c1 = "row_char c1 xs1" and ?l0 = "row_left c0 xs0" and ?l1 = "row_left c1 xs1"
  let ?e0 = "e0 \<or> (c0 \<noteq> NEWLINE \<and> xs0 = [])" and ?e1 = "e1 \<or> (c1 \<noteq> NEWLINE \<and> xs1 = [])"
  note n0 = row_char_step [of c0 xs0] and n1 = row_char_step [of c1 xs1]
  obtain t where t: "next_char os fd0 c0 e0 s = Some (?c0, ?e0, t)" "inv t" "rest fd0 t = Some ?y0" "rest fd1 t = Some xs1" "scr t = scr s" "seen t = seen s"
    using next_char_read [OF less.prems(1,2)] less.prems(3) assms(4) by metis
  obtain u where u: "next_char os fd1 c1 e1 t = Some (?c1, ?e1, u)" "inv u" "rest fd1 u = Some ?y1" "rest fd0 u = Some ?y0" "scr u = scr s" "seen u = seen s"
    using next_char_read [OF t(2,4)] t(3,5,6) assms(4) by metis
  have e: "?e0 \<or> row_eof ?c0 ?y0 \<longleftrightarrow> e0 \<or> row_eof c0 xs0" "?e1 \<or> row_eof ?c1 ?y1 \<longleftrightarrow> e1 \<or> row_eof c1 xs1" using n0(3) n1(3) by blast+
  have du: "drawn f (scr u) a" using less.prems(4) u(5) by simp
  show ?case
  proof (cases "?l0 = [] \<and> ?l1 = []")
    case True
    then have c: "?c0 = NEWLINE" "?c1 = NEWLINE" using n0(6) n1(6) by simp_all
    then have "frame_row os win base fd0 fd1 row col (c0, e0, c1, e1) b f s = Some (?e0, ?e1, b, f, u)" using t(1) u(1) by (subst frame_row.simps) simp
    moreover have "?e0 \<longleftrightarrow> e0 \<or> row_eof c0 xs0" "?e1 \<longleftrightarrow> e1 \<or> row_eof c1 xs1" using e c by (auto simp: row_eof_def)
    moreover have "?y0 = row_rest c0 xs0" "?y1 = row_rest c1 xs1" using n0(2) n1(2) c by (simp_all add: row_rest_def [of NEWLINE])
    moreover have "cells (row * 80 + col + 40) ?l0 ?l1 = []" using True by (subst cells.simps) simp
    ultimately show ?thesis using u(2-4,6) du by (intro exI [of _ b] exI [of _ f] exI [of _ u]) (simp add: plain_state_simps)
  next
    case False
    let ?x = "(of_nat (row * 80 + col + 40), first_or_blank ?l0, first_or_blank ?l1) :: u16 \<times> u8 \<times> u8"
    let ?v = "visible ?c0 \<or> visible ?c1" and ?cs = "cells (row * 80 + (col + 1) + 40) (tl ?l0) (tl ?l1)"
    let ?b = "if ?v then set_cell b ?x else b" and ?xs = "if ?v then [?x] else []"
    have sb: "set_cell ?b = set_cell b" by (simp add: set_cell_def fun_eq_iff)
    have c: "cells (row * 80 + col + 40) ?l0 ?l1 = ?xs @ ?cs"
    proof -
      have "row * 80 + col + 40 + 1 = row * 80 + (col + 1) + 40" by simp
      then show ?thesis using False n0(5) n1(5) by (subst cells.simps) (simp only: if_False)
    qed
    have z: "\<forall>x\<in>set ?xs. fst x \<noteq> 0" "\<forall>x\<in>set ?cs. fst x \<noteq> 0" using less.prems(5) unfolding c by (auto simp only: set_append)
    obtain f1 v where v: "(if ?v then let b = set_cell b ?x in do { (_, f, s) \<leftarrow> mp1_call win base (Add b) f u; Some (b, f, s) } else Some (b, f, u)) = Some (?b, f1, v)"
        "inv v" "seen v = seen s" "\<forall>fd. rest fd v = rest fd u" "drawn f1 (scr v) (plain_state (cell_adds b ?xs) a)"
    proof (cases ?v)
      case True
      then have "op_ok (Add (set_cell b ?x))" using z(1) by (simp add: set_cell_def)
      from call_runs [OF u(2) du this] obtain r f1 v w where v: "mp1_call win base (Add (set_cell b ?x)) f u = Some (r, f1, v)" "draw win base w u = Some v" "inv v"
        "drawn f1 (scr v) (plain_state [Add (set_cell b ?x)] a)" by blast
      from True v(1) have "(if ?v then let b = set_cell b ?x in do { (_, f, s) \<leftarrow> mp1_call win base (Add b) f u; Some (b, f, s) } else Some (b, f, u)) = Some (?b, f1, v)"
        by (simp only: if_True Let_def Option.bind.bind_lunit prod.case)
      moreover have "seen v = seen s" "\<forall>fd. rest fd v = rest fd u" using draw_keeps [OF u(2) v(2)] u(6) by simp_all
      moreover have "cell_adds b ?xs = [Add (set_cell b ?x)]" unfolding if_P [OF True] by simp
      ultimately show thesis using that v(3,4) by simp
    next
      case False
      then show thesis using that [of f u] u(2,6) du by (simp add: plain_state_simps)
    qed
    have rv: "rest fd0 v = Some ?y0" "rest fd1 v = Some ?y1" using v(4) u(3,4) by simp_all
    have sm: "length (row_left ?c0 ?y0) + length (row_left ?c1 ?y1) < length ?l0 + length ?l1" using n0(1) n1(1) False by (cases ?l0; cases ?l1) simp_all
    have zs: "\<forall>x\<in>set (cells (row * 80 + (col + 1) + 40) (row_left ?c0 ?y0) (row_left ?c1 ?y1)). fst x \<noteq> 0" using z(2) unfolding n0(1) n1(1) .
    from less.hyps [OF sm v(2) rv v(5) zs, of ?e0 ?e1 ?b] obtain b' f' s' where
      i: "frame_row os win base fd0 fd1 row (col + 1) (?c0, ?e0, ?c1, ?e1) ?b f1 v = Some (e0 \<or> row_eof c0 xs0, e1 \<or> row_eof c1 xs1, b', f', s')"
        "inv s'" "seen s' = seen v" "rest fd0 s' = Some (row_rest c0 xs0)" "rest fd1 s' = Some (row_rest c1 xs1)" "set_cell b' = set_cell b"
        "drawn f' (scr s') (plain_state (cell_adds ?b ?cs) (plain_state (cell_adds b ?xs) a))"
      unfolding n0(1,2) n1(1,2) e sb by blast
    have "\<not> (?c0 = NEWLINE \<and> ?c1 = NEWLINE)" using n0(6) n1(6) False by simp
    then have "frame_row os win base fd0 fd1 row col (c0, e0, c1, e1) b f s = frame_row os win base fd0 fd1 row (col + 1) (?c0, ?e0, ?c1, ?e1) ?b f1 v"
      by (subst frame_row.simps) (simp only: t(1) u(1) v(1) prod.case Option.bind.bind_lunit if_False n0(4) n1(4))
    moreover have "cell_adds ?b ?cs = cell_adds b ?cs" by (simp add: cell_adds_def sb)
    ultimately show ?thesis using i v(3) unfolding c by (intro exI [of _ b'] exI [of _ f'] exI [of _ s']) (simp add: plain_state_simps)
  qed
qed

lemma frame_rows_read:
  assumes "inv s" "rest fd0 s = Some xs0" "rest fd1 s = Some xs1" "fd0 \<noteq> fd1" "length (lines_of xs0) = length (lines_of xs1)"
    "drawn f (scr s) a" "\<forall>x\<in>set (frame_cells row (lines_of xs0) (lines_of xs1)). fst x \<noteq> 0"
  shows "\<exists>f' s'. frame_rows os win base fd0 fd1 row (0x30, False, 0x30, False) b f s = Some (f', s') \<and> inv s' \<and> seen s' = seen s \<and>
    drawn f' (scr s') (plain_state (cell_adds b (frame_cells row (lines_of xs0) (lines_of xs1))) a)"
  using assms(1-3,5-7)
proof (induction "length xs0" arbitrary: s xs0 xs1 row b f a rule: less_induct)
  case less
  let ?c = "0x30 :: u8"
  note l0 = lines_of_rows [of xs0] and l1 = lines_of_rows [of xs1]
  have hd: "row_left ?c xs0 = hd (lines_of xs0)" "row_left ?c xs1 = hd (lines_of xs1)" by (simp_all add: row_left_def l0(1) l1(1))
  let ?h = "cells (row * 80 + 40) (hd (lines_of xs0)) (hd (lines_of xs1))" and ?tl = "frame_cells (row + 1) (tl (lines_of xs0)) (tl (lines_of xs1))"
  have cons: "frame_cells row (lines_of xs0) (lines_of xs1) = ?h @ ?tl" by (cases "lines_of xs0"; cases "lines_of xs1") simp_all
  have z: "\<forall>x\<in>set (cells (row * 80 + 0 + 40) (row_left ?c xs0) (row_left ?c xs1)). fst x \<noteq> 0" "\<forall>x\<in>set ?tl. fst x \<noteq> 0"
    using less.prems(6) unfolding cons hd by (auto simp only: set_append add_0_right)
  obtain b' f1 t where t: "frame_row os win base fd0 fd1 row 0 (?c, False, ?c, False) b f s = Some (row_eof ?c xs0, row_eof ?c xs1, b', f1, t)"
      "inv t" "rest fd0 t = Some (row_rest ?c xs0)" "rest fd1 t = Some (row_rest ?c xs1)" "set_cell b' = set_cell b" "seen t = seen s"
      "drawn f1 (scr t) (plain_state (cell_adds b ?h) a)"
    using frame_row_read [OF less.prems(1-3) assms(4) less.prems(5) z(1), of False False b] unfolding hd by auto
  have same: "NEWLINE \<in> set xs0 \<longleftrightarrow> NEWLINE \<in> set xs1" using less.prems(4) l0(3) l1(3) by (metis length_0_conv length_tl)
  show ?case
  proof (cases "NEWLINE \<in> set xs0")
    case True
    have e: "row_eof ?c xs0 = False" "row_eof ?c xs1 = False" using True same by (simp_all add: row_eof_def)
    have r: "lines_of (row_rest ?c xs0) = tl (lines_of xs0)" "lines_of (row_rest ?c xs1) = tl (lines_of xs1)" using l0(2) l1(2) True same by (simp_all add: row_rest_def)
    have "length (row_rest ?c xs0) < length xs0" using True by (cases xs0) (auto simp: row_rest_def)
    from less.hyps [OF this t(2-4) _ t(7), of "row + 1" b'] less.prems(4) z(2) obtain f' s' where
      "frame_rows os win base fd0 fd1 (row + 1) (?c, False, ?c, False) b' f1 t = Some (f', s')" "inv s'" "seen s' = seen t"
      "drawn f' (scr s') (plain_state (cell_adds b' ?tl) (plain_state (cell_adds b ?h) a))" unfolding r by auto
    moreover have "cell_adds b' ?tl = cell_adds b ?tl" by (simp add: cell_adds_def t(5))
    ultimately show ?thesis using t(1,6) e unfolding cons by (subst frame_rows.simps) (simp add: row_end_def plain_state_simps)
  next
    case False
    have e: "row_eof ?c xs0 = True" "row_eof ?c xs1 = True" using False same by (simp_all add: row_eof_def)
    obtain r u where u: "sys_close os fd0 t = Some (r, u)" "inv u" "rest fd1 u = Some (row_rest ?c xs1)" "scr u = scr t" "seen u = seen t"
      using shut_law [OF t(2,3)] t(4) assms(4) by metis
    obtain r' v where v: "sys_close os fd1 u = Some (r', v)" "inv v" "scr v = scr u" "seen v = seen u" using shut_law [OF u(2,3)] by blast
    have "?tl = []" using l0(3) False by simp
    moreover have "frame_rows os win base fd0 fd1 (row + 1) (NEWLINE, True, NEWLINE, True) b' f1 v = Some (f1, v)" by (subst frame_rows.simps) simp
    ultimately show ?thesis using t(1,6,7) e u v unfolding cons by (subst frame_rows.simps) (simp add: row_end_def)
  qed
qed

lemma blink_for_runs:
  assumes "inv s" "length g = 4" "drawn f (scr s) a"
  shows "\<exists>g' f' s'. blink_for os win base rtc_fd n (g, f, s) = Some (g', f', s') \<and> length g' = 4 \<and> inv s' \<and>
    drawn f' (scr s') (plain_state (replicate n Tick) a) \<and> seen s' = seen s @ map shown (tick_screens (replicate n Tick) a)"
  using assms
proof (induction n arbitrary: g f s a)
  case (Suc n)
  obtain r g' t where t: "sys_read os rtc_fd g 4 s = Some (r, g', t)" "length g' = 4" "inv t" "scr t = scr s" "seen t = seen s @ [shown (scr s)]"
    using tick_law [OF Suc.prems(1,2)] by blast
  have "drawn f (scr t) a" using Suc.prems(3) t(4) by simp
  from call_runs [OF t(3) this, of Tick] obtain r' f' u v where
    u: "mp1_call win base Tick f t = Some (r', f', u)" "draw win base v t = Some u" "inv u" "drawn f' (scr u) (plain_state [Tick] a)" by auto
  have "seen u = seen t" using draw_keeps [OF t(3) u(2)] by simp
  with Suc.IH [OF u(3) t(2) u(4)] t(1,5) u(1) drawn_screen [OF Suc.prems(3)] show ?case by (auto simp: plain_state_simps)
qed (simp add: plain_state_simps)

end

end
