(* ===== verification/User_Search.thy ===== *)
theory User_Search
  imports User_Grep
begin

text \<open>
  \<open>grep\<close> on this kernel. The directory is listed while its files are searched, and the kernel keeps one position for all
  listings, which looking up a name moves. The search of a file leaves the position at the entry of that file, so
  that the listing goes on with the next one.
\<close>

section \<open>The files of a search\<close>

definition dot_open :: "pcb \<Rightarrow> bool" where
  "dot_open p \<longleftrightarrow> fop (file_array p ! 2) = Some Dir_ops \<and> holds_string (name_view p 2) (text_of ''.'')"

text \<open>A listing is at the entry \<open>j\<close>, the descriptors \<open>fds\<close> are in use, and every file that is open is that entry.\<close>

definition tracked ::
    "nat set \<Rightarrow> nat \<Rightarrow> u32 \<Rightarrow> u32 \<Rightarrow> ('a kernel_scheme \<Rightarrow> 'a kernel_scheme) list \<Rightarrow> 'a kernel_scheme \<Rightarrow> 'a kernel_scheme \<Rightarrow> bool" where
  "tracked fds j area pa hs s0 s \<longleftrightarrow> running area pa hs s0 s \<and> fs_dir_read_flag (fs s) = 1 \<and> file_pos_keeper (fs s) = int j \<and> used_fds s = fds \<and>
     (\<exists>p. curr_pcb s = Some p \<and> dot_open p \<and>
       (\<forall>fd<8. fop (file_array p ! fd) = Some File_ops \<longrightarrow> lookup_name (ram s) (fs s) (fd_name p fd) = Some j))"

lemma tracked_ready:
  assumes "tracked fds j area pa hs s0 s"
  obtains p where "program_ready area pa s" "running area pa hs s0 s" "curr_pcb s = Some p" "files_ok p" "dot_open p" "used_fds s = fds"
    "fs_dir_read_flag (fs s) = 1" "file_pos_keeper (fs s) = int j"
    "\<forall>fd<8. fop (file_array p ! fd) = Some File_ops \<longrightarrow> lookup_name (ram s) (fs s) (fd_name p fd) = Some j"
proof -
  from assms obtain p where "program_ready area pa s" "running area pa hs s0 s" "curr_pcb s = Some p" "dot_open p" "used_fds s = fds"
    "fs_dir_read_flag (fs s) = 1" "file_pos_keeper (fs s) = int j"
    "\<forall>fd<8. fop (file_array p ! fd) = Some File_ops \<longrightarrow> lookup_name (ram s) (fs s) (fd_name p fd) = Some j"
    by (auto simp: tracked_def running_def)
  moreover from this have "files_ok p" by (auto simp: program_ready_def)
  ultimately show ?thesis using that by blast
qed

lemma file_in_use:
  assumes "files_ok p" "curr_pcb s = Some p" "fop (file_array p ! fd) = Some File_ops" "fd < 8"
  shows "fd \<in> used_fds s"
proof -
  have n: "node_ok fd (file_array p ! fd)" "fop (file_array p ! 0) = Some Stdin_ops" "fop (file_array p ! 1) = Some Stdout_ops"
    using assms(1,4) by (simp_all add: files_ok_def)
  have "fd \<noteq> 0" using n(2) assms(3) by (intro notI) simp
  moreover have "fd \<noteq> 1" using n(3) assms(3) by (intro notI) simp
  moreover have "flags (file_array p ! fd) = 1" using n(1) assms(3) by (simp add: node_ok_def)
  ultimately show ?thesis using used_fds_pcb [OF assms(2)] assms(4) by auto
qed

lemma tracked_step:
  assumes t: "tracked fds j area pa hs s0 s" "curr_pcb s = Some p"
    and k: "keeps s t" "program_ready area pa t" "quiet hs \<Longrightarrow> call_step s t"
    and q: "curr_pcb t = Some q" "file_names q = file_names p"
      "\<And>fd. fd < 8 \<Longrightarrow> fop (file_array q ! fd) = fop (file_array p ! fd) \<and> flags (file_array q ! fd) = flags (file_array p ! fd)"
    and f: "fs_dir_read_flag (fs t) = 1" "file_pos_keeper (fs t) = int j"
  shows "tracked fds j area pa hs s0 t"
proof -
  from tracked_ready [OF t(1)] t(2) have
    s: "program_ready area pa s" "running area pa hs s0 s" "dot_open p" "used_fds s = fds"
      "\<forall>fd<8. fop (file_array p ! fd) = Some File_ops \<longrightarrow> lookup_name (ram s) (fs s) (fd_name p fd) = Some j" by auto
  have "fd \<in> used_fds t \<longleftrightarrow> fd \<in> used_fds s" for fd using used_fds_pcb [OF t(2), of fd] used_fds_pcb [OF q(1), of fd] q(3) [of fd] by auto
  then have "used_fds t = fds" using s(4) by blast
  moreover have "dot_open q" using s(3) q(2) q(3) [of 2] by (simp add: dot_open_def name_view_def)
  moreover have "fd_name q fd = fd_name p fd" for fd using q(2) by (simp add: fd_name_def)
  ultimately show ?thesis using running_step [OF s(2) k] f q(1,3) s(5) keeps_lookup(2) [OF s(1) k(1)] by (auto simp: tracked_def)
qed

lemma close_step:
  assumes "quiet hs" "curr_pcb s = Some p" "sys_close (kernel_os hs area) fd s = Some (r, s')"
  shows "call_step s s'"
proof -
  have "syscall hs 0 0 6 fd 0 0 s = Some (Return r, s')"
    using assms(3) by (auto simp: kernel_os_def plain_call_def split: bind_splits transfer.splits)
  from syscall_step [OF this _ _ assms(1,2)] show ?thesis by simp
qed

interpretation kernel_search: file_searcher "kernel_os (hs :: ('a kernel_scheme \<Rightarrow> 'a kernel_scheme) list) area" "tracked {2, 3} j area pa hs s0" tty
  file_rest "tracked {2} j area pa hs s0"
proof
  fix s :: "'a kernel_scheme" and n and b :: "u8 list"
  assume a: "tracked {2, 3} j area pa hs s0 s" "n \<le> length b" "length b \<le> 2048"
  obtain p where p: "program_ready area pa s" "curr_pcb s = Some p" "fs_dir_read_flag (fs s) = 1" "file_pos_keeper (fs s) = int j"
    by (rule tracked_ready [OF a(1)])
  obtain t where t: "sys_write (kernel_os hs area) 1 b (of_nat n) s = Some (of_nat n + 1, t)" "program_ready area pa t"
      "tty t = tty_write (take n b) (tty s)" "keeps s t" "curr_pcb t = curr_pcb s" "fs t = fs s"
    using kernel_write [OF p(1) a(2,3)] by blast
  have "tracked {2, 3} j area pa hs s0 t"
    by (rule tracked_step [OF a(1) p(2) t(4,2) kernel_os_step(1) [OF _ p(2) t(1)]]) (use t(5,6) p in simp_all)
  then show "\<exists>s'. sys_write (kernel_os hs area) 1 b (of_nat n) s = Some (of_nat n + 1, s') \<and> tracked {2, 3} j area pa hs s0 s' \<and>
      tty s' = tty_write (take n b) (tty s)" using t(1,3) by blast
next
  fix s s' :: "'a kernel_scheme" and n r fd and b :: "u8 list"
  assume a: "tracked {2, 3} j area pa hs s0 s" "n \<le> length b" "length b \<le> 2048" "sys_write (kernel_os hs area) 1 b (of_nat n) s = Some (r, s')"
  then have "running area pa hs s0 s" by (simp add: tracked_def)
  from kernel_files.write_keeps [OF this a(2-4)] show "file_rest fd s' = file_rest fd s" .
next
  fix s :: "'a kernel_scheme" and fd xs k n and b :: "u8 list"
  assume a: "tracked {2, 3} j area pa hs s0 s" "file_rest fd s = Some xs" "n \<le> length b" "length b \<le> 2048" "n \<le> 1024" "k = min n (length xs)"
  obtain p where p: "program_ready area pa s" "curr_pcb s = Some p" "files_ok p" "fs_dir_read_flag (fs s) = 1"
      "\<forall>fd<8. fop (file_array p ! fd) = Some File_ops \<longrightarrow> lookup_name (ram s) (fs s) (fd_name p fd) = Some j"
    by (rule tracked_ready [OF a(1)])
  have fd: "unat fd < 8" "fop (file_array p ! unat fd) = Some File_ops" using a(2) p(2) by (auto elim: file_rest_cases)
  obtain t x where t: "sys_read (kernel_os hs area) fd b (of_nat n) s = Some (of_nat k, take k xs @ drop k b, t)" "program_ready area pa t"
      "tty t = tty s" "file_rest fd t = Some (drop k xs)" "keeps s t"
      "curr_pcb t = Some (p\<lparr>file_array := (file_array p)[unat fd := (file_array p ! unat fd)\<lparr>file_pos := x\<rparr>]\<rparr>)"
      "fs t = (fs s)\<lparr>file_pos_keeper := int j\<rparr>"
    using kernel_read [OF p(1) a(2-6), of hs] p(2,5) fd by auto
  have "length (file_array p) = 8" using p(3) by (simp add: files_ok_def pcb_shape_def)
  then have same: "fop ((file_array p)[unat fd := (file_array p ! unat fd)\<lparr>file_pos := x\<rparr>] ! i) = fop (file_array p ! i)"
      "flags ((file_array p)[unat fd := (file_array p ! unat fd)\<lparr>file_pos := x\<rparr>] ! i) = flags (file_array p ! i)" if "i < 8" for i
    using that by (cases "i = unat fd"; simp)+
  have "tracked {2, 3} j area pa hs s0 t"
    by (rule tracked_step [OF a(1) p(2) t(5,2) kernel_os_step(2) [OF _ p(2) t(1)] t(6)])
      (use t(7) p(4) same in auto)
  then show "\<exists>s'. sys_read (kernel_os hs area) fd b (of_nat n) s = Some (of_nat k, take k xs @ drop k b, s') \<and> tracked {2, 3} j area pa hs s0 s' \<and>
      tty s' = tty s \<and> file_rest fd s' = Some (drop k xs)" using t by blast
next
  fix s :: "'a kernel_scheme" and fd xs
  assume a: "tracked {2, 3} j area pa hs s0 s" "file_rest fd s = Some xs"
  obtain p where p: "program_ready area pa s" "running area pa hs s0 s" "curr_pcb s = Some p" "files_ok p" "dot_open p" "used_fds s = {2, 3}"
      "fs_dir_read_flag (fs s) = 1" "file_pos_keeper (fs s) = int j"
    by (rule tracked_ready [OF a(1)])
  have fd: "unat fd < 8" "fop (file_array p ! unat fd) = Some File_ops" using a(2) p(3) by (auto elim: file_rest_cases)
  have "unat fd \<in> {2, 3}" "unat fd \<noteq> 2" using file_in_use [OF p(4,3) fd(2,1)] p(5,6) fd(2) by (auto simp: dot_open_def)
  then have u: "unat fd = 3" by blast
  have "fd = of_nat (unat fd)" by simp
  then have three: "fd = of_nat 3" unfolding u .
  obtain t where t: "sys_close (kernel_os hs area) (of_nat 3) s = Some (0, t)" "program_ready area pa t" "tty t = tty s" "keeps s t"
      "used_fds t = used_fds s - {3}" "fs t = fs s"
      "curr_pcb t = Some (p\<lparr>file_array := (file_array p)[3 := closed_node], open_file_num := open_file_num p - 1\<rparr>)"
    using descriptor_closed [OF p(1), of 3 hs] p(3,6) by auto
  have r: "running area pa hs s0 t" by (rule running_step [OF p(2) t(4,2)]) (rule close_step [OF _ p(3) t(1)])
  have "fop ((file_array p)[3 := closed_node] ! i) \<noteq> Some File_ops" if "i < 8" for i
    using file_in_use [OF p(4,3) _ that] p(4-6) that by (cases "i = 3") (auto simp: nth_list_update files_ok_def pcb_shape_def closed_node_def dot_open_def)
  moreover have "dot_open (p\<lparr>file_array := (file_array p)[3 := closed_node], open_file_num := open_file_num p - 1\<rparr>)"
    using p(5) by (simp add: dot_open_def name_view_def)
  ultimately have "tracked {2} j area pa hs s0 t" using r t(5-7) p(6-8) by (auto simp: tracked_def)
  then show "\<exists>s'. sys_close (kernel_os hs area) fd s = Some (0, s') \<and> tracked {2} j area pa hs s0 s' \<and> tty s' = tty s"
    using t(1,3) unfolding three by blast
qed


section \<open>Opening the next file\<close>

lemma name_below:
  assumes "files_ok p" "files_ok q" "take (32 * fd) (file_names q) = take (32 * fd) (file_names p)" "32 * k + length cs < 32 * fd"
    and "holds_string (name_view p k) cs"
  shows "holds_string (name_view q k) cs"
proof -
  have l: "length (file_names p) = 256" "length (file_names q) = 256" using assms(1,2) by (simp_all add: files_ok_def pcb_shape_def)
  have n: "list_view (file_names q) i = list_view (file_names p) i" if "i < 32 * fd" for i
    using arg_cong [OF assms(3), of "\<lambda>xs. list_view xs i"] that l by (cases "i < 256") (simp_all add: list_view_def)
  have "name_view q k i = name_view p k i" if "i \<le> length cs" for i
    using n [of "32 * k + i"] assms(4) that l by (auto simp: name_view_def list_view_def split: if_splits)
  then show ?thesis using assms(5) by (simp add: holds_string_def)
qed

lemma search_opens:
  fixes s :: "'a kernel_scheme"
  assumes t: "tracked {2} k area pa hs s0 s" and b: "length b \<le> 2048" "holds_string (list_view b) nm"
    and n: "lookup_name (ram s) (fs s) nm = Some j" "read32 (ram s) (dentry_addr (fs s) j + 32) = 2" "node_rest (ram s) (fs s) nm 0 = Some xs"
      "length nm < 32" "take 5 nm \<noteq> text_of ''stdin''" "take 6 nm \<noteq> text_of ''stdout''"
  shows "\<exists>s'. sys_open (kernel_os hs area) b s = Some (3, s') \<and> tracked {2, 3} j area pa hs s0 s' \<and> tty s' = tty s \<and> file_rest 3 s' = Some xs"
proof -
  obtain p where p: "program_ready area pa s" "running area pa hs s0 s" "curr_pcb s = Some p" "files_ok p" "dot_open p" "used_fds s = {2}"
      "fs_dir_read_flag (fs s) = 1" by (rule tracked_ready [OF t])
  have "{2..<2 + 1} = {2 :: nat}" by (intro set_eqI) (simp only: atLeastLessThan_iff singleton_iff, arith)
  then have "used_fds s = {2..<2 + 1}" using p(6) by (simp only:)
  from free_fd_next [OF p(3,4) this] have "open_choice (read32 (ram s) (dentry_addr (fs s) j + 32)) p = Some (3, File_ops)"
    unfolding n(2) by (simp add: open_choice_spec)
  with kernel_open [OF p(1,3) b n(4-6), of hs] n(1) obtain u q where
    u: "sys_open (kernel_os hs area) b s = Some (3, u)" "program_ready area pa u" "tty u = tty s" "keeps s u" "curr_pcb u = Some q"
      "opened_as 3 File_ops nm p q" "fs_dir_read_flag (fs u) = 1" "file_pos_keeper (fs u) = int j"
    using p(7) by auto
  have len: "length (file_array p) = 8" using p(4) by (simp add: files_ok_def pcb_shape_def)
  have q: "files_ok q" "file_array q = (file_array p)[3 := opened_node File_ops]" using u(2,5,6) by (auto simp: program_ready_def opened_as_def)
  have "fd \<in> used_fds u \<longleftrightarrow> fd \<in> {2, 3}" for fd
  proof (cases "fd = 3")
    case True
    then show ?thesis using used_fds_pcb [OF u(5), of fd] q(2) len by (simp add: opened_node_def)
  next
    case False
    then show ?thesis using used_fds_pcb [OF u(5), of fd] used_fds_pcb [OF p(3), of fd] p(6) q(2) by auto
  qed
  then have "used_fds u = {2, 3}" by blast
  moreover have "holds_string (name_view q 2) (text_of ''.'')"
    by (rule name_below [OF p(4) q(1), of 3]) (use u(6) p(5) in \<open>simp_all add: opened_as_def dot_open_def text_of_def\<close>)
  then have "dot_open q" using p(5) q(2) by (simp add: dot_open_def)
  moreover have "lookup_name (ram u) (fs u) (fd_name q fd) = Some j" if "fd < 8" "fop (file_array q ! fd) = Some File_ops" for fd
  proof (cases "fd = 3")
    case True
    then have "fd_name q fd = nm" using u(6) name_view_fd by (simp add: opened_as_def)
    then show ?thesis using n(1) keeps_lookup(2) [OF p(1) u(4)] by simp
  next
    case False
    then have f: "fop (file_array p ! fd) = Some File_ops" using that(2) q(2) by simp
    then have "fd = 2" using file_in_use [OF p(4,3) f that(1)] p(6) by simp
    then show ?thesis using f p(5) by (simp add: dot_open_def)
  qed
  moreover have "running area pa hs s0 u" by (rule running_step [OF p(2) u(4,2)]) (rule kernel_os_step(3) [OF _ p(3) u(1)])
  ultimately have "tracked {2, 3} j area pa hs s0 u" using u(5,7,8) by (auto simp: tracked_def)
  moreover have "file_rest (of_nat 3) u = Some xs" using opened_rest [OF p(1) u(4-6) p(4)] n(3) by simp
  ultimately show ?thesis using u(1,3) by auto
qed

section \<open>The listing of the directory\<close>

definition heading :: "nat \<Rightarrow> u32 \<Rightarrow> u32 \<Rightarrow> ('a kernel_scheme \<Rightarrow> 'a kernel_scheme) list \<Rightarrow> 'a kernel_scheme \<Rightarrow> 'a kernel_scheme \<Rightarrow> bool" where
  "heading j area pa hs s0 s \<longleftrightarrow> running area pa hs s0 s \<and> used_fds s = {2} \<and> (\<exists>p. curr_pcb s = Some p \<and> dot_open p) \<and>
     dir_left 2 s = Some (names_from (ram s0) (fs s0) j)"

lemma since_listing:
  assumes "program_ready area pa s0" "running area pa hs s0 s"
  shows "dir_count (ram s) (fs s) = dir_count (ram s0) (fs s0)"
    "j < dir_count (ram s0) (fs s0) \<Longrightarrow> disk_name (ram s) (fs s) j = disk_name (ram s0) (fs s0) j"
    "names_from (ram s) (fs s) i = names_from (ram s0) (fs s0) i"
proof -
  have k: "image_layout (ram s0) (fs s0)" "same_image (fs s0) (ram s0) (ram s)" "same_disk (fs s0) (fs s)"
    using assms by (simp_all add: program_ready_def running_def since_def keeps_def)
  note d = same_disk_names(4,8) [OF k(3)] and si = same_image_listing(1,2) [OF k(1,2)]
  show "dir_count (ram s) (fs s) = dir_count (ram s0) (fs s0)"
    "j < dir_count (ram s0) (fs s0) \<Longrightarrow> disk_name (ram s) (fs s) j = disk_name (ram s0) (fs s0) j"
    "names_from (ram s) (fs s) i = names_from (ram s0) (fs s0) i" using d si by (simp_all add: names_from_def)
qed

lemma tracked_heading:
  assumes "program_ready area pa s0" "tracked {2} j area pa hs s0 s" "j < dir_count (ram s0) (fs s0)"
    and "\<forall>i<dir_count (ram s0) (fs s0). disk_name (ram s0) (fs s0) i \<noteq> []"
  shows "heading (j + 1) area pa hs s0 s"
proof -
  obtain p where p: "running area pa hs s0 s" "curr_pcb s = Some p" "dot_open p" "used_fds s = {2}" "fs_dir_read_flag (fs s) = 1"
      "file_pos_keeper (fs s) = int j" by (rule tracked_ready [OF assms(2)])
  note l = since_listing [OF assms(1) p(1)]
  have "j < 63" using assms(3) by (simp add: dir_count_def)
  then have "names_left (ram s) (fs s) (fd_name p 2) = Some (names_from (ram s0) (fs s0) (j + 1))"
    using p(5,6) assms(4) l by (simp add: names_left_def)
  moreover have "0 \<in> set (drop 64 (file_names p))" using name_view_fd(1) [of p 2 "text_of ''.''"] p(3) by (simp add: dot_open_def)
  ultimately have "dir_left 2 s = Some (names_from (ram s0) (fs s0) (j + 1))" using p(2,3) by (simp add: dir_left_def dot_open_def)
  then show ?thesis using p by (simp add: heading_def)
qed

lemma heading_read:
  fixes s :: "'a kernel_scheme"
  assumes r: "program_ready area pa s0" and h: "heading j area pa hs s0 s" and b: "length b = 33"
  shows "\<exists>s' b'. sys_read (kernel_os hs area) 2 b 32 s =
      Some (if j < dir_count (ram s0) (fs s0) then of_nat (length (disk_name (ram s0) (fs s0) j)) else 0, b', s') \<and>
    running area pa hs s0 s' \<and> tty s' = tty s \<and> length b' = 33 \<and>
    (j < dir_count (ram s0) (fs s0) \<longrightarrow> tracked {2} j area pa hs s0 s' \<and> (\<exists>r. b' = disk_name (ram s0) (fs s0) j @ r) \<and>
      0 < length (disk_name (ram s0) (fs s0) j) \<and> length (disk_name (ram s0) (fs s0) j) \<le> 32)"
proof -
  let ?n = "dir_count (ram s0) (fs s0)" and ?nms = "names_from (ram s0) (fs s0) j"
  obtain p where p: "program_ready area pa s" "running area pa hs s0 s" "used_fds s = {2}" "curr_pcb s = Some p" "dot_open p" "dir_left 2 s = Some ?nms"
    using h by (auto simp: heading_def running_def)
  have fp: "files_ok p" using p(1,4) by (auto simp: program_ready_def)
  obtain t b' where t: "sys_read (kernel_os hs area) 2 b 32 s = Some (case ?nms of [] \<Rightarrow> 0 | nm # _ \<Rightarrow> of_nat (length nm), b', t)"
      "program_ready area pa t" "tty t = tty s" "length b' = 33" "keeps s t" "curr_pcb t = curr_pcb s"
      "\<forall>nm ms. ?nms = nm # ms \<longrightarrow> take (length nm) b' = nm \<and> dir_left 2 t = Some ms \<and> 0 < length nm \<and> length nm \<le> 32 \<and>
        fs_dir_read_flag (fs t) = 1 \<and> file_pos_keeper (fs t) = int (dir_count (ram s) (fs s) - length ?nms)"
    using kernel_dir_read [OF p(1,6) b, of hs] by blast
  have run: "running area pa hs s0 t" by (rule running_step [OF p(2) t(5,2)]) (rule kernel_os_step(2) [OF _ p(4) t(1)])
  show ?thesis
  proof (cases "j < ?n")
    case True
    let ?nm = "disk_name (ram s0) (fs s0) j"
    have nms: "?nms = ?nm # names_from (ram s0) (fs s0) (j + 1)" by (rule names_from_step [OF True])
    have k: "take (length ?nm) b' = ?nm" "0 < length ?nm" "length ?nm \<le> 32" "fs_dir_read_flag (fs t) = 1" "file_pos_keeper (fs t) = int j"
      using t(7) nms since_listing(1) [OF r p(2)] True by (simp_all del: of_nat_diff)
    have none: "fop (file_array p ! fd) \<noteq> Some File_ops" if "fd < 8" for fd
      using file_in_use [OF fp p(4) _ that] p(3,5) by (auto simp: dot_open_def)
    have "used_fds t = {2}" using p(3) t(6) by (simp add: used_fds_def)
    then have "tracked {2} j area pa hs s0 t" using run k(4,5) t(6) p(4,5) none by (simp add: tracked_def)
    moreover have "b' = ?nm @ drop (length ?nm) b'" using k(1) by (metis append_take_drop_id)
    ultimately show ?thesis using t(1,3,4) run k(2,3) True nms by auto
  next
    case False
    then have "?nms = []" by (simp add: names_from_def)
    then show ?thesis using t(1,3,4) run False by auto
  qed
qed

section \<open>grep\<close>

text \<open>A regular file of text, the first entry of its name: no byte of it is 0 and every line is shorter than the array of the program.\<close>

definition text_file :: "memory \<Rightarrow> fsys \<Rightarrow> nat \<Rightarrow> bool" where
  "text_file m f j \<longleftrightarrow> (let nm = disk_name m f j; ino = read32 m (dentry_addr f j + 36) in
     read32 m (dentry_addr f j + 32) = 2 \<and> length nm < 32 \<and> take 5 nm \<noteq> text_of ''stdin'' \<and> take 6 nm \<noteq> text_of ''stdout'' \<and>
     lookup_name m f nm = Some j \<and> file_ok m f ino \<and> 0 \<notin> set (program_bytes m f ino) \<and> short_lines (program_bytes m f ino))"

text \<open>What a search prints of one entry.\<close>

definition searched :: "memory \<Rightarrow> fsys \<Rightarrow> u8 list \<Rightarrow> nat \<Rightarrow> u8 list" where
  "searched m f pat j =
     (if hd (disk_name m f j) = 0x2E then [] else matches pat (disk_name m f j) (program_bytes m f (read32 m (dentry_addr f j + 36))))"

lemma search_file:
  fixes s :: "'a kernel_scheme"
  assumes r: "program_ready area pa s0" and t: "tracked {2} k area pa hs s0 s" and f: "text_file (ram s0) (fs s0) j"
    and b: "search_text search pat" "length b \<le> 2048" "holds_string (list_view b) (disk_name (ram s0) (fs s0) j)"
    and d: "length data = 1025" "data ! 1024 \<noteq> NEWLINE"
  shows "\<exists>s'. do_one_file (kernel_os hs area) search b data s = Some (0, s') \<and> tracked {2} j area pa hs s0 s' \<and>
    tty s' = tty_write (matches pat (disk_name (ram s0) (fs s0) j) (program_bytes (ram s0) (fs s0) (read32 (ram s0) (dentry_addr (fs s0) j + 36)))) (tty s)"
proof -
  let ?nm = "disk_name (ram s0) (fs s0) j" and ?xs = "program_bytes (ram s0) (fs s0) (read32 (ram s0) (dentry_addr (fs s0) j + 36))"
  have n: "read32 (ram s0) (dentry_addr (fs s0) j + 32) = 2" "length ?nm < 32" "take 5 ?nm \<noteq> text_of ''stdin''" "take 6 ?nm \<noteq> text_of ''stdout''"
      "lookup_name (ram s0) (fs s0) ?nm = Some j" "file_ok (ram s0) (fs s0) (read32 (ram s0) (dentry_addr (fs s0) j + 36))"
      "0 \<notin> set ?xs" "short_lines ?xs"
    using f by (simp_all add: text_file_def Let_def)
  have "keeps s0 s" using t by (simp add: tracked_def running_def since_def)
  note kl = keeps_lookup [OF r this]
  have "node_rest (ram s0) (fs s0) ?nm 0 = Some ?xs" using n(5,6) by (simp add: node_rest_def)
  then obtain u where u: "sys_open (kernel_os hs area) b s = Some (3, u)" "tracked {2, 3} j area pa hs s0 u" "tty u = tty s" "file_rest 3 u = Some ?xs"
    using search_opens [OF t b(2,3)] n(1-5) kl by metis
  have "(3 :: u32) \<noteq> ERR" by simp
  from kernel_search.do_one_file_shows [OF b(1,3,2) d n(7,8) u(1) this u(2,4,3)] show ?thesis .
qed

lemma grep_files_shows:
  fixes s :: "'a kernel_scheme" and search pat :: "u8 list"
  assumes r: "program_ready area pa s0"
    and dir: "\<forall>k<dir_count (ram s0) (fs s0). disk_name (ram s0) (fs s0) k \<noteq> []"
      "\<forall>k. i \<le> k \<longrightarrow> k < dir_count (ram s0) (fs s0) \<longrightarrow> hd (disk_name (ram s0) (fs s0) k) \<noteq> 0x2E \<longrightarrow> text_file (ram s0) (fs s0) k"
    and st: "search_text search pat" "\<forall>s. length (loc s) = 1025 \<and> loc s ! 1024 \<noteq> NEWLINE"
    and h: "heading j area pa hs s0 s" "i \<le> j" "length b = 33"
  shows "\<exists>s'. grep_files (kernel_os hs area) loc 2 search b s = Some (0, s') \<and> running area pa hs s0 s' \<and>
    tty s' = tty_write (concat (map (searched (ram s0) (fs s0) pat) [j..<dir_count (ram s0) (fs s0)])) (tty s)"
  using h
proof (induction "dir_count (ram s0) (fs s0) - j" arbitrary: j s b)
  case 0
  then show ?case using heading_read [OF r 0(2,4)] by (subst grep_files.simps) (auto simp: tty_write_def)
next
  case (Suc k)
  let ?n = "dir_count (ram s0) (fs s0)" and ?nm = "disk_name (ram s0) (fs s0) j" and ?os = "kernel_os hs area"
  have j: "j < ?n" using Suc.hyps(2) by simp
  obtain t b' z where t: "sys_read ?os 2 b 32 s = Some (of_nat (length ?nm), b', t)" "tty t = tty s" "length b' = 33" "tracked {2} j area pa hs s0 t"
      "b' = ?nm @ z" "0 < length ?nm" "length ?nm \<le> 32"
    using heading_read [OF r Suc.prems(1,3)] j by auto
  have c: "(of_nat (length ?nm) :: u32) \<noteq> 0" "(of_nat (length ?nm) :: u32) \<noteq> ERR" by (rule small_not_error; use t(6,7) in simp)+
  have u: "unat (of_nat (length ?nm) :: u32) = length ?nm" by (rule unat_offset) (use t(7) in simp)
  have v: "list_view b' 0 = Some (hd ?nm)" using t(3,5,6) by (simp add: nth_append hd_conv_nth)
  have next_step: "\<exists>s'. grep_files ?os loc 2 search d w = Some (0, s') \<and> running area pa hs s0 s' \<and>
      tty s' = tty_write (concat (map (searched (ram s0) (fs s0) pat) [j + 1..<?n])) (tty w)"
    if "tracked {2} j area pa hs s0 w" "length d = 33" for w and d :: "u8 list"
    by (rule Suc.hyps(1)) (use tracked_heading [OF r that(1) j dir(1)] Suc.hyps(2) Suc.prems(2) that(2) in simp_all)
  have ls: "[j..<?n] = j # [j + 1..<?n]" using j by (simp add: upt_conv_Cons)
  show ?case
  proof (cases "hd ?nm = 0x2E")
    case True
    then have "grep_files ?os loc 2 search b s = grep_files ?os loc 2 search b' t" using t(1) c v by (subst grep_files.simps) simp
    then show ?thesis using next_step [OF t(4,3)] t(2) True ls by (simp add: searched_def)
  next
    case False
    let ?b = "b'[length ?nm := 0]"
    have e: "?b = ?nm @ 0 # tl z" "0 \<notin> set ?nm" using t(3,5,7) by (cases z; auto simp: disk_name_def dest: set_takeWhileD)+
    have hs: "holds_string (list_view ?b) ?nm" unfolding e(1) by (intro holds_string_list) (use e(2) in simp_all)
    obtain w where w: "do_one_file ?os search ?b (loc t) t = Some (0, w)" "tracked {2} j area pa hs s0 w"
        "tty w = tty_write (searched (ram s0) (fs s0) pat j) (tty t)"
      using search_file [OF r t(4) _ st(1) _ hs, of "loc t"] dir(2) Suc.prems(2) j False st(2) t(3) by (auto simp: searched_def)
    have "grep_files ?os loc 2 search b s = grep_files ?os loc 2 search ?b w" using t(1,3,7) c v u False w(1) by (subst grep_files.simps) simp
    then show ?thesis using next_step [OF w(2), of ?b] t(2,3) w(3) ls by (simp add: tty_write_def)
  qed
qed

lemma grep_run:
  fixes s :: "'a kernel_scheme"
  assumes r: "program_ready area pa s" "curr_pcb s = Some p" "used_fds s = {}" "length buf = 33" "length search = 1024"
    and arg: "holds_string (list_view (arg_buffer p)) pat" "pat \<noteq> []" "hd pat < 0x80" "length pat < 100"
    and dir: "lookup_name (ram s) (fs s) (text_of ''.'') = Some i" "read32 (ram s) (dentry_addr (fs s) i + 32) = 1" "i < dir_count (ram s) (fs s)"
      "\<forall>j<dir_count (ram s) (fs s). disk_name (ram s) (fs s) j \<noteq> []" "fs_dir_read_flag (fs s) = 0"
    and files: "\<forall>j. i \<le> j \<longrightarrow> j < dir_count (ram s) (fs s) \<longrightarrow> hd (disk_name (ram s) (fs s) j) \<noteq> 0x2E \<longrightarrow> text_file (ram s) (fs s) j"
    and loc: "\<forall>s. length (loc s) = 1025 \<and> loc s ! 1024 \<noteq> NEWLINE"
  shows "\<exists>s'. grep (kernel_os hs area) loc buf search s = Some (0, s') \<and> running area pa hs s s' \<and>
    tty s' = tty_write (concat (map (searched (ram s) (fs s) pat) [i..<dir_count (ram s) (fs s)])) (tty s)"
proof -
  let ?search = "pat @ 0 # drop (length pat + 1) search" and ?os = "kernel_os hs area"
  have sl: "length search \<le> 2048" "length pat < length search" using r(5) arg(4) by simp_all
  obtain t where t: "sys_getargs ?os search 1024 s = Some (0, ?search, t)" "program_ready area pa t" "tty t = tty s" "curr_pcb t = Some p"
      "fs t = fs s" "keeps s t"
    using kernel_getargs [OF r(1,2) sl arg(1,2,4), of hs] by blast
  have "0 \<notin> set pat" using arg(1) by (simp add: holds_string_def)
  then have st: "search_text ?search pat" using arg(2-4) by (simp add: search_text_def) (intro holds_string_list; simp)
  have fp: "files_ok p" using r(1,2) by (auto simp: program_ready_def)
  have "running area pa hs s s" using r(1) since_refl by (simp add: running_def)
  then have rt: "running area pa hs s t" by (rule running_step [OF _ t(6,2)]) (rule kernel_os_step(4) [OF _ r(2) t(1)])
  note l = since_listing [OF r(1) rt] and kl = keeps_lookup [OF r(1) t(6)]
  have none: "used_fds t = {2..<2 + 0}" using r(3) used_fds_pcb [OF r(2)] used_fds_pcb [OF t(4)] by auto
  have free: "free_fd (file_array p) = Some 2" using free_fd_next [OF t(4) fp none] by simp
  have "lookup_name (ram t) (fs t) (text_of ''.'') = Some i" "read32 (ram t) (dentry_addr (fs t) i + 32) = 1" "i < dir_count (ram t) (fs t)"
      "\<forall>j<dir_count (ram t) (fs t). disk_name (ram t) (fs t) j \<noteq> []" "fs_dir_read_flag (fs t) = 0"
    using dir kl l t(5) by simp_all
  from directory_opened [OF t(2,4) this free, of hs] obtain u q where
    u: "sys_open ?os (c_string ''.'') t = Some (2, u)" "program_ready area pa u" "tty u = tty t" "keeps t u" "curr_pcb u = Some q"
      "opened_as 2 Dir_ops (text_of ''.'') p q" "dir_left 2 u = Some (names_from (ram s) (fs s) i)"
    unfolding l(3) by auto
  have ru: "running area pa hs s u" by (rule running_step [OF rt u(4,2)]) (rule kernel_os_step(3) [OF _ t(4) u(1)])
  have len: "length (file_array p) = 8" using fp by (simp add: files_ok_def pcb_shape_def)
  then have d: "dot_open q" using u(6) by (simp add: opened_as_def dot_open_def opened_node_def)
  have "fd \<in> used_fds u \<longleftrightarrow> fd = 2" for fd
  proof (cases "fd = 2")
    case True
    then show ?thesis using used_fds_pcb [OF u(5), of fd] u(6) len by (simp add: opened_as_def opened_node_def)
  next
    case False
    then show ?thesis using used_fds_pcb [OF u(5), of fd] used_fds_pcb [OF t(4), of fd] none u(6) by (auto simp: opened_as_def)
  qed
  then have "used_fds u = {2}" by blast
  then have "heading i area pa hs s u" using ru u(5,7) d by (simp add: heading_def)
  from grep_files_shows [OF r(1) dir(4) files st loc this order_refl r(4)] obtain s' where
    "grep_files ?os loc 2 ?search buf u = Some (0, s')" "running area pa hs s s'"
    "tty s' = tty_write (concat (map (searched (ram s) (fs s) pat) [i..<dir_count (ram s) (fs s)])) (tty u)" by blast
  then show ?thesis using t(1,3) u(1,3) by (simp add: grep_def)
qed


text \<open>A directory with the file \<open>a\<close> of the lines \<open>y\<close> and \<open>zx\<close>, and a program with the argument \<open>x\<close>.\<close>

definition demo_text_ram :: memory where
  "demo_text_ram = demo_dir_ram(0x2000 := 5, 0x3000 := 0x79, 0x3001 := 0xA, 0x3002 := 0x7A, 0x3003 := 0x78, 0x3004 := 0xA)"

definition demo_search_pcb :: pcb where
  "demo_search_pcb = zero_pcb\<lparr>file_array := std_files, open_file_num := 2, arg_buffer := 0x78 # 0 # replicate 98 0\<rparr>"

definition demo_grep :: kernel where
  "demo_grep = demo_kernel\<lparr>ram := demo_text_ram, pcbs := (replicate 6 zero_pcb)[0 := demo_search_pcb]\<rparr>"

lemma demo_search_pcb_ok: "files_ok demo_search_pcb" "flags (file_array demo_search_pcb ! i) = 1 \<Longrightarrow> 2 \<le> i \<Longrightarrow> i < 8 \<Longrightarrow> False"
proof -
  have "pcb_shape demo_search_pcb" "file_array demo_search_pcb = std_files" "open_file_num demo_search_pcb = 2"
    by (simp_all add: pcb_shape_def demo_search_pcb_def zero_pcb_def std_files_def)
  from std_files_ok [OF this] show "files_ok demo_search_pcb" "flags (file_array demo_search_pcb ! i) = 1 \<Longrightarrow> 2 \<le> i \<Longrightarrow> i < 8 \<Longrightarrow> False" by blast+
qed

lemma demo_grep_fields:
  "ram demo_grep = demo_text_ram" "fs demo_grep = demo_files" "mmu demo_grep = mmu demo_shell" "con_inv demo_grep"
  "curr_pcb demo_grep = Some demo_search_pcb"
  by (simp_all add: demo_grep_def demo_kernel_def demo_shell_fields curr_pcb_def con_inv_def)

lemma demo_text_small: "small_image demo_text_ram" "dir_count demo_text_ram demo_files = 2"
  "read32 demo_text_ram (dentry_addr demo_files 0 + 32) = 1" "read32 demo_text_ram (dentry_addr demo_files 1 + 32) = 2"
  "disk_name demo_text_ram demo_files 0 = [0x2E]" "disk_name demo_text_ram demo_files 1 = [0x61]"
  "read32 demo_text_ram (dentry_addr demo_files 1 + 36) = 0" "program_bytes demo_text_ram demo_files 0 = text_of ''y\<newline>zx\<newline>''"
  "file_ok demo_text_ram demo_files 0"
proof -
  show "dir_count demo_text_ram demo_files = 2" "read32 demo_text_ram (dentry_addr demo_files 0 + 32) = 1"
    "read32 demo_text_ram (dentry_addr demo_files 1 + 32) = 2" "read32 demo_text_ram (dentry_addr demo_files 1 + 36) = 0" by code_simp+
  have "demo_text_ram (dentry_addr demo_files 0) = 0x2E" "demo_text_ram (dentry_addr demo_files 0 + 1) = 0"
    "demo_text_ram (dentry_addr demo_files 1) = 0x61" "demo_text_ram (dentry_addr demo_files 1 + 1) = 0" by code_simp+
  then show "disk_name demo_text_ram demo_files 0 = [0x2E]" "disk_name demo_text_ram demo_files 1 = [0x61]" by (simp_all add: one_letter_name)
  have n: "num_inodes demo_text_ram demo_files = 1" "num_data_blocks demo_text_ram demo_files = 1" "inode_length demo_text_ram demo_files 0 = 5"
    "data_block demo_text_ram demo_files 0 0 = 0" by code_simp+
  moreover have "dir_ok demo_text_ram demo_files"
    by (rule demo_terminated; auto simp: demo_text_ram_def demo_dir_ram_def demo_ram_def split: if_splits)
  ultimately show "small_image demo_text_ram" by (simp add: small_image_def)
  show "file_ok demo_text_ram demo_files 0" using n by (simp add: file_ok_def blocks_valid_def)
  have "file_byte demo_text_ram demo_files 0 k = demo_text_ram (0x3000 + of_nat k)" if "k < 5" for k
    using that n by (simp add: file_byte_def) (simp add: demo_files_def)
  moreover have "[0..<5] = [0, 1, 2, 3, 4 :: nat]" by (simp add: upt_rec)
  ultimately show "program_bytes demo_text_ram demo_files 0 = text_of ''y\<newline>zx\<newline>''"
    by (simp add: program_bytes_def n text_of_def) (simp add: demo_text_ram_def)
qed

lemma demo_text_lookup: "lookup_name demo_text_ram demo_files (text_of ''.'') = Some 0" "lookup_name demo_text_ram demo_files [0x61] = Some 1"
proof -
  have "[0..<63] = 0 # 1 # [2..<63]" by (simp add: upt_conv_Cons)
  then show "lookup_name demo_text_ram demo_files (text_of ''.'') = Some 0" "lookup_name demo_text_ram demo_files [0x61] = Some 1"
    using demo_text_small(5,6) by (simp_all add: lookup_name_def name_matches_def text_of_def)
qed


end
