(* ===== verification/Fish_Runs.thy ===== *)
theory Fish_Runs
  imports Fish_Frames User_Search
begin

text \<open>
  The program \<open>fish\<close> on this kernel: the screen mapped by \<open>vidmap\<close>, the frames read from two open files and the clock that paces the
  blinking. The program draws in the memory of the machine: the characters it blinks are those of the kernel's own screen.
\<close>

section \<open>Loads and stores of the program\<close>

text \<open>A load of the program goes through the page tables with the rights of a user. The window at an address is the page that starts there; only the
  characters of the 2000 places are ever stored, which all lie in this page.\<close>

definition user_load :: "'a kernel_scheme \<Rightarrow> u32 \<Rightarrow> u8 option" where
  "user_load s a = map_option (ram s) (translate (mmu s) True a)"

definition window_at :: "'a kernel_scheme \<Rightarrow> u32 \<Rightarrow> u32 option" where
  "window_at s a = (if take_bit 12 a = 0 then translate (mmu s) True a else None)"

definition kernel_window :: "'a kernel_scheme window" where
  "kernel_window = \<lparr>
     load_pointer = \<lambda>a s. if \<forall>i\<in>set [0..<4]. user_load s (a + of_nat i) \<noteq> None then Some (read32 (\<lambda>x. the (user_load s x)) a) else None,
     look = \<lambda>a s. map_option (\<lambda>pa k. if video_cell k then ram s (pa + k) else 0) (window_at s a),
     draw = \<lambda>a v s. map_option (\<lambda>pa. s\<lparr>ram := \<lambda>x. if video_cell (x - pa) then v (x - pa) else ram s x\<rparr>) (window_at s a)\<rparr>"

definition logged_window :: "'s window \<Rightarrow> ('s \<times> 'l list) window" where
  "logged_window win = \<lparr>
     load_pointer = \<lambda>a (s, _). load_pointer win a s,
     look = \<lambda>a (s, _). look win a s,
     draw = \<lambda>a v (s, l). map_option (\<lambda>s. (s, l)) (draw win a v s)\<rparr>"

section \<open>The screen for the program\<close>

lemma write_area_part:
  assumes r: "program_ready area pa s" and k: "k + length b \<le> 2048"
  shows "same_image (fs s) (ram s) (write_bytes (ram s) (pa + of_nat k) b)" "tty (s\<lparr>ram := write_bytes (ram s) (pa + of_nat k) b\<rparr>) = tty s"
proof -
  have w: "write_bytes (ram s) (pa + of_nat k) b x = ram s x" if "\<forall>j<2048. x \<noteq> pa + of_nat j" for x
  proof (rule write_bytes_outside)
    fix i assume "i < length b"
    then show "x \<noteq> pa + of_nat k + of_nat i" using that [rule_format, of "k + i"] k by (simp add: add.assoc)
  qed
  show "same_image (fs s) (ram s) (write_bytes (ram s) (pa + of_nat k) b)"
    unfolding same_image_def using r by (intro ballI w) (auto simp: program_ready_def)
  have "write_bytes (ram s) (pa + of_nat k) b (vaddr j) = ram s (vaddr j)" if "j < 2000" for j
    using r that by (intro w) (metis off_screen_def program_ready_def)
  then show "tty (s\<lparr>ram := write_bytes (ram s) (pa + of_nat k) b\<rparr>) = tty s" by (simp add: tty_def position_def chars_def)
qed

text \<open>A program in the page at 128 MB, with the area of its arrays.\<close>

definition in_task_page :: "u32 \<Rightarrow> 'a kernel_scheme \<Rightarrow> bool" where
  "in_task_page area s \<longleftrightarrow> paging_ok (mmu s) \<and> bit (page_dir (mmu s) ! 32) 7 \<and> bit (page_dir (mmu s) ! 32) 2 \<and> (\<exists>i. area = 0x08000000 + of_nat i \<and> i + 2048 \<le> 0x400000)"

lemma task_page_user: "drop_bit 22 va = 32 \<Longrightarrow> bit (page_dir p ! 32) 7 \<Longrightarrow> bit (page_dir p ! 32) 2 \<Longrightarrow> translate p True va = translate p False va"
  by (simp add: translate_def entry_ok_def Let_def)

lemma pointer_stored:
  assumes "maps_range (mmu s) va pa 4" "\<forall>j<4. translate (mmu s) True (va + of_nat j) = translate (mmu s) False (va + of_nat j)"
    "\<forall>j<4. ram s (pa + of_nat j) = bytes32 0x08800000 ! j"
  shows "load_pointer kernel_window va s = Some 0x08800000"
proof -
  have l: "user_load s (va + of_nat j) = Some (bytes32 0x08800000 ! j)" if "j < 4" for j
    using assms that by (simp add: user_load_def maps_range_def)
  have "bytes32 0x08800000 = [0, 0, 0x80, 8]" by code_simp
  then have "user_load s va = Some 0" "user_load s (va + 1) = Some 0" "user_load s (va + 2) = Some 0x80" "user_load s (va + 3) = Some 8"
    using l [of 0] l [of 1] l [of 2] l [of 3] by simp_all
  then have "read32 (\<lambda>a. the (user_load s a)) va = 0x08800000" by (simp add: read32_def)
  then show ?thesis using l by (simp add: kernel_window_def del: upt_rec_numeral)
qed

lemma kernel_vidmap:
  fixes s :: "'a kernel_scheme"
  assumes r: "program_ready area pa s" and m: "in_task_page area s" and k: "va = area + of_nat k" "k + 4 \<le> 2048"
  shows "\<exists>s'. sys_vidmap (kernel_os hs area) va s = Some (0x08800000, s') \<and> program_ready area pa s' \<and> tty s' = tty s \<and>
    curr_pcb s' = curr_pcb s \<and> lookup_name (ram s') (fs s') = lookup_name (ram s) (fs s) \<and> node_rest (ram s') (fs s') = node_rest (ram s) (fs s) \<and>
    (\<forall>cs i. lookup_name (ram s) (fs s) cs = Some i \<longrightarrow>
      read32 (ram s') (dentry_addr (fs s') i + 32) = read32 (ram s) (dentry_addr (fs s) i + 32)) \<and>
    (\<forall>j<4096. translate (mmu s') True (0x08800000 + of_nat j) = Some (0xB8000 + of_nat j)) \<and> load_pointer kernel_window va s' = Some 0x08800000"
proof -
  let ?t = "con_io sti (con_io cli s)" and ?p = "enable_paging (set_video_page VIDEO (mmu s))" and ?b = "bytes32 0x08800000"
  let ?m = "write_bytes (ram s) (pa + of_nat k) ?b"
  obtain i where i: "area = 0x08000000 + of_nat i" "i + 2048 \<le> 0x400000" and ok: "paging_ok (mmu s)" "bit (page_dir (mmu s) ! 32) 7" "bit (page_dir (mmu s) ! 32) 2"
    using m by (auto simp: in_task_page_def)
  have a: "maps_range (mmu s) area pa 2048" "image_layout (ram s) (fs s)" "con_inv s" using r by (simp_all add: program_ready_def)
  have t: "translate ?p user va = translate (mmu s) user va" if "drop_bit 22 va = 32" for user va
    using translate_set_video_page_other [OF ok(1), of va VIDEO user] that ok(2) by simp
  have d: "drop_bit 22 (area + of_nat j) = 32" if "j < 2048" for j
    using task_address(1) [of "i + j"] that i by (simp add: add.assoc)
  have mr: "maps_range ?p area pa 2048" using a(1) t d by (simp add: maps_range_def)
  have mv: "maps_range ?p va (pa + of_nat k) 4"
    unfolding maps_range_def
  proof (intro allI impI)
    fix j :: nat assume "j < 4"
    then show "translate ?p False (va + of_nat j) = Some (pa + of_nat k + of_nat j)"
      using mr [unfolded maps_range_def, rule_format, of "k + j"] k by (simp add: add.assoc)
  qed
  have l: "length ?b = 4" by (simp add: bytes32_def)
  have "off_kernel (pa + of_nat k) 4"
    unfolding off_kernel_def
  proof (intro allI impI)
    fix j :: nat assume "j < 4"
    then show "\<not> kernel_frame (pa + of_nat k + of_nat j)"
      using r [unfolded program_ready_def off_kernel_def] k(2) by (auto simp: add.assoc simp flip: of_nat_add)
  qed
  then have w: "uwrite va ?b (?t\<lparr>mmu := ?p\<rparr>) = Some (?t\<lparr>mmu := ?p, ram := ?m\<rparr>)"
    using uwrite_range [of "?t\<lparr>mmu := ?p\<rparr>" va "pa + of_nat k" ?b] mv l by simp
  have u: "unat va = 0x08000000 + (i + k)" using unat_offset [of "0x08000000 + (i + k)"] i k by (simp add: add.assoc)
  have "va \<noteq> 0" "\<not> va \<ge> 0x08400000" "\<not> va < 0x08000000" using u i(2) k(2) by (auto simp: word_le_nat_alt word_less_nat_alt)
  then have v: "vidmap va ?t = Some (0x08800000, ?t\<lparr>mmu := ?p, ram := ?m\<rparr>)" using w by (simp add: vidmap_def Let_def)
  let ?u = "resumed (?t\<lparr>mmu := ?p, ram := ?m\<rparr>)"
  have "k + length ?b \<le> 2048" using k(2) l by simp
  note wp = write_area_part [OF r this]
  have f: "ram ?u = ?m" "fs ?u = fs s" "mmu ?u = ?p" "curr_pcb ?u = curr_pcb s" "con_inv ?u"
    using a(3) by (simp_all add: resumed_def con_inv_def curr_pcb_def)
  note im = same_image_dir [OF a(2) wp(1)] same_image_rest [OF a(2) wp(1)] same_image_layout [OF wp(1)] same_image_image [OF wp(1)]
  have "program_ready area pa ?u" unfolding program_ready_def f using r im mr f(5) by (simp add: program_ready_def)
  moreover have "tty ?u = tty (s\<lparr>ram := ?m\<rparr>)" by (simp add: resumed_def tty_def position_def)
  then have "tty ?u = tty s" using wp(2) by simp
  moreover have "translate (mmu ?u) True (0x08800000 + of_nat j) = Some (0xB8000 + of_nat j)" if "j < 4096" for j
    unfolding f using translate_set_video_page [OF ok(1), of VIDEO] video_address [OF that] by simp
  moreover have "read32 (ram ?u) (dentry_addr (fs ?u) i + 32) = read32 (ram s) (dentry_addr (fs s) i + 32)" if "lookup_name (ram s) (fs s) cs = Some i" for cs i
    unfolding f using same_image_type [OF a(2) wp(1) lookup_name_below [OF that]] by simp
  moreover have "load_pointer kernel_window va ?u = Some 0x08800000"
  proof (rule pointer_stored, unfold f)
    show "maps_range ?p va (pa + of_nat k) 4" by (rule mv)
    have "drop_bit 22 (va + of_nat j) = 32" if "j < 4" for j using d [of "k + j"] that k by (simp add: add.assoc)
    then show "\<forall>j<4. translate ?p True (va + of_nat j) = translate ?p False (va + of_nat j)"
      using t task_page_user [OF _ ok(2,3)] by simp
    show "\<forall>j<4. ?m (pa + of_nat k + of_nat j) = ?b ! j"
      using l by (simp add: write_bytes_apply unat_offset)
  qed
  ultimately show ?thesis using plain_calls(2) [OF v] im f(1,2,4) by (intro exI [of _ ?u]) (simp add: fun_eq_iff)
qed

section \<open>The frames on this kernel\<close>

text \<open>The characters of the screen, and what the screen shows of them beside the cursor.\<close>

definition video_of :: "memory \<Rightarrow> u32 \<Rightarrow> u8" where
  "video_of m = (\<lambda>k. if video_cell k then m (0xB8000 + k) else 0)"

definition shown_at :: "nat \<Rightarrow> (u32 \<Rightarrow> u8) \<Rightarrow> tty" where
  "shown_at pos v = (map (\<lambda>k. v (2 * of_nat k)) [0..<2000], pos)"

lemma cell_place: "video_cell k \<Longrightarrow> \<exists>i<2000. k = 2 * of_nat i"
proof -
  assume k: "video_cell k"
  then have "\<not> bit (unat k) 0" "unat k < 4000" by (simp_all add: video_cell_def bit_unsigned_iff word_less_nat_alt)
  then obtain i where i: "unat k = 2 * i" by (auto simp: bit_0)
  then have "k = of_nat (2 * i)" using \<open>unat k < 4000\<close> by (simp add: word_unat_eq_iff unat_offset del: of_nat_mult)
  then show ?thesis using i \<open>unat k < 4000\<close> by (intro exI [of _ i]) simp
qed

lemma place_cell: "i < 2000 \<Longrightarrow> video_cell (2 * of_nat i)" "0xB8000 + 2 * of_nat i = vaddr i"
proof -
  assume "i < 2000"
  then have "unat (of_nat (2 * i) :: u32) = 2 * i" by (intro unat_offset) simp
  then show "video_cell (2 * of_nat i)" using \<open>i < 2000\<close> by (simp add: video_cell_def word_less_nat_alt bit_0)
qed (simp add: vaddr_def)

lemma tty_shown: "tty s = shown_at (position s) (video_of (ram s))"
  using place_cell by (auto simp: tty_def shown_at_def chars_def video_of_def)

lemma tty_video: "tty t = tty s \<Longrightarrow> video_of (ram t) = video_of (ram s)"
proof
  fix k assume "tty t = tty s"
  then have "chars (ram t) = chars (ram s)" by (simp add: tty_def)
  then have "ram t (vaddr i) = ram s (vaddr i)" if "i < 2000" for i using that by (auto simp: chars_def)
  then show "video_of (ram t) k = video_of (ram s) k" using cell_place [of k] place_cell(2) by (auto simp: video_of_def)
qed

text \<open>The program at work: it can make its calls, the clock is open, and the page at \<open>0x08800000\<close> is the screen.\<close>

definition screen_mapped :: "'a kernel_scheme \<Rightarrow> bool" where
  "screen_mapped s \<longleftrightarrow> (\<forall>j<4096. translate (mmu s) True (0x08800000 + of_nat j) = Some (0xB8000 + of_nat j))"

definition fish_state :: "u32 \<Rightarrow> u32 \<Rightarrow> u32 \<Rightarrow> nat \<Rightarrow> 'a kernel_scheme \<Rightarrow> bool" where
  "fish_state rtc_fd area pa pos s \<longleftrightarrow> program_ready area pa s \<and> clock_open rtc_fd s \<and> position s = pos \<and> screen_mapped s"

lemma fish_ready: "fish_state rtc_fd area pa pos s \<Longrightarrow> program_ready area pa s"
  by (simp add: fish_state_def)

lemma fish_step:
  assumes "fish_state rtc_fd area pa pos s" "keeps s t" "program_ready area pa t" "tty t = tty s" "clock_open rtc_fd t"
  shows "fish_state rtc_fd area pa pos t" "video_of (ram t) = video_of (ram s)"
  using assms tty_video [OF assms(4)] by (simp_all add: fish_state_def screen_mapped_def keeps_def tty_def)

lemma fish_window: "fish_state rtc_fd area pa pos s \<Longrightarrow> window_at s 0x08800000 = Some 0xB8000"
  by (auto simp: fish_state_def screen_mapped_def window_at_def dest: spec [of _ 0])

lemma screen_drawn:
  assumes f: "fish_state rtc_fd area pa pos s"
  defines "t \<equiv> \<lambda>v. s\<lparr>ram := \<lambda>x. if video_cell (x - 0xB8000) then v (x - 0xB8000) else ram s x\<rparr>"
  shows "keeps s (t v)" "fish_state rtc_fd area pa pos (t v)" "curr_pcb (t v) = curr_pcb s"
    "\<forall>k. \<not> video_cell k \<longrightarrow> v k = 0 \<Longrightarrow> video_of (ram (t v)) = v"
proof -
  have r: "program_ready area pa s" using f by (simp add: fish_state_def)
  have "ram (t v) x = ram s x" if "\<forall>j<2000. x \<noteq> vaddr j" for x
  proof -
    have "\<not> video_cell (x - 0xB8000)" using cell_place [of "x - 0xB8000"] place_cell(2) that by (metis add.commute diff_add_cancel)
    then show ?thesis by (simp add: t_def)
  qed
  then have "same_image (fs s) (ram s) (ram (t v))" using r unfolding same_image_def program_ready_def by metis
  then show k: "keeps s (t v)" using r by (simp add: keeps_def t_def program_ready_def con_inv_def input_frame_def same_disk_def)
  show c: "curr_pcb (t v) = curr_pcb s" by (simp add: t_def)
  obtain p where "curr_pcb s = Some p" "files_ok p" using r by (auto simp: program_ready_def)
  then have "program_ready area pa (t v)" using keeps_ready [OF r k] c by simp
  then show "fish_state rtc_fd area pa pos (t v)" using f by (simp add: fish_state_def t_def clock_open_def screen_mapped_def position_def)
  show "video_of (ram (t v)) = v" if "\<forall>k. \<not> video_cell k \<longrightarrow> v k = 0" using that by (auto simp: video_of_def t_def)
qed

lemma other_rest:
  assumes "program_ready area pa s" "keeps s t" "curr_pcb s = Some p" "curr_pcb t = Some q" "file_names q = file_names p"
    "file_array q ! unat fd = file_array p ! unat fd"
  shows "file_rest fd t = file_rest fd s"
  using assms(3-6) keeps_lookup(4) [OF assms(1,2)] by (simp add: file_rest_def fd_name_def)

lemma unat_other: "fd' \<noteq> fd \<Longrightarrow> unat fd' \<noteq> unat (fd :: u32)"
  by (simp add: word_unat_eq_iff)

lemma clock_in_use:
  assumes "program_ready area pa s" "clock_open fd s"
  shows "unat fd \<in> used_fds s"
proof -
  obtain p where p: "curr_pcb s = Some p" "unat fd < 8" "fop (file_array p ! unat fd) = Some Rtc_ops" using assms(2) by (auto simp: clock_open_def)
  have f: "files_ok p" using assms(1) p(1) by (auto simp: program_ready_def)
  then have n: "node_ok (unat fd) (file_array p ! unat fd)" "fop (file_array p ! 0) = Some Stdin_ops" "fop (file_array p ! 1) = Some Stdout_ops"
    using p(2) by (simp_all add: files_ok_def)
  then have "unat fd \<noteq> 0" "unat fd \<noteq> 1" using p(3) by (metis fop_table.distinct option.inject)+
  then show ?thesis using used_fds_pcb [OF p(1), of "unat fd"] n(1) p(2,3) by (auto simp: node_ok_def)
qed

lemma fish_byte:
  fixes s :: "'a kernel_scheme"
  assumes a: "fish_state rtc_fd area pa pos s" "file_rest fd s = Some xs"
  shows "\<exists>t. sys_read (kernel_os (ticks n) area) fd [c] 1 s = Some (if xs = [] then 0 else 1, [if xs = [] then c else hd xs], t) \<and>
    fish_state rtc_fd area pa pos t \<and> video_of (ram t) = video_of (ram s) \<and> file_rest fd t = Some (tl xs) \<and> (\<forall>fd'. fd' \<noteq> fd \<longrightarrow> file_rest fd' t = file_rest fd' s)"
proof -
  have r: "program_ready area pa s" "clock_open rtc_fd s" using a(1) by (simp_all add: fish_state_def)
  obtain p where p: "curr_pcb s = Some p" "unat fd < 8" "fop (file_array p ! unat fd) = Some File_ops" by (rule file_rest_cases [OF a(2)])
  let ?k = "min 1 (length xs)"
  obtain t x where t: "sys_read (kernel_os (ticks n) area) fd [c] (of_nat 1) s = Some (of_nat ?k, take ?k xs @ drop ?k [c], t)" "program_ready area pa t"
      "tty t = tty s" "file_rest fd t = Some (drop ?k xs)" "keeps s t"
      "curr_pcb t = Some (p\<lparr>file_array := (file_array p)[unat fd := (file_array p ! unat fd)\<lparr>file_pos := x\<rparr>]\<rparr>)"
    using kernel_read [OF r(1) a(2), of 1 "[c]" ?k "ticks n"] p(1) by auto
  have "clock_open rtc_fd t"
    using r(2) p t(6) by (cases "unat rtc_fd = unat fd"; cases "unat fd < length (file_array p)") (auto simp: clock_open_def list_update_beyond)
  note f = fish_step [OF a(1) t(5,2,3) this]
  have "file_rest fd' t = file_rest fd' s" if "fd' \<noteq> fd" for fd'
    by (rule other_rest [OF r(1) t(5) p(1) t(6)]) (use unat_other [OF that] in simp_all)
  moreover have "sys_read (kernel_os (ticks n) area) fd [c] 1 s = Some (if xs = [] then 0 else 1, [if xs = [] then c else hd xs], t)" "file_rest fd t = Some (tl xs)"
    using t(1,4) by (cases xs; simp)+
  ultimately show ?thesis using f by blast
qed

lemma fish_shut:
  fixes s :: "'a kernel_scheme"
  assumes a: "fish_state rtc_fd area pa pos s" "file_rest fd s = Some xs"
  shows "\<exists>t. sys_close (kernel_os (ticks n) area) fd s = Some (0, t) \<and> fish_state rtc_fd area pa pos t \<and> video_of (ram t) = video_of (ram s) \<and>
    (\<forall>fd'. fd' \<noteq> fd \<longrightarrow> file_rest fd' t = file_rest fd' s)"
proof -
  have r: "program_ready area pa s" "clock_open rtc_fd s" using a(1) by (simp_all add: fish_state_def)
  obtain p where p: "curr_pcb s = Some p" "unat fd < 8" "fop (file_array p ! unat fd) = Some File_ops" by (rule file_rest_cases [OF a(2)])
  have f: "files_ok p" using r(1) p(1) by (auto simp: program_ready_def)
  obtain t where t: "sys_close (kernel_os (ticks n) area) fd s = Some (0, t)" "program_ready area pa t" "tty t = tty s" "keeps s t"
      "curr_pcb t = Some (p\<lparr>file_array := (file_array p)[unat fd := closed_node], open_file_num := open_file_num p - 1\<rparr>)"
    using descriptor_closed [OF r(1) file_in_use [OF f p(1,3,2)], of "ticks n"] p(1) by auto
  have "unat rtc_fd \<noteq> unat fd" using r(2) p(1,3) by (auto simp: clock_open_def)
  then have "clock_open rtc_fd t" using r(2) p(1) t(5) by (auto simp: clock_open_def)
  note f = fish_step [OF a(1) t(4,2,3) this]
  have "file_rest fd' t = file_rest fd' s" if "fd' \<noteq> fd" for fd'
    by (rule other_rest [OF r(1) t(4) p(1) t(5)]) (use unat_other [OF that] in simp_all)
  then show ?thesis using f t(1) by blast
qed

lemma rest_no_clock: "file_rest fd s = Some xs \<Longrightarrow> \<not> clock_open fd s"
  by (erule file_rest_cases) (simp add: clock_open_def)

interpretation kernel_fish: fish_user "logged_window kernel_window" "0x08800000" "\<lambda>w. fish_state rtc_fd area pa pos (fst w)" "\<lambda>w. video_of (ram (fst w))"
  "clocked_os n area" "\<lambda>fd w. file_rest fd (fst w)" rtc_fd snd "shown_at pos"
proof (rule fish_user.intro, unfold_locales)
  fix w :: "'a kernel_scheme \<times> tty list"
  assume f: "fish_state rtc_fd area pa pos (fst w)"
  show "look (logged_window kernel_window) 0x08800000 w = Some (video_of (ram (fst w)))"
    using fish_window [OF f] by (cases w) (simp add: logged_window_def kernel_window_def video_of_def)
  fix k assume "\<not> video_cell k"
  then show "video_of (ram (fst w)) k = 0" by (simp add: video_of_def)
next
  fix w :: "'a kernel_scheme \<times> tty list" and v :: "u32 \<Rightarrow> u8"
  assume a: "fish_state rtc_fd area pa pos (fst w)" "\<forall>k. \<not> video_cell k \<longrightarrow> v k = 0"
  obtain s l where w: "w = (s, l)" by fastforce
  from screen_drawn(2) [OF a(1), of v] screen_drawn(4) [OF a] fish_window [OF a(1)]
  show "\<exists>w'. draw (logged_window kernel_window) 0x08800000 v w = Some w' \<and> fish_state rtc_fd area pa pos (fst w') \<and> video_of (ram (fst w')) = v"
    unfolding w fst_conv by (simp add: logged_window_def kernel_window_def)
next
  fix w w' :: "'a kernel_scheme \<times> tty list" and v :: "u32 \<Rightarrow> u8" and fd
  assume a: "fish_state rtc_fd area pa pos (fst w)" "draw (logged_window kernel_window) 0x08800000 v w = Some w'"
  obtain s l where w: "w = (s, l)" by fastforce
  have f: "fish_state rtc_fd area pa pos s" using a(1) w by simp
  obtain p where p: "curr_pcb s = Some p" using fish_ready [OF f] by (auto simp: program_ready_def)
  note d = screen_drawn [OF f, of v]
  have "w' = (s\<lparr>ram := \<lambda>x. if video_cell (x - 0xB8000) then v (x - 0xB8000) else ram s x\<rparr>, l)"
    using a(2) fish_window [OF f] unfolding w by (simp add: logged_window_def kernel_window_def)
  then have "file_rest fd (fst w') = file_rest fd (fst w)" "snd w' = snd w"
    using other_rest [OF fish_ready [OF f] d(1) p d(3) [unfolded p] refl refl, of fd] unfolding w by simp_all
  then show "file_rest fd (fst w') = file_rest fd (fst w) \<and> snd w' = snd w" by simp
next
  fix w :: "'a kernel_scheme \<times> tty list" and fd xs and c :: u8
  assume a: "fish_state rtc_fd area pa pos (fst w)" "file_rest fd (fst w) = Some xs"
  from fish_byte [OF a, of n c] rest_no_clock [OF a(2)] show "\<exists>w'. sys_read (clocked_os n area) fd [c] 1 w =
      Some (if xs = [] then 0 else 1, [if xs = [] then c else hd xs], w') \<and> fish_state rtc_fd area pa pos (fst w') \<and>
      video_of (ram (fst w')) = video_of (ram (fst w)) \<and> snd w' = snd w \<and> file_rest fd (fst w') = Some (tl xs) \<and>
      (\<forall>fd'. fd' \<noteq> fd \<longrightarrow> file_rest fd' (fst w') = file_rest fd' (fst w))"
    by (cases w) (auto simp: clocked_os_def)
next
  fix w :: "'a kernel_scheme \<times> tty list" and fd xs
  assume a: "fish_state rtc_fd area pa pos (fst w)" "file_rest fd (fst w) = Some xs"
  from fish_shut [OF a, of n] show "\<exists>r w'. sys_close (clocked_os n area) fd w = Some (r, w') \<and> fish_state rtc_fd area pa pos (fst w') \<and>
      video_of (ram (fst w')) = video_of (ram (fst w)) \<and> snd w' = snd w \<and> (\<forall>fd'. fd' \<noteq> fd \<longrightarrow> file_rest fd' (fst w') = file_rest fd' (fst w))"
    by (cases w) (auto simp: clocked_os_def)
next
  fix w :: "'a kernel_scheme \<times> tty list" and g :: "u8 list"
  assume a: "fish_state rtc_fd area pa pos (fst w)" "length g = 4"
  have c: "clock_open rtc_fd (fst w)" "position (fst w) = pos" using a(1) by (simp_all add: fish_state_def)
  from kernel_tick [OF fish_ready [OF a(1)] c(1) a(2), of n] obtain t where
    t: "sys_read (kernel_os (ticks n) area) rtc_fd g 4 (fst w) = Some (0, g, t)" "program_ready area pa t" "keeps (fst w) t" "tty t = tty (fst w)"
      "curr_pcb t = curr_pcb (fst w)" by blast
  have "clock_open rtc_fd t" using c(1) t(5) by (simp add: clock_open_def)
  note f = fish_step [OF a(1) t(3,2,4) this]
  show "\<exists>r g' w'. sys_read (clocked_os n area) rtc_fd g 4 w = Some (r, g', w') \<and> length g' = 4 \<and> fish_state rtc_fd area pa pos (fst w') \<and>
      video_of (ram (fst w')) = video_of (ram (fst w)) \<and> snd w' = snd w @ [shown_at pos (video_of (ram (fst w)))]"
    using t(1) f c a(2) tty_shown [of "fst w"] by (cases w) (auto simp: clocked_os_def)
qed

definition named :: "u8 list \<Rightarrow> nat \<Rightarrow> 'a kernel_scheme \<Rightarrow> bool" where
  "named cs fd s \<longleftrightarrow> length cs < 32 \<and> (\<exists>p. curr_pcb s = Some p \<and> holds_string (name_view p fd) cs)"

definition frame_listed :: "u8 list \<Rightarrow> u8 list \<Rightarrow> 'a kernel_scheme \<Rightarrow> bool" where
  "frame_listed cs xs s \<longleftrightarrow> node_rest (ram s) (fs s) cs 0 = Some xs \<and>
     (\<exists>i. lookup_name (ram s) (fs s) cs = Some i \<and> read32 (ram s) (dentry_addr (fs s) i + 32) = 2)"

lemma keeps_frame: "program_ready area pa s \<Longrightarrow> keeps s t \<Longrightarrow> frame_listed cs xs s \<Longrightarrow> frame_listed cs xs t"
  using keeps_lookup(2-4) [of area pa s t] by (auto simp: frame_listed_def)

lemma frame_opened:
  fixes s :: "'a kernel_scheme"
  assumes i: "fish_state rtc_fd area pa pos s" and u: "used_fds s = {2..<2 + k}" "k < 6" and l: "frame_listed cs xs s"
    and c: "holds_string (list_view b) cs" "length b \<le> 2048" "length cs < 32" "take 5 cs \<noteq> text_of ''stdin''" "take 6 cs \<noteq> text_of ''stdout''"
  shows "\<exists>s'. sys_open (kernel_os (ticks n) area) b s = Some (of_nat (2 + k), s') \<and> fish_state rtc_fd area pa pos s' \<and> video_of (ram s') = video_of (ram s) \<and>
    used_fds s' = {2..<2 + Suc k} \<and> keeps s s' \<and> named cs (2 + k) s' \<and> file_rest (of_nat (2 + k)) s' = Some xs \<and>
    (\<forall>fd ds. fd < 2 + k \<longrightarrow> named ds fd s \<longrightarrow> file_rest (of_nat fd) s' = file_rest (of_nat fd) s)"
proof -
  have r: "program_ready area pa s" "clock_open rtc_fd s" using i by (simp_all add: fish_state_def)
  obtain p where p: "curr_pcb s = Some p" "files_ok p" using r(1) by (auto simp: program_ready_def)
  obtain i where d: "lookup_name (ram s) (fs s) cs = Some i" "read32 (ram s) (dentry_addr (fs s) i + 32) = 2" "node_rest (ram s) (fs s) cs 0 = Some xs"
    using l by (auto simp: frame_listed_def)
  have "open_choice (read32 (ram s) (dentry_addr (fs s) i + 32)) p = map_option (\<lambda>fd. (fd, File_ops)) (free_fd (file_array p))"
    unfolding d(2) by (cases "free_fd (file_array p)") (simp_all add: open_choice_spec)
  from next_opened [OF r(1) p(1) u c d(1) this, of "ticks n"] obtain t q where
    t: "sys_open (kernel_os (ticks n) area) b s = Some (of_nat (2 + k), t)" "program_ready area pa t" "tty t = tty s" "keeps s t"
      "used_fds t = {2..<2 + Suc k}" "curr_pcb t = Some q" "opened_as (2 + k) File_ops cs p q" by blast
  have q: "files_ok q" "file_array q = (file_array p)[2 + k := opened_node File_ops]" using t(2,6,7) by (auto simp: program_ready_def opened_as_def)
  have "unat rtc_fd \<noteq> 2 + k" using clock_in_use [OF r] u(1) by auto
  then have "clock_open rtc_fd t" using r(2) p(1) t(6) q(2) by (auto simp: clock_open_def)
  note f = fish_step [OF i t(4,2,3) this]
  have "named cs (2 + k) t" using t(6,7) c(3) by (simp add: named_def opened_as_def)
  moreover have "file_rest (of_nat (2 + k)) t = Some xs" using opened_rest [OF r(1) t(4,6,7) p(2)] u(2) d(3) by simp
  moreover have "file_rest (of_nat fd) t = file_rest (of_nat fd) s" if "fd < 2 + k" "named ds fd s" for fd ds
  proof -
    have h: "holds_string (name_view p fd) ds" "length ds < 32" using that(2) p(1) by (auto simp: named_def)
    have "32 * Suc fd \<le> 32 * (2 + k)" using that(1) by (intro mult_le_mono2) simp
    then have "32 * fd + length ds < 32 * (2 + k)" using h(2) by simp
    moreover have "take (32 * (2 + k)) (file_names q) = take (32 * (2 + k)) (file_names p)" using t(7) unfolding opened_as_def by blast
    ultimately have g: "holds_string (name_view q fd) ds" by (intro name_below [OF p(2) q(1) _ _ h(1)])
    have "unat (of_nat fd :: u32) = fd" using fd_sint [of fd] that(1) u(2) by simp
    then show ?thesis unfolding file_rest_def p(1) t(6) using name_view_fd [OF h(1)] name_view_fd [OF g] q(2) that(1) keeps_lookup(4) [OF r(1) t(4)] by simp
  qed
  ultimately show ?thesis using f t(1,4,5) by (intro exI [of _ t]) blast
qed

lemma frame_names:
  "holds_string (list_view (c_string ''frame0.txt'')) (text_of ''frame0.txt'')" "length (c_string ''frame0.txt'') \<le> 2048"
  "length (text_of ''frame0.txt'') < 32" "take 5 (text_of ''frame0.txt'') \<noteq> text_of ''stdin''" "take 6 (text_of ''frame0.txt'') \<noteq> text_of ''stdout''"
  "holds_string (list_view (c_string ''frame1.txt'')) (text_of ''frame1.txt'')" "length (c_string ''frame1.txt'') \<le> 2048"
  "length (text_of ''frame1.txt'') < 32" "take 5 (text_of ''frame1.txt'') \<noteq> text_of ''stdin''" "take 6 (text_of ''frame1.txt'') \<noteq> text_of ''stdout''"
  by (rule literal_string, simp add: text_of_def | simp add: c_string_def text_of_def)+

text \<open>The characters the frames give.\<close>

definition frame_blinks :: "blink \<Rightarrow> u8 list \<Rightarrow> u8 list \<Rightarrow> blink_op list" where
  "frame_blinks b xs0 xs1 = cell_adds (b\<lparr>on_length := 15, off_length := 15\<rparr>) (frame_cells 0 (lines_of xs0) (lines_of xs1))"

abbreviation fish_window_of :: "('a kernel_scheme \<times> tty list) window" where
  "fish_window_of \<equiv> logged_window kernel_window"

lemma frames_added:
  fixes s :: "'a kernel_scheme"
  assumes i: "fish_state rtc_fd area pa pos s" and u: "used_fds s = {2..<2 + k}" "k < 5"
    and l: "frame_listed (text_of ''frame0.txt'') xs0 s" "frame_listed (text_of ''frame1.txt'') xs1 s" "length (lines_of xs0) = length (lines_of xs1)"
    and f: "drawn f (video_of (ram s)) a" "\<forall>x\<in>set (frame_cells 0 (lines_of xs0) (lines_of xs1)). fst x \<noteq> 0"
  shows "\<exists>f' s'. add_frames (clocked_os n area) fish_window_of 0x08800000 (c_string ''frame0.txt'') (c_string ''frame1.txt'') b f (s, w) = Some (False, f', s', w) \<and>
    fish_state rtc_fd area pa pos s' \<and> drawn f' (video_of (ram s')) (plain_state (frame_blinks b xs0 xs1) a)"
proof -
  let ?os = "clocked_os n area :: ('a kernel_scheme \<times> tty list) os"
  have k: "k < 6" "Suc k < 6" using u(2) by simp_all
  obtain t where t: "sys_open (kernel_os (ticks n) area) (c_string ''frame0.txt'') s = Some (of_nat (2 + k), t)" "fish_state rtc_fd area pa pos t"
      "used_fds t = {2..<2 + Suc k}" "keeps s t" "named (text_of ''frame0.txt'') (2 + k) t" "file_rest (of_nat (2 + k)) t = Some xs0" "video_of (ram t) = video_of (ram s)"
    using frame_opened [OF i u(1) k(1) l(1) frame_names(1-5)] by blast
  have "frame_listed (text_of ''frame1.txt'') xs1 t" using keeps_frame [OF fish_ready [OF i] t(4) l(2)] .
  from frame_opened [OF t(2,3) k(2) this frame_names(6-10)] obtain v where
    v: "sys_open (kernel_os (ticks n) area) (c_string ''frame1.txt'') t = Some (of_nat (2 + Suc k), v)" "fish_state rtc_fd area pa pos v"
      "file_rest (of_nat (2 + Suc k)) v = Some xs1"
      "\<forall>fd ds. fd < 2 + Suc k \<longrightarrow> named ds fd t \<longrightarrow> file_rest (of_nat fd) v = file_rest (of_nat fd) t" "video_of (ram v) = video_of (ram t)" by blast
  have o: "sys_open ?os (c_string ''frame0.txt'') (s, w) = Some (of_nat (2 + k), t, w)" "sys_open ?os (c_string ''frame1.txt'') (t, w) = Some (of_nat (2 + Suc k), v, w)"
    using t(1) v(1) by (simp_all add: clocked_os_def)
  have r0: "file_rest (of_nat (2 + k)) v = Some xs0" using v(4) [rule_format, OF _ t(5)] t(6) by (simp del: of_nat_add)
  have un: "unat (of_nat (2 + k) :: u32) = 2 + k" "unat (of_nat (2 + Suc k) :: u32) = 2 + Suc k"
      "sint (of_nat (2 + k) :: u32) = int (2 + k)" "sint (of_nat (2 + Suc k) :: u32) = int (2 + Suc k)"
    using fd_sint [of "2 + k"] fd_sint [of "2 + Suc k"] u(2) by simp_all
  have ne: "(of_nat (2 + k) :: u32) \<noteq> of_nat (2 + Suc k)" using un by (metis n_not_Suc_n add_Suc_right)
  have sg: "\<not> sint (of_nat (2 + k) :: u32) < 0" "\<not> sint (of_nat (2 + Suc k) :: u32) < 0" unfolding un by simp_all
  have d: "drawn f (video_of (ram (fst (v, w)))) a" using f(1) t(7) v(5) by simp
  from kernel_fish.frame_rows_read [of rtc_fd area pa pos "(v, w)", OF _ _ _ ne l(3) d f(2), of n "b\<lparr>on_length := 15, off_length := 15\<rparr>"] v(2,3) r0 obtain f' s' where
    "frame_rows ?os fish_window_of 0x08800000 (of_nat (2 + k)) (of_nat (2 + Suc k)) 0 (0x30, False, 0x30, False) (b\<lparr>on_length := 15, off_length := 15\<rparr>) f (v, w) =
      Some (f', s', w)" "fish_state rtc_fd area pa pos s'" "drawn f' (video_of (ram s')) (plain_state (frame_blinks b xs0 xs1) a)"
    by (auto simp: frame_blinks_def simp del: of_nat_add of_nat_Suc)
  then show ?thesis
    unfolding add_frames_def Let_def o Option.bind.bind_lunit prod.case using sg by (simp del: of_nat_add of_nat_Suc)
qed

text \<open>Operations on the list and waits for the clock, with the screens noted at the clock.\<close>

lemma fish_blinks:
  fixes s :: "'a kernel_scheme"
  assumes "fish_state rtc_fd area pa pos s" "length g = 4" "drawn f (video_of (ram s)) a"
  shows "\<exists>g' f' s'. blink_for (clocked_os n area) fish_window_of 0x08800000 rtc_fd k (g, f, s, w) =
      Some (g', f', s', w @ map (shown_at pos) (tick_screens (replicate k Tick) a)) \<and> length g' = 4 \<and> fish_state rtc_fd area pa pos s' \<and>
    drawn f' (video_of (ram s')) (plain_state (replicate k Tick) a)"
  using kernel_fish.blink_for_runs [of rtc_fd area pa pos "(s, w)" g f a n k] assms by auto

lemma fish_calls:
  fixes s :: "'a kernel_scheme"
  assumes "fish_state rtc_fd area pa pos s" "drawn f (video_of (ram s)) a" "op_ok x"
  shows "\<exists>r f' s'. mp1_call fish_window_of 0x08800000 x f (s, w) = Some (r, f', s', w) \<and> fish_state rtc_fd area pa pos s' \<and>
    drawn f' (video_of (ram s')) (plain_state [x] a)"
proof -
  obtain r f' s' w' v where c: "mp1_call fish_window_of 0x08800000 x f (s, w) = Some (r, f', s', w')" "draw fish_window_of 0x08800000 v (s, w) = Some (s', w')"
      "fish_state rtc_fd area pa pos s'" "drawn f' (video_of (ram s')) (plain_state [x] a)"
    using kernel_fish.call_runs [of rtc_fd area pa pos "(s, w)" f a x] assms by auto
  then have "w' = w" using kernel_fish.draw_keeps [of rtc_fd area pa pos "(s, w)" v "(s', w')"] assms(1) by simp
  then show ?thesis using c by blast
qed

section \<open>fish on this kernel\<close>

definition IM :: "blink \<Rightarrow> blink" where
  "IM b = b\<lparr>on_char := 0x49, off_char := 0x4D, on_length := 7, off_length := 6, location := 6 * 80 + 60\<rparr>"

definition fish_ops :: "blink \<Rightarrow> blink \<Rightarrow> u8 list \<Rightarrow> u8 list \<Rightarrow> blink_op list" where
  "fish_ops b b' xs0 xs1 = frame_blinks b' xs0 xs1 @ replicate 200 Tick @ [Add (IM b)] @ replicate 200 Tick @ [Sync (40 * 65536 + 540)] @
     replicate 200 Tick @ [Remove 200] @ replicate 2000 Tick"

lemma animation_runs:
  fixes s :: "'a kernel_scheme" and n :: nat and b :: blink
  assumes i: "fish_state rtc_fd area pa pos s" and g: "length g = 4" and a: "drawn f (video_of (ram s)) a"
  defines "os \<equiv> clocked_os n area" and "base \<equiv> 0x08800000 :: u32"
  defines "ops \<equiv> replicate 200 Tick @ [Add (IM b)] @ replicate 200 Tick @ [Sync (40 * 65536 + 540)] @ replicate 200 Tick @ [Remove 200] @ replicate 2000 Tick"
  shows "\<exists>f' s'. (do {
      (g, f, s) \<leftarrow> blink_for os fish_window_of base rtc_fd 200 (g, f, s, []);
      (_, f, s) \<leftarrow> mp1_call fish_window_of base (Add (IM b)) f s;
      (g, f, s) \<leftarrow> blink_for os fish_window_of base rtc_fd 200 (g, f, s);
      (_, f, s) \<leftarrow> mp1_call fish_window_of base (Sync (push_bit 16 40 OR (6 * 80 + 60))) f s;
      (g, f, s) \<leftarrow> blink_for os fish_window_of base rtc_fd 200 (g, f, s);
      (_, f, s) \<leftarrow> mp1_call fish_window_of base (Remove 200) f s;
      (g, f, s) \<leftarrow> blink_for os fish_window_of base rtc_fd (80 * 25) (g, f, s);
      (_, s) \<leftarrow> sys_close os rtc_fd s;
      Some (0 :: u32, f, s)
    }) = Some (0, f', s', map (shown_at pos) (tick_screens ops a)) \<and> program_ready area pa s' \<and> screen_mapped s' \<and> position s' = pos \<and>
    drawn f' (video_of (ram s')) (plain_state ops a)"
proof -
  let ?T = "\<lambda>n. replicate n Tick" and ?S = "\<lambda>n a. map (shown_at pos) (tick_screens (replicate n Tick) a)"
  let ?a1 = "plain_state (?T 200) a"
  let ?a2 = "plain_state [Add (IM b)] ?a1" let ?a3 = "plain_state (?T 200) ?a2"
  let ?a4 = "plain_state [Sync (40 * 65536 + 540)] ?a3" let ?a5 = "plain_state (?T 200) ?a4"
  let ?a6 = "plain_state [Remove 200] ?a5" let ?a7 = "plain_state (?T 2000) ?a6"
  have sync: "push_bit 16 40 OR (6 * 80 + 60) = (40 * 65536 + 540 :: u32)" by code_simp
  have ok: "op_ok (Add (IM b))" "op_ok (Sync (40 * 65536 + 540))" "op_ok (Remove 200)" by (simp_all add: IM_def)
  let ?w1 = "[] @ ?S 200 a" let ?w3 = "?w1 @ ?S 200 ?a2" let ?w5 = "?w3 @ ?S 200 ?a4"
  obtain g1 f1 s1 where 1: "blink_for os fish_window_of base rtc_fd 200 (g, f, s, []) = Some (g1, f1, s1, ?w1)" "length g1 = 4"
      "fish_state rtc_fd area pa pos s1" "drawn f1 (video_of (ram s1)) ?a1" using fish_blinks [OF i g a] unfolding os_def base_def by blast
  obtain r2 f2 s2 where 2: "mp1_call fish_window_of base (Add (IM b)) f1 (s1, ?w1) = Some (r2, f2, s2, ?w1)" "fish_state rtc_fd area pa pos s2"
      "drawn f2 (video_of (ram s2)) ?a2" using fish_calls [OF 1(3,4) ok(1)] unfolding base_def by blast
  obtain g3 f3 s3 where 3: "blink_for os fish_window_of base rtc_fd 200 (g1, f2, s2, ?w1) = Some (g3, f3, s3, ?w3)" "length g3 = 4"
      "fish_state rtc_fd area pa pos s3" "drawn f3 (video_of (ram s3)) ?a3" using fish_blinks [OF 2(2) 1(2) 2(3)] unfolding os_def base_def by blast
  obtain r4 f4 s4 where 4: "mp1_call fish_window_of base (Sync (40 * 65536 + 540)) f3 (s3, ?w3) = Some (r4, f4, s4, ?w3)" "fish_state rtc_fd area pa pos s4"
      "drawn f4 (video_of (ram s4)) ?a4" using fish_calls [OF 3(3,4) ok(2)] unfolding base_def by blast
  obtain g5 f5 s5 where 5: "blink_for os fish_window_of base rtc_fd 200 (g3, f4, s4, ?w3) = Some (g5, f5, s5, ?w5)" "length g5 = 4"
      "fish_state rtc_fd area pa pos s5" "drawn f5 (video_of (ram s5)) ?a5" using fish_blinks [OF 4(2) 3(2) 4(3)] unfolding os_def base_def by blast
  obtain r6 f6 s6 where 6: "mp1_call fish_window_of base (Remove 200) f5 (s5, ?w5) = Some (r6, f6, s6, ?w5)" "fish_state rtc_fd area pa pos s6"
      "drawn f6 (video_of (ram s6)) ?a6" using fish_calls [OF 5(3,4) ok(3)] unfolding base_def by blast
  obtain g7 f7 s7 where 7: "blink_for os fish_window_of base rtc_fd 2000 (g5, f6, s6, ?w5) = Some (g7, f7, s7, ?w5 @ ?S 2000 ?a6)"
      "fish_state rtc_fd area pa pos s7" "drawn f7 (video_of (ram s7)) ?a7" using fish_blinks [OF 6(2) 5(2) 6(3)] unfolding os_def base_def by blast
  have c: "program_ready area pa s7" "clock_open rtc_fd s7" "screen_mapped s7" "position s7 = pos" using 7(2) by (simp_all add: fish_state_def)
  obtain s8 where 8: "sys_close (kernel_os (ticks n) area) rtc_fd s7 = Some (0, s8)" "program_ready area pa s8" "tty s8 = tty s7" "keeps s7 s8"
    using descriptor_closed [OF c(1) clock_in_use [OF c(1,2)], of "ticks n"] by auto
  then have "sys_close os rtc_fd (s7, ?w5 @ ?S 2000 ?a6) = Some (0, s8, ?w5 @ ?S 2000 ?a6)" by (simp add: os_def clocked_os_def)
  moreover have "?w5 @ ?S 2000 ?a6 = map (shown_at pos) (tick_screens ops a)" "plain_state ops a = ?a7"
    unfolding ops_def tick_screens_append plain_state_simps(3) by (simp_all add: plain_state_simps(1))
  moreover have "screen_mapped s8" "position s8 = pos" "video_of (ram s8) = video_of (ram s7)"
    using c(3,4) 8(3,4) tty_video [OF 8(3)] by (simp_all add: screen_mapped_def keeps_def tty_def)
  moreover have "(80 * 25 :: nat) = 2000" by simp
  ultimately show ?thesis
    unfolding sync by (simp only: 1(1) 2(1) 3(1) 4(1) 5(1) 6(1) 7(1) Option.bind.bind_lunit prod.case) (use 7(3) 8(2) in simp)
qed

text \<open>C10: The program \<open>fish\<close> on this kernel, from its start to its end: \<open>vidmap\<close> maps the screen into the program, both frame files are read side
  by side to their ends, the characters of the frames blink at the pace of the clock, the character of \<open>main\<close> is added, synchronised
  with location 40 and the rest goes on as \<open>main\<close> says, and the program returns 0. The program draws on the kernel's own screen: at the end the page at
  \<open>0x08800000\<close> is the video memory, its characters are those a plain list of blinking characters has after the same operations on what was on the screen
  at the start, and the cursor is where it was; the linked list of the program holds the elements of the plain one. For every tick of the
  blinking it waits for the clock exactly once: the screens at its 2600 reads of the clock are, in order, those of the plain list before each of its ticks,
  whatever number of timer interrupts arrive in between. It holds for frame files with the same number of lines and no character at location 0.\<close>

theorem fish_runs:
  fixes s :: "'a kernel_scheme"
  assumes r: "program_ready area pa s" "in_task_page area s" "va = area + of_nat j" "j + 4 \<le> 2048" "length garbage = 4"
    and u: "used_fds s = {2..<2 + k}" "k < 4"
    and d: "lookup_name (ram s) (fs s) (text_of ''rtc'') = Some i" "read32 (ram s) (dentry_addr (fs s) i + 32) = 0"
      "frame_listed (text_of ''frame0.txt'') xs0 s" "frame_listed (text_of ''frame1.txt'') xs1 s"
    and l: "length (lines_of xs0) = length (lines_of xs1)" "\<forall>x\<in>set (frame_cells 0 (lines_of xs0) (lines_of xs1)). fst x \<noteq> 0"
    and a: "a = ([], video_of (ram s))"
  shows "\<exists>f s' screens. fish_main (clocked_os n area) (logged_window kernel_window) va garbage b b' (s, []) = Some (0, f, s', screens) \<and>
    program_ready area pa s' \<and> (\<forall>j<4096. translate (mmu s') True (0x08800000 + of_nat j) = Some (0xB8000 + of_nat j)) \<and>
    shows_blinks (f\<lparr>video := video_of (ram s')\<rparr>) (plain_state (fish_ops b b' xs0 xs1) a) \<and>
    tty s' = shown_at (position s) (snd (plain_state (fish_ops b b' xs0 xs1) a)) \<and>
    screens = map (shown_at (position s)) (tick_screens (fish_ops b b' xs0 xs1) a)"
proof -
  let ?os = "clocked_os n area :: ('a kernel_scheme \<times> tty list) os"
  obtain t where t: "sys_vidmap (kernel_os (ticks n) area) va s = Some (0x08800000, t)" "program_ready area pa t" "tty t = tty s" "curr_pcb t = curr_pcb s"
      "lookup_name (ram t) (fs t) = lookup_name (ram s) (fs s)" "node_rest (ram t) (fs t) = node_rest (ram s) (fs s)"
      "\<forall>cs i. lookup_name (ram s) (fs s) cs = Some i \<longrightarrow> read32 (ram t) (dentry_addr (fs t) i + 32) = read32 (ram s) (dentry_addr (fs s) i + 32)"
      "screen_mapped t" "load_pointer kernel_window va t = Some 0x08800000"
    using kernel_vidmap [OF r(1-4), of "ticks n"] unfolding screen_mapped_def by blast
  have m: "mp1_set_video_mode ?os fish_window_of va (s, []) = Some (Some 0x08800000, t, [])"
    using t(1,9) by (simp add: mp1_set_video_mode_def clocked_os_def logged_window_def)
  obtain p where p: "curr_pcb t = Some p" "files_ok p" using t(2) by (auto simp: program_ready_def)
  have ut: "used_fds t = {2..<2 + k}" "k < 6" "Suc k < 5" using u t(4) by (simp_all add: used_fds_def)
  have ft: "frame_listed (text_of ''frame0.txt'') xs0 t" "frame_listed (text_of ''frame1.txt'') xs1 t"
    using d(3,4) t(5-7) by (auto simp: frame_listed_def)
  have dt: "lookup_name (ram t) (fs t) (text_of ''rtc'') = Some i" "read32 (ram t) (dentry_addr (fs t) i + 32) = 0" using d(1,2) t(5,7) by auto
  have "open_choice (read32 (ram t) (dentry_addr (fs t) i + 32)) p = map_option (\<lambda>fd. (fd, Rtc_ops)) (free_fd (file_array p))"
    unfolding dt(2) by (cases "free_fd (file_array p)") (simp_all add: open_choice_spec)
  from next_opened [OF t(2) p(1) ut(1,2) rtc_name dt(1) this, of "ticks n"] obtain w q where
    w: "sys_open (kernel_os (ticks n) area) (c_string ''rtc'') t = Some (of_nat (2 + k), w)" "program_ready area pa w" "tty w = tty t" "keeps t w"
      "used_fds w = {2..<2 + Suc k}" "curr_pcb w = Some q" "opened_as (2 + k) Rtc_ops (text_of ''rtc'') p q" by blast
  have o: "sys_open ?os (c_string ''rtc'') (t, []) = Some (of_nat (2 + k), w, [])" using w(1) by (simp add: clocked_os_def)
  have "length (file_array p) = 8" using p(2) by (simp add: files_ok_def pcb_shape_def)
  then have "clock_open (of_nat (2 + k)) w" using w(6,7) fd_sint [of "2 + k"] ut(2) by (auto simp: clock_open_def opened_as_def opened_node_def)
  moreover have "screen_mapped w" "position w = position s" "video_of (ram w) = video_of (ram s)"
    using t(3,8) w(3,4) tty_video [of w s] by (simp_all add: screen_mapped_def keeps_def tty_def)
  ultimately have i: "fish_state (of_nat (2 + k)) area pa (position s) w" "drawn (no_blinks (\<lambda>_. 0)) (video_of (ram w)) a"
    using w(2) no_blinks_shown [of "video_of (ram s)"] a by (simp_all add: fish_state_def drawn_def no_blinks_def)
  obtain f x where f: "add_frames ?os fish_window_of 0x08800000 (c_string ''frame0.txt'') (c_string ''frame1.txt'') b' (no_blinks (\<lambda>_. 0)) (w, []) = Some (False, f, x, [])"
      "fish_state (of_nat (2 + k)) area pa (position s) x" "drawn f (video_of (ram x)) (plain_state (frame_blinks b' xs0 xs1) a)"
    using frames_added [OF i(1) w(5) ut(3) keeps_frame [OF t(2) w(4) ft(1)] keeps_frame [OF t(2) w(4) ft(2)] l(1) i(2) l(2)] by blast
  have x: "program_ready area pa x" "clock_open (of_nat (2 + k)) x" using f(2) by (simp_all add: fish_state_def)
  obtain y where y: "sys_write (kernel_os (ticks n) area) (of_nat (2 + k)) [32, 0, 0, 0] 4 x = Some (4, y)" "program_ready area pa y" "keeps x y" "tty y = tty x"
      "curr_pcb y = curr_pcb x" using kernel_rate [OF x] by blast
  have "clock_open (of_nat (2 + k)) y" using x(2) y(5) by (simp add: clock_open_def)
  note fy = fish_step [OF f(2) y(3,2,4) this]
  have wr: "sys_write ?os (of_nat (2 + k)) [32, 0, 0, 0] 4 (x, []) = Some (4, y, [])" using y(1) by (simp add: clocked_os_def)
  have dy: "drawn f (video_of (ram y)) (plain_state (frame_blinks b' xs0 xs1) a)" using f(3) fy(2) by simp
  let ?a = "plain_state (fish_ops b b' xs0 xs1) a" and ?l = "map (shown_at (position s)) (tick_screens (fish_ops b b' xs0 xs1) a)"
  from animation_runs [OF fy(1) r(5) dy, of n b] obtain f' s' where
    e: "fish_main ?os fish_window_of va garbage b b' (s, []) = Some (0, f', s', ?l)" and
    s: "program_ready area pa s'" "screen_mapped s'" "position s' = position s" "drawn f' (video_of (ram s')) ?a"
    unfolding fish_main_def Let_def m o f(1) wr Option.bind.bind_lunit prod.case option.case if_False IM_def [symmetric] fish_ops_def plain_state_simps(3)
      tick_screens_append frame_blinks_def cell_adds_simps(4) append_Nil by blast
  then show ?thesis using tty_shown [of s'] drawn_screen [OF s(4)] by (auto simp: screen_mapped_def drawn_def)
qed

text \<open>A disk with the clock and two frames of one character, which are the same file.\<close>

definition demo_fish_ram :: memory where
  "demo_fish_ram = demo_clock_ram(0x1000 := 4, 0x2000 := 1, 0x3000 := 0x41,
     0x10C0 := 0x66, 0x10C1 := 0x72, 0x10C2 := 0x61, 0x10C3 := 0x6D, 0x10C4 := 0x65, 0x10C5 := 0x30, 0x10C6 := 0x2E, 0x10C7 := 0x74, 0x10C8 := 0x78,
     0x10C9 := 0x74, 0x10E0 := 2,
     0x1100 := 0x66, 0x1101 := 0x72, 0x1102 := 0x61, 0x1103 := 0x6D, 0x1104 := 0x65, 0x1105 := 0x31, 0x1106 := 0x2E, 0x1107 := 0x74, 0x1108 := 0x78,
     0x1109 := 0x74, 0x1120 := 2)"

definition demo_fish :: kernel where
  "demo_fish = demo_cat\<lparr>ram := demo_fish_ram\<rparr>"

lemma demo_fish_small: "small_image demo_fish_ram"
proof -
  have "num_inodes demo_fish_ram demo_files = 1" "num_data_blocks demo_fish_ram demo_files = 1" by code_simp+
  moreover have "dir_ok demo_fish_ram demo_files"
    by (rule zero_byte_terminated [of _ 10]; auto simp: demo_fish_ram_def demo_clock_ram_def demo_dir_ram_def demo_ram_def split: if_splits)
  ultimately show ?thesis by (simp add: small_image_def)
qed

lemma disk_name_read:
  assumes "bytes_at m (dentry_addr f i) (length cs) = cs" "m (dentry_addr f i + of_nat (length cs)) = 0" "0 \<notin> set cs" "length cs < 32"
  shows "disk_name m f i = cs"
proof -
  have k: "Suc (31 - length cs) = 32 - length cs" "length cs + (32 - length cs) = 32" using assms(4) by simp_all
  have "bytes_at m (dentry_addr f i) 32 = cs @ bytes_at m (dentry_addr f i + of_nat (length cs)) (32 - length cs)"
    using bytes_at_add [of m "dentry_addr f i" "length cs" "32 - length cs"] assms(1) k(2) by simp
  also have "\<dots> = cs @ 0 # bytes_at m (dentry_addr f i + of_nat (length cs) + 1) (31 - length cs)"
    unfolding k(1) [symmetric] bytes_at_Suc assms(2) ..
  finally show ?thesis unfolding disk_name_def using assms(3) by (simp only:) (subst takeWhile_append2, auto)
qed

lemma demo_fish_lookup:
  "lookup_name demo_fish_ram demo_files (text_of ''rtc'') = Some 1" "lookup_name demo_fish_ram demo_files (text_of ''frame0.txt'') = Some 2"
  "lookup_name demo_fish_ram demo_files (text_of ''frame1.txt'') = Some 3"
proof -
  have n: "disk_name demo_fish_ram demo_files 0 = text_of ''.''" "disk_name demo_fish_ram demo_files 1 = text_of ''rtc''"
    "disk_name demo_fish_ram demo_files 2 = text_of ''frame0.txt''" "disk_name demo_fish_ram demo_files 3 = text_of ''frame1.txt''"
    by (rule disk_name_read; code_simp)+
  have u: "[0..<63] = 0 # 1 # 2 # 3 # [4..<63]" by (simp add: upt_conv_Cons)
  show "lookup_name demo_fish_ram demo_files (text_of ''rtc'') = Some 1" "lookup_name demo_fish_ram demo_files (text_of ''frame0.txt'') = Some 2"
    "lookup_name demo_fish_ram demo_files (text_of ''frame1.txt'') = Some 3"
    unfolding lookup_name_def u using n by (simp_all add: name_matches_def text_of_def)
qed

lemma demo_fish_frame:
  "frame_listed (text_of ''frame0.txt'') [0x41] demo_fish" "frame_listed (text_of ''frame1.txt'') [0x41] demo_fish"
proof -
  have f: "ram demo_fish = demo_fish_ram" "fs demo_fish = demo_files" using demo_cat_fields by (simp_all add: demo_fish_def)
  have n: "num_inodes demo_fish_ram demo_files = 1" "num_data_blocks demo_fish_ram demo_files = 1" "inode_length demo_fish_ram demo_files 0 = 1"
    "data_block demo_fish_ram demo_files 0 0 = 0" "demo_fish_ram 0x3000 = 0x41"
    "read32 demo_fish_ram (dentry_addr demo_files 2 + 36) = 0" "read32 demo_fish_ram (dentry_addr demo_files 3 + 36) = 0"
    "read32 demo_fish_ram (dentry_addr demo_files 2 + 32) = 2" "read32 demo_fish_ram (dentry_addr demo_files 3 + 32) = 2" by code_simp+
  have "file_byte demo_fish_ram demo_files 0 0 = 0x41" using n by (simp add: file_byte_def) (simp add: demo_files_def)
  then have "program_bytes demo_fish_ram demo_files 0 = [0x41]" by (simp add: program_bytes_def n)
  moreover have "file_ok demo_fish_ram demo_files 0" by (simp add: file_ok_def n blocks_valid_def)
  ultimately have "node_rest demo_fish_ram demo_files (text_of ''frame0.txt'') 0 = Some [0x41]" "node_rest demo_fish_ram demo_files (text_of ''frame1.txt'') 0 = Some [0x41]"
    using demo_fish_lookup n by (simp_all add: node_rest_def)
  then show "frame_listed (text_of ''frame0.txt'') [0x41] demo_fish" "frame_listed (text_of ''frame1.txt'') [0x41] demo_fish"
    using demo_fish_lookup n by (simp_all add: frame_listed_def f)
qed

lemma demo_task_page: "in_task_page 0x08048200 demo_fish"
proof -
  have ok: "paging_ok (init_paging demo_paging)" by (rule paging_ok_steps(1) [OF demo_paging_ok])
  have m: "mmu demo_fish = set_task_page (of_nat 0) (init_paging demo_paging)" using demo_cat_fields demo_shell_fields by (simp add: demo_fish_def)
  have "bit (page_dir (mmu demo_fish) ! 32) 7"
    unfolding m using ok task_page_bits(2) [of 0] by (subst set_task_page_entry) (simp_all add: paging_ok_def)
  moreover have "bit (page_dir (mmu demo_fish) ! 32) 2"
    unfolding m using ok task_page_bits(1) [of 0 True] by (subst set_task_page_entry) (simp_all add: paging_ok_def entry_ok_def)
  moreover have "paging_ok (mmu demo_fish)" unfolding m by (rule paging_ok_steps(2) [OF ok])
  moreover have "\<exists>i. (0x08048200 :: u32) = 0x08000000 + of_nat i \<and> i + 2048 \<le> 0x400000" by (intro exI [of _ "0x48200"]) simp
  ultimately show ?thesis by (simp add: in_task_page_def)
qed

theorem fish_runs_witness:
  "\<exists>f s' screens. fish_main (clocked_os 3 0x08048200) (logged_window kernel_window) 0x08048300 (replicate 4 0) zero_blink zero_blink (demo_fish, []) =
      Some (0, f, s', screens) \<and>
    tty s' = shown_at (position demo_fish) (snd (plain_state (fish_ops zero_blink zero_blink [0x41] [0x41]) ([], video_of (ram demo_fish)))) \<and>
    screens = map (shown_at (position demo_fish)) (tick_screens (fish_ops zero_blink zero_blink [0x41] [0x41]) ([], video_of (ram demo_fish)))"
proof -
  let ?p = "demo_pcb\<lparr>arg_buffer := 0x61 # 0 # replicate 98 0\<rparr>"
  have ok: "files_ok ?p" using demo_pcb_ok(1) by (simp add: files_ok_def pcb_shape_def open_fds_def)
  have f: "ram demo_fish = demo_fish_ram" "fs demo_fish = demo_files" "mmu demo_fish = mmu demo_shell" "con_inv demo_fish" "curr_pcb demo_fish = Some ?p"
    using demo_cat_fields by (simp_all add: demo_fish_def con_inv_def)
  have r: "program_ready 0x08048200 0x848200 demo_fish" by (rule demo_ready [OF _ f(2-5) ok]) (simp add: f(1) demo_fish_small)
  have "i \<in> used_fds demo_fish \<longleftrightarrow> i \<in> {2..<2 + 1}" for i
  proof -
    consider "i < 2" | "i = 2" | "i = 3" | "i = 4" | "i = 5" | "i = 6" | "i = 7" | "8 \<le> i" by linarith
    then show ?thesis using used_fds_pcb [OF f(5), of i] by cases (simp_all add: demo_pcb_def std_files_def opened_node_def closed_node_def numeral_eq_Suc)
  qed
  then have u: "used_fds demo_fish = {2..<2 + 1}" by blast
  have t: "read32 (ram demo_fish) (dentry_addr (fs demo_fish) 1 + 32) = 0" unfolding f by code_simp
  have k: "lookup_name (ram demo_fish) (fs demo_fish) (text_of ''rtc'') = Some 1" unfolding f by (rule demo_fish_lookup)
  have c: "frame_cells 0 (lines_of [0x41]) (lines_of [0x41]) = [(40, 0x41, 0x41)]" by code_simp
  from fish_runs [OF r demo_task_page _ _ _ u _ k t demo_fish_frame(1,2) refl _ refl, of "0x08048300" "0x100" "replicate 4 0" 3 zero_blink zero_blink] show ?thesis
    unfolding c by auto
qed

end
