(* ===== verification/User_Signals.thy ===== *)
theory User_Signals
  imports User_Runs
begin

text \<open>
  The program \<open>sigtest\<close> (\<open>ece391sigtest.c\<close>), a test of signals, and its run on this kernel, which has none: the handlers are
  refused, and the store through the null pointer is a page fault.
\<close>

section \<open>ece391sigtest.c\<close>

text \<open>A program ends with a result or with a store to an address it may not write.\<close>

datatype 's ending = Exits u32 's | Faults u32 's

text \<open>\<open>install\<close> is the call \<open>ece391_set_handler\<close> and \<open>writable\<close> says which addresses the program may store to. \<open>badbuf\<close> and \<open>charbuf\<close> are
  the static variables, \<open>charbuf_at\<close> the address of the latter.\<close>

definition sigtest ::
    "'s os \<Rightarrow> (u32 \<Rightarrow> u32 \<Rightarrow> 's \<Rightarrow> (u32 \<times> 's) option) \<Rightarrow> (u32 \<Rightarrow> 's \<Rightarrow> bool) \<Rightarrow> u32 \<Rightarrow> u32 \<Rightarrow> u32 \<Rightarrow> u8 list \<Rightarrow> 's \<Rightarrow> 's ending option" where
  "sigtest os install writable segfault_at alarm_at charbuf_at buf s = do {
     let badbuf = 0;
     let charbuf = (0 :: u8);
     (r, buf, s) \<leftarrow> sys_getargs os buf 1024 s;
     if r \<noteq> 0 then map_option (Exits 3) (ece391_fdputs os 1 (c_string ''could not read argument\<newline>'') s)
     else do {
       c \<leftarrow> list_view buf 0;
       s \<leftarrow> (if c = 0x31 then do {
               s \<leftarrow> ece391_fdputs os 1 (c_string ''Installing signal handlers\<newline>'') s;
               (_, s) \<leftarrow> install 1 segfault_at s;
               (_, s) \<leftarrow> install 3 alarm_at s;
               Some s
             } else Some s);
       s \<leftarrow> ece391_fdputs os 1 (c_string ''Hi, what's your name? '') s;
       (cnt, buf, s) \<leftarrow> sys_read os 0 buf 1023 s;
       if cnt = ERR then map_option (Exits 3) (ece391_fdputs os 1 (c_string ''Can't read name from keyboard.\<newline>'') s)
       else if \<not> writable badbuf s then Some (Faults badbuf s)
       else do {
         let charbuf = (if badbuf = charbuf_at then 1 else charbuf);
         buf \<leftarrow> store buf (unat cnt) 0;
         s \<leftarrow> ece391_fdputs os 1 (c_string ''Hello, '') s;
         s \<leftarrow> ece391_fdputs os 1 buf s;
         s \<leftarrow> (if charbuf = 1 then ece391_fdputs os 1 (c_string ''success\<newline>'') s else ece391_fdputs os 1 (c_string ''failure\<newline>'') s);
         Some (Exits 0 s)
       }
     }
   }"

text \<open>The question and what the program does before it.\<close>

definition signal_text :: "u8 list \<Rightarrow> u8 list" where
  "signal_text arg = (if hd arg = 0x31 then text_of ''Installing signal handlers\<newline>'' else []) @ text_of ''Hi, what's your name? ''"

context line_reader
begin

lemma sigtest_faults:
  assumes a: "sys_getargs os b 1024 s = Some (0, b', u)" "inv u" "list_view b' 0 = Some c" "length b' = 1024" "typed u = cs # lns"
    and i: "\<And>sig h t. inv t \<Longrightarrow> \<exists>r t'. install sig h t = Some (r, t') \<and> inv t' \<and> out t' = out t \<and> typed t' = typed t"
    and w: "\<And>t. inv t \<Longrightarrow> \<not> writable 0 t"
  shows "\<exists>t. sigtest os install writable seg alarm charbuf_at b s = Some (Faults 0 t) \<and> inv t \<and> typed t = lns \<and>
    out t = tty_write (signal_text [c] @ cs @ [NEWLINE]) (out u)"
proof -
  let ?i = "''Installing signal handlers\<newline>''" and ?q = "''Hi, what's your name? ''"
  have "\<exists>v. (if c = 0x31 then do {
           s \<leftarrow> ece391_fdputs os 1 (c_string ?i) u;
           (_, s) \<leftarrow> install 1 seg s;
           (_, s) \<leftarrow> install 3 alarm s;
           Some s
         } else Some u) = Some v \<and> inv v \<and> typed v = cs # lns \<and> out v = tty_write (if c = 0x31 then text_of ?i else []) (out u)"
  proof (cases "c = 0x31")
    case True
    obtain v where v: "ece391_fdputs os 1 (c_string ?i) u = Some v" "said (text_of ?i) u v"
      using literal_said [OF a(2), of ?i] by (auto simp: text_of_def)
    then have iv: "inv v" by (simp add: said_def)
    from i [OF iv] obtain r v1 where v1: "install 1 seg v = Some (r, v1)" "inv v1" "out v1 = out v" "typed v1 = typed v" by blast
    from i [OF v1(2)] obtain r' v2 where v2: "install 3 alarm v1 = Some (r', v2)" "inv v2" "out v2 = out v1" "typed v2 = typed v1" by blast
    show ?thesis using True v v1 v2 a(5) by (intro exI [of _ v2]) (simp add: said_def)
  qed (use a(2,5) in \<open>simp add: tty_write_def\<close>)
  then obtain v where v: "(if c = 0x31 then do {
           s \<leftarrow> ece391_fdputs os 1 (c_string ?i) u;
           (_, s) \<leftarrow> install 1 seg s;
           (_, s) \<leftarrow> install 3 alarm s;
           Some s
         } else Some u) = Some v" "inv v" "typed v = cs # lns" "out v = tty_write (if c = 0x31 then text_of ?i else []) (out u)" by blast
  obtain x where x: "ece391_fdputs os 1 (c_string ?q) v = Some x" "said (text_of ?q) v x"
    using literal_said [OF v(2), of ?q] by (auto simp: text_of_def)
  have ix: "inv x" "typed x = cs # lns" using x(2) v(3) by (simp_all add: said_def)
  obtain y b'' where y: "sys_read os 0 b' 1023 x = Some (of_nat (length cs + 1), b'', y)" "inv y" "out y = tty_write (cs @ [NEWLINE]) (out x)"
      "typed y = lns" "length cs < 127"
    using read_terminated [OF ix a(4)] by blast
  have n: "(of_nat (length cs + 1) :: u32) \<noteq> ERR" using y(5) small_not_error(2) [of "length cs + 1"] by simp
  have "sigtest os install writable seg alarm charbuf_at b s = Some (Faults 0 y)"
    unfolding sigtest_def Let_def a(1,3) Option.bind.bind_lunit prod.case if_False v(1) x(1) y(1) using n w [OF y(2)] by simp
  then show ?thesis using y x(2) v(4) by (intro exI [of _ y]) (simp add: signal_text_def said_def tty_write_def)
qed

end

section \<open>sigtest on this kernel\<close>

definition session_install :: "u32 \<Rightarrow> u32 \<Rightarrow> 'a kbd_scheme \<times> u8 list list \<Rightarrow> (u32 \<times> 'a kbd_scheme \<times> u8 list list) option" where
  "session_install signum handler_address = (\<lambda>(s, keys).
     case syscall [] 0 0 9 signum handler_address 0 s of Some (Return r, s) \<Rightarrow> Some (r, s, keys) | _ \<Rightarrow> None)"

definition session_writable :: "u32 \<Rightarrow> 'a kbd_scheme \<times> u8 list list \<Rightarrow> bool" where
  "session_writable a = (\<lambda>(s, keys). translate (mmu s) True a \<noteq> None)"

lemma null_unmapped: "paging_ok m \<Longrightarrow> pos < 6 \<Longrightarrow> translate (set_task_page (of_nat pos) (init_paging m)) True 0 = None"
  using translate_set_task_page [OF paging_ok_steps(1), of m pos] translate_init by simp

text \<open>A session in which the page tables are the ones of its start.\<close>

definition paged_session :: "u32 \<Rightarrow> u32 \<Rightarrow> paging \<Rightarrow> 'a kbd_scheme \<times> u8 list list \<Rightarrow> bool" where
  "paged_session area pa m t \<longleftrightarrow> session_ready area pa False {} t \<and> mmu (fst t) = m"

interpretation paged: line_reader "session_os sh esp ebp area" "paged_session area pa m" session_out session_typed
proof
  fix s :: "'a kbd_scheme \<times> u8 list list" and n and b :: "u8 list"
  assume a: "paged_session area pa m s" "n \<le> length b" "length b \<le> 2048"
  then have r: "session_ready area pa False {} s" "mmu (fst s) = m" by (simp_all add: paged_session_def)
  from session_write [OF r(1) a(2,3), of sh esp ebp] r(2) show "\<exists>s'. sys_write (session_os sh esp ebp area) 1 b (of_nat n) s = Some (of_nat n + 1, s') \<and>
      paged_session area pa m s' \<and> session_out s' = tty_write (take n b) (session_out s)" by (auto simp: paged_session_def keeps_def)
  fix r s' assume "sys_write (session_os sh esp ebp area) 1 b (of_nat n) s = Some (r, s')"
  with session_write [OF r(1) a(2,3), of sh esp ebp] show "session_typed s' = session_typed s" by auto
next
  fix s :: "'a kbd_scheme \<times> u8 list list" and cs
  assume "paged_session area pa m s" "cs \<in> set (session_typed s)"
  then show "length cs < 127 \<and> 0 \<notin> set cs \<and> NEWLINE \<notin> set cs"
    using typed_session.typed_text [of area pa False "{}" s cs] by (simp add: paged_session_def)
next
  fix s :: "'a kbd_scheme \<times> u8 list list" and cs lns n and b :: "u8 list"
  assume a: "paged_session area pa m s" "session_typed s = cs # lns" "length cs + 3 \<le> length b" "length b \<le> 2048" "length cs < n" "n < 2048"
  then have r: "session_ready area pa False {} s" "mmu (fst s) = m" by (simp_all add: paged_session_def)
  from session_read_line [OF r(1) a(2-6), of sh esp ebp] r(2)
  show "\<exists>s' b'. sys_read (session_os sh esp ebp area) 0 b (of_nat n) s = Some (of_nat (length cs + 1), b', s') \<and>
      paged_session area pa m s' \<and> session_out s' = tty_write (cs @ [NEWLINE]) (session_out s) \<and> session_typed s' = lns \<and>
      length b' = length b \<and> take (length cs + 1) b' = cs @ [NEWLINE]" by (fastforce simp: paged_session_def keeps_disk_def)
qed

lemma install_refused:
  assumes "paged_session area pa m t"
  shows "\<exists>t'. session_install sig h t = Some (ERR, t') \<and> paged_session area pa m t' \<and> session_out t' = session_out t \<and> session_typed t' = session_typed t"
proof -
  obtain s keys where t: "t = (s, keys)" by force
  have r: "session_ready area pa False {} (s, keys)" "program_ready area pa s" "mmu s = m" using assms unfolding t by (simp_all add: paged_session_def)
  have "syscall [] 0 0 9 sig h 0 s = Some (Return ERR, resumed (resumed s))" by (simp add: syscall_def set_handler_def resumed_def Let_def)
  moreover have k: "keeps s (resumed (resumed s))" "program_ready area pa (resumed (resumed s))"
    using silent_refl [OF r(2)] silent_ready [OF r(2), of "resumed (resumed s)"] by (simp_all add: silent_def)
  ultimately show ?thesis using session_keeps [OF r(1) k] r(3)
    by (intro exI [of _ "(resumed (resumed s), keys)"]) (simp add: t session_install_def paged_session_def)
qed

text \<open>The run of the program: it asks for a name and is stopped by a page fault at address 0, before it greets anybody, with or
  without the argument that installs the handlers. In the page of a task nothing is mapped at address 0 (\<open>null_unmapped\<close>).\<close>

theorem sigtest_stopped:
  fixes s :: "'a kbd_scheme"
  assumes r: "session_ready area pa False {} (s, ks # keys)" "length buf = 1024" "translate (mmu s) True 0 = None"
    and p: "curr_pcb s = Some p" "holds_string (list_view (arg_buffer p)) cs" "cs \<noteq> []" "length cs < 100"
  shows "\<exists>t. sigtest (session_os sh esp ebp area) session_install session_writable seg alarm charbuf_at buf (s, ks # keys) = Some (Faults 0 t) \<and>
    session_ready area pa False {} t \<and> session_typed t = map (typed_line s) keys \<and>
    session_out t = tty_write (signal_text cs @ typed_line s ks @ [NEWLINE]) (tty s)"
proof -
  have q: "program_ready area pa s" "typing_ready s" using r(1) by simp_all
  obtain u where u: "sys_getargs (kernel_os [] area) buf 1024 s = Some (0, cs @ 0 # drop (length cs + 1) buf, u)" "program_ready area pa u" "tty u = tty s" "keeps s u"
    using kernel_getargs [OF q(1) p(1) _ _ p(2-4), of buf "[]"] r(2) p(4) by auto
  note k = session_keeps [OF r(1) u(4,2)]
  have mu: "mmu u = mmu s" using u(4) by (simp add: keeps_def)
  let ?b = "cs @ 0 # drop (length cs + 1) buf"
  have g: "sys_getargs (session_os sh esp ebp area) buf 1024 (s, ks # keys) = Some (0, ?b, (u, ks # keys))"
    using u(1) by (simp add: session_os_def array_with_keys_def)
  have "\<exists>t. sigtest (session_os sh esp ebp area) session_install session_writable seg alarm charbuf_at buf (s, ks # keys) = Some (Faults 0 t) \<and>
      paged_session area pa (mmu s) t \<and> session_typed t = map (typed_line s) keys \<and>
      session_out t = tty_write (signal_text [hd cs] @ typed_line s ks @ [NEWLINE]) (session_out (u, ks # keys))"
  proof (rule paged.sigtest_faults [OF g])
    show "paged_session area pa (mmu s) (u, ks # keys)" using k(1) mu by (simp add: paged_session_def)
    show "list_view ?b 0 = Some (hd cs)" using p(3) by (cases cs) simp_all
    show "length ?b = 1024" using p(4) r(2) by simp
    show "session_typed (u, ks # keys) = typed_line s ks # map (typed_line s) keys" using k(2) by simp
    show "\<exists>r t'. session_install sig h t = Some (r, t') \<and> paged_session area pa (mmu s) t' \<and> session_out t' = session_out t \<and> session_typed t' = session_typed t"
      if "paged_session area pa (mmu s) t" for sig h t using install_refused [OF that] by blast
    show "\<not> session_writable 0 t" if "paged_session area pa (mmu s) t" for t :: "'a kbd_scheme \<times> u8 list list"
      using that r(3) by (cases t) (simp add: paged_session_def session_writable_def)
  qed
  moreover have "signal_text [hd cs] = signal_text cs" "session_out (u, ks # keys) = tty s" using u(3) by (simp_all add: signal_text_def)
  ultimately show ?thesis unfolding paged_session_def by metis
qed

end
