(* ===== verification/Lib_Tests.thy ===== *)
theory Lib_Tests
  imports User_Kernel
begin

text \<open>
  The test commands at the end of \<open>lib.c\<close>: listing the directory, printing a file by name and the files one after the other, and the
  switch for the test of the clock. Local arrays are parameters; a store behind an array has no result.
\<close>

section \<open>lib.c: the test commands\<close>

abbreviation (input) TEST_V :: nat where "TEST_V \<equiv> 36864"

record tests =
  rtc_flag :: u8
  test_file :: u32

definition fill :: "u8 list \<Rightarrow> u8 list \<Rightarrow> u8 list option" where
  "fill bytes buffer = (if length bytes \<le> length buffer then Some (bytes @ drop (length bytes) buffer) else None)"

partial_function (option) control_one_loop :: "u32 \<Rightarrow> u8 list \<Rightarrow> dentry \<Rightarrow> 'a kernel_scheme \<Rightarrow> 'a kernel_scheme option" where
  "control_one_loop i buffer d s =
     (case fs_print_name (ram s) i (of_nat TEST_V) (fs s) of (len, bytes) \<Rightarrow>
        if 0 < sint len then do {
          buffer \<leftarrow> fill bytes buffer;
          buffer \<leftarrow> store_int buffer (sint len) 0;
          (_, d, f) \<leftarrow> read_dentry_by_name (ram s) (list_view buffer) (Some d) (fs s);
          d \<leftarrow> d;
          (_, s) \<leftarrow> printf (text_of ''name: %s, type: %d, idx:%d, size:%d\<newline>'')
            [Str (list_view buffer), Num (file_type d), Num (inode_index d), Num (read32 (ram s) (get_start (fs s) + 4096 + inode_index d * 4096))]
            (s\<lparr>fs := f\<rparr>);
          control_one_loop (i + 1) buffer d s
        }
        else Some s)"

definition control_one :: "dentry \<Rightarrow> 'a kernel_scheme \<Rightarrow> 'a kernel_scheme option" where
  "control_one d s = do {
     let s = reset s;
     let buffer = replicate TEST_V 0;
     (_, s) \<leftarrow> printf (text_of ''printing file name: \<newline>'') [] s;
     control_one_loop 0 buffer d s
   }"

definition control_two :: "u32 \<Rightarrow> u8 list \<Rightarrow> dentry \<Rightarrow> 'a kernel_scheme \<Rightarrow> 'a kernel_scheme option" where
  "control_two buf_at buffer d s = do {
     let s = reset s;
     let name = list_view (text_of ''verylargetextwithverylongname.txt'' @ [0]);
     (_, s) \<leftarrow> printf (text_of ''printing: %s\<newline>'') [Str name] s;
     (_, d, f) \<leftarrow> read_dentry_by_name (ram s) name (Some d) (fs s);
     d \<leftarrow> d;
     let s = s\<lparr>fs := f\<rparr>;
     buffer \<leftarrow> fill (snd (read_data (ram s) (fs s) (inode_index d) 0 buf_at (of_nat TEST_V))) buffer;
     map_option snd (printf (text_of ''%s\<newline>'') [Str (list_view buffer)] s)
   }"

primrec print_chars :: "u8 list \<Rightarrow> 'a con_scheme \<Rightarrow> 'a con_scheme option" where
  "print_chars [] s = Some s"
| "print_chars (c # cs) s = do { (_, s) \<leftarrow> printf (text_of ''%c'') [Num (ucast c)] s; print_chars cs s }"

definition control_three :: "u32 \<Rightarrow> u8 list \<Rightarrow> dentry \<Rightarrow> 'a kernel_scheme \<times> tests \<Rightarrow> ('a kernel_scheme \<times> tests) option" where
  "control_three buf_at buffer d = (\<lambda>(s, v). do {
     let s = reset s;
     let num_files = read32 (ram s) (get_start (fs s));
     s \<leftarrow> (if test_file v < num_files then do {
             (_, d) \<leftarrow> read_dentry_by_index (ram s) (test_file v) (Some d) (fs s);
             d \<leftarrow> d;
             let size = get_dentry_size (ram s) (fs s) d;
             let (len, bytes) = read_data (ram s) (fs s) (inode_index d) 0 buf_at size;
             buffer \<leftarrow> fill bytes buffer;
             buffer \<leftarrow> store_int buffer (sint len) 0;
             s \<leftarrow> print_chars (take (nat (sint len)) buffer) s;
             map_option snd (printf (text_of ''filename: %s\<newline>'') [Str (list_view (dentry_bytes d))] s)
           }
           else Some s);
     let i = test_file v + 1;
     Some (s, v\<lparr>test_file := if 16 < sint i then 0 else i\<rparr>)
   })"

definition control_four :: "'a kernel_scheme \<times> tests \<Rightarrow> 'a kernel_scheme \<times> tests" where
  "control_four = (\<lambda>(s, v). (reset s, v\<lparr>rtc_flag := 1\<rparr>))"

definition control_five :: "'a kernel_scheme \<times> tests \<Rightarrow> 'a kernel_scheme \<times> tests" where
  "control_five = (\<lambda>(s, v). (reset s, v\<lparr>rtc_flag := 0\<rparr>))"

definition rtc_helper :: "tests \<Rightarrow> u8" where
  "rtc_helper v = rtc_flag v"

definition test_case_handler :: "u32 \<Rightarrow> u8 list \<Rightarrow> dentry \<Rightarrow> u8 \<Rightarrow> 'a kernel_scheme \<times> tests \<Rightarrow> ('a kernel_scheme \<times> tests) option" where
  "test_case_handler buf_at buffer d test = (\<lambda>(s, v).
     let v = v\<lparr>rtc_flag := 0\<rparr> in
     if test = 1 then map_option (\<lambda>s. (s, v)) (control_one d s)
     else if test = 2 then map_option (\<lambda>s. (s, v)) (control_two buf_at buffer d s)
     else if test = 3 then control_three buf_at buffer d (s, v)
     else if test = 4 then Some (control_four (s, v))
     else if test = 5 then Some (control_five (s, v))
     else Some (s, v))"

section \<open>Output that leaves the disk alone\<close>

text \<open>A kernel that can show its files: an image with a well-formed directory, off the screen.\<close>

definition disk_ready :: "'a kernel_scheme \<Rightarrow> bool" where
  "disk_ready s \<longleftrightarrow> image_layout (ram s) (fs s) \<and> dir_ok (ram s) (fs s) \<and>
     (\<forall>j<2000. vaddr j \<notin> disk_image (ram s) (fs s) \<and> vaddr j + 1 \<notin> disk_image (ram s) (fs s))"

lemma screen_same_image: "disk_ready s \<Longrightarrow> same_outside_video (ram s) m \<Longrightarrow> same_image (fs s) (ram s) m"
  unfolding disk_ready_def same_image_def same_outside_video_def by metis

text \<open>Showing a text on a state of the same disk.\<close>

definition shown :: "u8 list \<Rightarrow> 'a kernel_scheme \<Rightarrow> 'a kernel_scheme \<Rightarrow> bool" where
  "shown cs s t \<longleftrightarrow> con_inv t \<and> tty t = tty_write cs (tty s) \<and> same_outside_video (ram s) (ram t) \<and> con.more t = con.more s"

lemma shown_trans: "shown cs s t \<Longrightarrow> shown ds t u \<Longrightarrow> shown (cs @ ds) s u"
  by (auto simp: shown_def tty_write_def same_outside_video_def)

lemma shown_disk:
  assumes "disk_ready s" "shown cs s t"
  shows "fs t = fs s" "same_image (fs s) (ram s) (ram t)" "disk_ready t"
proof -
  show f: "fs t = fs s" using assms(2) more_tasks [of t s] by (simp add: shown_def)
  show i: "same_image (fs s) (ram s) (ram t)" using screen_same_image [OF assms(1)] assms(2) by (simp add: shown_def)
  show "disk_ready t" using assms(1) same_image_layout [OF i] same_image_dir(1) [OF _ i] same_image_image [OF i] by (simp add: disk_ready_def f)
qed

lemma printf_shown:
  fixes s :: "'a kernel_scheme"
  assumes "con_inv s" "format_text format args = Some cs"
  shows "\<exists>t. printf format args s = Some (length format, t) \<and> shown cs s t"
  using put_all_run [OF assms(1), of cs] printf_prints(1) [OF assms(2), of s] by (auto simp: printf_def con_run_def con_frame_def shown_def)

lemma print_chars_shown:
  fixes s :: "'a kernel_scheme"
  assumes "con_inv s"
  shows "\<exists>t. print_chars cs s = Some t \<and> shown cs s t"
  using assms
proof (induction cs arbitrary: s)
  case (Cons c cs)
  have "format_text (text_of ''%c'') [Num (ucast c)] = Some [c]" by (simp add: text_of_def)
  from printf_shown [OF Cons.prems this] obtain t where t: "printf (text_of ''%c'') [Num (ucast c)] s = Some (length (text_of ''%c''), t)" "shown [c] s t" by blast
  moreover obtain u where "print_chars cs t = Some u" "shown cs t u" using Cons.IH [of t] t(2) by (auto simp: shown_def)
  ultimately show ?case using shown_trans [of "[c]" s t cs u] by auto
qed (simp add: shown_def tty_write_def same_outside_video_def)

lemma reset_shown:
  fixes s :: "'a kernel_scheme"
  assumes "length (enter_tracker s) = 25" "length (keyboard_buffer s) = 128" "disk_ready s"
  shows "con_inv (reset s)" "tty (reset s) = (replicate 2000 BLANK, 0)" "fs (reset s) = fs s" "same_image (fs s) (ram s) (ram (reset s))" "disk_ready (reset s)"
proof -
  note r = reset_spec [OF assms(1,2)]
  show "con_inv (reset s)" "tty (reset s) = (replicate 2000 BLANK, 0)" using r(1,2) .
  show f: "fs (reset s) = fs s" using more_tasks [of "reset s" s] by simp
  show i: "same_image (fs s) (ram s) (ram (reset s))" using screen_same_image [OF assms(3) r(6)] .
  show "disk_ready (reset s)"
    using assms(3) same_image_layout [OF i] same_image_dir(1) [OF _ i] same_image_image [OF i] unfolding disk_ready_def f by blast
qed

section \<open>What the commands show\<close>

lemma view_text_string: "holds_string v cs \<Longrightarrow> view_text v = Some cs"
  using strlen_string [of v cs] by (auto simp: view_text_def holds_string_def intro: nth_equalityI)

lemma same_image_string:
  assumes "image_layout m f" "same_image f m m'" "i < 63"
  shows "dentry_string m' (dentry_addr f i) = dentry_string m (dentry_addr f i)"
proof -
  have "map (\<lambda>j. m' (dentry_addr f i + of_nat j)) [0..<56] = map (\<lambda>j. m (dentry_addr f i + of_nat j)) [0..<56]"
    using same_image_entry [OF assms] by (intro map_cong) simp_all
  then show ?thesis by (simp only: dentry_string_def bytes_at_def)
qed

lemma takeWhile_shorter: "\<exists>x\<in>set xs. \<not> P x \<Longrightarrow> length (takeWhile P xs) < length xs"
  by (induction xs) auto

lemma array_sint: "n < TEST_V \<Longrightarrow> sint (of_nat n :: u32) = int n"
  by (simp add: sint_uint uint_nat unat_offset signed_take_bit_int_eq_self)

text \<open>The next file and its name on a fresh screen; the number of the file goes round from 0 to 16.\<close>

theorem control_three_shows:
  fixes s :: "'a kernel_scheme"
  assumes c: "length (enter_tracker s) = 25" "length (keyboard_buffer s) = 128" "disk_ready s" "dentry_ok d" "buf_at \<noteq> 0" "length buffer = TEST_V"
    and i: "unat (test_file v) < min 63 (unat (read32 (ram s) (fs_bootblk (fs s))))"
    and f: "ino = read32 (ram s) (dentry_addr (fs s) (unat (test_file v)) + 36)" "file_ok (ram s) (fs s) ino" "unat (inode_length (ram s) (fs s) ino) < TEST_V"
  shows "\<exists>s'. control_three buf_at buffer d (s, v) = Some (s', v\<lparr>test_file := if unat (test_file v) < 16 then test_file v + 1 else 0\<rparr>) \<and> con_inv s' \<and>
    tty s' = tty_write (program_bytes (ram s) (fs s) ino @ text_of ''filename: '' @ dentry_string (ram s) (dentry_addr (fs s) (unat (test_file v))) @ [NEWLINE])
      (replicate 2000 BLANK, 0)"
proof -
  let ?s = "reset s" and ?m = "ram (reset s)" and ?i = "unat (test_file v)" and ?f = "fs s"
  note r = reset_shown [OF c(1-3)]
  have l: "image_layout (ram s) ?f" "dir_ok (ram s) ?f" using c(3) by (simp_all add: disk_ready_def)
  note im = same_image_dir [OF l(1) r(4)] same_image_file [OF l(1) r(4)] same_image_string [OF l(1) r(4)]
  have i63: "?i < 63" using i by simp
  have "read32 ?m (fs_bootblk ?f + of_nat 0) = read32 (ram s) (fs_bootblk ?f + of_nat 0)" by (rule same_image_read32 [OF r(4)]) simp
  then have n: "read32 ?m (fs_bootblk ?f) = read32 (ram s) (fs_bootblk ?f)" by simp
  obtain d' where d: "holds_dentry ?m ?f ?i d'" "read_dentry_by_index ?m (test_file v) (Some d) ?f = Some (0, Some d')"
    using read_dentry_by_index_reads [of ?m ?f d "test_file v"] i im(1) l(2) c(4) n by auto
  have ino: "inode_index d' = ino" using d(1) im(4) [OF i63] f(1) by (simp add: holds_dentry_def)
  have str: "view_text (list_view (dentry_bytes d')) = Some (dentry_string (ram s) (dentry_addr ?f ?i))"
    using d(1) im(8) [OF i63] by (intro view_text_string) (simp add: holds_dentry_def)
  have fm: "file_ok ?m ?f ino" "inode_length ?m ?f ino = inode_length (ram s) ?f ino" "program_bytes ?m ?f ino = program_bytes (ram s) ?f ino"
    using im(5-7) f(2) by simp_all
  let ?L = "unat (inode_length (ram s) ?f ino)" and ?ps = "program_bytes (ram s) ?f ino"
  have size: "get_dentry_size ?m ?f d' = inode_length (ram s) ?f ino"
    using l(1) ino fm(2) by (simp add: get_dentry_size_def inode_length_def inode_ptr_def image_layout_def)
  have "blocks_valid ?m ?f ino 0 ?L" using fm(1,2) by (auto simp: file_ok_def intro: blocks_valid_mono)
  then have rd: "read_data ?m ?f ino 0 buf_at (inode_length (ram s) ?f ino) = (of_nat ?L, ?ps)"
    using read_data_reads' [of ino ?m ?f buf_at 0 "inode_length (ram s) ?f ino"] fm c(5) by (simp add: file_ok_def program_bytes_def)
  have len: "length ?ps = ?L" by (simp add: program_bytes_def)
  have sl: "sint (of_nat ?L :: u32) = int ?L" by (rule array_sint [OF f(3)])
  let ?b = "(?ps @ drop ?L buffer)[?L := 0]"
  have fl: "fill ?ps buffer = Some (?ps @ drop ?L buffer)" using len f(3) c(6) by (simp add: fill_def)
  have lb: "?L < length (?ps @ drop ?L buffer)" using len f(3) c(6) by simp
  have st: "store_int (?ps @ drop ?L buffer) (int ?L) 0 = Some ?b" unfolding store_int_def nat_int store_Some [OF lb] by simp
  have tk: "take (nat (int ?L)) ?b = ?ps" using len by (simp only: nat_int take_update_cancel order_refl take_append) simp
  obtain t where t: "print_chars ?ps ?s = Some t" "shown ?ps ?s t" using print_chars_shown [OF r(1)] by blast
  have "format_text (text_of ''filename: %s\<newline>'') [Str (list_view (dentry_bytes d'))] =
      Some (text_of ''filename: '' @ dentry_string (ram s) (dentry_addr ?f ?i) @ [NEWLINE])" using str by (simp add: text_of_def)
  moreover have ct: "con_inv t" using t(2) by (simp add: shown_def)
  ultimately obtain u where
    u: "printf (text_of ''filename: %s\<newline>'') [Str (list_view (dentry_bytes d'))] t = Some (length (text_of ''filename: %s\<newline>''), u)"
      "shown (text_of ''filename: '' @ dentry_string (ram s) (dentry_addr ?f ?i) @ [NEWLINE]) t u" using printf_shown by blast
  have lt: "test_file v < read32 ?m (get_start ?f)" using i n by (simp add: get_start_def word_less_nat_alt)
  have ti: "test_file v + 1 = of_nat (?i + 1)" by simp
  have "sint (of_nat (?i + 1) :: u32) = int (?i + 1)" by (rule array_sint) (use i63 in simp)
  then have si: "sint (test_file v + 1) = int (?i + 1)" by (simp only: ti)
  have cmp: "16 < int (?i + 1) \<longleftrightarrow> \<not> ?i < 16" by linarith
  have wrap: "(if 16 < sint (test_file v + 1) then 0 else test_file v + 1) = (if ?i < 16 then test_file v + 1 else 0)" unfolding si cmp by simp
  have "control_three buf_at buffer d (s, v) = Some (u, v\<lparr>test_file := if ?i < 16 then test_file v + 1 else 0\<rparr>)"
    unfolding control_three_def Let_def prod.case r(3) if_P [OF lt] d(2) Option.bind.bind_lunit ino size rd fl sl st tk t(1) u(1) option.map snd_conv wrap ..
  then show ?thesis using shown_trans [OF t(2) u(2)] r(2) by (auto simp: shown_def)
qed

text \<open>The line for an entry of the directory: its name, and type, inode number and length of the first entry the name is found at.\<close>

definition entry_line :: "memory \<Rightarrow> fsys \<Rightarrow> nat \<Rightarrow> u8 list" where
  "entry_line m f i =
     (let k = the (lookup_name m f (disk_name m f i)); ino = read32 m (dentry_addr f k + 36)
      in text_of ''name: '' @ disk_name m f i @ text_of '', type: '' @ signed_text (read32 m (dentry_addr f k + 32)) @
        text_of '', idx:'' @ signed_text ino @ text_of '', size:'' @ signed_text (inode_length m f ino) @ [NEWLINE])"

text \<open>A directory in which every name can be listed: none is empty and every inode is one of the disk.\<close>

definition listable :: "memory \<Rightarrow> fsys \<Rightarrow> bool" where
  "listable m f \<longleftrightarrow> unat (read32 m (fs_bootblk f)) \<le> 63 \<and>
     (\<forall>i<unat (read32 m (fs_bootblk f)). disk_name m f i \<noteq> []) \<and> (\<forall>i<63. read32 m (dentry_addr f i + 36) < num_inodes m f)"

lemma own_name_found:
  assumes "disk_name m f i \<noteq> []" "i < 63"
  shows "\<exists>k<63. lookup_name m f (disk_name m f i) = Some k"
proof -
  have "length (disk_name m f i) \<le> 32" using length_takeWhile_le [of "\<lambda>c. c \<noteq> 0" "bytes_at m (dentry_addr f i) 32"] by (simp add: disk_name_def bytes_at_def)
  then have "name_matches (disk_name m f i) (disk_name m f i)" by (simp add: name_matches_def)
  then have "lookup_name m f (disk_name m f i) \<noteq> None" using assms by (auto simp: lookup_name_def find_None_iff)
  then obtain k where "lookup_name m f (disk_name m f i) = Some k" by blast
  then show ?thesis using lookup_name_below by blast
qed

lemma same_entries:
  assumes l: "image_layout m f" "same_image f m m'" "same_disk f f'" and ok: "listable m f"
  shows "listable m' f'" "read32 m' (fs_bootblk f') = read32 m (fs_bootblk f)"
    "i < unat (read32 m (fs_bootblk f)) \<Longrightarrow> entry_line m' f' i = entry_line m f i"
proof -
  note v = same_disk_view [OF l(3)] and n = same_disk_names [OF l(3)]
  note im = same_image_dir [OF l(1,2)] and ty = same_image_type [OF l(1,2)]
  have "read32 m' (fs_bootblk f + of_nat 0) = read32 m (fs_bootblk f + of_nat 0)" by (rule same_image_read32 [OF l(2)]) simp
  then show num: "read32 m' (fs_bootblk f') = read32 m (fs_bootblk f)" by (simp add: v)
  have dn: "disk_name m' f' j = disk_name m f j" if "j < 63" for j using im(2) [OF that] by (simp add: disk_name_def v)
  have ni: "num_inodes m' f' = num_inodes m f" using same_image_counts [OF l(2)] v(2) by simp
  show "listable m' f'" using ok dn im(4) by (auto simp: listable_def num ni v(1))
  assume i: "i < unat (read32 m (fs_bootblk f))"
  then have i63: "i < 63" "disk_name m f i \<noteq> []" using ok by (auto simp: listable_def)
  then obtain k where k: "k < 63" "lookup_name m f (disk_name m f i) = Some k" using own_name_found by blast
  have "lookup_name m' f' = lookup_name m f" using n(5) im(3) by (simp add: fun_eq_iff)
  moreover have "inode_length m' f' (read32 m (dentry_addr f k + 36)) = inode_length m f (read32 m (dentry_addr f k + 36))"
    using same_image_inode [OF l(1,2)] ok k(1) v(5) by (simp add: listable_def)
  ultimately show "entry_line m' f' i = entry_line m f i"
    using dn [OF i63(1)] k im(4) [OF k(1)] ty [OF k(1)] by (simp add: entry_line_def Let_def v(1))
qed

lemma line_format:
  assumes "view_text v = Some cs"
  shows "format_text (text_of ''name: %s, type: %d, idx:%d, size:%d\<newline>'') [Str v, Num a, Num b, Num c] =
    Some (text_of ''name: '' @ cs @ text_of '', type: '' @ signed_text a @ text_of '', idx:'' @ signed_text b @ text_of '', size:'' @ signed_text c @ [NEWLINE])"
  using assms by (simp add: text_of_def)

lemma listed_name:
  assumes "fs_dentries f = fs_bootblk f + 64" "i < unat (read32 m (fs_bootblk f))"
  shows "fs_print_name m (of_nat i) (of_nat TEST_V) f = (of_nat (length (disk_name m f i)), disk_name m f i)" "length (disk_name m f i) \<le> 32"
proof -
  show l: "length (disk_name m f i) \<le> 32" using length_takeWhile_le [of "\<lambda>c. c \<noteq> 0" "bytes_at m (dentry_addr f i) 32"] by (simp add: disk_name_def bytes_at_def)
  have u: "unat (of_nat i :: u32) = i" using assms(2) unat_u32_less [of "read32 m (fs_bootblk f)"] by (intro unat_offset) linarith
  have "fs_bootblk f + 64 + of_nat i * 64 = dentry_addr f i" using assms(1) by (simp add: dentry_addr_def)
  then have "name_loop m (fs_bootblk f + 64 + of_nat i * 64) (unat (of_nat TEST_V :: u32)) 0 [] = disk_name m f i"
    using name_loop_takes [of m "dentry_addr f i" "unat (of_nat TEST_V :: u32)" 0 "[]"] by (simp add: disk_name_def bytes_at_def)
  moreover have "\<not> read32 m (fs_bootblk f) \<le> of_nat i" using assms(2) u by (simp add: word_le_nat_alt)
  ultimately show "fs_print_name m (of_nat i) (of_nat TEST_V) f = (of_nat (length (disk_name m f i)), disk_name m f i)"
    by (simp add: fs_print_name_def Let_def)
qed

lemma control_one_entry:
  fixes s :: "'a kernel_scheme"
  assumes c: "con_inv s" "disk_ready s" "listable (ram s) (fs s)" "dentry_ok d" "length buffer = TEST_V" and i: "i < unat (read32 (ram s) (fs_bootblk (fs s)))"
  shows "\<exists>t buffer' d' k. control_one_loop (of_nat i) buffer d s = control_one_loop (of_nat (i + 1)) buffer' d' t \<and> dentry_ok d' \<and> length buffer' = TEST_V \<and>
    con_inv t \<and> tty t = tty_write (entry_line (ram s) (fs s) i) (tty s) \<and> same_outside_video (ram s) (ram t) \<and> fs t = (fs s)\<lparr>file_pos_keeper := int k\<rparr>"
proof -
  let ?m = "ram s" and ?f = "fs s" let ?n = "disk_name ?m ?f i"
  have l: "image_layout ?m ?f" "dir_ok ?m ?f" using c(2) by (simp_all add: disk_ready_def)
  have i63: "i < 63" "?n \<noteq> []" using c(3) i by (auto simp: listable_def)
  obtain k where k: "k < 63" "lookup_name ?m ?f ?n = Some k" using own_name_found i63 by blast
  have "fs_dentries ?f = fs_bootblk ?f + 64" using l(1) by (simp add: image_layout_def)
  note p = listed_name [OF this i]
  have sl: "sint (of_nat (length ?n) :: u32) = int (length ?n)" using p(2) by (intro array_sint) simp
  let ?b = "(?n @ drop (length ?n) buffer)[length ?n := 0]"
  have b: "length (?n @ drop (length ?n) buffer) = TEST_V" "length ?n < length (?n @ drop (length ?n) buffer)" using p(2) c(5) by simp_all
  have fl: "fill ?n buffer = Some (?n @ drop (length ?n) buffer)" using p(2) c(5) by (simp add: fill_def)
  have st: "store_int (?n @ drop (length ?n) buffer) (int (length ?n)) 0 = Some ?b" unfolding store_int_def nat_int store_Some [OF b(2)] by simp
  have "0 \<notin> set ?n" by (auto simp: disk_name_def dest: set_takeWhileD)
  then have h: "holds_string (list_view ?b) ?n" by (intro terminated_string) (use b(2) in simp_all)
  from read_dentry_by_name_lookup [OF h l(2) c(4)] k(2) obtain d' where
    d: "holds_dentry ?m ?f k d'" "read_dentry_by_name ?m (list_view ?b) (Some d) ?f = Some (0, Some d', ?f\<lparr>file_pos_keeper := int k\<rparr>)" by auto
  have e: "dentry_ok d'" "file_type d' = read32 ?m (dentry_addr ?f k + 32)" "inode_index d' = read32 ?m (dentry_addr ?f k + 36)"
    using d(1) by (simp_all add: holds_dentry_def)
  have sz: "read32 ?m (get_start ?f + 4096 + inode_index d' * 4096) = inode_length ?m ?f (inode_index d')"
    using l(1) by (simp add: get_start_def inode_length_def inode_ptr_def image_layout_def)
  let ?s = "s\<lparr>fs := ?f\<lparr>file_pos_keeper := int k\<rparr>\<rparr>"
  have "con_inv ?s" using c(1) by (simp add: con_inv_def)
  from printf_shown [OF this line_format [OF view_text_string [OF h], of "file_type d'" "inode_index d'" "inode_length ?m ?f (inode_index d')"]] obtain t where
    t: "printf (text_of ''name: %s, type: %d, idx:%d, size:%d\<newline>'') [Str (list_view ?b), Num (file_type d'), Num (inode_index d'), Num (inode_length ?m ?f (inode_index d'))] ?s =
        Some (length (text_of ''name: %s, type: %d, idx:%d, size:%d\<newline>''), t)" "shown (entry_line ?m ?f i) ?s t"
    using k(2) e(2,3) by (auto simp: entry_line_def Let_def)
  have "control_one_loop (of_nat i) buffer d s = control_one_loop (of_nat i + 1) ?b d' t"
    using i63(2) by (subst control_one_loop.simps) (simp only: p(1) prod.case sl fl st d(2) Option.bind.bind_lunit sz t(1), simp)
  moreover have "fs t = fs ?s" using t(2) more_tasks [of t ?s] by (simp add: shown_def)
  moreover have "tty ?s = tty s" by (simp add: tty_def position_def)
  moreover have "length ?b = TEST_V" using b(1) by simp
  ultimately show ?thesis using t(2) e(1) by (intro exI [of _ t] exI [of _ ?b] exI [of _ d'] exI [of _ k]) (simp add: shown_def add.commute)
qed

lemma control_one_lines:
  fixes s :: "'a kernel_scheme"
  assumes "con_inv s" "disk_ready s" "listable (ram s) (fs s)" "dentry_ok d" "length buffer = TEST_V" "i \<le> unat (read32 (ram s) (fs_bootblk (fs s)))"
  shows "\<exists>t. control_one_loop (of_nat i) buffer d s = Some t \<and> con_inv t \<and>
    tty t = tty_write (concat (map (entry_line (ram s) (fs s)) [i..<unat (read32 (ram s) (fs_bootblk (fs s)))])) (tty s)"
  using assms
proof (induction "unat (read32 (ram s) (fs_bootblk (fs s))) - i" arbitrary: i s buffer d)
  case 0
  then have i: "of_nat i = read32 (ram s) (fs_bootblk (fs s))" by simp
  have "fs_print_name (ram s) (of_nat i) (of_nat TEST_V) (fs s) = (0, [])" unfolding i by (simp add: fs_print_name_def)
  then have "control_one_loop (of_nat i) buffer d s = Some s" by (subst control_one_loop.simps) simp
  then show ?case using 0 by (simp add: tty_write_def)
next
  case (Suc n)
  let ?N = "unat (read32 (ram s) (fs_bootblk (fs s)))"
  have i: "i < ?N" using Suc.hyps(2) by simp
  obtain t b' d' k where t: "control_one_loop (of_nat i) buffer d s = control_one_loop (of_nat (i + 1)) b' d' t" "dentry_ok d'" "length b' = TEST_V"
      "con_inv t" "tty t = tty_write (entry_line (ram s) (fs s) i) (tty s)" "same_outside_video (ram s) (ram t)" "fs t = (fs s)\<lparr>file_pos_keeper := int k\<rparr>"
    using control_one_entry [OF Suc.prems(1-5) i] by blast
  have l: "image_layout (ram s) (fs s)" "same_image (fs s) (ram s) (ram t)" "same_disk (fs s) (fs t)"
    using Suc.prems(2) screen_same_image [OF Suc.prems(2) t(6)] t(7) by (simp_all add: disk_ready_def)
  note se = same_entries [OF l Suc.prems(3)]
  have dr: "disk_ready t" using Suc.prems(2) same_disk_names(1-3) [OF l(3)] same_image_layout [OF l(2)] same_image_dir(1) [OF l(1,2)] same_image_image [OF l(2)]
    by (simp add: disk_ready_def)
  have "n = unat (read32 (ram t) (fs_bootblk (fs t))) - (i + 1)" "i + 1 \<le> unat (read32 (ram t) (fs_bootblk (fs t)))" using Suc.hyps(2) i se(2) by simp_all
  from Suc.hyps(1) [OF this(1) t(4) dr se(1) t(2,3) this(2)] obtain u where
    u: "control_one_loop (of_nat (i + 1)) b' d' t = Some u" "con_inv u" "tty u = tty_write (concat (map (entry_line (ram t) (fs t)) [i + 1..<?N])) (tty t)"
    unfolding se(2) by blast
  have m: "map (entry_line (ram t) (fs t)) [i + 1..<?N] = map (entry_line (ram s) (fs s)) [i + 1..<?N]" using se(3) by (intro map_cong) simp_all
  have "[i..<?N] = i # [i + 1..<?N]" using i by (simp add: upt_conv_Cons)
  then show ?case using t(1,5) u(1,2) u(3) [unfolded m] by (simp add: tty_write_def)
qed

text \<open>The listing of the directory on a fresh screen, one line for every entry.\<close>

theorem control_one_lists:
  fixes s :: "'a kernel_scheme"
  assumes c: "length (enter_tracker s) = 25" "length (keyboard_buffer s) = 128" "disk_ready s" "dentry_ok d" "listable (ram s) (fs s)"
  shows "\<exists>t. control_one d s = Some t \<and> con_inv t \<and>
    tty t = tty_write (text_of ''printing file name: \<newline>'' @ concat (map (entry_line (ram s) (fs s)) [0..<unat (read32 (ram s) (fs_bootblk (fs s)))]))
      (replicate 2000 BLANK, 0)"
proof -
  note r = reset_shown [OF c(1-3)]
  have "format_text (text_of ''printing file name: \<newline>'') [] = Some (text_of ''printing file name: \<newline>'')" by (simp add: text_of_def)
  from printf_shown [OF r(1) this] obtain t where
    t: "printf (text_of ''printing file name: \<newline>'') [] (reset s) = Some (length (text_of ''printing file name: \<newline>''), t)"
      "shown (text_of ''printing file name: \<newline>'') (reset s) t" by blast
  note sd = shown_disk [OF r(5) t(2)]
  have l: "image_layout (ram s) (fs s)" "same_image (fs s) (ram s) (ram t)" "same_disk (fs s) (fs t)"
    using c(3) same_image_trans [OF r(4)] sd(1,2) r(3) by (simp_all add: disk_ready_def)
  note se = same_entries [OF l c(5)]
  have "con_inv t" using t(2) by (simp add: shown_def)
  from control_one_lines [OF this sd(3) se(1) c(4), of "replicate TEST_V 0" 0] obtain u where
    u: "control_one_loop 0 (replicate TEST_V 0) d t = Some u" "con_inv u"
      "tty u = tty_write (concat (map (entry_line (ram t) (fs t)) [0..<unat (read32 (ram t) (fs_bootblk (fs t)))])) (tty t)" by auto
  have m: "map (entry_line (ram t) (fs t)) [0..<unat (read32 (ram s) (fs_bootblk (fs s)))] = map (entry_line (ram s) (fs s)) [0..<unat (read32 (ram s) (fs_bootblk (fs s)))]"
    using se(3) by (intro map_cong) simp_all
  have "tty u = tty_write (text_of ''printing file name: \<newline>'' @ concat (map (entry_line (ram s) (fs s)) [0..<unat (read32 (ram s) (fs_bootblk (fs s)))]))
      (replicate 2000 BLANK, 0)" 
    using u(3) [unfolded se(2) m] t(2) r(2) by (simp add: shown_def tty_write_def)
  moreover have "control_one d s = Some u" unfolding control_one_def Let_def t(1) Option.bind.bind_lunit prod.case by (rule u(1))
  ultimately show ?thesis using u(2) by blast
qed

text \<open>The file printed by name. Its bytes are printed as a string from an array that is not terminated, so what the array held before can
  follow the file.\<close>

theorem control_two_shows:
  fixes s :: "'a kernel_scheme"
  defines "name \<equiv> text_of ''verylargetextwithverylongname.txt''"
  assumes c: "length (enter_tracker s) = 25" "length (keyboard_buffer s) = 128" "disk_ready s" "dentry_ok d" "buf_at \<noteq> 0" "length buffer = TEST_V"
    and f: "lookup_name (ram s) (fs s) name = Some k" "ino = read32 (ram s) (dentry_addr (fs s) k + 36)" "file_ok (ram s) (fs s) ino"
      "unat (inode_length (ram s) (fs s) ino) \<le> TEST_V"
  defines "left \<equiv> program_bytes (ram s) (fs s) ino @ drop (unat (inode_length (ram s) (fs s) ino)) buffer"
  assumes z: "0 \<in> set left"
  shows "\<exists>t. control_two buf_at buffer d s = Some t \<and> con_inv t \<and>
    tty t = tty_write (text_of ''printing: '' @ name @ [NEWLINE] @ takeWhile (\<lambda>c. c \<noteq> 0) left @ [NEWLINE]) (replicate 2000 BLANK, 0)"
proof -
  let ?f = "fs s" and ?L = "unat (inode_length (ram s) (fs s) ino)" and ?ps = "program_bytes (ram s) (fs s) ino"
  note r = reset_shown [OF c(1-3)]
  have "0 \<notin> set name" by (simp add: name_def text_of_def)
  then have h: "holds_string (list_view (name @ [0])) name" by (intro holds_string_list) simp_all
  have "format_text (text_of ''printing: %s\<newline>'') [Str (list_view (name @ [0]))] = Some (text_of ''printing: '' @ name @ [NEWLINE])"
    using view_text_string [OF h] by (simp add: text_of_def)
  from printf_shown [OF r(1) this] obtain t where
    t: "printf (text_of ''printing: %s\<newline>'') [Str (list_view (name @ [0]))] (reset s) = Some (length (text_of ''printing: %s\<newline>''), t)"
      "shown (text_of ''printing: '' @ name @ [NEWLINE]) (reset s) t" by blast
  note sd = shown_disk [OF r(5) t(2)]
  have l: "image_layout (ram s) ?f" "dir_ok (ram s) ?f" "same_image ?f (ram s) (ram t)" "fs t = ?f"
    using c(3) same_image_trans [OF r(4)] sd(1,2) r(3) by (simp_all add: disk_ready_def)
  note im = same_image_dir [OF l(1,3)] same_image_file [OF l(1,3)]
  have "dir_ok (ram t) ?f" "lookup_name (ram t) ?f name = Some k" using im(1,3) l(2) f(1) by simp_all
  with read_dentry_by_name_lookup [OF h _ c(4), of "ram t" ?f] obtain d' where
    d: "holds_dentry (ram t) ?f k d'" "read_dentry_by_name (ram t) (list_view (name @ [0])) (Some d) ?f = Some (0, Some d', ?f\<lparr>file_pos_keeper := int k\<rparr>)" by auto
  have ino: "inode_index d' = ino" using d(1) im(4) [OF lookup_name_below [OF f(1)]] f(2) by (simp add: holds_dentry_def)
  have fm: "file_ok (ram t) ?f ino" "inode_length (ram t) ?f ino = inode_length (ram s) ?f ino" "program_bytes (ram t) ?f ino = ?ps" using im(5-7) f(3) by simp_all
  have len: "length ?ps = ?L" by (simp add: program_bytes_def)
  have "blocks_valid (ram t) ?f ino 0 (min 36864 ?L)" using fm(1,2) by (auto simp: file_ok_def intro: blocks_valid_mono)
  then have "read_data (ram t) ?f ino 0 buf_at (of_nat TEST_V) = (of_nat ?L, ?ps)"
    using read_data_reads' [of ino "ram t" ?f buf_at 0 "of_nat TEST_V"] fm c(5) f(4) by (simp add: file_ok_def program_bytes_def min_def)
  then have rd: "snd (read_data (ram t) (?f\<lparr>file_pos_keeper := int k\<rparr>) ino 0 buf_at (of_nat TEST_V)) = ?ps" unfolding read_data_pos by (simp only: snd_conv)
  have fl: "fill ?ps buffer = Some left" using len f(4) c(6) by (simp add: fill_def left_def)
  have "view_text (list_view left) = Some (takeWhile (\<lambda>c. c \<noteq> 0) left)"
  proof (rule view_text_string)
    have "\<exists>x\<in>set left. \<not> x \<noteq> 0" using z by blast
    then have n: "length (takeWhile (\<lambda>c. c \<noteq> 0) left) < length left" by (rule takeWhile_shorter)
    then have "left ! length (takeWhile (\<lambda>c. c \<noteq> 0) left) = 0" using nth_length_takeWhile by fast
    then show "holds_string (list_view left) (takeWhile (\<lambda>c. c \<noteq> 0) left)"
      using n by (auto simp: holds_string_def takeWhile_nth dest: set_takeWhileD)
  qed
  then have "format_text (text_of ''%s\<newline>'') [Str (list_view left)] = Some (takeWhile (\<lambda>c. c \<noteq> 0) left @ [NEWLINE])" by (simp add: text_of_def)
  moreover let ?t = "t\<lparr>fs := ?f\<lparr>file_pos_keeper := int k\<rparr>\<rparr>"
  have "con_inv ?t" using t(2) by (simp add: shown_def con_inv_def)
  ultimately obtain u where u: "printf (text_of ''%s\<newline>'') [Str (list_view left)] ?t = Some (length (text_of ''%s\<newline>''), u)"
      "shown (takeWhile (\<lambda>c. c \<noteq> 0) left @ [NEWLINE]) ?t u" using printf_shown by blast
  have "ram ?t = ram t" "fs ?t = ?f\<lparr>file_pos_keeper := int k\<rparr>" by simp_all
  then have "control_two buf_at buffer d s = Some u"
    unfolding control_two_def Let_def name_def [symmetric] t(1) Option.bind.bind_lunit prod.case l(4) d(2) ino
    by (simp only: rd fl u(1) Option.bind.bind_lunit option.map snd_conv)
  moreover have "tty ?t = tty t" by (simp add: tty_def position_def)
  ultimately show ?thesis using u(2) t(2) r(2) by (intro exI [of _ u]) (simp add: shown_def tty_write_def)
qed

end
