(* ===== verification/Spec2Isabelle.thy ===== *)
theory Spec2Isabelle
  imports Ports Boot User_Commands Fish_Runs User_Signals Lib_Tests
begin

text \<open>
  A verification development for the teaching kernel under \<open>src/student-distrib\<close>: a small single-processor operating system
  for the x86 with three text terminals, a read-only file system, up to six processes and ten system calls.

  \<^bold>\<open>The program.\<close> \<open>kernel.c\<close> is entered by the boot loader, sets up descriptors, paging (\<open>paging.c\<close>), the file system
  (\<open>filesys.c\<close>), the interrupt controllers (\<open>i8259.c\<close>), keyboard, clock and timer (\<open>keyboard.c\<close>, \<open>rtc.c\<close>, \<open>pit.c\<close>)
  and starts a shell on the first terminal (\<open>terminal.c\<close>). Programs run at 128 MB, each in its own 4 MB page, and
  enter the kernel through interrupt 0x80 (\<open>syscallasm.S\<close>), whose calls are in \<open>syscall.c\<close>; exceptions end them
  (\<open>idt_init.c\<close>). Output goes to video memory through \<open>lib.c\<close>, which also has the string and memory routines. The
  keyboard interrupt edits a line buffer and hands a finished line to a program that waits in a read.

  \<^bold>\<open>Theories, in the order of their imports.\<close>

  \<^item> \<open>Prelude\<close>: byte-addressed memory and byte views, stores into arrays, counting loops (\<open>for_to\<close>), busy waiting
    (\<open>spin_until\<close>), lemmas on word offsets, and the fact collections \<open>frame_simps\<close> and \<open>inv_intros\<close>.
  \<^item> \<open>Machine\<close>, \<open>Ports\<close> (\<open>lib.h\<close>): the bus as a trace of port accesses, with the devices as a parameter, and the interrupt flag; the wide
    accesses as accesses to consecutive ports, and the flags saved and restored around a section without interrupts.
  \<^item> \<open>I8259\<close>, \<open>Rtc\<close> (\<open>i8259.c\<close>, \<open>rtc.c\<close>, \<open>pit.c\<close>): the cached masks agree with the controllers after any sequence of
    calls, and the open lines are the ones the sequence says (locale \<open>irq_controller\<close>); the rates of the clock.
  \<^item> \<open>Lib_String\<close>, \<open>Lib_Mem\<close> (\<open>lib.c\<close>): the string routines against abstract strings, on arrays and on memory through the
    locale \<open>byte_buffer\<close>; the inline assembly of \<open>memset\<close>, \<open>memcpy\<close>, \<open>memmove\<close> instruction by instruction, against
    plain fills and copies.
  \<^item> \<open>Filesys\<close> (\<open>filesys.c\<close>): directory lookup, reads across data blocks, listing, on the bytes of the image.
  \<^item> \<open>Console\<close> (\<open>lib.c\<close>): character output, scrolling, backspace, \<open>printf\<close>; a refinement of an abstract teletype
    (\<open>tty_putc\<close>) of 2000 cells and a position.
  \<^item> \<open>Paging\<close> (\<open>paging.c\<close> and the page set-up in \<open>syscall.c\<close>): the tables with the address translation of the processor; only
    kernel and screen are mapped at the start, and the page of a task shows its own frame.
  \<^item> \<open>Terminal_IO\<close> (\<open>terminal.c\<close>): the read and write of the terminal.
  \<^item> \<open>Process\<close>, \<open>Process_Tasks\<close>, \<open>Process_Files\<close> (\<open>syscall.c\<close>, \<open>syscallasm.S\<close>): control blocks, \<open>execute\<close>, \<open>halt\<close> and the
    calls on files; the slots of the tasks (\<open>tasks_ok\<close>), the tables of open files (\<open>files_ok\<close>), and a step relation
    \<open>program_step\<close> of a running program, along which the way back to the parent is kept.
  \<^item> \<open>Terminals\<close> (\<open>terminal.c\<close>): start of a terminal and the switch; each terminal as an abstract console.
  \<^item> \<open>Keyboard\<close> (\<open>keyboard.c\<close>): the line buffer as a refinement of a line editor, scan codes, the interrupt, and the
    path of a typed line into a program.
  \<^item> \<open>Sche\<close> (\<open>sche.c\<close>, \<open>pit.c\<close>): the search for the next process, the timer interrupt, and the locales
    \<open>background_interrupt\<close> and \<open>device_interrupt\<close> with the timer and the clock as their instances.
  \<^item> \<open>Idt\<close> (\<open>idt_init.c\<close>): the interrupt table as the processor reads it and the exception handlers.
  \<^item> \<open>Boot\<close> (\<open>kernel.c\<close>): the start of the kernel, which establishes the invariants the other theories assume.

  \<^item> \<open>Image\<close>: the file system image as a region of memory; whatever is written elsewhere leaves every file as it is.
  \<^item> \<open>User_Programs\<close>, \<open>User_Input\<close>, \<open>User_Tests\<close> (\<open>src/syscalls\<close>: \<open>ece391support.c\<close>, \<open>ece391cat.c\<close>, \<open>ece391ls.c\<close>,
    \<open>ece391testprint.c\<close>, \<open>ece391hello.c\<close>, \<open>ece391counter.c\<close>, \<open>ece391shell.c\<close>, \<open>ece391syserr.c\<close>): programs over an interface of the
    system calls (record \<open>os\<close>). What they rely on are locales: \<open>screen_writer\<close>, \<open>file_reader\<close>, \<open>dir_reader\<close>,
    \<open>line_reader\<close> (a read delivers the next line typed), \<open>command_line\<close> (what a command prints and returns), \<open>checked_calls\<close>
    and \<open>test_bench\<close> (which calls are refused); the runs of the programs are proved in them once.
  \<^item> \<open>User_Kernel\<close>, \<open>User_Files\<close> (\<open>ece391syscall.S\<close>): the calls of the kernel as that interface, with the arrays of a program in
    its page, the interpretation of the locales for files and directories on them, and \<open>cat\<close> and \<open>ls\<close> on this kernel.
  \<^item> \<open>Lib_Tests\<close> (\<open>lib.c\<close>): the test commands at the end of the library, with what they show of the directory and of the files.
  \<^item> \<open>User_Refusals\<close>: the calls the kernel refuses are silent steps; the table of open files as a set of descriptors.
  \<^item> \<open>User_Grep\<close>, \<open>User_Search\<close> (\<open>ece391grep.c\<close>): the search of a file piece by piece against a specification on its lines, in the locale
    \<open>file_searcher\<close>, and the search of a directory on this kernel, whose one position of a listing moves with every lookup.
  \<^item> \<open>User_Clock\<close> (\<open>ece391pingpong.c\<close>): a program at the pace of the clock, in the locale \<open>clock_user\<close>, whose interpretation lets any number
    of timer interrupts and one of the clock arrive in every read of the clock.
  \<^item> \<open>Fish\<close>, \<open>Fish_Memory\<close> (\<open>blink.S\<close>, \<open>fish.c\<close>): the linked list of blinking characters as a refinement of a plain list, and its
    elements as bytes of memory, with the loops that clear and copy them.
  \<^item> \<open>Fish_Frames\<close>, \<open>Fish_Runs\<close> (\<open>fish.c\<close>): the frames read side by side, in the locale \<open>frame_reader\<close>, and the whole program on this
    kernel, with the list against the plain list of the same operations.
  \<^item> \<open>User_Session\<close>, \<open>User_Runs\<close>: a program on the kernel while somebody types, each read of the keyboard with the interrupts of
    its keys; the interpretation of the locales for lines and refusals, and \<open>hello\<close>, \<open>counter\<close> and \<open>syserr\<close> on this kernel.
  \<^item> \<open>User_Signals\<close> (\<open>ece391sigtest.c\<close>): the test of signals, which this kernel stops by a page fault.
  \<^item> \<open>User_Commands\<close>: a command from \<open>execute\<close> through the run of its program to \<open>halt\<close> and back into the shell; the shell with
    commands, as an interpretation of \<open>command_line\<close>.

  \<^bold>\<open>State.\<close> One record grows along the theories: \<open>con\<close> (bus, memory, screen position, line buffer), \<open>vm\<close> (page tables),
  \<open>tio\<close> (terminal read), \<open>kernel\<close> (file system, tasks, control blocks, TSS), \<open>terminals\<close>, \<open>kbd\<close>, \<open>boot\<close>. An operation
  is a function on the scheme of the record it needs, so that it applies unchanged to the larger states.
  An operation that has no defined result (a store outside an array, a page fault in the kernel, a wait that never
  ends) returns \<open>None\<close>; errors the code reports are return values, as in the code. An operation that leaves the
  kernel for a program, or for the stack of a parent, says so by a value of type \<open>transfer\<close>.

  \<^bold>\<open>Bounds and waiting.\<close> No fuel is used: counting loops are folds, loops over strings and boot data are partial functions
  whose result \<open>None\<close> is not returning, and the theorems state when they return. The endless loop of \<open>pingpong\<close> is run for
  any number of rounds. A busy wait takes the list of
  interrupts that arrive; the theorems say at which of them it ends and that it does not end before. Integers have
  their widths; the signedness of comparisons is the one of the code.

  \<^bold>\<open>Parameters.\<close> What ports return; the addresses the linker and the stack give to handlers, tables and local arrays;
  the registers saved by the assembly; the mouse driver, which is not part of the repository; the machine code of the
  programs on the disk (\<open>main\<close> in \<open>run_command\<close>), of which the theorem on the shell assumes that the code of the executable
  \<open>cat\<close> does what its source does; what the uninitialised arrays of the programs hold.

  \<^bold>\<open>Not modelled.\<close> \<open>boot.S\<close>, \<open>x86_desc.S\<close> and the register saving of \<open>interruptasm.S\<close> (assembly around the modelled
  functions); the
  signal handlers of \<open>ece391sigtest.c\<close>, since the kernel has no signals; the host emulation \<open>ece391emulate.c\<close>,
  which rests on the C library of its host. The screen \<open>fish\<close> writes to is a component of its own (\<open>video\<close>): the bytes behind the address
  \<open>vidmap\<close> returns, which no call of the program touches meanwhile.
\<close>

end
